(* ===== verification/Json.thy ===== *)
theory Json
  imports Prelude
begin

text \<open>
  The data the engine moves around: JSON values as \<^verbatim>\<open>serde_json::Value\<close> presents them
  (objects are sorted maps, numbers are unsigned, negative or floating), 64-bit floats as
  their bit patterns with the IEEE comparisons, and the merge patch of
  \<^verbatim>\<open>src/engine/core-engine/crates/domain/src/dispatch.rs\<close>. The lemmas at the end state
  what a patch does to each key and where the code leaves RFC 7396.
\<close>

section \<open>Floats as bit patterns\<close>

type_synonym f64 = "64 word"

text \<open>
  The sign-magnitude reading of a pattern. Both zeros read as 0; a pattern whose magnitude
  is above the infinity pattern is a NaN and compares with nothing.
\<close>

definition f64_mag :: "f64 \<Rightarrow> nat" where
  "f64_mag w = unat w mod 2 ^ 63"

definition f64_ord :: "f64 \<Rightarrow> int" where
  "f64_ord w = (if 2 ^ 63 \<le> unat w then - int (f64_mag w) else int (f64_mag w))"

definition f64_is_nan :: "f64 \<Rightarrow> bool" where
  "f64_is_nan w \<longleftrightarrow> 0x7FF0000000000000 < f64_mag w"

definition f64_lt :: "f64 \<Rightarrow> f64 \<Rightarrow> bool" where
  "f64_lt a b \<longleftrightarrow> \<not> f64_is_nan a \<and> \<not> f64_is_nan b \<and> f64_ord a < f64_ord b"

definition f64_eq :: "f64 \<Rightarrow> f64 \<Rightarrow> bool" where
  "f64_eq a b \<longleftrightarrow> \<not> f64_is_nan a \<and> \<not> f64_is_nan b \<and> f64_ord a = f64_ord b"

section \<open>JSON values\<close>

datatype number = PosInt "64 word" | NegInt "64 word" | Float f64

datatype json =
    Null
  | Bool bool
  | Number number
  | JString string
  | JArray "json list"
  | JObject "(string \<times> json) list"

type_synonym fields = "(string \<times> json) list"

text \<open>\<open>Number::from(i64)\<close>: a negative integer is stored as such, any other as unsigned.\<close>

definition number_of_i64 :: "64 word \<Rightarrow> number" where
  "number_of_i64 i = (if sint i < 0 then NegInt i else PosInt i)"

lemma nonneg_unat: "\<not> sint (i :: 64 word) < 0 \<Longrightarrow> unat i < 2 ^ 63"
proof -
  assume nonneg: "\<not> sint i < 0"
  have "sint i = uint i - 2 ^ 64 * of_bool (bit (uint i) 63)"
    using signed_take_bit_eq_take_bit_minus [of 63 "uint i"] uint_bounded [of i]
    by (simp add: sint_uint take_bit_int_eq_self)
  moreover have "uint i < 2 ^ 64" using uint_bounded [of i] by simp
  ultimately have "uint i = sint i" using nonneg by (cases "bit (uint i) 63") auto
  moreover have "sint i < 2 ^ 63" using sint_lt [of i] by simp
  ultimately show ?thesis by (simp add: nat_less_iff unat_eq_nat_uint)
qed

fun as_i64 :: "number \<Rightarrow> 64 word option" where
  "as_i64 (PosInt n) = (if unat n < 2 ^ 63 then Some n else None)"
| "as_i64 (NegInt n) = Some n"
| "as_i64 (Float f) = None"

fun as_u64 :: "json \<Rightarrow> 64 word option" where
  "as_u64 (Number (PosInt n)) = Some n"
| "as_u64 _ = None"

fun as_str :: "json \<Rightarrow> string option" where
  "as_str (JString s) = Some s"
| "as_str _ = None"

text \<open>\<open>Value::get\<close> with a string key: the member of an object, nothing for other values.\<close>

fun jget :: "string \<Rightarrow> json \<Rightarrow> json option" where
  "jget k (JObject fs) = map_of fs k"
| "jget k _ = None"

fun number_eq :: "number \<Rightarrow> number \<Rightarrow> bool" where
  "number_eq (PosInt a) (PosInt b) = (a = b)"
| "number_eq (NegInt a) (NegInt b) = (a = b)"
| "number_eq (Float a) (Float b) = f64_eq a b"
| "number_eq _ _ = False"

fun json_eq :: "json \<Rightarrow> json \<Rightarrow> bool"
  and json_list_eq :: "json list \<Rightarrow> json list \<Rightarrow> bool"
  and json_fields_eq :: "(string \<times> json) list \<Rightarrow> (string \<times> json) list \<Rightarrow> bool" where
  "json_eq Null y = (y = Null)"
| "json_eq (Bool a) y = (y = Bool a)"
| "json_eq (Number m) y = (case y of Number n \<Rightarrow> number_eq m n | _ \<Rightarrow> False)"
| "json_eq (JString s) y = (y = JString s)"
| "json_eq (JArray xs) y = (case y of JArray ys \<Rightarrow> json_list_eq xs ys | _ \<Rightarrow> False)"
| "json_eq (JObject fs) y = (case y of JObject gs \<Rightarrow> json_fields_eq fs gs | _ \<Rightarrow> False)"
| "json_list_eq [] ys = (ys = [])"
| "json_list_eq (x # xs) ys = (case ys of [] \<Rightarrow> False | y # ys' \<Rightarrow> json_eq x y \<and> json_list_eq xs ys')"
| "json_fields_eq [] gs = (gs = [])"
| "json_fields_eq ((k, x) # fs) gs =
    (case gs of [] \<Rightarrow> False | (l, y) # gs' \<Rightarrow> k = l \<and> json_eq x y \<and> json_fields_eq fs gs')"

definition json_opt_eq :: "json option \<Rightarrow> json option \<Rightarrow> bool" where
  "json_opt_eq a b = (case (a, b) of
      (None, None) \<Rightarrow> True
    | (Some x, Some y) \<Rightarrow> json_eq x y
    | _ \<Rightarrow> False)"

section \<open>Objects as sorted maps\<close>

text \<open>Insertion into and removal from the sorted map behind an object.\<close>

fun obj_insert :: "string \<Rightarrow> json \<Rightarrow> fields \<Rightarrow> fields" where
  "obj_insert k v [] = [(k, v)]"
| "obj_insert k v ((l, w) # fs) =
    (if k = l then (k, v) # fs
     else if k < l then (k, v) # (l, w) # fs
     else (l, w) # obj_insert k v fs)"

definition obj_remove :: "string \<Rightarrow> fields \<Rightarrow> fields" where
  "obj_remove k fs = filter (\<lambda>(l, _). l \<noteq> k) fs"

fun obj_sorted :: "fields \<Rightarrow> bool" where
  "obj_sorted fs = sorted_wrt (<) (map fst fs)"

lemma map_of_obj_insert: "map_of (obj_insert k v fs) l = (if l = k then Some v else map_of fs l)"
  by (induction fs) auto

lemma map_of_obj_remove: "map_of (obj_remove k fs) l = (if l = k then None else map_of fs l)"
  by (induction fs) (auto simp: obj_remove_def)

lemma fst_set_obj_insert: "fst ` set (obj_insert k v fs) = insert k (fst ` set fs)"
  by (induction fs rule: obj_insert.induct) auto

lemma obj_sorted_insert: "obj_sorted fs \<Longrightarrow> obj_sorted (obj_insert k v fs)"
proof (induction k v fs rule: obj_insert.induct)
  case (2 k v l w fs)
  have "set (map fst (obj_insert k v fs)) = insert k (set (map fst fs))"
    by (simp add: fst_set_obj_insert)
  with 2 show ?case by (fastforce simp: less_imp_neq)
qed simp

lemma obj_sorted_remove: "obj_sorted fs \<Longrightarrow> obj_sorted (obj_remove k fs)"
proof (induction fs)
  case (Cons p fs)
  have "set (obj_remove k fs) \<subseteq> set fs" by (auto simp: obj_remove_def)
  with Cons show ?case
    by (cases p) (auto simp: obj_remove_def sorted_wrt_filter)
qed (simp add: obj_remove_def)

section \<open>The merge patch\<close>

text \<open>
  \<open>apply_merge_patch\<close>: a patch that is no object replaces the target; the members of an
  object patch are applied one after the other to the target coerced to an object. The
  recursion is on the patch.
\<close>

fun as_fields :: "json \<Rightarrow> fields" where
  "as_fields (JObject fs) = fs"
| "as_fields _ = []"

fun apply_merge_patch :: "json \<Rightarrow> json \<Rightarrow> json"
  and apply_merge_fields :: "fields \<Rightarrow> (string \<times> json) list \<Rightarrow> fields" where
  "apply_merge_patch b (JObject ps) = JObject (apply_merge_fields (as_fields b) ps)"
| "apply_merge_patch b Null = Null"
| "apply_merge_patch b (Bool x) = Bool x"
| "apply_merge_patch b (Number n) = Number n"
| "apply_merge_patch b (JString s) = JString s"
| "apply_merge_patch b (JArray xs) = JArray xs"
| "apply_merge_fields m [] = m"
| "apply_merge_fields m ((k, pv) # ps) =
    apply_merge_fields
      (if pv = Null then obj_remove k m
       else (case map_of m k of
               Some existing \<Rightarrow> obj_insert k (apply_merge_patch existing pv) m
             | None \<Rightarrow> obj_insert k pv m)) ps"

text \<open>What RFC 7396 prescribes, for comparison: an absent member is patched as well.\<close>

fun rfc_merge_patch :: "json \<Rightarrow> json \<Rightarrow> json"
  and rfc_merge_fields :: "fields \<Rightarrow> (string \<times> json) list \<Rightarrow> fields" where
  "rfc_merge_patch b (JObject ps) = JObject (rfc_merge_fields (as_fields b) ps)"
| "rfc_merge_patch b Null = Null"
| "rfc_merge_patch b (Bool x) = Bool x"
| "rfc_merge_patch b (Number n) = Number n"
| "rfc_merge_patch b (JString s) = JString s"
| "rfc_merge_patch b (JArray xs) = JArray xs"
| "rfc_merge_fields m [] = m"
| "rfc_merge_fields m ((k, pv) # ps) =
    rfc_merge_fields
      (if pv = Null then obj_remove k m
       else obj_insert k (rfc_merge_patch (case map_of m k of Some e \<Rightarrow> e | None \<Rightarrow> Null) pv) m) ps"

text \<open>The member of a patched object under one key.\<close>

definition patched_member :: "json option \<Rightarrow> json option \<Rightarrow> json option" where
  "patched_member old pv = (case pv of
      None \<Rightarrow> old
    | Some v \<Rightarrow> if v = Null then None
        else (case old of Some e \<Rightarrow> Some (apply_merge_patch e v) | None \<Rightarrow> Some v))"

lemma map_of_apply_merge_fields:
  "distinct (map fst ps) \<Longrightarrow>
    map_of (apply_merge_fields m ps) k = patched_member (map_of m k) (map_of ps k)"
proof (induction ps arbitrary: m)
  case (Cons p ps)
  obtain l pv where p: "p = (l, pv)" by (cases p)
  from Cons.prems p have "k = l \<Longrightarrow> map_of ps k = None" by (auto simp: map_of_eq_None_iff)
  with Cons p show ?case
    by (auto simp: patched_member_def map_of_obj_insert map_of_obj_remove split: option.splits)
qed (simp add: patched_member_def)

lemma obj_sorted_apply_merge_fields:
  "obj_sorted m \<Longrightarrow> obj_sorted (apply_merge_fields m ps)"
proof (induction ps arbitrary: m)
  case (Cons p ps)
  obtain l pv where "p = (l, pv)" by (cases p)
  with Cons show ?case
    using obj_sorted_insert obj_sorted_remove
    by (auto simp del: obj_sorted.simps split: option.splits)
qed simp

text \<open>A patch none of whose objects carries a null member.\<close>

fun null_free :: "json \<Rightarrow> bool" and null_free_fields :: "(string \<times> json) list \<Rightarrow> bool" where
  "null_free (JObject ps) = null_free_fields ps"
| "null_free _ = True"
| "null_free_fields [] = True"
| "null_free_fields ((k, v) # ps) = (v \<noteq> Null \<and> null_free v \<and> null_free_fields ps)"

text \<open>Every object inside the value keeps its keys in strictly ascending order.\<close>

fun json_wf :: "json \<Rightarrow> bool" and fields_wf :: "(string \<times> json) list \<Rightarrow> bool" where
  "json_wf (JObject ps) = (obj_sorted ps \<and> fields_wf ps)"
| "json_wf _ = True"
| "fields_wf [] = True"
| "fields_wf ((k, v) # ps) = (json_wf v \<and> fields_wf ps)"

lemma obj_insert_last:
  "(\<And>l. l \<in> fst ` set m \<Longrightarrow> l < k) \<Longrightarrow> obj_insert k v m = m @ [(k, v)]"
proof (induction m)
  case (Cons p m)
  then show ?case by (cases p) (auto dest: order_less_not_sym)
qed simp

text \<open>Patching nothing with a null-free patch rebuilds the patch itself.\<close>

lemma rfc_merge_into_nothing:
  "null_free p \<Longrightarrow> json_wf p \<Longrightarrow> b = Null \<Longrightarrow> rfc_merge_patch b p = p"
  "null_free_fields ps \<Longrightarrow> fields_wf ps \<Longrightarrow> obj_sorted ps \<Longrightarrow>
    (\<forall>k \<in> fst ` set m. \<forall>l \<in> fst ` set ps. k < l) \<Longrightarrow> rfc_merge_fields m ps = m @ ps"
proof (induction b p and m ps rule: rfc_merge_patch_rfc_merge_fields.induct)
  case (8 m k pv ps)
  have lt: "l < k" if "l \<in> fst ` set m" for l using 8(6) that by fastforce
  then have none: "map_of m k = None" by (auto simp: map_of_eq_None_iff)
  have ins: "obj_insert k pv m = m @ [(k, pv)]" by (rule obj_insert_last) (rule lt)
  have "pv \<noteq> Null" "rfc_merge_patch Null pv = pv" using 8 none by auto
  then show ?case using 8(2) 8(3-6) none ins by auto
qed auto

section \<open>Properties\<close>

lemma jget_as_fields: "map_of (as_fields b) k = jget k b"
  by (cases b) auto

text \<open>
  Merging an object patch decides every key on its own. A null member deletes the key,
  any other member is merged into the old value or inserted as it is, and a key the patch
  does not name keeps its value; the keys of the result stay in ascending order.
\<close>

theorem merge_patch_member:
  assumes "obj_sorted (as_fields b)" and "distinct (map fst ps)"
  shows "jget k (apply_merge_patch b (JObject ps)) = patched_member (jget k b) (map_of ps k) \<and>
    obj_sorted (as_fields (apply_merge_patch b (JObject ps)))"
  using assms by (simp_all add: map_of_apply_merge_fields jget_as_fields
      obj_sorted_apply_merge_fields del: obj_sorted.simps)

theorem merge_patch_member_witness:
  "jget ''a'' (apply_merge_patch (JObject [(''a'', Bool True), (''b'', Null)])
      (JObject [(''a'', Null), (''c'', Bool False)])) = None"
  using merge_patch_member [of "JObject [(''a'', Bool True), (''b'', Null)]"
      "[(''a'', Null), (''c'', Bool False)]" "''a''"]
  by (simp add: patched_member_def)

lemma merge_patch_eq_rfc_aux:
  "null_free p \<Longrightarrow> json_wf p \<Longrightarrow> apply_merge_patch b p = rfc_merge_patch b p"
  "null_free_fields ps \<Longrightarrow> fields_wf ps \<Longrightarrow> apply_merge_fields m ps = rfc_merge_fields m ps"
proof (induction b p and m ps rule: apply_merge_patch_apply_merge_fields.induct)
  case (8 m k pv ps)
  then show ?case
    using rfc_merge_into_nothing(1) [of pv Null] by (cases "map_of m k") auto
qed auto

text \<open>
  On a patch without null members below the top-level decision the code computes what
  RFC 7396 prescribes.
\<close>

theorem merge_patch_eq_rfc:
  "null_free p \<Longrightarrow> json_wf p \<Longrightarrow> apply_merge_patch b p = rfc_merge_patch b p"
  by (rule merge_patch_eq_rfc_aux)

theorem merge_patch_eq_rfc_witness:
  "apply_merge_patch (JObject [(''a'', Bool True)]) (JObject [(''b'', JObject [(''c'', Bool False)])])
    = rfc_merge_patch (JObject [(''a'', Bool True)]) (JObject [(''b'', JObject [(''c'', Bool False)])])"
  by (rule merge_patch_eq_rfc) simp_all

text \<open>
  A null below an absent key is stored instead of dropped. RFC 7396 gives
  \<open>{"a": {}}\<close> for the patch \<open>{"a": {"b": null}}\<close> on an empty object.
\<close>

theorem merge_patch_keeps_nested_null:
  "apply_merge_patch (JObject []) (JObject [(''a'', JObject [(''b'', Null)])])
      = JObject [(''a'', JObject [(''b'', Null)])] \<and>
   rfc_merge_patch (JObject []) (JObject [(''a'', JObject [(''b'', Null)])])
      = JObject [(''a'', JObject [])]"
  by (simp add: obj_remove_def)

end
