(* ===== verification/Net.thy ===== *)
theory Net
  imports Json
begin

text \<open>
  The net's data model, \<^verbatim>\<open>src/engine/core-engine/crates/domain/src/\<close>: tokens
  (\<^verbatim>\<open>token.rs\<close>), places (\<^verbatim>\<open>place.rs\<close>), ports (\<^verbatim>\<open>port.rs\<close>), arcs (\<^verbatim>\<open>arc.rs\<close>),
  transitions (\<^verbatim>\<open>transition.rs\<close>), the net itself and its marking (\<^verbatim>\<open>net.rs\<close>). Fresh
  identifiers and the clock are arguments: a constructor that calls \<open>Uuid::new_v4\<close> or
  \<open>Utc::now\<close> takes the value the call returned. The lemmas say what the marking
  operations do to each place and to the tokens of the whole marking.
\<close>

section \<open>Identifiers and tokens\<close>

type_synonym place_id = string
type_synonym transition_id = string
type_synonym token_id = uuid
type_synonym arc_id = uuid

record bridge_reply_address =
  bra_net_id :: string
  bra_place_name :: string

record reply_routing =
  reply_to :: "bridge_reply_address option"
  reply_channels :: "(string, bridge_reply_address) hashmap option"

datatype token_color = Unit | Integer "64 word" | Data json

record token =
  tok_id :: token_id
  tok_color :: token_color
  tok_created_at :: time
  tok_created_by_event :: "nat option"
  tok_reply_routing :: "reply_routing option"

definition token_new :: "token_id \<Rightarrow> time \<Rightarrow> token_color \<Rightarrow> token" where
  "token_new i now c = \<lparr>tok_id = i, tok_color = c, tok_created_at = now,
     tok_created_by_event = None, tok_reply_routing = None\<rparr>"

definition token_new_unit :: "token_id \<Rightarrow> time \<Rightarrow> token" where
  "token_new_unit i now = token_new i now Unit"

definition token_with_provenance :: "nat \<Rightarrow> token \<Rightarrow> token" where
  "token_with_provenance n t = t\<lparr>tok_created_by_event := Some n\<rparr>"

definition token_with_reply_routing :: "reply_routing \<Rightarrow> token \<Rightarrow> token" where
  "token_with_reply_routing r t = t\<lparr>tok_reply_routing := Some r\<rparr>"

text \<open>\<^verbatim>\<open>src/engine/core-engine/crates/application/src/rhai_runtime.rs\<close>: colours as JSON.\<close>

fun json_to_token_color :: "json \<Rightarrow> token_color" where
  "json_to_token_color Null = Unit"
| "json_to_token_color (Number n) =
    (case as_i64 n of Some i \<Rightarrow> Integer i | None \<Rightarrow> Data (Number n))"
| "json_to_token_color v = Data v"

fun token_color_to_json :: "token_color \<Rightarrow> json" where
  "token_color_to_json Unit = Null"
| "token_color_to_json (Integer i) = Number (number_of_i64 i)"
| "token_color_to_json (Data v) = v"

section \<open>Places\<close>

record bridge_target =
  target_net_id :: string
  target_place_name :: string
  bt_reply_to :: "string option"
  bt_reply_channels :: "(string, string) hashmap option"

datatype place_kind =
    Internal
  | Signal
  | BridgeIn "string option" "string option"
      \<comment> \<open>source net, source place\<close>
  | BridgeOut string string "string option" "(string, string) hashmap option" "string option"
      \<comment> \<open>target net, target place, reply place, reply channels, label\<close>
  | BridgeReply "string option"
      \<comment> \<open>channel\<close>
  | Terminal
  | Sink

record place =
  pl_id :: place_id
  pl_name :: string
  pl_kind :: place_kind
  pl_capacity :: "nat option"
  pl_group_id :: "string option"
  pl_token_schema :: "string option"

definition place_of_kind :: "string \<Rightarrow> place_kind \<Rightarrow> place" where
  "place_of_kind n k = \<lparr>pl_id = n, pl_name = n, pl_kind = k, pl_capacity = None,
     pl_group_id = None, pl_token_schema = None\<rparr>"

definition place_internal :: "string \<Rightarrow> place" where
  "place_internal n = place_of_kind n Internal"

definition place_signal :: "string \<Rightarrow> place" where
  "place_signal n = place_of_kind n Signal"

definition place_bridge_in :: "string \<Rightarrow> place" where
  "place_bridge_in n = place_of_kind n (BridgeIn None None)"

definition place_bridge_out :: "string \<Rightarrow> string \<Rightarrow> string \<Rightarrow> place" where
  "place_bridge_out n net pl = place_of_kind n (BridgeOut net pl None None None)"

definition place_bridge_out_reply :: "string \<Rightarrow> string \<Rightarrow> string \<Rightarrow> string \<Rightarrow> place" where
  "place_bridge_out_reply n net pl rep = place_of_kind n (BridgeOut net pl (Some rep) None None)"

definition place_terminal :: "string \<Rightarrow> place" where
  "place_terminal n = place_of_kind n Terminal"

definition place_sink :: "string \<Rightarrow> place" where
  "place_sink n = place_of_kind n Sink"

definition place_bridge_reply :: "string \<Rightarrow> place" where
  "place_bridge_reply n = place_of_kind n (BridgeReply None)"

definition place_bridge_reply_channel :: "string \<Rightarrow> string \<Rightarrow> place" where
  "place_bridge_reply_channel n ch = place_of_kind n (BridgeReply (Some ch))"

definition place_bridge_target :: "place \<Rightarrow> bridge_target option" where
  "place_bridge_target p = (case pl_kind p of
      BridgeOut net pl rep chs _ \<Rightarrow> Some \<lparr>target_net_id = net, target_place_name = pl,
        bt_reply_to = rep, bt_reply_channels = chs\<rparr>
    | _ \<Rightarrow> None)"

fun is_bridge_out :: "place_kind \<Rightarrow> bool" where
  "is_bridge_out (BridgeOut _ _ _ _ _) = True"
| "is_bridge_out _ = False"

fun is_sink :: "place_kind \<Rightarrow> bool" where
  "is_sink Sink = True"
| "is_sink _ = False"

fun is_externally_fed :: "place_kind \<Rightarrow> bool" where
  "is_externally_fed Signal = True"
| "is_externally_fed (BridgeIn _ _) = True"
| "is_externally_fed (BridgeReply _) = True"
| "is_externally_fed _ = False"

section \<open>Ports, arcs and transitions\<close>

datatype port_cardinality = Single | Batch

record port =
  port_name :: string
  port_schema_ref :: "string option"
  port_card :: port_cardinality

definition port_new :: "string \<Rightarrow> port" where
  "port_new n = \<lparr>port_name = n, port_schema_ref = None, port_card = Single\<rparr>"

definition port_batch :: "string \<Rightarrow> port" where
  "port_batch n = \<lparr>port_name = n, port_schema_ref = None, port_card = Batch\<rparr>"

datatype arc_direction = PlaceToTransition | TransitionToPlace

record arc =
  arc_id :: arc_id
  arc_place :: place_id
  arc_transition :: transition_id
  arc_direction :: arc_direction
  arc_port :: string
  arc_weight :: nat
  arc_read :: bool
  arc_count_from :: "string option"
  arc_correlate_on :: "string option"
  arc_reset_reply_routing :: bool
  arc_drain_max :: "nat option"

definition arc_input :: "arc_id \<Rightarrow> place_id \<Rightarrow> transition_id \<Rightarrow> string \<Rightarrow> arc" where
  "arc_input i p t n = \<lparr>arc_id = i, arc_place = p, arc_transition = t,
     arc_direction = PlaceToTransition, arc_port = n, arc_weight = 1, arc_read = False,
     arc_count_from = None, arc_correlate_on = None, arc_reset_reply_routing = False,
     arc_drain_max = None\<rparr>"

definition arc_output :: "arc_id \<Rightarrow> transition_id \<Rightarrow> string \<Rightarrow> place_id \<Rightarrow> arc" where
  "arc_output i t n p = (arc_input i p t n)\<lparr>arc_direction := TransitionToPlace\<rparr>"

definition arc_is_input :: "arc \<Rightarrow> bool" where
  "arc_is_input a = (arc_direction a = PlaceToTransition)"

definition arc_is_output :: "arc \<Rightarrow> bool" where
  "arc_is_output a = (arc_direction a = TransitionToPlace)"

record simulation_config =
  duration_ms :: nat
  variance_ms :: "nat option"

record transition =
  tr_id :: transition_id
  tr_name :: string
  tr_input_ports :: "port list"
  tr_output_ports :: "port list"
  tr_guard :: "string option"
  tr_script :: string
  tr_priority :: "string option"
  tr_finalizer :: bool
  tr_simulation :: "simulation_config option"
  tr_group_id :: "string option"
  tr_effect_handler_id :: "string option"
  tr_effect_config :: "json option"
  tr_caused_signals :: "string list"
  tr_process_step_started :: "string option"
  tr_process_step_completed :: "string option"

definition transition_new :: "string \<Rightarrow> string \<Rightarrow> transition" where
  "transition_new n s = \<lparr>tr_id = n, tr_name = n, tr_input_ports = [], tr_output_ports = [],
     tr_guard = None, tr_script = s, tr_priority = None, tr_finalizer = False,
     tr_simulation = None, tr_group_id = None, tr_effect_handler_id = None,
     tr_effect_config = None, tr_caused_signals = [], tr_process_step_started = None,
     tr_process_step_completed = None\<rparr>"

definition is_effect :: "transition \<Rightarrow> bool" where
  "is_effect t = (tr_effect_handler_id t \<noteq> None)"

definition input_port :: "transition \<Rightarrow> string \<Rightarrow> port option" where
  "input_port t n = find (\<lambda>p. port_name p = n) (tr_input_ports t)"

definition output_port :: "transition \<Rightarrow> string \<Rightarrow> port option" where
  "output_port t n = find (\<lambda>p. port_name p = n) (tr_output_ports t)"

section \<open>The net\<close>

record group =
  grp_id :: string
  grp_name :: string
  grp_parent_id :: "string option"
  grp_metadata :: "json option"

record petri_net =
  net_places :: "(place_id, place) hashmap"
  net_transitions :: "(transition_id, transition) hashmap"
  net_arcs :: "arc list"
  net_groups :: "group list"

definition net_new :: petri_net where
  "net_new = \<lparr>net_places = [], net_transitions = [], net_arcs = [], net_groups = []\<rparr>"

definition add_place :: "place \<Rightarrow> petri_net \<Rightarrow> place_id \<times> petri_net" where
  "add_place p n = (pl_id p, n\<lparr>net_places := hm_insert (pl_id p) p (net_places n)\<rparr>)"

definition add_transition :: "transition \<Rightarrow> petri_net \<Rightarrow> transition_id \<times> petri_net" where
  "add_transition t n = (tr_id t, n\<lparr>net_transitions := hm_insert (tr_id t) t (net_transitions n)\<rparr>)"

definition add_arc :: "arc \<Rightarrow> petri_net \<Rightarrow> petri_net" where
  "add_arc a n = n\<lparr>net_arcs := net_arcs n @ [a]\<rparr>"

definition get_place :: "petri_net \<Rightarrow> place_id \<Rightarrow> place option" where
  "get_place n i = hm_get (net_places n) i"

definition get_transition :: "petri_net \<Rightarrow> transition_id \<Rightarrow> transition option" where
  "get_transition n i = hm_get (net_transitions n) i"

definition transitions_values :: "petri_net \<Rightarrow> transition list" where
  "transitions_values n = map snd (net_transitions n)"

definition input_arcs :: "petri_net \<Rightarrow> transition_id \<Rightarrow> arc list" where
  "input_arcs n t = filter (\<lambda>a. arc_transition a = t \<and> arc_is_input a) (net_arcs n)"

definition output_arcs :: "petri_net \<Rightarrow> transition_id \<Rightarrow> arc list" where
  "output_arcs n t = filter (\<lambda>a. arc_transition a = t \<and> arc_is_output a) (net_arcs n)"

definition input_arc_for_port :: "petri_net \<Rightarrow> transition_id \<Rightarrow> string \<Rightarrow> arc option" where
  "input_arc_for_port n t p =
    find (\<lambda>a. arc_transition a = t \<and> arc_is_input a \<and> arc_port a = p) (net_arcs n)"

definition output_arc_for_port :: "petri_net \<Rightarrow> transition_id \<Rightarrow> string \<Rightarrow> arc option" where
  "output_arc_for_port n t p =
    find (\<lambda>a. arc_transition a = t \<and> arc_is_output a \<and> arc_port a = p) (net_arcs n)"

definition terminal_places :: "petri_net \<Rightarrow> place_id list" where
  "terminal_places n = map pl_id (filter (\<lambda>p. pl_kind p = Terminal) (map snd (net_places n)))"

text \<open>
  Well-formed nets: the maps are keyed by the identifiers of what they hold, as
  \<open>add_place\<close> and \<open>add_transition\<close> and the deserializer build them.
\<close>

definition net_wf :: "petri_net \<Rightarrow> bool" where
  "net_wf n \<longleftrightarrow> distinct (map fst (net_places n)) \<and> distinct (map fst (net_transitions n)) \<and>
     list_all (\<lambda>(i, p). pl_id p = i) (net_places n) \<and>
     list_all (\<lambda>(i, t). tr_id t = i) (net_transitions n)"

section \<open>Markings\<close>

type_synonym marking = "place_id \<rightharpoonup> token list"

definition marking_new :: marking where
  "marking_new = Map.empty"

definition tokens_at :: "marking \<Rightarrow> place_id \<Rightarrow> token list" where
  "tokens_at m p = (case m p of Some ts \<Rightarrow> ts | None \<Rightarrow> [])"

definition token_count :: "marking \<Rightarrow> place_id \<Rightarrow> nat" where
  "token_count m p = (case m p of Some ts \<Rightarrow> length ts | None \<Rightarrow> 0)"

definition add_token :: "place_id \<Rightarrow> token \<Rightarrow> marking \<Rightarrow> marking" where
  "add_token p t m = m(p \<mapsto> tokens_at m p @ [t])"

text \<open>Removing the first token with an identifier from a list of tokens, as \<open>position\<close> and
  \<open>remove\<close> do.\<close>

fun take_out :: "token_id \<Rightarrow> token list \<Rightarrow> token option \<times> token list" where
  "take_out i [] = (None, [])"
| "take_out i (t # ts) =
    (if tok_id t = i then (Some t, ts)
     else (let (r, us) = take_out i ts in (r, t # us)))"

definition remove_token :: "place_id \<Rightarrow> token_id \<Rightarrow> marking \<Rightarrow> token option \<times> marking" where
  "remove_token p i m = (case m p of
      None \<Rightarrow> (None, m)
    | Some ts \<Rightarrow> (let (r, us) = take_out i ts in (r, m(p \<mapsto> us))))"

fun recolor :: "token_id \<Rightarrow> token_color \<Rightarrow> token list \<Rightarrow> bool \<times> token list" where
  "recolor i c [] = (False, [])"
| "recolor i c (t # ts) =
    (if tok_id t = i then (True, t\<lparr>tok_color := c\<rparr> # ts)
     else (let (r, us) = recolor i c ts in (r, t # us)))"

definition update_token :: "place_id \<Rightarrow> token_id \<Rightarrow> token_color \<Rightarrow> marking \<Rightarrow> bool \<times> marking" where
  "update_token p i c m = (case m p of
      None \<Rightarrow> (False, m)
    | Some ts \<Rightarrow> (let (r, us) = recolor i c ts in (r, m(p \<mapsto> us))))"

section \<open>Lemmas on markings\<close>

abbreviation marking_remove :: "place_id \<Rightarrow> token_id \<Rightarrow> marking \<Rightarrow> marking" where
  "marking_remove p i m \<equiv> snd (remove_token p i m)"

abbreviation marking_update :: "place_id \<Rightarrow> token_id \<Rightarrow> token_color \<Rightarrow> marking \<Rightarrow> marking" where
  "marking_update p i c m \<equiv> snd (update_token p i c m)"

abbreviation ids_at :: "marking \<Rightarrow> place_id \<Rightarrow> token_id list" where
  "ids_at m p \<equiv> map tok_id (tokens_at m p)"

lemma tokens_at_new [simp, marking_simps]: "tokens_at marking_new p = []"
  by (simp add: tokens_at_def marking_new_def)

lemma token_count_tokens_at: "token_count m p = length (tokens_at m p)"
  by (simp add: token_count_def tokens_at_def split: option.splits)

lemma tokens_at_add_token [simp, marking_simps]:
  "tokens_at (add_token p t m) q = (if q = p then tokens_at m p @ [t] else tokens_at m q)"
  by (simp add: add_token_def tokens_at_def)

lemma tokens_at_remove_token [simp, marking_simps]:
  "tokens_at (marking_remove p i m) q =
    (if q = p then snd (take_out i (tokens_at m p)) else tokens_at m q)"
  by (auto simp: remove_token_def tokens_at_def split: option.splits prod.splits)

lemma fst_remove_token [marking_simps]: "fst (remove_token p i m) = fst (take_out i (tokens_at m p))"
  by (auto simp: remove_token_def tokens_at_def split: option.splits prod.splits)

lemma tokens_at_update_token [simp, marking_simps]:
  "tokens_at (marking_update p i c m) q =
    (if q = p then snd (recolor i c (tokens_at m p)) else tokens_at m q)"
  by (auto simp: update_token_def tokens_at_def split: option.splits prod.splits)

lemma take_out_absent: "i \<notin> tok_id ` set ts \<Longrightarrow> take_out i ts = (None, ts)"
  by (induction ts) auto

lemma take_out_present:
  assumes "i \<in> tok_id ` set ts"
  shows "\<exists>xs t ys. ts = xs @ t # ys \<and> tok_id t = i \<and> i \<notin> tok_id ` set xs \<and>
    take_out i ts = (Some t, xs @ ys)"
  using assms
proof (induction ts)
  case (Cons t ts)
  show ?case
  proof (cases "tok_id t = i")
    case True
    then show ?thesis by (intro exI [of _ "[]"]) auto
  next
    case False
    with Cons obtain xs u ys where "ts = xs @ u # ys" "tok_id u = i" "i \<notin> tok_id ` set xs"
      "take_out i ts = (Some u, xs @ ys)" by auto
    with False show ?thesis by (intro exI [of _ "t # xs"]) auto
  qed
qed simp

lemma set_take_out: "set (snd (take_out i ts)) \<subseteq> set ts"
  by (induction ts) (auto split: prod.splits)

lemma ids_take_out: "map tok_id (snd (take_out i ts)) = remove1 i (map tok_id ts)"
  by (induction ts) (auto split: prod.splits)

lemma take_out_distinct:
  "distinct (map tok_id ts) \<Longrightarrow> snd (take_out i ts) = filter (\<lambda>t. tok_id t \<noteq> i) ts"
proof (induction ts)
  case (Cons t ts)
  show ?case
  proof (cases "tok_id t = i")
    case True
    with Cons.prems have "\<forall>u \<in> set ts. tok_id u \<noteq> i" by (auto simp: image_iff)
    then have "filter (\<lambda>t. tok_id t \<noteq> i) ts = ts" by (simp add: filter_id_conv)
    with True show ?thesis by simp
  qed (use Cons in \<open>auto split: prod.splits\<close>)
qed simp

lemma ids_recolor: "map tok_id (snd (recolor i c ts)) = map tok_id ts"
  by (induction ts) (auto split: prod.splits)

section \<open>Properties\<close>

text \<open>
  A token colour survives the trip through JSON, except that data which is itself null or
  an integer comes back as the dedicated colour.
\<close>

theorem color_json_roundtrip:
  "json_to_token_color (token_color_to_json c) =
    (case c of Data v \<Rightarrow> json_to_token_color v | _ \<Rightarrow> c)"
proof (cases c)
  case (Integer i)
  with nonneg_unat [of i] show ?thesis by (auto simp: number_of_i64_def)
qed auto

end
