(* ===== verification/Join_Index.thy ===== *)
theory Join_Index
  imports Net
begin

text \<open>
  Extraction of join constraints from guard source text,
  \<^verbatim>\<open>src/engine/core-engine/crates/application/src/join_index.rs\<close>. Strings are byte lists,
  as the source scans them with \<open>as_bytes\<close>. The lemmas show that splitting a guard into
  conjuncts loses nothing and that a constraint always relates fields of two distinct ports.
\<close>

section \<open>Scanning\<close>

record join_constraint =
  jc_port_a :: string
  jc_path_a :: "string list"
  jc_port_b :: string
  jc_path_b :: "string list"

definition is_quote :: "char \<Rightarrow> bool" where
  "is_quote ch = (ch = CHR 0x22 \<or> ch = CHR 0x27 \<or> ch = CHR 0x60)"

definition is_open :: "char \<Rightarrow> bool" where
  "is_open ch = (ch = CHR ''('' \<or> ch = CHR ''['' \<or> ch = CHR ''{'')"

definition is_close :: "char \<Rightarrow> bool" where
  "is_close ch = (ch = CHR '')'' \<or> ch = CHR '']'' \<or> ch = CHR ''}'')"

text \<open>
  The scanning loop, on the bytes from position \<open>i\<close> on: \<open>d\<close> is the bracket depth and \<open>q\<close> the
  open quote.
\<close>

fun double_scan :: "char \<Rightarrow> int \<Rightarrow> char option \<Rightarrow> nat \<Rightarrow> string \<Rightarrow> nat list" where
  "double_scan c d q i [] = []"
| "double_scan c d (Some q) i (ch # s) =
    (if ch = CHR 0x5C then double_scan c d (Some q) (i + 2) (drop 1 s)
     else if ch = q then double_scan c d None (i + 1) s
     else double_scan c d (Some q) (i + 1) s)"
| "double_scan c d None i (ch # s) =
    (if is_quote ch then double_scan c d (Some ch) (i + 1) s
     else if is_open ch then double_scan c (d + 1) None (i + 1) s
     else if is_close ch then double_scan c (d - 1) None (i + 1) s
     else if ch = c \<and> d = 0 \<and> s \<noteq> [] \<and> hd s = c
       then i # double_scan c d None (i + 2) (drop 1 s)
     else double_scan c d None (i + 1) s)"

definition top_level_double :: "string \<Rightarrow> char \<Rightarrow> nat list" where
  "top_level_double s c = double_scan c 0 None 0 s"

text \<open>\<open>&s[a..b]\<close>\<close>

definition slice :: "nat \<Rightarrow> nat \<Rightarrow> string \<Rightarrow> string" where
  "slice a b s = take (b - a) (drop a s)"

fun split_segments :: "string \<Rightarrow> nat \<Rightarrow> nat list \<Rightarrow> string list" where
  "split_segments s start [] = [drop start s]"
| "split_segments s start (p # ps) = slice start p s # split_segments s (p + 2) ps"

definition split_top_level :: "string \<Rightarrow> char \<Rightarrow> string list" where
  "split_top_level s c =
    (let ps = top_level_double s c in if ps = [] then [s] else split_segments s 0 ps)"

text \<open>The first top-level \<open>==\<close>; \<open>prev\<close> is the byte before position \<open>i\<close>, or zero.\<close>

fun eq_scan :: "int \<Rightarrow> char option \<Rightarrow> char \<Rightarrow> nat \<Rightarrow> string \<Rightarrow> nat option" where
  "eq_scan d q prev i [] = None"
| "eq_scan d (Some q) prev i (ch # s) =
    (if ch = CHR 0x5C then eq_scan d (Some q) (if s = [] then ch else hd s) (i + 2) (drop 1 s)
     else if ch = q then eq_scan d None ch (i + 1) s
     else eq_scan d (Some q) ch (i + 1) s)"
| "eq_scan d None prev i (ch # s) =
    (if is_quote ch then eq_scan d (Some ch) ch (i + 1) s
     else if is_open ch then eq_scan (d + 1) None ch (i + 1) s
     else if is_close ch then eq_scan (d - 1) None ch (i + 1) s
     else if ch = CHR ''='' \<and> d = 0 \<and> s \<noteq> [] \<and> hd s = CHR ''='' \<and>
         prev \<noteq> CHR ''!'' \<and> prev \<noteq> CHR ''<'' \<and> prev \<noteq> CHR ''>'' \<and> prev \<noteq> CHR ''='' \<and>
         (length s < 2 \<or> s ! 1 \<noteq> CHR ''='')
       then Some i
     else eq_scan d None ch (i + 1) s)"

definition top_level_eq :: "string \<Rightarrow> nat option" where
  "top_level_eq s = eq_scan 0 None (CHR 0x00) 0 s"

section \<open>Parsing\<close>

definition is_ascii_alpha :: "char \<Rightarrow> bool" where
  "is_ascii_alpha ch = (CHR ''a'' \<le> ch \<and> ch \<le> CHR ''z'' \<or> CHR ''A'' \<le> ch \<and> ch \<le> CHR ''Z'')"

definition is_ascii_alphanumeric :: "char \<Rightarrow> bool" where
  "is_ascii_alphanumeric ch = (is_ascii_alpha ch \<or> CHR ''0'' \<le> ch \<and> ch \<le> CHR ''9'')"

fun is_ident :: "string \<Rightarrow> bool" where
  "is_ident [] = False"
| "is_ident (ch # s) = ((is_ascii_alpha ch \<or> ch = CHR ''_'') \<and>
    list_all (\<lambda>x. is_ascii_alphanumeric x \<or> x = CHR ''_'') s)"

text \<open>\<open>str::split\<close> on one character, and \<open>str::trim\<close> restricted to ASCII white space: the
  result is only tested for being an ASCII identifier.\<close>

fun split_char :: "char \<Rightarrow> string \<Rightarrow> string list" where
  "split_char c [] = [[]]"
| "split_char c (ch # s) =
    (if ch = c then [] # split_char c s
     else (case split_char c s of [] \<Rightarrow> [[ch]] | x # xs \<Rightarrow> (ch # x) # xs))"

definition is_space :: "char \<Rightarrow> bool" where
  "is_space ch = (ch = CHR '' '' \<or> CHR 0x09 \<le> ch \<and> ch \<le> CHR 0x0D)"

definition trim :: "string \<Rightarrow> string" where
  "trim s = rev (dropWhile is_space (rev (dropWhile is_space s)))"

definition parse_port_path :: "string \<Rightarrow> (string \<times> string list) option" where
  "parse_port_path expr =
    (let segs = map trim (split_char (CHR ''.'') expr) in
     if list_all is_ident segs \<and> length segs \<ge> 2 then Some (hd segs, tl segs) else None)"

definition parse_equi_join :: "string \<Rightarrow> join_constraint option" where
  "parse_equi_join conjunct = (case top_level_eq conjunct of
      None \<Rightarrow> None
    | Some eq \<Rightarrow>
        (case (parse_port_path (take eq conjunct), parse_port_path (drop (eq + 2) conjunct)) of
           (Some (pa, path_a), Some (pb, path_b)) \<Rightarrow>
             if pa = pb \<or> path_a = [] \<or> path_b = [] then None
             else Some \<lparr>jc_port_a = pa, jc_path_a = path_a, jc_port_b = pb, jc_path_b = path_b\<rparr>
         | _ \<Rightarrow> None))"

definition extract_join_constraints :: "string \<Rightarrow> join_constraint list" where
  "extract_join_constraints guard =
    (if top_level_double guard (CHR ''|'') \<noteq> [] then []
     else List.map_filter parse_equi_join (split_top_level guard (CHR ''&'')))"

section \<open>Lemmas\<close>

fun intercalate :: "string \<Rightarrow> string list \<Rightarrow> string" where
  "intercalate sep [] = []"
| "intercalate sep [x] = x"
| "intercalate sep (x # y # xs) = x @ sep @ intercalate sep (y # xs)"

lemma intercalate_Cons: "xs \<noteq> [] \<Longrightarrow> intercalate sep (x # xs) = x @ sep @ intercalate sep xs"
  by (cases xs) auto

lemma split_segments_nonempty [simp]: "split_segments s n ps \<noteq> []"
  by (cases ps) auto

lemma drop_next:
  assumes "drop i s = ch # r"
  shows "drop (i + 1) s = r" and "drop (i + 2) s = drop 1 r"
proof -
  have "drop (i + 1) s = drop 1 (drop i s)" "drop (i + 2) s = drop 2 (drop i s)"
    by (simp_all add: add.commute)
  then show "drop (i + 1) s = r" "drop (i + 2) s = drop 1 r" using assms by (simp_all add: numeral_2_eq_2)
qed

lemma intercalate_double_scan:
  assumes "drop i s = r" and "start \<le> i"
  shows "intercalate [c, c] (split_segments s start (double_scan c d q i r)) = drop start s"
  using assms
proof (induction c d q i r arbitrary: start rule: double_scan.induct)
  case (2 c d q i ch r)
  note next_r = drop_next [OF 2(4)]
  show ?case using 2(1) [of start] 2(2) [of start] 2(3) [of start] 2(5) next_r by simp
next
  case (3 c d i ch r)
  note next_r = drop_next [OF 3(6)]
  show ?case
  proof (cases "\<not> is_quote ch \<and> \<not> is_open ch \<and> \<not> is_close ch \<and> ch = c \<and> d = 0 \<and> r \<noteq> [] \<and> hd r = c")
    case True
    then have c: "\<not> is_quote c" "\<not> is_open c" "\<not> is_close c" "ch = c" "d = 0" "r \<noteq> []" "hd r = c"
      by auto
    have tail_eq: "drop i s = c # c # drop (i + 2) s"
      using True 3(6) next_r by (cases r) auto
    have rest: "intercalate [c, c] (split_segments s (i + 2) (double_scan c d None (i + 2) (drop 1 r))) =
        drop (i + 2) s"
      using 3(4) [of "i + 2"] True next_r by auto
    have "slice start i s @ drop i s = drop start s"
      using 3(7) append_take_drop_id [of "i - start" "drop start s"] by (simp add: slice_def)
    then show ?thesis using c rest tail_eq by (simp add: intercalate_Cons)
  next
    case False
    then show ?thesis
      using 3(1) [of start] 3(2) [of start] 3(3) [of start] 3(5) [of start] 3(7) next_r by auto
  qed
qed simp

lemma map_filter_mem: "y \<in> set (List.map_filter f xs) \<Longrightarrow> \<exists>x \<in> set xs. f x = Some y"
  by (force simp: List.map_filter_def)

lemma parse_port_path_wf:
  assumes "parse_port_path e = Some (p, path)"
  shows "is_ident p \<and> path \<noteq> [] \<and> list_all is_ident path"
proof -
  obtain segs where "segs = map trim (split_char (CHR ''.'') e)" "list_all is_ident segs"
    "length segs \<ge> 2" "p = hd segs" "path = tl segs"
    using assms by (auto simp: parse_port_path_def Let_def split: if_splits)
  then show ?thesis by (cases segs) (auto simp: Suc_le_eq)
qed

section \<open>Properties\<close>

text \<open>
  Splitting a guard at its top-level operators loses nothing: the segments joined with the
  operator give the guard back.
\<close>

theorem split_top_level_roundtrip:
  "intercalate [c, c] (split_top_level s c) = s"
  using intercalate_double_scan [of 0 s s 0 c 0 None]
  by (simp add: split_top_level_def top_level_double_def Let_def)

text \<open>
  Every extracted constraint is a correlation across two distinct ports, each side an
  identifier with a non-empty path of identifiers, and a guard whose root is a disjunction
  yields none.
\<close>

theorem extract_join_constraints_cross_port:
  "con \<in> set (extract_join_constraints guard) \<Longrightarrow>
    top_level_double guard (CHR ''|'') = [] \<and>
    jc_port_a con \<noteq> jc_port_b con \<and> is_ident (jc_port_a con) \<and> is_ident (jc_port_b con) \<and>
    jc_path_a con \<noteq> [] \<and> jc_path_b con \<noteq> [] \<and>
    list_all is_ident (jc_path_a con) \<and> list_all is_ident (jc_path_b con)"
  by (auto simp: extract_join_constraints_def parse_equi_join_def dest!: map_filter_mem
      parse_port_path_wf split: if_splits option.splits prod.splits)

theorem extract_join_constraints_cross_port_witness:
  "jc_port_a (hd (extract_join_constraints ''a.k == b.k && a.n > 1'')) \<noteq>
   jc_port_b (hd (extract_join_constraints ''a.k == b.k && a.n > 1''))"
proof -
  let ?g = "''a.k == b.k && a.n > 1''"
  have "hd (extract_join_constraints ?g) \<in> set (extract_join_constraints ?g)" by code_simp
  from extract_join_constraints_cross_port [OF this] show ?thesis by blast
qed

text \<open>
  The scan does not know comments: text behind a comment marker still contributes a
  constraint, although the guard that is evaluated never compares those fields.
\<close>

theorem comment_yields_constraint:
  "extract_join_constraints ''a.ok // && a.k == b.k'' =
    [\<lparr>jc_port_a = ''a'', jc_path_a = [''k''], jc_port_b = ''b'', jc_path_b = [''k'']\<rparr>]"
  by code_simp

end
