(* ===== verification/Events.thy ===== *)
theory Events
  imports Net
begin

text \<open>
  The event log, \<^verbatim>\<open>src/engine/core-engine/crates/domain/src/events.rs\<close> and
  \<^verbatim>\<open>projection.rs\<close>: the domain events, persisted events with their hash chain, and the
  projection that replays events onto a marking. The digest (SHA-256 over the JSON text of
  an event) is an argument. Constructor arguments are in the order of the source's fields.
  The lemmas show that replay is a left fold that can be cut anywhere, that the log an
  append-only writer produces verifies, and that a verified chain pins every earlier event.
\<close>

section \<open>Domain events\<close>

datatype pre_dispatch_outcome_kind = KContinue | KReject | KDefer

record pre_dispatch_hook_outcome =
  pho_hook_name :: string
  pho_kind :: pre_dispatch_outcome_kind
  pho_reason :: "string option"
  pho_retry_after_ms :: "nat option"
  pho_fail_open_applied :: bool

type_synonym consumed = "(place_id \<times> token_id) list"
type_synonym produced = "(place_id \<times> token) list"

datatype domain_event =
    NetInitialized petri_net
  | TokenCreated token place_id "string option" "uuid option" "string option" "string option"
      \<comment> \<open>token, place, place name, workflow, signal key, dedup id\<close>
  | TransitionFired transition_id "string option" consumed produced produced
      "string option" "string option"
      \<comment> \<open>transition, name, consumed, produced, read, step started, step completed\<close>
  | TransitionSkipped transition_id "string option" consumed produced string
      \<comment> \<open>transition, name, consumed, produced, skip reason\<close>
  | TokenBridgedOut token place_id string string string transition_id string "nat option"
      "string option" "(string, string) hashmap option"
      \<comment> \<open>token, source place, its name, target net, target place, transition, signal key,
          producing event, reply place, reply channels\<close>
  | TokenConsumed token_id place_id
  | TokenRemoved token_id place_id "string option" "string option"
      \<comment> \<open>token, place, reason, correlation id\<close>
  | TokenUpdated token_id place_id token_color "string option"
  | EffectCompleted transition_id "string option" consumed produced string json produced
      "string option" "string option"
      \<comment> \<open>transition, name, consumed, produced, handler, result, read, step started, step
          completed\<close>
  | EffectFailed transition_id "string option" consumed produced string string bool
      "(string \<rightharpoonup> json) option" bool
      \<comment> \<open>transition, name, consumed, produced, handler, message, tokens consumed, input
          data, retryable\<close>
  | ErrorOccurred string
  | TransitionScriptUpdated transition_id string "string option"
  | NetCreated string "string option" "json option" "string option" "string option"
  | NetCompleted string string "json option"
  | NetCancelled string "string option" "string option"
  | NetFailed string transition_id string bool
  | PreDispatchEvaluated transition_id "string option" "pre_dispatch_hook_outcome list"
      pre_dispatch_outcome_kind time
  | PreDispatchRejected transition_id string string time
  | PreDispatchDeferred transition_id string nat "32 word" time

record persisted_event =
  pe_sequence :: nat
  pe_timestamp :: time
  pe_event :: domain_event
  pe_hash :: string
  pe_previous_hash :: "string option"

type_synonym digest = "nat \<Rightarrow> time \<Rightarrow> domain_event \<Rightarrow> string option \<Rightarrow> string"

definition persisted_new :: "digest \<Rightarrow> time \<Rightarrow> nat \<Rightarrow> domain_event \<Rightarrow> string option \<Rightarrow> persisted_event" where
  "persisted_new H now n e prev = \<lparr>pe_sequence = n, pe_timestamp = now, pe_event = e,
     pe_hash = H n now e prev, pe_previous_hash = prev\<rparr>"

definition verify_hash :: "digest \<Rightarrow> persisted_event \<Rightarrow> bool" where
  "verify_hash H p = (pe_hash p = H (pe_sequence p) (pe_timestamp p) (pe_event p) (pe_previous_hash p))"

section \<open>Chain verification\<close>

text \<open>
  The loop of \<open>verify_event_chain_inner\<close>: \<open>i\<close> is the position of the event at hand and
  \<open>prev\<close> the event before it in the slice.
\<close>

definition chain_link_ok :: "bool \<Rightarrow> persisted_event option \<Rightarrow> persisted_event \<Rightarrow> bool" where
  "chain_link_ok genesis prev p = (case prev of
      None \<Rightarrow>
        if genesis then pe_previous_hash p = None \<and> pe_sequence p = 0
        else if pe_sequence p = 0 then pe_previous_hash p = None
        else pe_previous_hash p \<noteq> None
    | Some q \<Rightarrow> pe_previous_hash p = Some (pe_hash q) \<and> pe_sequence p = pe_sequence q + 1)"

fun verify_chain_loop ::
  "digest \<Rightarrow> bool \<Rightarrow> nat \<Rightarrow> persisted_event option \<Rightarrow> persisted_event list \<Rightarrow> bool" where
  "verify_chain_loop H genesis i prev [] = True"
| "verify_chain_loop H genesis i prev (p # ps) =
    (if \<not> verify_hash H p then False
     else if \<not> chain_link_ok genesis prev p then False
     else if genesis \<and> pe_sequence p \<noteq> i then False
     else verify_chain_loop H genesis (Suc i) (Some p) ps)"

definition verify_event_chain_inner :: "digest \<Rightarrow> persisted_event list \<Rightarrow> bool \<Rightarrow> bool" where
  "verify_event_chain_inner H es genesis = verify_chain_loop H genesis 0 None es"

definition verify_event_chain :: "digest \<Rightarrow> persisted_event list \<Rightarrow> bool" where
  "verify_event_chain H es = verify_event_chain_inner H es True"

definition verify_event_chain_from :: "digest \<Rightarrow> persisted_event list \<Rightarrow> bool" where
  "verify_event_chain_from H es = verify_event_chain_inner H es False"

section \<open>Projection\<close>

definition consume_all :: "consumed \<Rightarrow> marking \<Rightarrow> marking" where
  "consume_all cs m = fold (\<lambda>(p, i) m. marking_remove p i m) cs m"

definition produce_all :: "produced \<Rightarrow> marking \<Rightarrow> marking" where
  "produce_all ts m = fold (\<lambda>(p, t) m. add_token p t m) ts m"

fun apply_event_to_marking :: "domain_event \<Rightarrow> marking \<Rightarrow> marking" where
  "apply_event_to_marking (TokenCreated t p _ _ _ _) m = add_token p t m"
| "apply_event_to_marking (TransitionFired _ _ cs ps _ _ _) m = produce_all ps (consume_all cs m)"
| "apply_event_to_marking (EffectCompleted _ _ cs ps _ _ _ _ _) m = produce_all ps (consume_all cs m)"
| "apply_event_to_marking (TransitionSkipped _ _ cs ps _) m = produce_all ps (consume_all cs m)"
| "apply_event_to_marking (TokenConsumed i p) m = marking_remove p i m"
| "apply_event_to_marking (TokenRemoved i p _ _) m = marking_remove p i m"
| "apply_event_to_marking (TokenUpdated i p c _) m = marking_update p i c m"
| "apply_event_to_marking (EffectFailed _ _ cs ps _ _ tc _ _) m =
    (if tc then produce_all ps (consume_all cs m) else m)"
| "apply_event_to_marking (NetInitialized _) m = m"
| "apply_event_to_marking (ErrorOccurred _) m = m"
| "apply_event_to_marking (TransitionScriptUpdated _ _ _) m = m"
| "apply_event_to_marking (TokenBridgedOut _ _ _ _ _ _ _ _ _ _) m = m"
| "apply_event_to_marking (NetCreated _ _ _ _ _) m = m"
| "apply_event_to_marking (NetCompleted _ _ _) m = m"
| "apply_event_to_marking (NetCancelled _ _ _) m = m"
| "apply_event_to_marking (NetFailed _ _ _ _) m = m"
| "apply_event_to_marking (PreDispatchEvaluated _ _ _ _ _) m = m"
| "apply_event_to_marking (PreDispatchRejected _ _ _ _) m = m"
| "apply_event_to_marking (PreDispatchDeferred _ _ _ _ _) m = m"

definition project_onto :: "marking \<Rightarrow> persisted_event list \<Rightarrow> marking" where
  "project_onto base es = fold (\<lambda>p. apply_event_to_marking (pe_event p)) es base"

definition project_marking :: "persisted_event list \<Rightarrow> marking" where
  "project_marking es = project_onto marking_new es"


section \<open>Lemmas on replay\<close>

lemma project_onto_Nil [simp, store_simps]: "project_onto m [] = m"
  by (simp add: project_onto_def)

lemma project_onto_Cons [store_simps]:
  "project_onto m (p # ps) = project_onto (apply_event_to_marking (pe_event p) m) ps"
  by (simp add: project_onto_def)

lemma project_onto_append [store_simps]:
  "project_onto m (xs @ ys) = project_onto (project_onto m xs) ys"
  by (simp add: project_onto_def)

lemma project_marking_append:
  "project_marking (xs @ ys) = project_onto (project_marking xs) ys"
  by (simp add: project_marking_def project_onto_append)

lemma mset_ids_remove:
  "mset (ids_at (marking_remove p i m) q) =
    mset (ids_at m q) - (if q = p then {#i#} else {#})"
  using arg_cong [OF ids_take_out [of i "tokens_at m p"], of mset] by (simp add: mset_remove1)

lemma mset_ids_consume_all:
  "mset (ids_at (consume_all cs m) q) =
    mset (ids_at m q) - mset (map snd (filter (\<lambda>c. fst c = q) cs))"
proof (induction cs arbitrary: m)
  case (Cons c cs)
  obtain p i where c: "c = (p, i)" by (cases c)
  have "consume_all (c # cs) m = consume_all cs (marking_remove p i m)"
    by (simp add: consume_all_def c)
  then show ?case using Cons.IH [of "marking_remove p i m"] mset_ids_remove [of p i m q]
    by (simp add: c)
qed (simp add: consume_all_def)

lemma tokens_at_produce_all:
  "tokens_at (produce_all ps m) q = tokens_at m q @ map snd (filter (\<lambda>c. fst c = q) ps)"
proof (induction ps arbitrary: m)
  case (Cons c ps)
  have "produce_all (c # ps) m = produce_all ps (add_token (fst c) (snd c) m)"
    by (simp add: produce_all_def case_prod_beta)
  then show ?case using Cons.IH [of "add_token (fst c) (snd c) m"] by auto
qed (simp add: produce_all_def)

lemma mset_ids_produce_consume:
  "mset (ids_at (produce_all ps (consume_all cs m)) q) =
    mset (ids_at m q) - mset (map snd (filter (\<lambda>c. fst c = q) cs))
    + mset (map (tok_id \<circ> snd) (filter (\<lambda>c. fst c = q) ps))"
proof -
  have "mset (ids_at (produce_all ps (consume_all cs m)) q) =
      mset (ids_at (consume_all cs m) q) + mset (map tok_id (map snd (filter (\<lambda>c. fst c = q) ps)))"
    unfolding tokens_at_produce_all map_append mset_append ..
  then show ?thesis unfolding mset_ids_consume_all map_map .
qed

lemma set_tokens_at_consume_all: "set (tokens_at (consume_all cs m) q) \<subseteq> set (tokens_at m q)"
proof (induction cs arbitrary: m)
  case (Cons c cs)
  have "consume_all (c # cs) m = consume_all cs (marking_remove (fst c) (snd c) m)"
    by (simp add: consume_all_def case_prod_beta)
  then show ?case using Cons.IH [of "marking_remove (fst c) (snd c) m"] set_take_out
    by (fastforce split: if_splits)
qed (simp add: consume_all_def)

lemma consume_all_Nil [simp]: "consume_all [] m = m"
  by (simp add: consume_all_def)

lemma produce_all_Nil [simp]: "produce_all [] m = m"
  by (simp add: produce_all_def)

section \<open>Lemmas on chains\<close>

lemma verify_chain_loop_append:
  "verify_chain_loop H g i prev (xs @ ys) \<longleftrightarrow>
    verify_chain_loop H g i prev xs \<and>
    verify_chain_loop H g (i + length xs) (if xs = [] then prev else Some (last xs)) ys"
  by (induction xs arbitrary: i prev) auto

lemma verify_event_chain_Nil [simp]: "verify_event_chain H []"
  by (simp add: verify_event_chain_def verify_event_chain_inner_def)

lemma verify_event_chain_snoc:
  "verify_event_chain H (xs @ [x]) \<longleftrightarrow> verify_event_chain H xs \<and> verify_hash H x \<and>
    chain_link_ok True (if xs = [] then None else Some (last xs)) x \<and> pe_sequence x = length xs"
  by (auto simp: verify_event_chain_def verify_event_chain_inner_def verify_chain_loop_append)

text \<open>The genesis check implies the check of a middle slice, whatever came before it.\<close>

lemma verify_chain_loop_weaken:
  assumes "verify_chain_loop H True i prev es" and "prev = None \<longrightarrow> i = 0"
  shows "verify_chain_loop H False j prev es"
  using assms
  by (induction es arbitrary: i j prev) (auto simp: chain_link_ok_def split: option.splits if_splits)

lemma verify_chain_loop_forget_prev:
  assumes "verify_chain_loop H False i (Some q) es"
  shows "verify_chain_loop H False i None es"
  using assms by (cases es) (auto simp: chain_link_ok_def split: if_splits)

lemma verify_suffix:
  assumes "verify_event_chain H (xs @ ys)"
  shows "verify_event_chain_from H ys"
proof -
  let ?prev = "if xs = [] then None else Some (last xs)"
  have "verify_chain_loop H True (length xs) ?prev ys"
    using assms by (simp add: verify_event_chain_def verify_event_chain_inner_def verify_chain_loop_append)
  then have "verify_chain_loop H False 0 ?prev ys" by (rule verify_chain_loop_weaken) auto
  then show ?thesis
    by (auto simp: verify_event_chain_from_def verify_event_chain_inner_def
        dest: verify_chain_loop_forget_prev split: if_splits)
qed

section \<open>Properties\<close>

text \<open>
  Firing conserves tokens: replaying a firing, an effect completion or a skip changes the
  multiset of token identifiers of every place by exactly the consumed and produced entries
  the event lists for that place, and by nothing else.
\<close>

theorem firing_event_conserves:
  "e \<in> {TransitionFired t n cs ps rd a b, EffectCompleted t n cs ps h res rd a b,
         TransitionSkipped t n cs ps why, EffectFailed t n cs ps h msg True inp rt} \<Longrightarrow>
    mset (ids_at (apply_event_to_marking e m) q) =
      mset (ids_at m q) - mset (map snd (filter (\<lambda>c. fst c = q) cs))
      + mset (map (tok_id \<circ> snd) (filter (\<lambda>c. fst c = q) ps))"
  by (elim insertE emptyE; simp only: apply_event_to_marking.simps mset_ids_produce_consume if_True)

theorem firing_event_conserves_witness:
  "mset (ids_at (apply_event_to_marking
     (TransitionFired ''t'' None [(''a'', 1)] [(''b'', token_new_unit 2 0)] [] None None)
     (add_token ''a'' (token_new_unit 1 0) marking_new)) ''b'') = {#2#}"
  using firing_event_conserves [of
      "TransitionFired ''t'' None [(''a'', 1)] [(''b'', token_new_unit 2 0)] [] None None"
      "''t''" None "[(''a'', 1)]" "[(''b'', token_new_unit 2 0)]" "[]" None None "[]" Null "[]"
      "[]" None False "add_token ''a'' (token_new_unit 1 0) marking_new" "''b''"]
  by (simp add: token_new_unit_def token_new_def)

text \<open>
  Any suffix of a log that verifies from genesis passes the verification of a tail whose
  front was evicted, so an integrity check on the resident tail never reports a sound log as
  broken.
\<close>

theorem chain_suffix_verifies:
  "verify_event_chain H es \<Longrightarrow> verify_event_chain_from H (drop k es)"
  using verify_suffix [of H "take k es" "drop k es"] by simp

theorem chain_suffix_verifies_witness:
  "verify_event_chain_from (\<lambda>n t e p. replicate n CHR ''x'')
     (drop 1 [persisted_new (\<lambda>n t e p. replicate n CHR ''x'') 0 0 (ErrorOccurred ''a'') None,
              persisted_new (\<lambda>n t e p. replicate n CHR ''x'') 1 1 (ErrorOccurred ''b'') (Some [])])"
  by (rule chain_suffix_verifies)
    (simp add: verify_event_chain_def verify_event_chain_inner_def persisted_new_def verify_hash_def chain_link_ok_def)

text \<open>
  C34: the chain is tamper-evident: when the digest does not collide on the events at hand,
  two verified logs whose last hashes agree are equal event by event. The last hash pins the
  whole history.
\<close>

theorem chain_tamper_evident:
  assumes "verify_event_chain H es" and "verify_event_chain H es'"
    and "es \<noteq> []" and "es' \<noteq> []" and "pe_hash (last es) = pe_hash (last es')"
    and "\<And>p q. p \<in> set es \<Longrightarrow> q \<in> set es' \<Longrightarrow>
      H (pe_sequence p) (pe_timestamp p) (pe_event p) (pe_previous_hash p) =
      H (pe_sequence q) (pe_timestamp q) (pe_event q) (pe_previous_hash q) \<Longrightarrow>
      pe_sequence p = pe_sequence q \<and> pe_timestamp p = pe_timestamp q \<and>
      pe_event p = pe_event q \<and> pe_previous_hash p = pe_previous_hash q"
  shows "es = es'"
  using assms
proof (induction es arbitrary: es' rule: rev_induct)
  case (snoc x xs)
  obtain ys y where es': "es' = ys @ [y]" using snoc.prems(4) by (metis rev_exhaust)
  have vx: "verify_event_chain H xs" "verify_hash H x"
    "chain_link_ok True (if xs = [] then None else Some (last xs)) x"
    using snoc.prems(1) by (auto simp: verify_event_chain_snoc)
  have vy: "verify_event_chain H ys" "verify_hash H y"
    "chain_link_ok True (if ys = [] then None else Some (last ys)) y"
    using snoc.prems(2) by (auto simp: verify_event_chain_snoc es')
  have same: "pe_hash x = pe_hash y" using snoc.prems(5) by (simp add: es')
  then have fields: "pe_sequence x = pe_sequence y" "pe_timestamp x = pe_timestamp y"
    "pe_event x = pe_event y" "pe_previous_hash x = pe_previous_hash y"
    using vx(2) vy(2) snoc.prems(6) [of x y] by (auto simp: verify_hash_def es')
  then have xy: "x = y" using same by simp
  have "xs = ys"
  proof (cases "xs = []")
    case True
    then show ?thesis using vx(3) vy(3) fields
      by (auto simp: chain_link_ok_def split: if_splits)
  next
    case False
    then have "ys \<noteq> []" "pe_hash (last xs) = pe_hash (last ys)" using vx(3) vy(3) fields
      by (auto simp: chain_link_ok_def split: if_splits)
    then show ?thesis using snoc.IH [of ys] vx(1) vy(1) False snoc.prems(6) by (simp add: es')
  qed
  then show ?case by (simp add: es' xy)
qed simp

theorem chain_tamper_evident_witness:
  "[persisted_new (\<lambda>n t e p. replicate n CHR ''x'') 5 0 (ErrorOccurred ''a'') None] =
    [\<lparr>pe_sequence = 0, pe_timestamp = 5, pe_event = ErrorOccurred ''a'', pe_hash = [], pe_previous_hash = None\<rparr>]"
  by (rule chain_tamper_evident [of "\<lambda>n t e p. replicate n CHR ''x''"])
    (simp_all add: persisted_new_def verify_hash_def chain_link_ok_def verify_event_chain_snoc [of _ "[]", simplified])

end
