(* ===== verification/Dedup.thy ===== *)
theory Dedup
  imports Events
begin

text \<open>
  The bounded deduplication window, \<open>BoundedDedup\<close> of
  \<^verbatim>\<open>src/engine/core-engine/crates/application/src/ports.rs\<close>: a hash map from
  \<open>(place, dedup id)\<close> to the event that created the token, a queue of the keys in the order
  of their first insertion, and a capacity. The specification is a first-in first-out window
  over one list; the lemmas show that every operation keeps map and queue in step, and the
  refinement that the pair behaves as the window.
\<close>

section \<open>The window\<close>

type_synonym dedup_key = "place_id \<times> string"

record bounded_dedup =
  bd_map :: "(dedup_key, persisted_event) hashmap"
  bd_order :: "dedup_key list"
  bd_cap :: nat

definition dedup_with_cap :: "nat \<Rightarrow> bounded_dedup" where
  "dedup_with_cap cap = \<lparr>bd_map = [], bd_order = [], bd_cap = max cap 1\<rparr>"

text \<open>\<open>while self.map.len() > self.cap\<close>: the queue gets shorter with every turn.\<close>

fun dedup_evict :: "nat \<Rightarrow> (dedup_key, persisted_event) hashmap \<Rightarrow> dedup_key list \<Rightarrow>
    (dedup_key, persisted_event) hashmap \<times> dedup_key list" where
  "dedup_evict cap m [] = (m, [])"
| "dedup_evict cap m (old # rest) =
    (if length m > cap then dedup_evict cap (AList.delete old m) rest else (m, old # rest))"

definition dedup_insert :: "dedup_key \<Rightarrow> persisted_event \<Rightarrow> bounded_dedup \<Rightarrow> bounded_dedup" where
  "dedup_insert k e d =
    (let m = hm_insert k e (bd_map d) in
     if hm_get (bd_map d) k = None then
       (let (m', q) = dedup_evict (bd_cap d) m (bd_order d @ [k])
        in d\<lparr>bd_map := m', bd_order := q\<rparr>)
     else d\<lparr>bd_map := m\<rparr>)"

definition dedup_get :: "bounded_dedup \<Rightarrow> dedup_key \<Rightarrow> persisted_event option" where
  "dedup_get d k = hm_get (bd_map d) k"

definition dedup_contains_key :: "bounded_dedup \<Rightarrow> dedup_key \<Rightarrow> bool" where
  "dedup_contains_key d k = (hm_get (bd_map d) k \<noteq> None)"

definition dedup_len :: "bounded_dedup \<Rightarrow> nat" where
  "dedup_len d = length (bd_map d)"

text \<open>
  The scan that several callers run over a slice of the log: every \<open>TokenCreated\<close> with a
  non-empty dedup id is entered.
\<close>

fun dedup_key_of :: "domain_event \<Rightarrow> dedup_key option" where
  "dedup_key_of (TokenCreated _ p _ _ _ (Some i)) = (if i \<noteq> [] then Some (p, i) else None)"
| "dedup_key_of _ = None"

definition dedup_note :: "persisted_event \<Rightarrow> bounded_dedup \<Rightarrow> bounded_dedup" where
  "dedup_note e d = (case dedup_key_of (pe_event e) of Some k \<Rightarrow> dedup_insert k e d | None \<Rightarrow> d)"

definition dedup_scan :: "persisted_event list \<Rightarrow> bounded_dedup \<Rightarrow> bounded_dedup" where
  "dedup_scan es d = fold dedup_note es d"

section \<open>Specification\<close>

definition window_insert ::
  "nat \<Rightarrow> 'k \<Rightarrow> 'v \<Rightarrow> ('k \<times> 'v) list \<Rightarrow> ('k \<times> 'v) list" where
  "window_insert cap k v w =
    (if k \<in> fst ` set w then AList.update k v w
     else drop (Suc (length w) - cap) (w @ [(k, v)]))"

definition dedup_window :: "bounded_dedup \<Rightarrow> (dedup_key \<times> persisted_event) list" where
  "dedup_window d = map (\<lambda>k. (k, the (hm_get (bd_map d) k))) (bd_order d)"

text \<open>The invariant: the queue lists the keys of the map once each, and the map fits.\<close>

definition dedup_inv :: "bounded_dedup \<Rightarrow> bool" where
  "dedup_inv d \<longleftrightarrow> distinct (bd_order d) \<and> distinct (map fst (bd_map d)) \<and>
     set (bd_order d) = fst ` set (bd_map d) \<and> length (bd_map d) \<le> bd_cap d \<and> 1 \<le> bd_cap d"

section \<open>Lemmas\<close>

lemma dedup_inv_with_cap [intro!, simp]: "dedup_inv (dedup_with_cap c)"
  by (simp add: dedup_inv_def dedup_with_cap_def)

lemma dedup_inv_lengths:
  assumes "dedup_inv d"
  shows "length (bd_order d) = length (bd_map d)"
proof -
  have "length (bd_order d) = card (set (map fst (bd_map d)))"
    using assms by (simp add: dedup_inv_def distinct_card flip: distinct_card)
  then show ?thesis using assms by (simp only: dedup_inv_def distinct_card length_map)
qed

lemma dedup_evict_fits: "length m \<le> cap \<Longrightarrow> dedup_evict cap m q = (m, q)"
  by (cases q) auto

lemma dedup_evict_one:
  assumes "distinct (map fst m)" and "old \<in> fst ` set m" and "length m = Suc cap"
  shows "dedup_evict cap m (old # q) = (AList.delete old m, q)"
  using assms length_delete_present [OF assms(1,2)] by (simp add: dedup_evict_fits)

text \<open>The three outcomes of an insertion: overwrite, append, append and evict the oldest.\<close>

lemma dedup_insert_present:
  assumes "dedup_inv d" and "hm_get (bd_map d) k \<noteq> None"
  shows "dedup_insert k e d = d\<lparr>bd_map := hm_insert k e (bd_map d)\<rparr>"
  using assms by (auto simp: dedup_insert_def Let_def)

lemma dedup_insert_room:
  assumes "dedup_inv d" and "hm_get (bd_map d) k = None" and "length (bd_map d) < bd_cap d"
  shows "dedup_insert k e d =
    d\<lparr>bd_map := hm_insert k e (bd_map d), bd_order := bd_order d @ [k]\<rparr>"
  using assms by (simp add: dedup_insert_def Let_def dedup_evict_fits length_update)

lemma dedup_insert_full:
  assumes inv: "dedup_inv d" and new: "hm_get (bd_map d) k = None"
    and full: "length (bd_map d) = bd_cap d"
  obtains old rest where "bd_order d = old # rest" and "old \<noteq> k"
    and "dedup_insert k e d =
      d\<lparr>bd_map := AList.delete old (hm_insert k e (bd_map d)), bd_order := rest @ [k]\<rparr>"
proof -
  obtain old rest where q: "bd_order d = old # rest"
    using dedup_inv_lengths [OF inv] inv full by (cases "bd_order d") (auto simp: dedup_inv_def)
  have old: "old \<in> fst ` set (bd_map d)" using inv q by (auto simp: dedup_inv_def)
  then have ne: "old \<noteq> k" using new by (auto simp: map_of_eq_None_iff_fst)
  have "dedup_evict (bd_cap d) (hm_insert k e (bd_map d)) (old # rest @ [k]) =
      (AList.delete old (hm_insert k e (bd_map d)), rest @ [k])"
    by (rule dedup_evict_one)
      (use inv old new full in \<open>auto simp: dedup_inv_def length_update dom_update distinct_update\<close>)
  then show ?thesis using that [OF q ne] new q by (simp add: dedup_insert_def Let_def)
qed

lemma dedup_insert_cap [simp]: "bd_cap (dedup_insert k e d) = bd_cap d"
  by (simp add: dedup_insert_def Let_def split: prod.splits)

lemma dedup_insert_cases:
  assumes "dedup_inv d"
  obtains (present) "hm_get (bd_map d) k \<noteq> None"
  | (room) "hm_get (bd_map d) k = None" "length (bd_map d) < bd_cap d"
  | (full) "hm_get (bd_map d) k = None" "length (bd_map d) = bd_cap d"
  using assms by (cases "hm_get (bd_map d) k") (auto simp: dedup_inv_def le_less)

lemma dedup_inv_insert [intro]:
  assumes inv: "dedup_inv d"
  shows "dedup_inv (dedup_insert k e d)"
  using inv
proof (cases rule: dedup_insert_cases [where k = k])
  case present
  then have "k \<in> fst ` set (bd_map d)" by (auto simp: map_of_eq_None_iff_fst)
  with present inv show ?thesis
    by (auto simp: dedup_insert_present dedup_inv_def length_update distinct_update dom_update)
next
  case room
  with inv show ?thesis
    by (auto simp: dedup_insert_room dedup_inv_def length_update distinct_update dom_update
        map_of_eq_None_iff_fst)
next
  case full
  obtain old rest where o: "bd_order d = old # rest" "old \<noteq> k"
    "dedup_insert k e d =
      d\<lparr>bd_map := AList.delete old (hm_insert k e (bd_map d)), bd_order := rest @ [k]\<rparr>"
    using dedup_insert_full [OF inv full] .
  have old: "old \<in> fst ` set (hm_insert k e (bd_map d))"
    using inv o(1) by (auto simp: dedup_inv_def dom_update)
  have dist: "distinct (map fst (hm_insert k e (bd_map d)))"
    using inv by (simp add: dedup_inv_def distinct_update)
  have "length (AList.delete old (hm_insert k e (bd_map d))) = bd_cap d"
    using length_delete_present [OF dist old] full by (simp add: length_update)
  then show ?thesis using inv o(1,2) full dist
    by (auto simp: o(3) dedup_inv_def distinct_delete fst_set_delete dom_update map_of_eq_None_iff_fst)
qed

lemma dedup_inv_note [intro]: "dedup_inv d \<Longrightarrow> dedup_inv (dedup_note e d)"
  by (auto simp: dedup_note_def split: option.splits)

lemma dedup_inv_scan [intro]: "dedup_inv d \<Longrightarrow> dedup_inv (dedup_scan es d)"
  unfolding dedup_scan_def by (rule fold_invariant_step) auto

lemma dedup_scan_append: "dedup_scan (xs @ ys) d = dedup_scan ys (dedup_scan xs d)"
  by (simp add: dedup_scan_def)

lemma dedup_note_cap [simp]: "bd_cap (dedup_note e d) = bd_cap d"
  by (simp add: dedup_note_def split: option.splits)

lemma dedup_scan_cap [simp]: "bd_cap (dedup_scan es d) = bd_cap d"
  unfolding dedup_scan_def by (induction es arbitrary: d) auto


lemma dedup_window_keys: "map fst (dedup_window d) = bd_order d"
  by (simp add: dedup_window_def comp_def)

lemma dedup_window_update:
  assumes "distinct q" and "k \<in> set q"
  shows "map (\<lambda>j. (j, the (hm_get (hm_insert k e m) j))) q =
    AList.update k e (map (\<lambda>j. (j, the (hm_get m j))) q)"
  using assms by (induction q) (auto simp: map_of_update_conv intro!: map_cong)

lemma dedup_window_insert:
  assumes inv: "dedup_inv d"
  shows "dedup_window (dedup_insert k e d) = window_insert (bd_cap d) k e (dedup_window d)"
  using inv
proof (cases rule: dedup_insert_cases [where k = k])
  case present
  then have k: "k \<in> set (bd_order d)" using inv
    by (auto simp: dedup_inv_def map_of_eq_None_iff_fst)
  then have "k \<in> fst ` set (dedup_window d)" by (simp add: dedup_window_def image_image)
  with k present inv show ?thesis
    by (simp add: dedup_insert_present window_insert_def)
      (simp add: dedup_window_def dedup_window_update dedup_inv_def)
next
  case room
  then have k: "k \<notin> set (bd_order d)" using inv
    by (auto simp: dedup_inv_def map_of_eq_None_iff_fst)
  then have w: "k \<notin> fst ` set (dedup_window d)" by (simp add: dedup_window_def image_image)
  have l: "Suc (length (dedup_window d)) - bd_cap d = 0"
    using room dedup_inv_lengths [OF inv] by (simp add: dedup_window_def)
  show ?thesis using w l room inv k
    by (simp add: dedup_insert_room window_insert_def)
      (auto simp: dedup_window_def map_of_update_conv)
next
  case full
  obtain old rest where o: "bd_order d = old # rest" "old \<noteq> k"
    "dedup_insert k e d =
      d\<lparr>bd_map := AList.delete old (hm_insert k e (bd_map d)), bd_order := rest @ [k]\<rparr>"
    using dedup_insert_full [OF inv full] .
  have k: "k \<notin> set (bd_order d)" "old \<notin> set rest" using full inv o(1)
    by (auto simp: dedup_inv_def map_of_eq_None_iff_fst)
  then have w: "k \<notin> fst ` set (dedup_window d)" by (simp add: dedup_window_def image_image)
  have l: "Suc (length (dedup_window d)) - bd_cap d = 1"
    using full dedup_inv_lengths [OF inv] by (simp add: dedup_window_def)
  show ?thesis using w l k o(2)
    by (simp add: window_insert_def)
      (auto simp: o(1,3) dedup_window_def map_of_delete_conv map_of_update_conv)
qed

text \<open>
  A key that is followed by \<open>n\<close> others in the queue, of which at most \<open>cap - n - 1\<close> more
  arrive, stays.
\<close>

definition newer_than :: "dedup_key \<Rightarrow> bounded_dedup \<Rightarrow> nat" where
  "newer_than k d = length (dropWhile (\<lambda>j. j \<noteq> k) (bd_order d))"

lemma newer_than_insert:
  assumes inv: "dedup_inv d" and k: "k \<in> set (bd_order d)" and n: "newer_than k d < bd_cap d"
  shows "k \<in> set (bd_order (dedup_insert j e d)) \<and>
    newer_than k (dedup_insert j e d) \<le> Suc (newer_than k d)"
  using inv
proof (cases rule: dedup_insert_cases [where k = j])
  case full
  obtain old rest where o: "bd_order d = old # rest" "old \<noteq> j"
    "dedup_insert j e d =
      d\<lparr>bd_map := AList.delete old (hm_insert j e (bd_map d)), bd_order := rest @ [j]\<rparr>"
    using dedup_insert_full [OF inv full] .
  have "length (bd_order d) = bd_cap d" using full dedup_inv_lengths [OF inv] by simp
  then have "old \<noteq> k" using n o(1) by (auto simp: newer_than_def)
  with k o show ?thesis by (auto simp: newer_than_def dropWhile_append)
qed (use inv k in \<open>auto simp: dedup_insert_present dedup_insert_room newer_than_def dropWhile_append\<close>)

lemma dedup_retained:
  assumes "dedup_inv d" and "k \<in> set (bd_order d)" and "newer_than k d + length es \<le> bd_cap d"
  shows "k \<in> set (bd_order (dedup_scan es d))"
  using assms
proof (induction es arbitrary: d)
  case (Cons e es)
  show ?case
  proof (cases "dedup_key_of (pe_event e)")
    case None
    with Cons show ?thesis by (simp add: dedup_scan_def dedup_note_def)
  next
    case (Some j)
    have "k \<in> set (bd_order (dedup_insert j e d)) \<and>
        newer_than k (dedup_insert j e d) \<le> Suc (newer_than k d)"
      by (rule newer_than_insert) (use Cons.prems in auto)
    then show ?thesis using Cons.IH [of "dedup_insert j e d"] Cons.prems Some
      by (simp add: dedup_scan_def dedup_note_def dedup_inv_insert)
  qed
qed (simp add: dedup_scan_def)

lemma newer_than_fresh:
  assumes inv: "dedup_inv d" and new: "dedup_get d k = None"
  shows "k \<in> set (bd_order (dedup_insert k e d)) \<and> newer_than k (dedup_insert k e d) = 1"
proof -
  have k: "k \<notin> set (bd_order d)" using inv new
    by (auto simp: dedup_inv_def dedup_get_def map_of_eq_None_iff_fst)
  then have last: "length (dropWhile (\<lambda>j. j \<noteq> k) (q @ [k])) = 1" if "set q \<subseteq> set (bd_order d)" for q
    using that by (subst dropWhile_append2) auto
  from inv show ?thesis
  proof (cases rule: dedup_insert_cases [where k = k])
    case full
    obtain old rest where o: "bd_order d = old # rest" "old \<noteq> k"
      "dedup_insert k e d =
        d\<lparr>bd_map := AList.delete old (hm_insert k e (bd_map d)), bd_order := rest @ [k]\<rparr>"
      using dedup_insert_full [OF inv full] .
    then show ?thesis using last [of rest] by (auto simp: newer_than_def)
  qed (use inv new last [of "bd_order d"] in \<open>auto simp: dedup_get_def newer_than_def dedup_insert_room\<close>)
qed

section \<open>Properties\<close>

text \<open>
  The map and the queue together implement a first-in first-out window: on every
  insertion the window's list changes as the one-list specification says (overwrite in place,
  or append and drop the oldest beyond the capacity), and the invariant (the queue lists the
  keys of the map exactly once, at most capacity of them) is kept.
\<close>

theorem dedup_insert_refines_window:
  "dedup_inv d \<Longrightarrow>
    dedup_window (dedup_insert k e d) = window_insert (bd_cap d) k e (dedup_window d) \<and>
    dedup_inv (dedup_insert k e d) \<and> dedup_len (dedup_insert k e d) \<le> bd_cap d"
  using dedup_window_insert [of d k e] dedup_inv_insert [of d k e]
  by (simp add: dedup_len_def dedup_inv_def)

theorem dedup_insert_refines_window_witness:
  "dedup_window (dedup_insert (''p'', ''i'') (persisted_new (\<lambda>_ _ _ _. []) 0 0 (ErrorOccurred []) None)
     (dedup_with_cap 0)) =
   [((''p'', ''i''), persisted_new (\<lambda>_ _ _ _. []) 0 0 (ErrorOccurred []) None)]"
  using dedup_insert_refines_window [of "dedup_with_cap 0" "(''p'', ''i'')"
      "persisted_new (\<lambda>_ _ _ _. []) 0 0 (ErrorOccurred []) None"]
  by (simp add: window_insert_def dedup_window_def) (simp add: dedup_with_cap_def)

text \<open>
  The retention guarantee behind the capacity: once a new key has been entered, it is
  still found after any further stretch of the log shorter than the capacity, so a
  redelivery within that horizon is recognised as a duplicate.
\<close>

theorem dedup_retention_window:
  "dedup_inv d \<Longrightarrow> dedup_get d k = None \<Longrightarrow> length es < bd_cap d \<Longrightarrow>
    dedup_contains_key (dedup_scan es (dedup_insert k e d)) k"
  using newer_than_fresh [of d k e] dedup_retained [of "dedup_insert k e d" k es]
    dedup_inv_scan [of "dedup_insert k e d" es] dedup_inv_insert [of d k e]
  by (auto simp: dedup_contains_key_def dedup_inv_def map_of_eq_None_iff_fst)

theorem dedup_retention_window_witness:
  "dedup_contains_key (dedup_scan
      [persisted_new (\<lambda>_ _ _ _. []) 0 0 (TokenCreated (token_new_unit 0 0) ''p'' None None None (Some ''j'')) None]
      (dedup_insert (''p'', ''i'') (persisted_new (\<lambda>_ _ _ _. []) 0 0 (ErrorOccurred []) None)
        (dedup_with_cap 2))) (''p'', ''i'')"
  by (rule dedup_retention_window) (simp_all add: dedup_get_def, simp_all add: dedup_with_cap_def)

end
