(* ===== verification/Event_Store.thy ===== *)
theory Event_Store
  imports Dedup
begin

text \<open>
  The event store: the repository interface \<open>EventRepository\<close> of
  \<^verbatim>\<open>src/engine/core-engine/crates/application/src/ports.rs\<close> with its default methods, the
  hibernation snapshot of \<^verbatim>\<open>application/src/net_snapshot.rs\<close>, and the bounded in-memory
  store of \<^verbatim>\<open>infrastructure/src/memory_event_store.rs\<close>, which keeps a folded base (a
  marking, a dedup window, a hash, a count) and a tail of recent events limited by their
  serialized size. The digest and the serialized sizes are part of the configuration, since
  they come from the hashing and serialization libraries. The clock reading of an append is
  an argument. The interface's laws are the locale \<open>event_repository\<close>: a relation between
  stores and the full history they stand for. The lemmas show that the bounded store obeys
  the laws through appends, loads, evictions, hibernation and wake.
\<close>

section \<open>The repository interface\<close>

datatype event_store_error = PersistFailed string | Timeout

record 'st event_repo =
  er_append :: "time \<Rightarrow> domain_event \<Rightarrow> 'st \<Rightarrow> (event_store_error, persisted_event) result \<times> 'st"
  er_all_events :: "'st \<Rightarrow> persisted_event list"
  er_reset :: "'st \<Rightarrow> 'st"
  er_current_sequence :: "'st \<Rightarrow> nat"
  er_len :: "'st \<Rightarrow> nat"
  er_materialized_floor :: "'st \<Rightarrow> nat"
  er_earliest_available_sequence :: "'st \<Rightarrow> nat option"
  er_events_from :: "'st \<Rightarrow> nat \<Rightarrow> persisted_event list"
  er_events_from_checked :: "'st \<Rightarrow> nat \<Rightarrow> persisted_event list option"
  er_marking_base :: "'st \<Rightarrow> marking \<times> persisted_event list \<times> nat"
  er_last_hash :: "'st \<Rightarrow> string option"
  er_dedup_seed :: "'st \<Rightarrow> bounded_dedup"

text \<open>
  The trait's default methods, which a store that keeps every event inherits. Each reads the
  list \<open>all_events()\<close> returns.
\<close>

definition default_len :: "persisted_event list \<Rightarrow> nat" where
  "default_len al = length al"

definition default_earliest :: "persisted_event list \<Rightarrow> nat option" where
  "default_earliest al = (case al of [] \<Rightarrow> None | e # _ \<Rightarrow> Some (pe_sequence e))"

definition default_events_from :: "persisted_event list \<Rightarrow> nat \<Rightarrow> persisted_event list" where
  "default_events_from al i = drop (min i (length al)) al"

definition default_events_from_checked ::
  "persisted_event list \<Rightarrow> nat \<Rightarrow> persisted_event list option" where
  "default_events_from_checked al i = Some (default_events_from al i)"

definition default_marking_base ::
  "persisted_event list \<Rightarrow> marking \<times> persisted_event list \<times> nat" where
  "default_marking_base al = (marking_new, al, length al)"

definition default_last_hash :: "persisted_event list \<Rightarrow> string option" where
  "default_last_hash al = (if al = [] then None else Some (pe_hash (last al)))"

definition default_dedup_seed :: "nat \<Rightarrow> persisted_event list \<Rightarrow> bounded_dedup" where
  "default_dedup_seed cap al = dedup_scan al (dedup_with_cap cap)"

text \<open>
  The laws a caller relies on. \<open>R s h\<close>: the store \<open>s\<close> stands for the history \<open>h\<close>, the full
  sequence of events in storage order, of which the store may have dropped a prefix.
\<close>

locale event_repository =
  fixes E :: "'st event_repo" and R :: "'st \<Rightarrow> persisted_event list \<Rightarrow> bool"
  assumes append_ok: "R s h \<Longrightarrow> er_append E now e s = (Inr p, s') \<Longrightarrow>
      R s' (h @ [p]) \<and> pe_event p = e"
    and append_err: "R s h \<Longrightarrow> er_append E now e s = (Inl err, s') \<Longrightarrow> R s' h"
    and len_law: "R s h \<Longrightarrow> er_len E s = length h"
    and checked_law: "R s h \<Longrightarrow> er_events_from_checked E s i = Some es \<Longrightarrow> es = drop i h"
    and base_law: "R s h \<Longrightarrow> er_marking_base E s = (b, ts, n) \<Longrightarrow>
      project_onto b ts = project_marking h \<and> n = length h"
    and reset_law: "R s h \<Longrightarrow> R (er_reset E s) []"

section \<open>Hibernation snapshots\<close>

record dedup_entry =
  de_place_id :: string
  de_dedup_id :: string
  de_event :: persisted_event

record net_snapshot =
  ns_marking :: marking
  ns_dedup :: "dedup_entry list"
  ns_last_hash :: "string option"
  ns_event_count :: nat
  ns_next_sequence :: nat
  ns_last_stream_seq :: nat
  ns_topology :: "petri_net option"
  ns_version :: nat

definition SNAPSHOT_VERSION :: nat where
  "SNAPSHOT_VERSION = 2"

record snapshot_inputs =
  si_marking :: marking
  si_dedup :: bounded_dedup
  si_last_hash :: "string option"
  si_event_count :: nat
  si_next_sequence :: nat
  si_last_stream_seq :: nat
  si_topology :: "petri_net option"

text \<open>
  \<open>dedup_entries\<close> walks the hash map of the window, whose iteration order is not specified:
  \<open>it\<close> is the order the walk happens to take.
\<close>

type_synonym iteration =
  "(dedup_key \<times> persisted_event) list \<Rightarrow> (dedup_key \<times> persisted_event) list"

definition snapshot_dedup_entries :: "iteration \<Rightarrow> bounded_dedup \<Rightarrow> dedup_entry list" where
  "snapshot_dedup_entries it d =
    map (\<lambda>((p, i), e). \<lparr>de_place_id = p, de_dedup_id = i, de_event = e\<rparr>) (it (bd_map d))"

definition snapshot_dedup_seed :: "net_snapshot \<Rightarrow> nat \<Rightarrow> bounded_dedup" where
  "snapshot_dedup_seed sn cap =
    fold (\<lambda>e. dedup_insert (de_place_id e, de_dedup_id e) (de_event e)) (ns_dedup sn)
      (dedup_with_cap cap)"

definition into_snapshot :: "iteration \<Rightarrow> snapshot_inputs \<Rightarrow> net_snapshot" where
  "into_snapshot it si = \<lparr>ns_marking = si_marking si,
     ns_dedup = snapshot_dedup_entries it (si_dedup si), ns_last_hash = si_last_hash si,
     ns_event_count = si_event_count si, ns_next_sequence = si_next_sequence si,
     ns_last_stream_seq = si_last_stream_seq si, ns_topology = si_topology si,
     ns_version = SNAPSHOT_VERSION\<rparr>"

section \<open>The bounded in-memory store\<close>

record store_cfg =
  sc_digest :: digest
  sc_ser_len :: "persisted_event \<Rightarrow> nat"
  sc_ser_marking :: "marking \<Rightarrow> nat"
  sc_tail_cap :: nat
  sc_dedup_cap :: nat

record inner =
  base_count :: nat
  base_marking :: marking
  base_dedup :: bounded_dedup
  base_last_hash :: "string option"
  tail :: "persisted_event list"
  tail_bytes :: nat
  next_sequence :: nat
  last_applied_stream_seq :: nat

definition inner_empty :: "store_cfg \<Rightarrow> inner" where
  "inner_empty c = \<lparr>base_count = 0, base_marking = marking_new,
     base_dedup = dedup_with_cap (sc_dedup_cap c), base_last_hash = None, tail = [],
     tail_bytes = 0, next_sequence = 0, last_applied_stream_seq = 0\<rparr>"

definition mem_len :: "inner \<Rightarrow> nat" where
  "mem_len g = base_count g + length (tail g)"

definition chain_tip_hash :: "inner \<Rightarrow> string option" where
  "chain_tip_hash g = (if tail g = [] then base_last_hash g else Some (pe_hash (last (tail g))))"

text \<open>One turn of the eviction loop, and the loop; every turn shortens the tail.\<close>

definition evict_front :: "store_cfg \<Rightarrow> persisted_event \<Rightarrow> persisted_event list \<Rightarrow> inner \<Rightarrow> inner" where
  "evict_front c old rest g = g\<lparr>
     tail := rest,
     tail_bytes := tail_bytes g - sc_ser_len c old,
     base_marking := apply_event_to_marking (pe_event old) (base_marking g),
     base_dedup := dedup_note old (base_dedup g),
     base_count := base_count g + 1,
     base_last_hash := Some (pe_hash old)\<rparr>"

function evict_tail :: "store_cfg \<Rightarrow> inner \<Rightarrow> inner" where
  "evict_tail c g =
    (if tail_bytes g > sc_tail_cap c \<and> length (tail g) > 1
     then evict_tail c (evict_front c (hd (tail g)) (tl (tail g)) g) else g)"
  by pat_completeness auto
termination
  by (relation "measure (\<lambda>(c, g). length (tail g))") (auto simp: evict_front_def)

declare evict_tail.simps [simp del]

definition push_tail :: "store_cfg \<Rightarrow> persisted_event \<Rightarrow> inner \<Rightarrow> inner" where
  "push_tail c e g =
    evict_tail c (g\<lparr>tail_bytes := tail_bytes g + sc_ser_len c e, tail := tail g @ [e]\<rparr>)"

definition mem_load :: "store_cfg \<Rightarrow> persisted_event \<Rightarrow> nat \<Rightarrow> inner \<Rightarrow> inner" where
  "mem_load c e stream_seq g =
    push_tail c e (g\<lparr>next_sequence := max (next_sequence g) (pe_sequence e + 1),
      last_applied_stream_seq := max (last_applied_stream_seq g) stream_seq\<rparr>)"

definition mem_dedup_seed :: "inner \<Rightarrow> bounded_dedup" where
  "mem_dedup_seed g = dedup_scan (tail g) (base_dedup g)"

definition mem_snapshot_inputs :: "inner \<Rightarrow> snapshot_inputs" where
  "mem_snapshot_inputs g = \<lparr>si_marking = project_onto (base_marking g) (tail g),
     si_dedup = dedup_scan (tail g) (base_dedup g), si_last_hash = chain_tip_hash g,
     si_event_count = mem_len g, si_next_sequence = next_sequence g,
     si_last_stream_seq = last_applied_stream_seq g, si_topology = None\<rparr>"

definition mem_seed_from_snapshot :: "store_cfg \<Rightarrow> net_snapshot \<Rightarrow> inner \<Rightarrow> inner" where
  "mem_seed_from_snapshot c sn g = g\<lparr>
     base_marking := ns_marking sn,
     base_dedup := snapshot_dedup_seed sn (sc_dedup_cap c),
     base_last_hash := ns_last_hash sn,
     base_count := ns_event_count sn,
     next_sequence := ns_next_sequence sn,
     last_applied_stream_seq := ns_last_stream_seq sn,
     tail := [],
     tail_bytes := 0\<rparr>"

definition mem_append :: "store_cfg \<Rightarrow> time \<Rightarrow> domain_event \<Rightarrow> inner \<Rightarrow>
    (event_store_error, persisted_event) result \<times> inner" where
  "mem_append c now e g =
    (let p = persisted_new (sc_digest c) now (next_sequence g) e (chain_tip_hash g)
     in (Inr p, push_tail c p (g\<lparr>next_sequence := next_sequence g + 1\<rparr>)))"

definition mem_all_events :: "inner \<Rightarrow> persisted_event list" where
  "mem_all_events g = tail g"

definition mem_events_since :: "inner \<Rightarrow> nat \<Rightarrow> persisted_event list" where
  "mem_events_since g n = filter (\<lambda>e. pe_sequence e \<ge> n) (tail g)"

definition mem_earliest :: "inner \<Rightarrow> nat option" where
  "mem_earliest g = (case tail g of
      e # _ \<Rightarrow> Some (pe_sequence e)
    | [] \<Rightarrow> if base_count g > 0 then Some (next_sequence g) else None)"

definition mem_events_from :: "inner \<Rightarrow> nat \<Rightarrow> persisted_event list" where
  "mem_events_from g i =
    (if i \<ge> base_count g + length (tail g) then [] else drop (i - base_count g) (tail g))"

definition mem_events_from_checked :: "inner \<Rightarrow> nat \<Rightarrow> persisted_event list option" where
  "mem_events_from_checked g i =
    (if i < base_count g then None else Some (drop (i - base_count g) (tail g)))"

definition mem_marking_base :: "inner \<Rightarrow> marking \<times> persisted_event list \<times> nat" where
  "mem_marking_base g = (base_marking g, tail g, base_count g + length (tail g))"

definition mem_write_cursor :: "inner \<Rightarrow> nat \<times> string option" where
  "mem_write_cursor g = (next_sequence g, chain_tip_hash g)"

definition memory_repo :: "store_cfg \<Rightarrow> inner event_repo" where
  "memory_repo c = \<lparr>er_append = mem_append c, er_all_events = mem_all_events,
     er_reset = (\<lambda>_. inner_empty c), er_current_sequence = next_sequence, er_len = mem_len,
     er_materialized_floor = base_count, er_earliest_available_sequence = mem_earliest,
     er_events_from = mem_events_from, er_events_from_checked = mem_events_from_checked,
     er_marking_base = mem_marking_base, er_last_hash = chain_tip_hash,
     er_dedup_seed = mem_dedup_seed\<rparr>"

text \<open>The memory report of the store, with the sizes the serializer gives.\<close>

record event_store_memory =
  esm_tail_bytes :: nat
  esm_tail_events :: nat
  esm_base_marking_bytes :: nat
  esm_base_dedup_bytes :: nat
  esm_base_dedup_entries :: nat
  esm_base_count :: nat
  esm_event_count :: nat
  esm_total_bytes :: nat

definition esm_finalize :: "event_store_memory \<Rightarrow> event_store_memory" where
  "esm_finalize r =
    r\<lparr>esm_total_bytes := esm_tail_bytes r + esm_base_marking_bytes r + esm_base_dedup_bytes r\<rparr>"

definition dedup_seed_bytes :: "(persisted_event \<Rightarrow> nat) \<Rightarrow> bounded_dedup \<Rightarrow> nat" where
  "dedup_seed_bytes ser d =
    sum_list (map (\<lambda>((p, i), e). ser e + length p + length i) (bd_map d))"

definition mem_memory_report :: "store_cfg \<Rightarrow> inner \<Rightarrow> event_store_memory" where
  "mem_memory_report c g = esm_finalize \<lparr>esm_tail_bytes = tail_bytes g,
     esm_tail_events = length (tail g), esm_base_marking_bytes = sc_ser_marking c (base_marking g),
     esm_base_dedup_bytes = dedup_seed_bytes (sc_ser_len c) (base_dedup g),
     esm_base_dedup_entries = dedup_len (base_dedup g), esm_base_count = base_count g,
     esm_event_count = mem_len g, esm_total_bytes = 0\<rparr>"


section \<open>The store stands for the full history\<close>

definition store_rep :: "store_cfg \<Rightarrow> inner \<Rightarrow> persisted_event list \<Rightarrow> bool" where
  "store_rep c g h \<longleftrightarrow> base_count g \<le> length h \<and> tail g = drop (base_count g) h \<and>
     base_marking g = project_marking (take (base_count g) h) \<and>
     base_last_hash g = default_last_hash (take (base_count g) h) \<and>
     tail_bytes g = sum_list (map (sc_ser_len c) (tail g))"

definition dedup_rep :: "store_cfg \<Rightarrow> inner \<Rightarrow> persisted_event list \<Rightarrow> bool" where
  "dedup_rep c g h \<longleftrightarrow>
     base_dedup g = default_dedup_seed (sc_dedup_cap c) (take (base_count g) h)"

lemma store_rep_empty [intro!]: "store_rep c (inner_empty c) []"
  by (simp add: store_rep_def inner_empty_def project_marking_def default_last_hash_def)

lemma dedup_rep_empty [intro!]: "dedup_rep c (inner_empty c) []"
  by (simp add: dedup_rep_def inner_empty_def default_dedup_seed_def dedup_scan_def)

lemma take_Suc_drop:
  assumes "drop n h = x # xs"
  shows "take (Suc n) h = take n h @ [x]" and "drop (Suc n) h = xs" and "Suc n \<le> length h"
proof -
  have n: "n < length h" using assms by (metis drop_eq_Nil leI list.distinct(1))
  then have "x = h ! n" "xs = drop (Suc n) h" using assms Cons_nth_drop_Suc [OF n] by auto
  then show "take (Suc n) h = take n h @ [x]" "drop (Suc n) h = xs" "Suc n \<le> length h"
    using n by (auto simp: take_Suc_conv_app_nth)
qed

lemma store_rep_evict_front:
  assumes "store_rep c g h" and "tail g = old # rest"
  shows "store_rep c (evict_front c old rest g) h"
proof -
  have "drop (base_count g) h = old # rest" using assms by (simp add: store_rep_def)
  note t = take_Suc_drop [OF this]
  show ?thesis using assms t(3)
    by (simp add: store_rep_def evict_front_def t(1,2) project_marking_append project_onto_Cons
        default_last_hash_def)
qed

lemma dedup_rep_evict_front:
  assumes "store_rep c g h" and "dedup_rep c g h" and "tail g = old # rest"
  shows "dedup_rep c (evict_front c old rest g) h"
proof -
  have "drop (base_count g) h = old # rest" using assms by (simp add: store_rep_def)
  note t = take_Suc_drop [OF this]
  show ?thesis using assms(2)
    by (simp add: dedup_rep_def evict_front_def t(1) default_dedup_seed_def dedup_scan_append)
      (simp add: dedup_scan_def)
qed

lemma evict_tail_rule:
  assumes "P g" and "\<And>g old rest. P g \<Longrightarrow> tail g = old # rest \<Longrightarrow> rest \<noteq> [] \<Longrightarrow>
      P (evict_front c old rest g)"
  shows "P (evict_tail c g)"
  using assms(1)
proof (induction "length (tail g)" arbitrary: g rule: less_induct)
  case less
  show ?case
  proof (cases "tail_bytes g > sc_tail_cap c \<and> length (tail g) > 1")
    case True
    then obtain old rest where t: "tail g = old # rest" "rest \<noteq> []" by (cases "tail g") auto
    have "P (evict_tail c (evict_front c old rest g))"
      by (rule less.hyps) (use t less.prems assms(2) in \<open>auto simp: evict_front_def\<close>)
    then show ?thesis using True t by (subst evict_tail.simps) simp
  next
    case False
    then show ?thesis using less.prems by (subst evict_tail.simps) auto
  qed
qed

lemma evict_tail_frame [simp]:
  "next_sequence (evict_tail c g) = next_sequence g"
  "last_applied_stream_seq (evict_tail c g) = last_applied_stream_seq g"
  by (rule evict_tail_rule [of "\<lambda>g'. next_sequence g' = next_sequence g"],
      simp_all add: evict_front_def)
    (rule evict_tail_rule [of "\<lambda>g'. last_applied_stream_seq g' = last_applied_stream_seq g"],
      simp_all add: evict_front_def)

lemma push_tail_frame [simp]:
  "next_sequence (push_tail c e g) = next_sequence g"
  "last_applied_stream_seq (push_tail c e g) = last_applied_stream_seq g"
  by (simp_all add: push_tail_def)

lemma store_rep_pushed:
  "store_rep c g h \<Longrightarrow>
    store_rep c (g\<lparr>tail_bytes := tail_bytes g + sc_ser_len c e, tail := tail g @ [e]\<rparr>) (h @ [e])"
  by (auto simp: store_rep_def)

lemma store_rep_push_tail [intro]:
  assumes "store_rep c g h"
  shows "store_rep c (push_tail c e g) (h @ [e])"
  unfolding push_tail_def
  by (rule evict_tail_rule) (auto intro: store_rep_evict_front store_rep_pushed assms)

lemma dedup_rep_push_tail [intro]:
  assumes "store_rep c g h" and "dedup_rep c g h"
  shows "dedup_rep c (push_tail c e g) (h @ [e])"
proof -
  let ?P = "\<lambda>g. store_rep c g (h @ [e]) \<and> dedup_rep c g (h @ [e])"
  have "?P (push_tail c e g)"
    unfolding push_tail_def
  proof (rule evict_tail_rule)
    show "?P (g\<lparr>tail_bytes := tail_bytes g + sc_ser_len c e, tail := tail g @ [e]\<rparr>)"
      using assms store_rep_pushed by (auto simp: dedup_rep_def store_rep_def)
  qed (auto intro: store_rep_evict_front dedup_rep_evict_front)
  then show ?thesis ..
qed

text \<open>The loop stops under the cap or with a single event left; it never empties the tail.\<close>

lemma evict_tail_bound:
  "tail_bytes (evict_tail c g) \<le> sc_tail_cap c \<or> length (tail (evict_tail c g)) \<le> 1"
proof (induction c g rule: evict_tail.induct)
  case (1 c g)
  show ?case
  proof (cases "tail_bytes g > sc_tail_cap c \<and> length (tail g) > 1")
    case True
    then have "evict_tail c g = evict_tail c (evict_front c (hd (tail g)) (tl (tail g)) g)"
      by (subst evict_tail.simps) (rule if_P)
    then show ?thesis using 1 [OF True] by simp
  next
    case False
    then have "evict_tail c g = g" by (subst evict_tail.simps) (rule if_not_P)
    then show ?thesis using False by auto
  qed
qed

lemma push_tail_bound:
  "tail_bytes (push_tail c e g) \<le> sc_tail_cap c \<or> length (tail (push_tail c e g)) \<le> 1"
  unfolding push_tail_def by (rule evict_tail_bound)

lemma evict_tail_nonempty: "tail g \<noteq> [] \<Longrightarrow> tail (evict_tail c g) \<noteq> []"
  by (rule evict_tail_rule) (auto simp: evict_front_def)

lemma store_rep_frame [simp]:
  "store_rep c (g\<lparr>next_sequence := n\<rparr>) h = store_rep c g h"
  "store_rep c (g\<lparr>last_applied_stream_seq := n\<rparr>) h = store_rep c g h"
  "dedup_rep c (g\<lparr>next_sequence := n\<rparr>) h = dedup_rep c g h"
  "dedup_rep c (g\<lparr>last_applied_stream_seq := n\<rparr>) h = dedup_rep c g h"
  by (simp_all add: store_rep_def dedup_rep_def)

lemma store_rep_tip: "store_rep c g h \<Longrightarrow> chain_tip_hash g = default_last_hash h"
  by (cases "length h \<le> base_count g")
    (auto simp: store_rep_def chain_tip_hash_def default_last_hash_def last_drop)

lemma store_rep_marking:
  "store_rep c g h \<Longrightarrow> project_onto (base_marking g) (tail g) = project_marking h"
  by (simp add: store_rep_def flip: project_marking_append)

lemma store_rep_len: "store_rep c g h \<Longrightarrow> mem_len g = length h"
  by (simp add: store_rep_def mem_len_def)

lemma dedup_rep_seed:
  "store_rep c g h \<Longrightarrow> dedup_rep c g h \<Longrightarrow>
    mem_dedup_seed g = default_dedup_seed (sc_dedup_cap c) h"
  by (simp add: store_rep_def dedup_rep_def mem_dedup_seed_def default_dedup_seed_def
      flip: dedup_scan_append)

lemma store_rep_append:
  "store_rep c g h \<Longrightarrow> mem_append c now e g = (Inr p, g') \<Longrightarrow>
    store_rep c g' (h @ [p]) \<and> pe_event p = e"
  by (auto simp: mem_append_def Let_def persisted_new_def intro!: store_rep_push_tail)

lemma store_rep_load: "store_rep c g h \<Longrightarrow> store_rep c (mem_load c e n g) (h @ [e])"
  by (auto simp: mem_load_def intro!: store_rep_push_tail)

lemma store_rep_wake:
  assumes "store_rep c g h"
  shows "store_rep c (mem_seed_from_snapshot c (into_snapshot it (mem_snapshot_inputs g)) g0) h"
  using store_rep_marking [OF assms] store_rep_tip [OF assms] store_rep_len [OF assms]
  by (simp add: store_rep_def mem_seed_from_snapshot_def into_snapshot_def mem_snapshot_inputs_def)

interpretation mem: event_repository "memory_repo c" "store_rep c" for c
proof
  fix s h now e p s'
  show "store_rep c s h \<Longrightarrow> er_append (memory_repo c) now e s = (Inr p, s') \<Longrightarrow>
      store_rep c s' (h @ [p]) \<and> pe_event p = e"
    by (simp add: memory_repo_def store_rep_append)
next
  fix s h i es
  show "store_rep c s h \<Longrightarrow> er_events_from_checked (memory_repo c) s i = Some es \<Longrightarrow> es = drop i h"
    by (auto simp: memory_repo_def mem_events_from_checked_def store_rep_def split: if_splits)
next
  fix s h b ts n
  show "store_rep c s h \<Longrightarrow> er_marking_base (memory_repo c) s = (b, ts, n) \<Longrightarrow>
      project_onto b ts = project_marking h \<and> n = length h"
    using store_rep_marking [of c s h] store_rep_len [of c s h]
    by (auto simp: memory_repo_def mem_marking_base_def mem_len_def)
qed (auto simp: memory_repo_def mem_append_def Let_def store_rep_len)


section \<open>Runs of the store\<close>

text \<open>
  The states a store goes through, with the history it should stand for. The flags say
  whether the run may load foreign events (hydration from the durable log) and whether it may
  hibernate and wake in a fresh store; the hash map is walked in any order when it does.
\<close>

inductive store_run :: "store_cfg \<Rightarrow> bool \<Rightarrow> bool \<Rightarrow> inner \<Rightarrow> persisted_event list \<Rightarrow> bool"
  for c loads wakes where
  run_init: "store_run c loads wakes (inner_empty c) []"
| run_append: "store_run c loads wakes g h \<Longrightarrow> mem_append c now e g = (Inr p, g') \<Longrightarrow>
    store_run c loads wakes g' (h @ [p])"
| run_load: "loads \<Longrightarrow> store_run c loads wakes g h \<Longrightarrow>
    store_run c loads wakes (mem_load c e n g) (h @ [e])"
| run_wake: "wakes \<Longrightarrow> store_run c loads wakes g h \<Longrightarrow> mset (it (bd_map (mem_dedup_seed g))) =
      mset (bd_map (mem_dedup_seed g)) \<Longrightarrow>
    store_run c loads wakes
      (mem_seed_from_snapshot c (into_snapshot it (mem_snapshot_inputs g)) (inner_empty c)) h"
| run_reset: "store_run c loads wakes g h \<Longrightarrow>
    store_run c loads wakes (er_reset (memory_repo c) g) []"

lemma store_run_rep: "store_run c l w g h \<Longrightarrow> store_rep c g h"
  by (induction rule: store_run.induct)
    (auto simp: store_rep_append store_rep_load store_rep_wake memory_repo_def)

lemma mem_append_rep:
  assumes "mem_append c now e g = (Inr p, g')"
  shows "p = persisted_new (sc_digest c) now (next_sequence g) e (chain_tip_hash g)"
    and "next_sequence g' = Suc (next_sequence g)"
    and "dedup_rep c g h \<Longrightarrow> store_rep c g h \<Longrightarrow> dedup_rep c g' (h @ [p])"
  using assms by (auto simp: mem_append_def Let_def intro!: dedup_rep_push_tail)

lemma store_run_chain:
  "store_run c False w g h \<Longrightarrow> verify_event_chain (sc_digest c) h \<and> next_sequence g = length h"
proof (induction rule: store_run.induct)
  case (run_append g h now e p g')
  note rep = store_run_rep [OF run_append.hyps(1)]
  have p: "p = persisted_new (sc_digest c) now (length h) e (default_last_hash h)"
    using mem_append_rep(1) [OF run_append.hyps(2)] run_append.IH store_rep_tip [OF rep] by simp
  then show ?case using mem_append_rep(2) [OF run_append.hyps(2)] run_append.IH
    by (simp add: verify_event_chain_snoc)
      (simp add: persisted_new_def verify_hash_def chain_link_ok_def default_last_hash_def,
        metis append_butlast_last_id length_append_singleton verify_event_chain_snoc)
qed (auto simp: inner_empty_def mem_seed_from_snapshot_def into_snapshot_def
    mem_snapshot_inputs_def memory_repo_def)

lemma store_run_dedup: "store_run c l False g h \<Longrightarrow> dedup_rep c g h"
proof (induction rule: store_run.induct)
  case (run_append g h now e p g')
  then show ?case using mem_append_rep(3) store_run_rep by blast
next
  case (run_load g h e n)
  then show ?case using store_run_rep by (auto simp: mem_load_def intro!: dedup_rep_push_tail)
qed (auto simp: memory_repo_def)

lemma store_run_bound:
  "store_run c l w g h \<Longrightarrow> tail_bytes g \<le> sc_tail_cap c \<or> length (tail g) \<le> 1"
proof (induction rule: store_run.induct)
  case (run_append g h now e p g')
  then show ?case using push_tail_bound by (auto simp: mem_append_def Let_def)
next
  case (run_load g h e n)
  show ?case unfolding mem_load_def by (rule push_tail_bound)
qed (auto simp: inner_empty_def memory_repo_def mem_seed_from_snapshot_def)


text \<open>Refilling an empty window from entries that fit keeps them all, in the order given.\<close>

lemma update_absent: "k \<notin> fst ` set al \<Longrightarrow> AList.update k v al = al @ [(k, v)]"
  by (induction al) auto

lemma dedup_refill:
  assumes "dedup_inv d" and "distinct (map fst (bd_map d @ xs))"
    and "length (bd_map d) + length xs \<le> bd_cap d"
  shows "fold (\<lambda>(k, e). dedup_insert k e) xs d =
    d\<lparr>bd_map := bd_map d @ xs, bd_order := bd_order d @ map fst xs\<rparr>"
  using assms
proof (induction xs arbitrary: d)
  case (Cons x xs)
  obtain k e where x: "x = (k, e)" by (cases x)
  have k: "k \<notin> fst ` set (bd_map d)" using Cons.prems(2) by (auto simp: x)
  have step: "dedup_insert k e d = d\<lparr>bd_map := bd_map d @ [(k, e)], bd_order := bd_order d @ [k]\<rparr>"
    using dedup_insert_room [of d k e] Cons.prems k update_absent [of k "bd_map d" e]
    by (simp add: map_of_eq_None_iff_fst)
  have inv: "dedup_inv (dedup_insert k e d)" using Cons.prems(1) by blast
  have "fold (\<lambda>(k, e). dedup_insert k e) xs (dedup_insert k e d) =
      (dedup_insert k e d)\<lparr>bd_map := bd_map (dedup_insert k e d) @ xs,
        bd_order := bd_order (dedup_insert k e d) @ map fst xs\<rparr>"
    by (rule Cons.IH [OF inv]) (use Cons.prems(2,3) in \<open>simp_all add: step x\<close>)
  then show ?case by (simp add: step x)
qed simp

lemma snapshot_dedup_seed_entries:
  "snapshot_dedup_seed (into_snapshot it si) cap =
    fold (\<lambda>(k, e). dedup_insert k e) (it (bd_map (si_dedup si))) (dedup_with_cap cap)"
  by (simp add: snapshot_dedup_seed_def into_snapshot_def snapshot_dedup_entries_def fold_map
      comp_def case_prod_unfold)

lemma snapshot_dedup_seed_refill:
  assumes inv: "dedup_inv (si_dedup si)" and cap: "bd_cap (si_dedup si) = max cap 1"
    and it: "mset (it (bd_map (si_dedup si))) = mset (bd_map (si_dedup si))"
  shows "snapshot_dedup_seed (into_snapshot it si) cap =
    \<lparr>bd_map = it (bd_map (si_dedup si)), bd_order = map fst (it (bd_map (si_dedup si))),
     bd_cap = max cap 1\<rparr>"
proof -
  have "mset (map fst (it (bd_map (si_dedup si)))) = mset (map fst (bd_map (si_dedup si)))"
    using it by simp
  then have d: "distinct (map fst (it (bd_map (si_dedup si))))"
    using inv mset_eq_imp_distinct_iff unfolding dedup_inv_def by blast
  have "length (it (bd_map (si_dedup si))) \<le> max cap 1"
    using inv cap mset_eq_length [OF it] by (simp add: dedup_inv_def)
  then show ?thesis unfolding snapshot_dedup_seed_entries
    using dedup_refill [of "dedup_with_cap cap" "it (bd_map (si_dedup si))"] d
      dedup_inv_with_cap [of cap] by (simp add: dedup_with_cap_def)
qed

lemma store_run_dedup_inv:
  "store_run c l w g h \<Longrightarrow>
    dedup_inv (base_dedup g) \<and> bd_cap (base_dedup g) = max (sc_dedup_cap c) 1"
proof (induction rule: store_run.induct)
  case (run_append g h now e p g')
  let ?P = "\<lambda>g. dedup_inv (base_dedup g) \<and> bd_cap (base_dedup g) = max (sc_dedup_cap c) 1"
  have "?P (push_tail c q (g\<lparr>next_sequence := n\<rparr>))" for q n unfolding push_tail_def
    by (rule evict_tail_rule [of ?P]) (use run_append.IH in \<open>auto simp: evict_front_def\<close>)
  then show ?case using run_append.hyps(2) by (auto simp: mem_append_def Let_def)
next
  case (run_load g h e n)
  let ?P = "\<lambda>g. dedup_inv (base_dedup g) \<and> bd_cap (base_dedup g) = max (sc_dedup_cap c) 1"
  have "?P (mem_load c e n g)" unfolding mem_load_def push_tail_def
    by (rule evict_tail_rule [of ?P]) (use run_load.IH in \<open>auto simp: evict_front_def\<close>)
  then show ?case .
next
  case (run_wake g h it)
  have *: "dedup_inv (si_dedup (mem_snapshot_inputs g))"
    "bd_cap (si_dedup (mem_snapshot_inputs g)) = max (sc_dedup_cap c) 1"
    using run_wake.IH by (auto simp: mem_snapshot_inputs_def)
  have it: "mset (it (bd_map (si_dedup (mem_snapshot_inputs g)))) =
      mset (bd_map (si_dedup (mem_snapshot_inputs g)))"
    using run_wake.hyps(3) by (simp add: mem_snapshot_inputs_def mem_dedup_seed_def)
  have "fold (\<lambda>(k, e). dedup_insert k e) xs (dedup_with_cap n) = d \<Longrightarrow>
      dedup_inv d" for xs n d
    using fold_invariant_step [of dedup_inv "dedup_with_cap n" xs "\<lambda>(k, e). dedup_insert k e"]
    by auto
  then have "dedup_inv (snapshot_dedup_seed (into_snapshot it (mem_snapshot_inputs g)) (sc_dedup_cap c))"
    by (simp add: snapshot_dedup_seed_entries)
  then show ?case using snapshot_dedup_seed_refill [where it = it, OF *(1,2) it]
    by (simp add: mem_seed_from_snapshot_def)
qed (auto simp: inner_empty_def memory_repo_def, simp_all add: dedup_with_cap_def)

lemma wake_dedup_lookup:
  assumes "store_run c l w g h"
    and "mset (it (bd_map (mem_dedup_seed g))) = mset (bd_map (mem_dedup_seed g))"
  shows "dedup_get (mem_dedup_seed (mem_seed_from_snapshot c
      (into_snapshot it (mem_snapshot_inputs g)) g0)) k = dedup_get (mem_dedup_seed g) k"
proof -
  let ?m = "bd_map (mem_dedup_seed g)"
  have inv: "dedup_inv (mem_dedup_seed g)" "bd_cap (mem_dedup_seed g) = max (sc_dedup_cap c) 1"
    using store_run_dedup_inv [OF assms(1)] by (auto simp: mem_dedup_seed_def)
  have si: "si_dedup (mem_snapshot_inputs g) = mem_dedup_seed g"
    by (simp add: mem_snapshot_inputs_def mem_dedup_seed_def)
  have d: "distinct (map fst ?m)" using inv by (simp add: dedup_inv_def)
  moreover have "mset (map fst (it ?m)) = mset (map fst ?m)" using assms(2) by simp
  ultimately have d': "distinct (map fst (it ?m))" using mset_eq_imp_distinct_iff by blast
  have "map_of (it ?m) = map_of ?m"
    by (rule map_of_inject_set [THEN iffD2, OF d' d]) (use assms(2) in \<open>metis set_mset_mset\<close>)
  moreover have "mem_dedup_seed (mem_seed_from_snapshot c
      (into_snapshot it (mem_snapshot_inputs g)) g0) =
      snapshot_dedup_seed (into_snapshot it (mem_snapshot_inputs g)) (sc_dedup_cap c)"
    by (simp add: mem_dedup_seed_def mem_seed_from_snapshot_def dedup_scan_def)
  ultimately show ?thesis using snapshot_dedup_seed_refill [of "mem_snapshot_inputs g" "sc_dedup_cap c" it]
      inv assms(2) by (simp add: si dedup_get_def)
qed

section \<open>Properties\<close>

text \<open>
  C5: through any run of appends, loads, evictions, resets, hibernations and wakes, the
  bounded store answers as if it held the full history: its length and chain tip are those of
  the history, base and tail together project to the history's marking, and the checked slice
  returns exactly the events from a position on, or refuses because the position was evicted.
\<close>

theorem bounded_store_represents_history:
  "store_run c loads wakes g h \<Longrightarrow>
    er_len (memory_repo c) g = length h \<and>
    er_last_hash (memory_repo c) g = default_last_hash h \<and>
    (case er_marking_base (memory_repo c) g of
       (b, ts, n) \<Rightarrow> project_onto b ts = project_marking h \<and> n = length h) \<and>
    er_events_from_checked (memory_repo c) g i =
      (if i < er_materialized_floor (memory_repo c) g then None else Some (drop i h))"
  using store_run_rep [of c loads wakes g h]
  by (auto simp: memory_repo_def store_rep_len store_rep_tip mem_marking_base_def
      store_rep_marking mem_events_from_checked_def simp flip: mem_len_def)
    (simp add: store_rep_def)

text \<open>A configuration for concrete runs: the digest is the sequence number in unary.\<close>

definition demo_cfg :: store_cfg where
  "demo_cfg = \<lparr>sc_digest = (\<lambda>n _ _ _. replicate n CHR ''h''), sc_ser_len = (\<lambda>_. 10),
     sc_ser_marking = (\<lambda>_. 0), sc_tail_cap = 15, sc_dedup_cap = 2\<rparr>"

definition demo_create :: "nat \<Rightarrow> string \<Rightarrow> domain_event" where
  "demo_create i d = TokenCreated (token_new_unit i 0) ''p'' None None None (Some d)"

definition demo_store :: inner where
  "demo_store = snd (mem_append demo_cfg 1 (demo_create 1 ''b'')
     (snd (mem_append demo_cfg 0 (demo_create 0 ''a'') (inner_empty demo_cfg))))"

definition demo_history :: "persisted_event list" where
  "demo_history =
    [persisted_new (sc_digest demo_cfg) 0 0 (demo_create 0 ''a'') None,
     persisted_new (sc_digest demo_cfg) 1 1 (demo_create 1 ''b'') (Some [])]"

lemma demo_run: "store_run demo_cfg False w demo_store demo_history"
proof -
  let ?g1 = "snd (mem_append demo_cfg 0 (demo_create 0 ''a'') (inner_empty demo_cfg))"
  have a: "mem_append demo_cfg 0 (demo_create 0 ''a'') (inner_empty demo_cfg) =
      (Inr (persisted_new (sc_digest demo_cfg) 0 0 (demo_create 0 ''a'') None), ?g1)"
    by (simp add: mem_append_def inner_empty_def chain_tip_hash_def Let_def)
  have b: "mem_append demo_cfg 1 (demo_create 1 ''b'') ?g1 =
      (Inr (persisted_new (sc_digest demo_cfg) 1 1 (demo_create 1 ''b'') (Some [])), demo_store)"
    by (simp add: demo_store_def mem_append_def inner_empty_def chain_tip_hash_def push_tail_def
        evict_tail.simps demo_cfg_def Let_def persisted_new_def)
  show ?thesis
    using run_append [OF run_append [OF run_init a] b] by (simp add: demo_history_def)
qed

theorem bounded_store_represents_history_witness:
  "er_events_from_checked (memory_repo demo_cfg) demo_store 0 = None \<and>
   er_len (memory_repo demo_cfg) demo_store = 2"
proof -
  have "er_materialized_floor (memory_repo demo_cfg) demo_store = 1"
    by (simp add: memory_repo_def demo_store_def mem_append_def inner_empty_def push_tail_def
        evict_tail.simps evict_front_def demo_cfg_def Let_def)
  then show ?thesis
    using bounded_store_represents_history [OF demo_run [of False], of 0]
    by (simp add: demo_history_def)
qed

text \<open>
  The resident tail is bounded: after every operation its serialized size is within the
  cap, unless a single event alone exceeds it, and the running byte counter is exact.
\<close>

theorem store_tail_bounded:
  "store_run c loads wakes g h \<Longrightarrow>
    tail_bytes g = sum_list (map (sc_ser_len c) (tail g)) \<and>
    (tail_bytes g \<le> sc_tail_cap c \<or> length (tail g) \<le> 1)"
  using store_run_rep [of c loads wakes g h] store_run_bound [of c loads wakes g h]
  by (simp add: store_rep_def)

theorem store_tail_bounded_witness:
  "tail_bytes demo_store = sum_list (map (sc_ser_len demo_cfg) (tail demo_store)) \<and>
    (tail_bytes demo_store \<le> sc_tail_cap demo_cfg \<or> length (tail demo_store) \<le> 1)"
  by (rule store_tail_bounded [OF demo_run [of False]])

text \<open>
  A log written only through appends, across evictions, hibernations and wakes, is a
  valid hash chain from genesis; the store's next sequence number continues it, and the
  resident tail passes the verification of a tail.
\<close>

theorem appended_log_verifies:
  "store_run c False wakes g h \<Longrightarrow>
    verify_event_chain (sc_digest c) h \<and> next_sequence g = length h \<and>
    verify_event_chain_from (sc_digest c) (mem_all_events g)"
  using store_run_chain [of c wakes g h] store_run_rep [of c False wakes g h]
    verify_suffix [of "sc_digest c" "take (base_count g) h" "drop (base_count g) h"]
  by (simp add: store_rep_def mem_all_events_def)

theorem appended_log_verifies_witness:
  "verify_event_chain (sc_digest demo_cfg) demo_history \<and> next_sequence demo_store = 2"
  using appended_log_verifies [OF demo_run [of True]] by (simp add: demo_history_def)

text \<open>
  The dedup seed of the bounded store is the seed of a scan over the whole history, as
  the trait's default computes it for a store that never evicts: eviction loses no entry of
  the window.
\<close>

theorem eviction_keeps_dedup_window:
  "store_run c loads False g h \<Longrightarrow>
    er_dedup_seed (memory_repo c) g = default_dedup_seed (sc_dedup_cap c) h"
  using dedup_rep_seed store_run_rep store_run_dedup by (simp add: memory_repo_def)

theorem eviction_keeps_dedup_window_witness:
  "er_dedup_seed (memory_repo demo_cfg) demo_store = default_dedup_seed 2 demo_history"
  using eviction_keeps_dedup_window [OF demo_run] by (simp add: demo_cfg_def)

text \<open>
  C35: hibernation and wake are a round trip: the fresh store seeded from the snapshot stands
  for the same history, with the same write cursor and resume point, and finds the same dedup
  entries, whatever order the hash map was walked in.
\<close>

theorem snapshot_roundtrip:
  assumes "store_run c loads wakes g h"
    and "mset (it (bd_map (mem_dedup_seed g))) = mset (bd_map (mem_dedup_seed g))"
  shows "let g' = mem_seed_from_snapshot c (into_snapshot it (mem_snapshot_inputs g)) (inner_empty c)
    in project_onto (base_marking g') (tail g') = project_marking h \<and>
       mem_len g' = mem_len g \<and> mem_write_cursor g' = mem_write_cursor g \<and>
       last_applied_stream_seq g' = last_applied_stream_seq g \<and>
       (\<forall>k. dedup_get (mem_dedup_seed g') k = dedup_get (mem_dedup_seed g) k)"
proof -
  note rep = store_run_rep [OF assms(1)]
  note rep' = store_rep_wake [OF rep, of it "inner_empty c"]
  show ?thesis
    unfolding Let_def
    using store_rep_marking [OF rep'] store_rep_len [OF rep] store_rep_len [OF rep']
      store_rep_tip [OF rep] store_rep_tip [OF rep'] wake_dedup_lookup [where it = it, OF assms]
    by (simp add: mem_write_cursor_def)
      (simp add: mem_seed_from_snapshot_def into_snapshot_def mem_snapshot_inputs_def)
qed

theorem snapshot_roundtrip_witness:
  "mem_len (mem_seed_from_snapshot demo_cfg (into_snapshot rev (mem_snapshot_inputs demo_store))
     (inner_empty demo_cfg)) = mem_len demo_store"
  using snapshot_roundtrip [OF demo_run [of True], of rev] by (simp add: Let_def)

text \<open>
  What a wake does not keep is the age of the entries: the window is refilled in the order
  of the hash-map walk, so after a wake the next new key can evict the newest entry instead of
  the oldest. The retention guarantee of the window therefore does not hold across a wake.
\<close>

theorem wake_loses_fifo_order:
  "let it = rev; g = demo_store;
       g' = mem_seed_from_snapshot demo_cfg (into_snapshot it (mem_snapshot_inputs g)) (inner_empty demo_cfg);
       e = persisted_new (sc_digest demo_cfg) 2 2 (demo_create 2 ''c'') None
   in dedup_contains_key (dedup_note e (mem_dedup_seed g)) (''p'', ''b'') \<and>
      \<not> dedup_contains_key (dedup_note e (mem_dedup_seed g)) (''p'', ''a'') \<and>
      \<not> dedup_contains_key (dedup_note e (mem_dedup_seed g')) (''p'', ''b'') \<and>
      dedup_contains_key (dedup_note e (mem_dedup_seed g')) (''p'', ''a'')"
  by code_simp

text \<open>
  As long as nothing has been evicted, every overridden method of the bounded store
  returns what the trait's default method computes from the list of all events.
\<close>

theorem store_agrees_with_trait_defaults:
  assumes "store_run c loads False g h" and "er_materialized_floor (memory_repo c) g = 0"
  shows "let al = er_all_events (memory_repo c) g in al = h \<and>
    er_len (memory_repo c) g = default_len al \<and>
    er_earliest_available_sequence (memory_repo c) g = default_earliest al \<and>
    er_events_from (memory_repo c) g i = default_events_from al i \<and>
    er_events_from_checked (memory_repo c) g i = default_events_from_checked al i \<and>
    er_marking_base (memory_repo c) g = default_marking_base al \<and>
    er_last_hash (memory_repo c) g = default_last_hash al \<and>
    er_dedup_seed (memory_repo c) g = default_dedup_seed (sc_dedup_cap c) al"
proof -
  note rep = store_run_rep [OF assms(1)]
  have z: "base_count g = 0" "tail g = h" "base_marking g = marking_new"
    using assms(2) rep by (auto simp: memory_repo_def store_rep_def project_marking_def)
  have "mem_events_from g i = default_events_from h i"
    by (simp add: mem_events_from_def default_events_from_def z min_def)
  moreover have "mem_events_from_checked g i = default_events_from_checked h i"
    by (simp add: mem_events_from_checked_def default_events_from_checked_def
        default_events_from_def z min_def)
  ultimately show ?thesis
    using dedup_rep_seed [OF rep store_run_dedup [OF assms(1)]] store_rep_tip [OF rep]
    by (simp add: memory_repo_def Let_def mem_all_events_def z mem_len_def default_len_def
        mem_earliest_def default_earliest_def mem_marking_base_def default_marking_base_def
        split: list.splits)
qed

theorem store_agrees_with_trait_defaults_witness:
  "er_earliest_available_sequence (memory_repo demo_cfg) (inner_empty demo_cfg) = default_earliest []"
  using store_agrees_with_trait_defaults [OF run_init [of demo_cfg True]]
  by (simp add: Let_def memory_repo_def inner_empty_def)

end
