(* ===== verification/Errors.thy ===== *)
theory Errors
  imports Event_Store
begin

text \<open>
  The error values of the engine, \<^verbatim>\<open>src/engine/core-engine/crates/application/src/errors.rs\<close>,
  the data passed to and from effect handlers (\<^verbatim>\<open>effect.rs\<close>) and the schema registry
  (\<^verbatim>\<open>schema_registry.rs\<close>), whose compiled validators come from a library and are values of
  the model.
\<close>

section \<open>Service errors\<close>

datatype service_error =
    TransitionNotFound transition_id
  | PlaceNotFound place_id
  | TokenNotFound token_id place_id
  | InvalidOperation string
  | TransitionNotEnabled transition_id string
  | InsufficientTokens place_id nat nat
  | GuardNotSatisfied transition_id
  | ScriptError string string
      \<comment> \<open>script type, message\<close>
  | UnknownOutputPort string
  | NoArcForPort string
  | BatchOutputNotArray string
  | NoTopology
  | EffectFailedError transition_id string string bool
      \<comment> \<open>transition, handler, message, retryable\<close>
  | SchemaValidationFailed string transition_id string
      \<comment> \<open>port, transition, error\<close>
  | BridgeReplyMissing string "string option"
      \<comment> \<open>place name, channel\<close>
  | EffectContractError string
  | SecretResolutionFailed transition_id string
  | InternalError string
  | EventStoreFailure event_store_error
  | PreDispatchRejectedError transition_id string string
      \<comment> \<open>transition, hook, reason\<close>
  | PreDispatchDeferredError transition_id string nat
      \<comment> \<open>transition, hook, retry after (ms)\<close>

fun status_code :: "service_error \<Rightarrow> nat" where
  "status_code (TransitionNotFound _) = 404"
| "status_code (PlaceNotFound _) = 404"
| "status_code (TokenNotFound _ _) = 404"
| "status_code (InsufficientTokens _ _ _) = 400"
| "status_code (GuardNotSatisfied _) = 400"
| "status_code (TransitionNotEnabled _ _) = 400"
| "status_code (InvalidOperation _) = 400"
| "status_code (UnknownOutputPort _) = 400"
| "status_code (NoArcForPort _) = 400"
| "status_code (BatchOutputNotArray _) = 400"
| "status_code (ScriptError _ _) = 400"
| "status_code (SchemaValidationFailed _ _ _) = 400"
| "status_code (EffectContractError _) = 400"
| "status_code (BridgeReplyMissing _ _) = 400"
| "status_code NoTopology = 409"
| "status_code (PreDispatchRejectedError _ _ _) = 409"
| "status_code (PreDispatchDeferredError _ _ _) = 409"
| "status_code (EffectFailedError _ _ _ _) = 500"
| "status_code (SecretResolutionFailed _ _) = 500"
| "status_code (InternalError _) = 500"
| "status_code (EventStoreFailure _) = 500"

fun is_permanent :: "service_error \<Rightarrow> bool" where
  "is_permanent (SchemaValidationFailed _ _ _) = True"
| "is_permanent (UnknownOutputPort _) = True"
| "is_permanent (NoArcForPort _) = True"
| "is_permanent (BatchOutputNotArray _) = True"
| "is_permanent (ScriptError _ _) = True"
| "is_permanent (EffectContractError _) = True"
| "is_permanent (TransitionNotFound _) = True"
| "is_permanent (EffectFailedError _ _ _ _) = True"
| "is_permanent _ = False"

section \<open>Effect handlers\<close>

datatype execution_mode = Live | Replay

type_synonym port_values = "string \<rightharpoonup> json"
type_synonym port_outputs = "(string, json) hashmap"

record effect_input =
  ei_transition_id :: transition_id
  ei_inputs :: port_values
  ei_config :: "json option"
  ei_read_inputs :: port_values
  ei_process_step :: "string option"

record effect_output =
  eo_tokens :: port_outputs
  eo_result :: json

record effect_port_schemas =
  eps_inputs :: "(string, string) hashmap"
  eps_outputs :: "(string, string) hashmap"

datatype effect_error =
    ExecutionFailed string
  | Fatal string
  | HandlerNotFound string
  | ReplayMissing string

fun is_retryable :: "effect_error \<Rightarrow> bool" where
  "is_retryable (ExecutionFailed _) = True"
| "is_retryable _ = False"

text \<open>The \<open>Display\<close> texts.\<close>

fun effect_error_text :: "effect_error \<Rightarrow> string" where
  "effect_error_text (ExecutionFailed m) = ''Effect execution failed: '' @ m"
| "effect_error_text (Fatal m) = ''Effect fatal error: '' @ m"
| "effect_error_text (HandlerNotFound m) = ''Effect handler not found: '' @ m"
| "effect_error_text (ReplayMissing m) = ''Replay event missing for effect transition '' @ m"

section \<open>Schema registry\<close>

datatype schema_error =
    UnknownSchemaRef string
  | ValidationFailed string string
  | CompilationFailed string string

text \<open>A compiled validator gives the error text of a value it does not accept.\<close>

type_synonym validator = "json \<Rightarrow> string option"
type_synonym schema_registry = "(string, validator) hashmap"

definition strip_ref_prefix :: "string \<Rightarrow> string" where
  "strip_ref_prefix s =
    (let pre = ''#/definitions/'' in if take (length pre) s = pre then drop (length pre) s else s)"

text \<open>The registry is built with the library's schema compiler, an argument here.\<close>

fun registry_compile ::
  "(string \<Rightarrow> (string, validator) result) \<Rightarrow> string list \<Rightarrow> schema_registry \<Rightarrow>
    (schema_error, schema_registry) result" where
  "registry_compile cmp [] acc = Inr acc"
| "registry_compile cmp (n # ns) acc = (case cmp n of
      Inl m \<Rightarrow> Inl (CompilationFailed n m)
    | Inr v \<Rightarrow> registry_compile cmp ns (hm_insert n v acc))"

definition registry_new ::
  "((string, json) hashmap \<Rightarrow> string \<Rightarrow> (string, validator) result) \<Rightarrow> (string, json) hashmap \<Rightarrow>
    (schema_error, schema_registry) result" where
  "registry_new cmp defs = registry_compile (cmp defs) (map fst defs) []"

definition has_schema :: "schema_registry \<Rightarrow> string \<Rightarrow> bool" where
  "has_schema r s = (hm_get r (strip_ref_prefix s) \<noteq> None)"

definition registry_validate :: "schema_registry \<Rightarrow> string \<Rightarrow> json \<Rightarrow> (schema_error, unit) result" where
  "registry_validate r s v = (case hm_get r (strip_ref_prefix s) of
      None \<Rightarrow> Inl (UnknownSchemaRef s)
    | Some val \<Rightarrow> (case val v of
        Some m \<Rightarrow> Inl (ValidationFailed s m)
      | None \<Rightarrow> Inr ()))"

fun schema_error_text :: "schema_error \<Rightarrow> string" where
  "schema_error_text (UnknownSchemaRef s) = ''Unknown schema reference: '' @ s"
| "schema_error_text (ValidationFailed s m) =
    ''Schema validation failed for '' @ [CHR 0x27] @ s @ [CHR 0x27] @ '': '' @ m"
| "schema_error_text (CompilationFailed s m) =
    ''Schema compilation failed for '' @ [CHR 0x27] @ s @ [CHR 0x27] @ '': '' @ m"

abbreviation validates :: "schema_registry \<Rightarrow> string \<Rightarrow> json \<Rightarrow> bool" where
  "validates r s v \<equiv> registry_validate r s v = Inr ()"

text \<open>Lookups in a registry that compiled.\<close>

lemma registry_compile_lookup:
  assumes "registry_compile cmp ns acc = Inr r"
  shows "hm_get r n = (if n \<in> set ns then (case cmp n of Inr v \<Rightarrow> Some v | Inl _ \<Rightarrow> None)
    else hm_get acc n)"
  using assms
  by (induction ns arbitrary: acc) (auto simp: map_of_update_conv split: sum.splits if_splits)

section \<open>Properties\<close>

text \<open>
  A registry that was built knows exactly the definitions it was built from, and
  validation answers with the compiled validator of that
  definition: unknown references and rejected values are the two errors.
\<close>

theorem registry_validate_spec:
  assumes "registry_new cmp defs = Inr r"
  shows "registry_validate r s v =
    (if strip_ref_prefix s \<in> fst ` set defs then
       (case cmp defs (strip_ref_prefix s) of
          Inr val \<Rightarrow> (case val v of None \<Rightarrow> Inr () | Some m \<Rightarrow> Inl (ValidationFailed s m))
        | Inl _ \<Rightarrow> Inl (UnknownSchemaRef s))
     else Inl (UnknownSchemaRef s))"
  using registry_compile_lookup [OF assms [unfolded registry_new_def], of "strip_ref_prefix s"]
  by (auto simp: registry_validate_def split: sum.splits option.splits)

theorem registry_validate_spec_witness:
  "registry_validate (case registry_new (\<lambda>_ _. Inr (\<lambda>_. None)) [(''T'', Null)] of Inr r \<Rightarrow> r | Inl _ \<Rightarrow> [])
     ''#/definitions/T'' Null = Inr ()"
  using registry_validate_spec [of "\<lambda>_ _. Inr (\<lambda>_. None)" "[(''T'', Null)]" "[(''T'', \<lambda>_. None)]"
      "''#/definitions/T''" Null]
  by (simp add: registry_new_def strip_ref_prefix_def)

end
