(* ===== verification/Rhai_Runtime.thy ===== *)
theory Rhai_Runtime
  imports Errors
begin

text \<open>
  The scripting layer, \<^verbatim>\<open>src/engine/core-engine/crates/application/src/rhai_runtime.rs\<close> and
  \<^verbatim>\<open>executor.rs\<close>: script values and their conversion from and to JSON, the native functions
  \<open>__pluck\<close> and \<open>satisfies\<close> the runtime registers, and the evaluation of guards, priorities
  and scripts. The script interpreter is a library; it is an argument that maps a script and a
  scope to a value or an error text. The lemmas show that the conversions are inverse on the
  values scripts can hold exactly, and what the requirements matcher accepts.
\<close>

section \<open>Integers as floats\<close>

text \<open>
  \<open>as f64\<close>: the nearest float, ties to even. \<open>bit_length\<close> counts the binary digits; the
  rounded significand may carry into the exponent field, as it should.
\<close>

fun bit_length :: "nat \<Rightarrow> nat" where
  "bit_length n = (if n = 0 then 0 else Suc (bit_length (n div 2)))"

declare bit_length.simps [simp del]

definition f64_of_nat :: "nat \<Rightarrow> f64" where
  "f64_of_nat n =
    (if n = 0 then 0
     else let e = bit_length n - 1;
              m = (if e \<le> 52 then n * 2 ^ (52 - e)
                   else let s = e - 52; q = n div 2 ^ s; r = n mod 2 ^ s
                        in if 2 * r > 2 ^ s \<or> 2 * r = 2 ^ s \<and> odd q then q + 1 else q)
          in word_of_nat ((e + 1023) * 2 ^ 52 + (m - 2 ^ 52)))"

definition f64_of_i64 :: "64 word \<Rightarrow> f64" where
  "f64_of_i64 i =
    (if sint i < 0 then f64_of_nat (nat (- sint i)) + 2 ^ 63 else f64_of_nat (unat i))"

fun as_f64 :: "number \<Rightarrow> f64" where
  "as_f64 (PosInt n) = f64_of_nat (unat n)"
| "as_f64 (NegInt n) = f64_of_i64 n"
| "as_f64 (Float f) = f"

definition f64_is_finite :: "f64 \<Rightarrow> bool" where
  "f64_is_finite w = (f64_mag w < 0x7FF0000000000000)"

section \<open>Script values\<close>

text \<open>\<open>DOther\<close> stands for the remaining script types, by their printed form.\<close>

datatype dynamic =
    DUnit
  | DBool bool
  | DInt "64 word"
  | DFloat f64
  | DString string
  | DArray "dynamic list"
  | DMap "(string \<times> dynamic) list"
  | DOther string

fun json_to_dynamic :: "json \<Rightarrow> dynamic"
  and json_list_to_dynamic :: "json list \<Rightarrow> dynamic list"
  and json_fields_to_dynamic :: "(string \<times> json) list \<Rightarrow> (string \<times> dynamic) list" where
  "json_to_dynamic Null = DUnit"
| "json_to_dynamic (Bool b) = DBool b"
| "json_to_dynamic (Number n) = (case as_i64 n of Some i \<Rightarrow> DInt i | None \<Rightarrow> DFloat (as_f64 n))"
| "json_to_dynamic (JString s) = DString s"
| "json_to_dynamic (JArray xs) = DArray (json_list_to_dynamic xs)"
| "json_to_dynamic (JObject fs) = DMap (json_fields_to_dynamic fs)"
| "json_list_to_dynamic [] = []"
| "json_list_to_dynamic (x # xs) = json_to_dynamic x # json_list_to_dynamic xs"
| "json_fields_to_dynamic [] = []"
| "json_fields_to_dynamic ((k, x) # fs) = (k, json_to_dynamic x) # json_fields_to_dynamic fs"

definition conversion_error :: service_error where
  "conversion_error = ScriptError ''conversion'' ''Cannot convert float to JSON''"

text \<open>The first element that fails fails the whole value.\<close>

fun dynamic_to_json :: "dynamic \<Rightarrow> (service_error, json) result"
  and dynamic_list_to_json :: "dynamic list \<Rightarrow> (service_error, json list) result"
  and dynamic_fields_to_json ::
    "(string \<times> dynamic) list \<Rightarrow> fields \<Rightarrow> (service_error, fields) result" where
  "dynamic_to_json DUnit = Inr Null"
| "dynamic_to_json (DBool b) = Inr (Bool b)"
| "dynamic_to_json (DInt i) = Inr (Number (number_of_i64 i))"
| "dynamic_to_json (DFloat f) =
    (if f64_is_finite f then Inr (Number (Float f)) else Inl conversion_error)"
| "dynamic_to_json (DString s) = Inr (JString s)"
| "dynamic_to_json (DArray xs) = (case dynamic_list_to_json xs of
      Inl e \<Rightarrow> Inl e | Inr ys \<Rightarrow> Inr (JArray ys))"
| "dynamic_to_json (DMap fs) = (case dynamic_fields_to_json fs [] of
      Inl e \<Rightarrow> Inl e | Inr gs \<Rightarrow> Inr (JObject gs))"
| "dynamic_to_json (DOther s) = Inr (JString s)"
| "dynamic_list_to_json [] = Inr []"
| "dynamic_list_to_json (x # xs) = (case dynamic_to_json x of
      Inl e \<Rightarrow> Inl e
    | Inr y \<Rightarrow> (case dynamic_list_to_json xs of Inl e \<Rightarrow> Inl e | Inr ys \<Rightarrow> Inr (y # ys)))"
| "dynamic_fields_to_json [] acc = Inr acc"
| "dynamic_fields_to_json ((k, x) # fs) acc = (case dynamic_to_json x of
      Inl e \<Rightarrow> Inl e | Inr y \<Rightarrow> dynamic_fields_to_json fs (obj_insert k y acc))"

section \<open>Native functions\<close>

text \<open>\<open>__pluck\<close>: walking a path, with unit for anything that does not fit.\<close>

fun pluck :: "dynamic \<Rightarrow> dynamic list \<Rightarrow> dynamic" where
  "pluck cur [] = cur"
| "pluck (DMap m) (seg # segs) = (case seg of
      DString k \<Rightarrow> (case map_of m k of Some nxt \<Rightarrow> pluck nxt segs | None \<Rightarrow> DUnit)
    | _ \<Rightarrow> DUnit)"
| "pluck (DArray a) (seg # segs) = (case seg of
      DInt i \<Rightarrow> if sint i < 0 then DUnit
        else if unat i < length a then pluck (a ! unat i) segs else DUnit
    | _ \<Rightarrow> DUnit)"
| "pluck _ (seg # segs) = DUnit"

fun dynamic_as_f64 :: "dynamic \<Rightarrow> f64 option" where
  "dynamic_as_f64 (DInt i) = Some (f64_of_i64 i)"
| "dynamic_as_f64 (DFloat f) = Some f"
| "dynamic_as_f64 _ = None"

fun dynamic_to_json_value :: "dynamic \<Rightarrow> json"
  and dynamic_list_to_json_value :: "dynamic list \<Rightarrow> json list"
  and dynamic_fields_to_json_value :: "(string \<times> dynamic) list \<Rightarrow> fields \<Rightarrow> fields" where
  "dynamic_to_json_value DUnit = Null"
| "dynamic_to_json_value (DBool b) = Bool b"
| "dynamic_to_json_value (DInt i) = Number (number_of_i64 i)"
| "dynamic_to_json_value (DFloat f) = (if f64_is_finite f then Number (Float f) else Null)"
| "dynamic_to_json_value (DString s) = JString s"
| "dynamic_to_json_value (DArray xs) = JArray (dynamic_list_to_json_value xs)"
| "dynamic_to_json_value (DMap fs) = JObject (dynamic_fields_to_json_value fs [])"
| "dynamic_to_json_value (DOther s) = JString s"
| "dynamic_list_to_json_value [] = []"
| "dynamic_list_to_json_value (x # xs) = dynamic_to_json_value x # dynamic_list_to_json_value xs"
| "dynamic_fields_to_json_value [] acc = acc"
| "dynamic_fields_to_json_value ((k, x) # fs) acc =
    dynamic_fields_to_json_value fs (obj_insert k (dynamic_to_json_value x) acc)"

definition dynamic_eq :: "dynamic \<Rightarrow> dynamic \<Rightarrow> bool" where
  "dynamic_eq a b = (case (dynamic_as_f64 a, dynamic_as_f64 b) of
      (Some x, Some y) \<Rightarrow> f64_eq x y
    | _ \<Rightarrow> json_eq (dynamic_to_json_value a) (dynamic_to_json_value b))"

definition eval_op :: "string \<Rightarrow> dynamic \<Rightarrow> dynamic \<Rightarrow> bool" where
  "eval_op op v expected =
    (if op = ''eq'' then dynamic_eq v expected
     else if op = ''neq'' then \<not> dynamic_eq v expected
     else if op \<in> {''gt'', ''gte'', ''lt'', ''lte''} then
       (case (dynamic_as_f64 v, dynamic_as_f64 expected) of
          (Some a, Some b) \<Rightarrow>
            (if op = ''gt'' then f64_lt b a
             else if op = ''gte'' then f64_lt b a \<or> f64_eq a b
             else if op = ''lt'' then f64_lt a b
             else f64_lt a b \<or> f64_eq a b)
        | _ \<Rightarrow> False)
     else if op = ''in'' then
       (case expected of DArray ms \<Rightarrow> list_ex (dynamic_eq v) ms | _ \<Rightarrow> False)
     else False)"

text \<open>\<open>get(k)\<close> of a map, kept when the value is a string.\<close>

definition get_string :: "string \<Rightarrow> (string \<times> dynamic) list \<Rightarrow> string option" where
  "get_string k m = (case map_of m k of Some (DString s) \<Rightarrow> Some s | _ \<Rightarrow> None)"

fun satisfies_loop :: "dynamic list \<Rightarrow> (string \<times> dynamic) list \<Rightarrow> bool" where
  "satisfies_loop [] caps = True"
| "satisfies_loop (c # cs) caps = (case c of
      DMap constraint \<Rightarrow>
        (case get_string ''capability'' constraint of
           None \<Rightarrow> False
         | Some capability \<Rightarrow>
             (case get_string ''field'' constraint of
                None \<Rightarrow> False
              | Some field \<Rightarrow>
                  (case get_string ''op'' constraint of
                     None \<Rightarrow> False
                   | Some op \<Rightarrow>
                       (case map_of caps capability of
                          Some (DMap cap_map) \<Rightarrow>
                            (if op = ''exists'' then
                               (if map_of cap_map field = None then False else satisfies_loop cs caps)
                             else (case map_of cap_map field of
                                 None \<Rightarrow> False
                               | Some v \<Rightarrow>
                                   if eval_op op v (case map_of constraint ''value'' of
                                       Some x \<Rightarrow> x | None \<Rightarrow> DUnit)
                                   then satisfies_loop cs caps else False))
                        | _ \<Rightarrow> False))))
    | _ \<Rightarrow> False)"

definition satisfies_impl :: "(string \<times> dynamic) list \<Rightarrow> (string \<times> dynamic) list \<Rightarrow> bool" where
  "satisfies_impl requirements caps = (case map_of requirements ''constraints'' of
      Some (DArray cs) \<Rightarrow> if cs = [] then True else satisfies_loop cs caps
    | _ \<Rightarrow> True)"

section \<open>Evaluation\<close>

text \<open>
  The interpreter: evaluation of a script in a scope, the text of the error when a result has
  another type than asked for, compilation, and the order in which a hash map of results is
  walked later.
\<close>

record rhai =
  rh_eval :: "string \<Rightarrow> (string \<rightharpoonup> dynamic) \<Rightarrow> (string, dynamic) result"
  rh_mismatch :: "string \<Rightarrow> dynamic \<Rightarrow> string"
  rh_compile :: "string \<Rightarrow> string option"
  rh_iter :: "port_outputs \<Rightarrow> port_outputs"

definition build_scope :: "port_values \<Rightarrow> string \<rightharpoonup> dynamic" where
  "build_scope inputs = (\<lambda>k. map_option json_to_dynamic (inputs k))"

definition compile_check :: "rhai \<Rightarrow> string \<Rightarrow> (service_error, unit) result" where
  "compile_check rh s =
    (case rh_compile rh s of None \<Rightarrow> Inr () | Some m \<Rightarrow> Inl (ScriptError ''compile'' m))"

definition evaluate_guard :: "rhai \<Rightarrow> string \<Rightarrow> port_values \<Rightarrow> (service_error, bool) result" where
  "evaluate_guard rh s inputs = (case rh_eval rh s (build_scope inputs) of
      Inr (DBool b) \<Rightarrow> Inr b
    | Inr d \<Rightarrow> Inl (ScriptError ''guard'' (rh_mismatch rh s d))
    | Inl m \<Rightarrow> Inl (ScriptError ''guard'' m))"

definition evaluate_priority :: "rhai \<Rightarrow> string \<Rightarrow> port_values \<Rightarrow> f64 option" where
  "evaluate_priority rh s inputs = (case rh_eval rh s (build_scope inputs) of
      Inr (DInt i) \<Rightarrow> Some (f64_of_i64 i)
    | Inr (DFloat f) \<Rightarrow> Some f
    | Inr (DBool b) \<Rightarrow> Some (if b then f64_of_nat 1 else 0)
    | _ \<Rightarrow> None)"

fun script_outputs ::
  "(string \<times> dynamic) list \<Rightarrow> port_outputs \<Rightarrow> (service_error, port_outputs) result" where
  "script_outputs [] acc = Inr acc"
| "script_outputs ((k, d) # kds) acc = (case dynamic_to_json d of
      Inl e \<Rightarrow> Inl e | Inr v \<Rightarrow> script_outputs kds (hm_insert k v acc))"

definition execute_script :: "rhai \<Rightarrow> string \<Rightarrow> port_values \<Rightarrow> (service_error, port_outputs) result" where
  "execute_script rh s inputs = (case rh_eval rh s (build_scope inputs) of
      Inr (DMap m) \<Rightarrow> (case script_outputs m [] of Inl e \<Rightarrow> Inl e | Inr out \<Rightarrow> Inr (rh_iter rh out))
    | Inr d \<Rightarrow> Inl (ScriptError ''script'' (rh_mismatch rh s d))
    | Inl m \<Rightarrow> Inl (ScriptError ''script'' m))"

section \<open>Lemmas\<close>

text \<open>Values scripts hold exactly: integers in the signed range, finite floats, sorted objects.\<close>

fun number_exact :: "number \<Rightarrow> bool" where
  "number_exact (PosInt n) = (unat n < 2 ^ 63)"
| "number_exact (NegInt n) = (sint n < 0)"
| "number_exact (Float f) = f64_is_finite f"

fun json_exact :: "json \<Rightarrow> bool"
  and json_list_exact :: "json list \<Rightarrow> bool"
  and json_fields_exact :: "(string \<times> json) list \<Rightarrow> bool" where
  "json_exact (Number n) = number_exact n"
| "json_exact (JArray xs) = json_list_exact xs"
| "json_exact (JObject fs) = (obj_sorted fs \<and> json_fields_exact fs)"
| "json_exact v = True"
| "json_list_exact [] = True"
| "json_list_exact (x # xs) = (json_exact x \<and> json_list_exact xs)"
| "json_fields_exact [] = True"
| "json_fields_exact ((k, x) # fs) = (json_exact x \<and> json_fields_exact fs)"

lemma unat_small_nonneg: "unat (i :: 64 word) < 2 ^ 63 \<Longrightarrow> \<not> sint i < 0"
proof -
  assume small: "unat i < 2 ^ 63"
  have u: "uint i = int (unat i)" by simp
  have "uint i < 2 ^ 63" using small unfolding u by (metis of_nat_less_iff of_nat_numeral of_nat_power)
  then have "uint i div 2 ^ 63 = 0" by (intro div_pos_pos_trivial) auto
  then have "\<not> bit (uint i) 63" by (simp add: bit_iff_odd)
  then have "sint i = uint i"
    using signed_take_bit_eq_take_bit_minus [of 63 "uint i"] uint_bounded [of i]
    by (simp add: sint_uint take_bit_int_eq_self)
  then show ?thesis by simp
qed

lemma dynamic_roundtrip:
  "json_exact v \<Longrightarrow> dynamic_to_json (json_to_dynamic v) = Inr v"
  "json_list_exact vs \<Longrightarrow> dynamic_list_to_json (json_list_to_dynamic vs) = Inr vs"
  "json_fields_exact fs \<Longrightarrow> obj_sorted (acc @ fs) \<Longrightarrow>
    dynamic_fields_to_json (json_fields_to_dynamic fs) acc = Inr (acc @ fs)"
proof (induction v and vs and fs arbitrary: and and acc
    rule: json_to_dynamic_json_list_to_dynamic_json_fields_to_dynamic.induct)
  case (3 n)
  then show ?case using unat_small_nonneg by (cases n) (auto simp: number_of_i64_def)
next
  case (10 k x fs)
  have "obj_insert k x acc = acc @ [(k, x)]"
    using "10.prems"(2) by (intro obj_insert_last) (auto simp: sorted_wrt_append)
  then show ?case using 10 by simp
qed simp_all

definition constraint_holds :: "(string \<times> dynamic) list \<Rightarrow> dynamic \<Rightarrow> bool" where
  "constraint_holds caps c \<longleftrightarrow> (\<exists>m capability field op cap_map.
     c = DMap m \<and> map_of m ''capability'' = Some (DString capability) \<and>
     map_of m ''field'' = Some (DString field) \<and> map_of m ''op'' = Some (DString op) \<and>
     map_of caps capability = Some (DMap cap_map) \<and>
     (\<exists>v. map_of cap_map field = Some v \<and>
       (op = ''exists'' \<or> eval_op op v (case map_of m ''value'' of Some x \<Rightarrow> x | None \<Rightarrow> DUnit))))"

lemma get_string_Some: "get_string k m = Some s \<longleftrightarrow> map_of m k = Some (DString s)"
  by (auto simp: get_string_def split: option.splits dynamic.splits)

lemma get_string_None: "get_string k m = None \<longleftrightarrow> (\<nexists>s. map_of m k = Some (DString s))"
  by (auto simp: get_string_def split: option.splits dynamic.splits)

lemma satisfies_loop_Cons:
  "satisfies_loop (c # cs) caps \<longleftrightarrow> constraint_holds caps c \<and> satisfies_loop cs caps"
  by (auto simp: constraint_holds_def get_string_Some get_string_None
      split: dynamic.splits option.splits if_splits)

lemma satisfies_loop_all: "satisfies_loop cs caps \<longleftrightarrow> (\<forall>c \<in> set cs. constraint_holds caps c)"
  by (induction cs) (simp_all only: satisfies_loop_Cons set_simps ball_simps satisfies_loop.simps(1))

lemma satisfies_all:
  "satisfies_impl requirements caps \<longleftrightarrow>
    (\<forall>cs. map_of requirements ''constraints'' = Some (DArray cs) \<longrightarrow>
      (\<forall>c \<in> set cs. constraint_holds caps c))"
  by (auto simp: satisfies_impl_def satisfies_loop_all split: option.splits dynamic.splits)

section \<open>Properties\<close>

text \<open>
  A JSON value whose integers fit the script's 64-bit integers survives the trip into the
  scripting language and back unchanged.
\<close>

theorem script_value_roundtrip:
  "json_exact v \<Longrightarrow> dynamic_to_json (json_to_dynamic v) = Inr v"
  by (rule dynamic_roundtrip)

theorem script_value_roundtrip_witness:
  "dynamic_to_json (json_to_dynamic (JObject [(''a'', Number (PosInt 3)), (''b'', JArray [Null])])) =
    Inr (JObject [(''a'', Number (PosInt 3)), (''b'', JArray [Null])])"
  by (rule script_value_roundtrip) simp

text \<open>
  The requirements matcher of the presence pool accepts exactly when every constraint
  holds: each must name a capability the unit advertises as a map, a field of it that is
  present, and an operator that holds between the field and the expected value. No
  constraints match every unit, and anything malformed matches none.
\<close>

theorem satisfies_spec:
  "satisfies_impl requirements caps \<longleftrightarrow>
    (\<forall>cs. map_of requirements ''constraints'' = Some (DArray cs) \<longrightarrow>
      (\<forall>c \<in> set cs. constraint_holds caps c))"
  by (rule satisfies_all)

theorem satisfies_spec_witness:
  "satisfies_impl [(''constraints'', DArray [DMap [(''capability'', DString ''gpu''),
      (''field'', DString ''mem''), (''op'', DString ''gte''), (''value'', DInt 8)]])]
    [(''gpu'', DMap [(''mem'', DFloat (f64_of_nat 16))])]"
  unfolding satisfies_spec
  by (simp add: constraint_holds_def eval_op_def f64_of_i64_def f64_of_nat_def bit_length.simps
      f64_lt_def f64_is_nan_def f64_ord_def f64_mag_def)

text \<open>
  A unit that advertises more capabilities never loses a match.
\<close>

theorem satisfies_monotone:
  "satisfies_impl requirements caps \<Longrightarrow> map_of caps \<subseteq>\<^sub>m map_of caps' \<Longrightarrow>
    satisfies_impl requirements caps'"
  unfolding satisfies_all constraint_holds_def map_le_def by (metis domI)

theorem satisfies_monotone_witness:
  "satisfies_impl [] [(''gpu'', DMap [])]"
  by (rule satisfies_monotone [of "[]" "[]"]) (simp_all add: satisfies_impl_def)

text \<open>
  Equality of script values coerces numbers only at the top level: the integer one equals
  the float one, but an array holding the one does not equal an array holding the other.
\<close>

theorem dynamic_eq_not_deep:
  "dynamic_eq (DInt 1) (DFloat (f64_of_nat 1)) \<and>
   \<not> dynamic_eq (DArray [DInt 1]) (DArray [DFloat (f64_of_nat 1)])"
  by (simp add: dynamic_eq_def number_of_i64_def f64_of_i64_def f64_of_nat_def bit_length.simps
      f64_eq_def f64_is_nan_def f64_ord_def f64_mag_def f64_is_finite_def)

end
