(* ===== verification/Binding.thy ===== *)
theory Binding
  imports Join_Index Rhai_Runtime
begin

text \<open>
  Binding tokens to a transition's input ports,
  \<^verbatim>\<open>src/engine/core-engine/crates/application/src/binding.rs\<close>: the enumeration of index
  combinations, the construction of a binding (ordinary, read, drain and gather arcs), the
  merging of reply routing, and the indexed join that prunes the enumeration for guards with
  cross-port equalities. The lemmas show that the enumeration is the full lexicographic
  product, that a binding only uses tokens of the marking, and that the pruned search returns
  the same binding as the full one.
\<close>

section \<open>Bindings\<close>

record token_binding =
  tb_port_inputs :: port_values
  tb_consumed :: consumed
  tb_read :: produced
  tb_max_created_at :: "time option"
  tb_reply_routing :: "reply_routing option"
  tb_read_port_names :: "string list"

definition empty_binding :: token_binding where
  "empty_binding = \<lparr>tb_port_inputs = Map.empty, tb_consumed = [], tb_read = [],
     tb_max_created_at = None, tb_reply_routing = None, tb_read_port_names = []\<rparr>"

section \<open>Combinations\<close>

text \<open>\<open>CombinationIterator\<close>: a counter with one digit per arc, the last digit the fastest.\<close>

record combination_iterator =
  ci_sizes :: "nat list"
  ci_current :: "nat list"
  ci_done :: bool

definition combo_new :: "nat list \<Rightarrow> combination_iterator" where
  "combo_new sizes = \<lparr>ci_sizes = sizes, ci_current = replicate (length sizes) 0,
     ci_done = (0 \<in> set sizes)\<rparr>"

text \<open>The increment from the last digit, and whether a carry is left over.\<close>

fun combo_increment :: "nat list \<Rightarrow> nat list \<Rightarrow> bool \<times> nat list" where
  "combo_increment (n # ns) (c # cs) =
    (let (carry, cs') = combo_increment ns cs in
     if carry then (if c + 1 \<ge> n then (True, 0 # cs') else (False, (c + 1) # cs'))
     else (False, c # cs'))"
| "combo_increment _ cs = (True, cs)"

definition combo_next :: "combination_iterator \<Rightarrow> nat list option \<times> combination_iterator" where
  "combo_next it =
    (if ci_done it then (None, it)
     else (let (carry, cs) = combo_increment (ci_sizes it) (ci_current it)
           in (Some (ci_current it), it\<lparr>ci_current := cs, ci_done := carry\<rparr>)))"

text \<open>The items of the iterator, asking at most \<open>fuel\<close> times.\<close>

fun combo_items :: "nat \<Rightarrow> combination_iterator \<Rightarrow> nat list list" where
  "combo_items 0 it = []"
| "combo_items (Suc fuel) it = (case combo_next it of
      (None, _) \<Rightarrow> []
    | (Some x, it') \<Rightarrow> x # combo_items fuel it')"

definition combinations :: "nat list \<Rightarrow> nat list list" where
  "combinations sizes = combo_items (Suc (prod_list sizes)) (combo_new sizes)"

section \<open>Reply routing\<close>

fun merge_channels :: "(string, bridge_reply_address) hashmap \<Rightarrow>
    (string, bridge_reply_address) hashmap \<Rightarrow> (string, bridge_reply_address) hashmap option" where
  "merge_channels a [] = Some a"
| "merge_channels a ((k, addr) # b) = (case hm_get a k of
      Some old \<Rightarrow> if old \<noteq> addr then None else merge_channels a b
    | None \<Rightarrow> merge_channels (hm_insert k addr a) b)"

definition merge_reply_routing :: "reply_routing \<Rightarrow> reply_routing \<Rightarrow> reply_routing option" where
  "merge_reply_routing existing incoming =
    (case (reply_to existing, reply_to incoming) of
       (Some a, Some b) \<Rightarrow> if a \<noteq> b then None else Some (Some a)
     | (Some a, None) \<Rightarrow> Some (Some a)
     | (None, other) \<Rightarrow> Some other) \<bind> (\<lambda>rt.
    (case (reply_channels existing, reply_channels incoming) of
       (Some a, Some b) \<Rightarrow> map_option Some (merge_channels a b)
     | (Some a, None) \<Rightarrow> Some (Some a)
     | (None, other) \<Rightarrow> Some other) \<bind> (\<lambda>chs.
    Some \<lparr>reply_to = rt, reply_channels = chs\<rparr>))"

text \<open>Merging the routing of a consumed token into what was merged so far.\<close>

definition add_routing :: "token \<Rightarrow> token_binding \<Rightarrow> token_binding option" where
  "add_routing t b = (case tok_reply_routing t of
      None \<Rightarrow> Some b
    | Some incoming \<Rightarrow> (case tb_reply_routing b of
        None \<Rightarrow> Some (b\<lparr>tb_reply_routing := Some incoming\<rparr>)
      | Some existing \<Rightarrow> (case merge_reply_routing existing incoming of
          Some merged \<Rightarrow> Some (b\<lparr>tb_reply_routing := Some merged\<rparr>)
        | None \<Rightarrow> None)))"

section \<open>Building one binding\<close>

definition bump_created :: "time option \<Rightarrow> time \<Rightarrow> time option" where
  "bump_created m t = Some (case m of None \<Rightarrow> t | Some x \<Rightarrow> max x t)"

definition bind_consume :: "place_id \<Rightarrow> token \<Rightarrow> token_binding \<Rightarrow> token_binding" where
  "bind_consume p t b = b\<lparr>tb_consumed := tb_consumed b @ [(p, tok_id t)],
     tb_max_created_at := bump_created (tb_max_created_at b) (tok_created_at t)\<rparr>"

definition bind_read :: "place_id \<Rightarrow> token \<Rightarrow> token_binding \<Rightarrow> token_binding" where
  "bind_read p t b = b\<lparr>tb_read := tb_read b @ [(p, t)],
     tb_max_created_at := bump_created (tb_max_created_at b) (tok_created_at t)\<rparr>"

definition bind_input :: "string \<Rightarrow> json \<Rightarrow> token_binding \<Rightarrow> token_binding" where
  "bind_input n v b = b\<lparr>tb_port_inputs := (tb_port_inputs b)(n \<mapsto> v)\<rparr>"

definition bind_read_port :: "string \<Rightarrow> token_binding \<Rightarrow> token_binding" where
  "bind_read_port n b = b\<lparr>tb_read_port_names := tb_read_port_names b @ [n]\<rparr>"

abbreviation tok_json :: "token \<Rightarrow> json" where
  "tok_json t \<equiv> token_color_to_json (tok_color t)"

definition port_cardinality_of :: "transition \<Rightarrow> string \<Rightarrow> port_cardinality" where
  "port_cardinality_of tr n = (case input_port tr n of Some p \<Rightarrow> port_card p | None \<Rightarrow> Single)"

definition value_valid :: "transition \<Rightarrow> schema_registry option \<Rightarrow> string \<Rightarrow> json \<Rightarrow> bool" where
  "value_valid tr reg n v = (case reg of
      None \<Rightarrow> True
    | Some r \<Rightarrow> (case input_port tr n of
        None \<Rightarrow> True
      | Some p \<Rightarrow> (case port_schema_ref p of
          None \<Rightarrow> True
        | Some s \<Rightarrow> registry_validate r s v = Inr ())))"

text \<open>A greedy drain: up to the cap, at least one token.\<close>

definition bind_drain :: "transition \<Rightarrow> schema_registry option \<Rightarrow> nat \<Rightarrow> arc \<Rightarrow> token list \<Rightarrow>
    token_binding \<Rightarrow> token_binding option" where
  "bind_drain tr reg cap a tokens b =
    (if tokens = [] then None
     else let selected = take (min (length tokens) (max cap 1)) tokens;
              data = JArray (map tok_json selected)
          in if \<not> list_all (\<lambda>t. value_valid tr reg (arc_port a) (tok_json t)) selected then None
             else Some (bind_input (arc_port a) data
               (if arc_read a
                then bind_read_port (arc_port a) (fold (bind_read (arc_place a)) selected b)
                else fold (bind_consume (arc_place a)) selected b)))"

text \<open>\<open>split_once('.')\<close>\<close>

fun split_once :: "char \<Rightarrow> string \<Rightarrow> (string \<times> string) option" where
  "split_once c [] = None"
| "split_once c (ch # s) = (if ch = c then Some ([], s)
    else map_option (\<lambda>(x, y). (ch # x, y)) (split_once c s))"

text \<open>A gather barrier: exactly as many correlated tokens as the coordinator asks for.\<close>

definition gather_matching :: "arc \<Rightarrow> json \<Rightarrow> token list \<Rightarrow> token list" where
  "gather_matching a coord tokens = (case arc_correlate_on a of
      None \<Rightarrow> tokens
    | Some f \<Rightarrow> filter (\<lambda>t. json_opt_eq (jget f (tok_json t)) (jget f coord)) tokens)"

definition gather_token :: "arc \<Rightarrow> token \<Rightarrow> token_binding \<Rightarrow> token_binding option" where
  "gather_token a t b =
    (if arc_read a then Some (bind_read (arc_place a) t b)
     else map_option (bind_consume (arc_place a) t) (add_routing t b))"

definition bind_gather :: "transition \<Rightarrow> schema_registry option \<Rightarrow> string \<Rightarrow> arc \<Rightarrow> token list \<Rightarrow>
    token_binding \<Rightarrow> token_binding option" where
  "bind_gather tr reg count_ref a tokens b =
    (case split_once (CHR ''.'') count_ref of
       None \<Rightarrow> None
     | Some (coord_port, count_field) \<Rightarrow>
         (case tb_port_inputs b coord_port of
            None \<Rightarrow> None
          | Some coord \<Rightarrow>
              (case jget count_field coord \<bind> as_u64 of
                 None \<Rightarrow> None
               | Some kw \<Rightarrow>
                   (let k = unat kw; matching = gather_matching a coord tokens in
                    if k = 0 then None
                    else if length matching < k then None
                    else (let selected = take k matching;
                              data = JArray (map tok_json selected) in
                      (case fold_opt (gather_token a) selected b of
                         None \<Rightarrow> None
                       | Some b' \<Rightarrow>
                           (let b'' = (if arc_read a then bind_read_port (arc_port a) b' else b') in
                            if \<not> list_all (\<lambda>t. value_valid tr reg (arc_port a) (tok_json t)) selected
                            then None else Some (bind_input (arc_port a) data b''))))))))"

text \<open>An ordinary arc: the token at the chosen index, or the newest one for a read arc.\<close>

definition bind_normal :: "transition \<Rightarrow> schema_registry option \<Rightarrow> arc \<Rightarrow> token list \<Rightarrow> nat \<Rightarrow>
    token_binding \<Rightarrow> token_binding option" where
  "bind_normal tr reg a tokens idx b =
    (if idx \<ge> length tokens then None
     else let token = (if arc_read a then last tokens else tokens ! idx);
              card = port_cardinality_of tr (arc_port a);
              data = (case card of Single \<Rightarrow> tok_json token | Batch \<Rightarrow> JArray (map tok_json tokens))
          in case (if arc_read a then Some b else add_routing token b) of
               None \<Rightarrow> None
             | Some b1 \<Rightarrow>
                 let b2 = (if arc_read a
                           then (let b' = bind_read_port (arc_port a) b1 in
                                 case card of
                                   Single \<Rightarrow> bind_read (arc_place a) token b'
                                 | Batch \<Rightarrow> fold (bind_read (arc_place a)) tokens b')
                           else (case card of
                                   Single \<Rightarrow> bind_consume (arc_place a) token b1
                                 | Batch \<Rightarrow> fold (bind_consume (arc_place a))
                                     (take (arc_weight a) (drop idx tokens)) b1))
                 in if \<not> value_valid tr reg (arc_port a) data then None
                    else Some (bind_input (arc_port a) data b2))"

type_synonym slot = "arc \<times> token list \<times> nat"

definition bind_slot :: "transition \<Rightarrow> schema_registry option \<Rightarrow> slot \<Rightarrow> token_binding \<Rightarrow>
    token_binding option" where
  "bind_slot tr reg s b = (case s of (a, tokens, idx) \<Rightarrow>
    (case arc_drain_max a of
       Some cap \<Rightarrow> bind_drain tr reg cap a tokens b
     | None \<Rightarrow> (case arc_count_from a of
         Some count_ref \<Rightarrow> bind_gather tr reg count_ref a tokens b
       | None \<Rightarrow> bind_normal tr reg a tokens idx b)))"

abbreviation is_gather :: "arc \<Rightarrow> bool" where
  "is_gather a \<equiv> arc_count_from a \<noteq> None"

text \<open>The two passes: gather arcs after all others.\<close>

definition bind_slots :: "transition \<Rightarrow> schema_registry option \<Rightarrow> slot list \<Rightarrow> token_binding option" where
  "bind_slots tr reg slots =
    (case fold_opt (bind_slot tr reg) (filter (\<lambda>s. \<not> is_gather (fst s)) slots) empty_binding of
       None \<Rightarrow> None
     | Some b \<Rightarrow> fold_opt (bind_slot tr reg) (filter (\<lambda>s. is_gather (fst s)) slots) b)"

definition build_binding_for_indices :: "transition \<Rightarrow> arc list \<Rightarrow> token list list \<Rightarrow> nat list \<Rightarrow>
    schema_registry option \<Rightarrow> token_binding option" where
  "build_binding_for_indices tr arcs arc_tokens indices reg =
    bind_slots tr reg (zip arcs (zip arc_tokens indices))"

section \<open>The indexed join\<close>

fun pluck_path :: "json \<Rightarrow> string list \<Rightarrow> json option" where
  "pluck_path v [] = Some v"
| "pluck_path v (seg # segs) = (case jget seg v of None \<Rightarrow> None | Some w \<Rightarrow> pluck_path w segs)"

definition hex_digit :: "nat \<Rightarrow> char" where
  "hex_digit n = ''0123456789abcdef'' ! n"

definition hex16 :: "64 word \<Rightarrow> string" where
  "hex16 w = map (\<lambda>i. hex_digit (unat w div 16 ^ i mod 16)) (rev [0..<16])"

fun scalar_key :: "json option \<Rightarrow> string option" where
  "scalar_key None = Some ''u''"
| "scalar_key (Some Null) = Some ''u''"
| "scalar_key (Some (Bool b)) = Some (CHR ''b'' # (if b then ''true'' else ''false''))"
| "scalar_key (Some (Number n)) =
    (let f = as_f64 n; g = (if f64_eq f 0 then 0 else f) in Some (CHR ''n'' # hex16 g))"
| "scalar_key (Some (JString s)) = Some (CHR ''s'' # s)"
| "scalar_key (Some (JArray _)) = None"
| "scalar_key (Some (JObject _)) = None"

fun intersect_sorted :: "nat list \<Rightarrow> nat list \<Rightarrow> nat list" where
  "intersect_sorted (x # xs) (y # ys) =
    (if x < y then intersect_sorted xs (y # ys)
     else if y < x then intersect_sorted (x # xs) ys
     else x # intersect_sorted xs ys)"
| "intersect_sorted _ _ = []"

record back_edge =
  be_partner :: nat
  be_self_path :: "string list"
  be_partner_path :: "string list"

datatype arc_role = Pinned | Free | Joined "back_edge list"

type_synonym key_path = "nat \<times> string list"

record join_plan =
  jp_roles :: "arc_role list"
  jp_colors :: "json list list"
  jp_maps :: "key_path \<rightharpoonup> (string \<rightharpoonup> nat list)"

definition port_to_arc :: "arc list \<Rightarrow> string \<rightharpoonup> nat" where
  "port_to_arc arcs = fold (\<lambda>(i, a) m. m(arc_port a \<mapsto> i)) (List.enumerate 0 arcs) Map.empty"

definition arc_pinned :: "arc \<Rightarrow> bool" where
  "arc_pinned a = (arc_read a \<or> arc_count_from a \<noteq> None \<or> arc_drain_max a \<noteq> None)"

definition arc_indexable :: "transition \<Rightarrow> arc \<Rightarrow> bool" where
  "arc_indexable tr a = (\<not> arc_pinned a \<and> port_cardinality_of tr (arc_port a) = Single)"

text \<open>The edge of a usable constraint, hung on the later of its two arcs.\<close>

definition join_edge :: "transition \<Rightarrow> arc list \<Rightarrow> join_constraint \<Rightarrow> (nat \<times> back_edge) option" where
  "join_edge tr arcs con =
    (case (port_to_arc arcs (jc_port_a con), port_to_arc arcs (jc_port_b con)) of
       (Some ia, Some ib) \<Rightarrow>
         if ia = ib \<or> \<not> arc_indexable tr (arcs ! ia) \<or> \<not> arc_indexable tr (arcs ! ib) then None
         else if ia < ib then Some (ib, \<lparr>be_partner = ia, be_self_path = jc_path_b con,
           be_partner_path = jc_path_a con\<rparr>)
         else Some (ia, \<lparr>be_partner = ib, be_self_path = jc_path_a con,
           be_partner_path = jc_path_b con\<rparr>)
     | _ \<Rightarrow> None)"

text \<open>The index of one arc under one path: each key with the ascending token positions.\<close>

definition build_index :: "json list \<Rightarrow> string list \<Rightarrow> string \<rightharpoonup> nat list" where
  "build_index colors path =
    fold (\<lambda>(i, v) m. let key = the (scalar_key (pluck_path v path)) in
        m(key \<mapsto> (case m key of Some is \<Rightarrow> is | None \<Rightarrow> []) @ [i]))
      (List.enumerate 0 colors) Map.empty"

definition join_plan_build :: "transition \<Rightarrow> arc list \<Rightarrow> token list list \<Rightarrow> join_constraint list \<Rightarrow>
    join_plan option" where
  "join_plan_build tr arcs arc_tokens constraints =
    (if constraints = [] then None
     else
      let edges = List.map_filter (join_edge tr arcs) constraints;
          needed = map (\<lambda>(hi, e). (hi, be_self_path e)) edges;
          key_paths = needed @ map (\<lambda>(hi, e). (be_partner e, be_partner_path e)) edges;
          colors = map (map tok_json) arc_tokens
      in if edges = [] then None
         else if \<not> list_all (\<lambda>(i, path).
             list_all (\<lambda>v. scalar_key (pluck_path v path) \<noteq> None) (colors ! i)) key_paths
         then None
         else Some \<lparr>
           jp_roles = map (\<lambda>(i, a).
             let back = map snd (filter (\<lambda>(hi, _). hi = i) edges) in
             if arc_pinned a then Pinned else if back \<noteq> [] then Joined back else Free)
             (List.enumerate 0 arcs),
           jp_colors = colors,
           jp_maps = fold (\<lambda>(i, path) m. m((i, path) \<mapsto> build_index (colors ! i) path))
             needed Map.empty\<rparr>)"

text \<open>The candidates of one level, given the indices fixed for the earlier ones.\<close>

definition edge_matches :: "join_plan \<Rightarrow> nat \<Rightarrow> nat list \<Rightarrow> back_edge \<Rightarrow> nat list" where
  "edge_matches plan level indices e =
    (let partner_color = jp_colors plan ! be_partner e ! (indices ! be_partner e);
         key = the (scalar_key (pluck_path partner_color (be_partner_path e)))
     in case jp_maps plan (level, be_self_path e) of
          None \<Rightarrow> []
        | Some m \<Rightarrow> (case m key of None \<Rightarrow> [] | Some is \<Rightarrow> is))"

definition join_candidates :: "join_plan \<Rightarrow> token list list \<Rightarrow> nat \<Rightarrow> nat list \<Rightarrow> nat list" where
  "join_candidates plan arc_tokens level indices =
    (case jp_roles plan ! level of
       Pinned \<Rightarrow> [0]
     | Free \<Rightarrow> [0..<length (arc_tokens ! level)]
     | Joined edges \<Rightarrow>
         (case fold (\<lambda>e cand. let ms = edge_matches plan level indices e in
             Some (case cand of None \<Rightarrow> ms | Some prev \<Rightarrow> intersect_sorted prev ms)) edges None of
            None \<Rightarrow> [0..<length (arc_tokens ! level)]
          | Some cand \<Rightarrow> cand))"

text \<open>One full combination: build the binding, then run the guard.\<close>

definition try_combination :: "rhai \<Rightarrow> transition \<Rightarrow> arc list \<Rightarrow> token list list \<Rightarrow>
    schema_registry option \<Rightarrow> nat list \<Rightarrow> token_binding option" where
  "try_combination rh tr arcs arc_tokens reg indices =
    (case build_binding_for_indices tr arcs arc_tokens indices reg of
       None \<Rightarrow> None
     | Some b \<Rightarrow> (case tr_guard tr of
         None \<Rightarrow> Some b
       | Some g \<Rightarrow> if evaluate_guard rh g (tb_port_inputs b) = Inr True then Some b else None))"

text \<open>The depth-first search; \<open>cands\<close> gives the candidates of a level.\<close>

function combo_search :: "(nat \<Rightarrow> nat list \<Rightarrow> nat list) \<Rightarrow> (nat list \<Rightarrow> token_binding option) \<Rightarrow> nat \<Rightarrow>
    nat \<Rightarrow> nat list \<Rightarrow> token_binding option" where
  "combo_search cands leaf k level indices =
    (if level \<ge> k then leaf indices
     else first_some (\<lambda>c. combo_search cands leaf k (Suc level) (indices[level := c]))
       (cands level indices))"
  by pat_completeness auto
termination by (relation "measure (\<lambda>(cands, leaf, k, level, indices). k - level)") auto

declare combo_search.simps [simp del]

definition join_search :: "rhai \<Rightarrow> transition \<Rightarrow> arc list \<Rightarrow> token list list \<Rightarrow> schema_registry option \<Rightarrow>
    join_plan \<Rightarrow> token_binding option" where
  "join_search rh tr arcs arc_tokens reg plan =
    combo_search (join_candidates plan arc_tokens) (try_combination rh tr arcs arc_tokens reg)
      (length arcs) 0 (replicate (length arcs) 0)"

section \<open>Finding a binding\<close>

text \<open>The first combination in the iterator's order that builds and passes the guard.\<close>

definition search_all :: "rhai \<Rightarrow> transition \<Rightarrow> arc list \<Rightarrow> token list list \<Rightarrow> schema_registry option \<Rightarrow>
    token_binding option" where
  "search_all rh tr arcs arc_tokens reg =
    first_some (try_combination rh tr arcs arc_tokens reg) (combinations (map length arc_tokens))"

definition find_valid_binding :: "rhai \<Rightarrow> transition \<Rightarrow> arc list \<Rightarrow> marking \<Rightarrow> schema_registry option \<Rightarrow>
    token_binding option" where
  "find_valid_binding rh tr arcs m reg =
    (let arc_tokens = map (\<lambda>a. tokens_at m (arc_place a)) arcs;
         fifo = build_binding_for_indices tr arcs arc_tokens (replicate (length arcs) 0) reg
     in if list_ex (\<lambda>a. arc_count_from a = None \<and> arc_drain_max a = None \<and>
             length (tokens_at m (arc_place a)) < arc_weight a) arcs then None
        else if arcs = [] then Some empty_binding
        else if tr_guard tr = None \<and> reg = None then fifo
        else if tr_guard tr = None \<and> fifo \<noteq> None then fifo
        else (case tr_guard tr of
            None \<Rightarrow> search_all rh tr arcs arc_tokens reg
          | Some g \<Rightarrow>
              if length arcs \<ge> 2 then
                (case join_plan_build tr arcs arc_tokens (extract_join_constraints g) of
                   Some plan \<Rightarrow> join_search rh tr arcs arc_tokens reg plan
                 | None \<Rightarrow> search_all rh tr arcs arc_tokens reg)
              else search_all rh tr arcs arc_tokens reg))"

section \<open>The iterator enumerates the product\<close>

abbreviation index_product :: "nat list \<Rightarrow> nat list list" where
  "index_product sizes \<equiv> product_lists (map (\<lambda>n. [0..<n]) sizes)"

text \<open>The combinations from a given one on, in lexicographic order.\<close>

fun combo_from :: "nat list \<Rightarrow> nat list \<Rightarrow> nat list list" where
  "combo_from (n # ns) (c # cs) = map (Cons c) (combo_from ns cs) @
    concat (map (\<lambda>x. map (Cons x) (index_product ns)) [Suc c..<n])"
| "combo_from _ _ = [[]]"

lemma combo_from_zero:
  "0 \<notin> set ns \<Longrightarrow> combo_from ns (replicate (length ns) 0) = index_product ns"
  by (induction ns) (auto simp: upt_conv_Cons)

lemma combo_increment_step:
  assumes "list_all2 (<) cs ns" and "combo_increment ns cs = (carry, cs')"
  shows "if carry then combo_from ns cs = [cs] \<and> cs' = replicate (length ns) 0
    else combo_from ns cs = cs # combo_from ns cs' \<and> list_all2 (<) cs' ns"
  using assms
proof (induction ns cs arbitrary: carry cs' rule: combo_increment.induct)
  case (1 n ns c cs)
  obtain k ds where inner: "combo_increment ns cs = (k, ds)" by (cases "combo_increment ns cs")
  have lt: "c < n" "list_all2 (<) cs ns" using "1.prems"(1) by auto
  have pos: "0 \<notin> set ns" using lt(2) by (auto simp: list_all2_conv_all_nth in_set_conv_nth)
  then have zeros: "list_all2 (<) (replicate (length ns) 0) ns"
    by (auto simp: list_all2_conv_all_nth in_set_conv_nth)
  note IH = "1.IH" [OF lt(2) inner]
  show ?case
  proof (cases k)
    case True
    with IH have i: "combo_from ns cs = [cs]" "ds = replicate (length ns) 0" by auto
    show ?thesis
    proof (cases "c + 1 \<ge> n")
      case True
      then show ?thesis using \<open>k\<close> inner i "1.prems"(2) by auto
    next
      case False
      then have "[Suc c..<n] = Suc c # [Suc (Suc c)..<n]" by (simp add: upt_conv_Cons)
      then show ?thesis using False \<open>k\<close> inner i "1.prems"(2) combo_from_zero [OF pos] zeros by auto
    qed
  next
    case False
    with IH inner "1.prems"(2) lt show ?thesis by auto
  qed
qed auto

lemma combo_items_from:
  assumes "list_all2 (<) (ci_current it) (ci_sizes it)" and "\<not> ci_done it"
    and "length (combo_from (ci_sizes it) (ci_current it)) < fuel"
  shows "combo_items fuel it = combo_from (ci_sizes it) (ci_current it)"
  using assms
proof (induction fuel arbitrary: it)
  case (Suc fuel)
  obtain carry cs where inc: "combo_increment (ci_sizes it) (ci_current it) = (carry, cs)"
    by (cases "combo_increment (ci_sizes it) (ci_current it)")
  note step = combo_increment_step [OF Suc.prems(1) inc]
  show ?case
  proof (cases carry)
    case True
    with step have "combo_from (ci_sizes it) (ci_current it) = [ci_current it]" by simp
    then show ?thesis using Suc.prems(2,3) inc True by (cases fuel) (auto simp: combo_next_def)
  next
    case False
    with step have s: "combo_from (ci_sizes it) (ci_current it) = ci_current it # combo_from (ci_sizes it) cs"
      "list_all2 (<) cs (ci_sizes it)" by auto
    then have "combo_items fuel (it\<lparr>ci_current := cs, ci_done := False\<rparr>) = combo_from (ci_sizes it) cs"
      using Suc.IH [of "it\<lparr>ci_current := cs, ci_done := False\<rparr>"] Suc.prems(3) by simp
    then show ?thesis using Suc.prems(2) inc False s(1) by (simp add: combo_next_def)
  qed
qed simp

lemma index_product_empty: "0 \<in> set ns \<Longrightarrow> index_product ns = []"
  by (induction ns) auto

lemma length_index_product: "length (index_product ns) = prod_list ns"
  by (induction ns) (auto simp: length_concat comp_def sum_list_triv)

lemma combinations_product: "combinations sizes = index_product sizes"
proof (cases "0 \<in> set sizes")
  case True
  then show ?thesis
    by (simp add: combinations_def combo_new_def combo_next_def index_product_empty)
next
  case False
  then have lt: "list_all2 (<) (replicate (length sizes) 0) sizes"
    by (auto simp: list_all2_conv_all_nth in_set_conv_nth)
  have "combo_items (Suc (prod_list sizes)) (combo_new sizes) =
      combo_from (ci_sizes (combo_new sizes)) (ci_current (combo_new sizes))"
    by (rule combo_items_from)
      (use lt False in \<open>simp_all add: combo_new_def combo_from_zero length_index_product\<close>)
  then show ?thesis using False by (simp add: combinations_def combo_new_def combo_from_zero)
qed

section \<open>Properties of the iterator\<close>

text \<open>
  C33: the iterator ends after as many items as the sizes multiply to, and yields exactly the
  index combinations in lexicographic order, each once; with an empty place there is none.
\<close>

theorem combination_iterator_enumerates_product:
  "combinations sizes = product_lists (map (\<lambda>n. [0..<n]) sizes) \<and>
   length (combinations sizes) = prod_list sizes"
  using combinations_product [of sizes] length_index_product [of sizes] by simp

section \<open>What a binding holds\<close>

lemma fold_bind_consume:
  "fold (bind_consume p) ts b = b\<lparr>tb_consumed := tb_consumed b @ map (\<lambda>t. (p, tok_id t)) ts,
    tb_max_created_at := fold (\<lambda>t m. bump_created m (tok_created_at t)) ts (tb_max_created_at b)\<rparr>"
  by (induction ts arbitrary: b) (simp_all add: bind_consume_def)

lemma fold_bind_read:
  "fold (bind_read p) ts b = b\<lparr>tb_read := tb_read b @ map (\<lambda>t. (p, t)) ts,
    tb_max_created_at := fold (\<lambda>t m. bump_created m (tok_created_at t)) ts (tb_max_created_at b)\<rparr>"
  by (induction ts arbitrary: b) (simp_all add: bind_read_def)

lemma add_routing_frame:
  "add_routing t b = Some b' \<Longrightarrow> tb_consumed b' = tb_consumed b \<and> tb_read b' = tb_read b \<and>
    tb_port_inputs b' = tb_port_inputs b \<and> tb_read_port_names b' = tb_read_port_names b"
  by (auto simp: add_routing_def split: option.splits)

lemma fold_gather_frame:
  assumes "fold_opt (gather_token a) ts b = Some b'"
  shows "tb_consumed b' = tb_consumed b @ (if arc_read a then [] else map (\<lambda>t. (arc_place a, tok_id t)) ts) \<and>
    tb_read b' = tb_read b @ (if arc_read a then map (\<lambda>t. (arc_place a, t)) ts else []) \<and>
    tb_port_inputs b' = tb_port_inputs b"
  using assms
proof (induction ts arbitrary: b)
  case (Cons t ts)
  then obtain c where c: "gather_token a t b = Some c" "fold_opt (gather_token a) ts c = Some b'"
    by (auto split: option.splits)
  from c(1) have "tb_consumed c = tb_consumed b @ (if arc_read a then [] else [(arc_place a, tok_id t)]) \<and>
      tb_read c = tb_read b @ (if arc_read a then [(arc_place a, t)] else []) \<and>
      tb_port_inputs c = tb_port_inputs b"
    using add_routing_frame
    by (fastforce simp: gather_token_def bind_read_def bind_consume_def split: if_splits)
  with Cons.IH [OF c(2)] show ?case by simp
qed simp

text \<open>
  What one slot adds: tokens of its own place, chosen from the list it was given, and one
  port value.
\<close>

lemma bind_drain_effect:
  assumes "bind_drain tr reg cap a tokens b = Some b'"
  shows "\<exists>sel. sel \<noteq> [] \<and> sel = take (max cap 1) tokens \<and>
    tb_consumed b' = tb_consumed b @ (if arc_read a then [] else map (\<lambda>t. (arc_place a, tok_id t)) sel) \<and>
    tb_read b' = tb_read b @ (if arc_read a then map (\<lambda>t. (arc_place a, t)) sel else []) \<and>
    tb_port_inputs b' = (tb_port_inputs b)(arc_port a \<mapsto> JArray (map tok_json sel))"
  using assms
  by (auto simp: bind_drain_def Let_def fold_bind_consume fold_bind_read bind_input_def
      bind_read_port_def min_def split: if_splits)

lemma bind_gather_effect:
  assumes "bind_gather tr reg count_ref a tokens b = Some b'"
  shows "\<exists>cp cf coord kw sel. split_once (CHR ''.'') count_ref = Some (cp, cf) \<and>
    tb_port_inputs b cp = Some coord \<and> (jget cf coord \<bind> as_u64) = Some kw \<and> 0 < unat kw \<and>
    sel = take (unat kw) (gather_matching a coord tokens) \<and> length sel = unat kw \<and>
    tb_consumed b' = tb_consumed b @ (if arc_read a then [] else map (\<lambda>t. (arc_place a, tok_id t)) sel) \<and>
    tb_read b' = tb_read b @ (if arc_read a then map (\<lambda>t. (arc_place a, t)) sel else []) \<and>
    tb_port_inputs b' = (tb_port_inputs b)(arc_port a \<mapsto> JArray (map tok_json sel))"
  using assms
  by (auto simp: bind_gather_def Let_def bind_input_def bind_read_port_def
      dest!: fold_gather_frame split: option.splits if_splits prod.splits)

lemma bind_normal_effect:
  assumes "bind_normal tr reg a tokens idx b = Some b'"
  shows "idx < length tokens \<and>
    (\<exists>sel. set sel \<subseteq> set tokens \<and>
      tb_consumed b' = tb_consumed b @ (if arc_read a then [] else map (\<lambda>t. (arc_place a, tok_id t)) sel) \<and>
      tb_read b' = tb_read b @ (if arc_read a then map (\<lambda>t. (arc_place a, t)) sel else [])) \<and>
    tb_port_inputs b' = (tb_port_inputs b)(arc_port a \<mapsto>
      (case port_cardinality_of tr (arc_port a) of
         Single \<Rightarrow> tok_json (if arc_read a then last tokens else tokens ! idx)
       | Batch \<Rightarrow> JArray (map tok_json tokens)))"
proof -
  let ?t = "if arc_read a then last tokens else tokens ! idx"
  have idx: "idx < length tokens" using assms by (auto simp: bind_normal_def split: if_splits)
  then have "tokens \<noteq> []" by auto
  then have mem: "?t \<in> set tokens" using idx by simp
  have drop_mem: "set (take w (drop idx tokens)) \<subseteq> set tokens" for w
    by (meson set_drop_subset set_take_subset order_trans)
  obtain b1 where b1: "(if arc_read a then Some b else add_routing ?t b) = Some b1"
    using assms idx by (auto simp: bind_normal_def Let_def split: option.splits)
  then have fr: "tb_consumed b1 = tb_consumed b" "tb_read b1 = tb_read b"
    "tb_port_inputs b1 = tb_port_inputs b"
    using add_routing_frame by (auto split: if_splits)
  define sel where "sel = (if arc_read a
    then (case port_cardinality_of tr (arc_port a) of Single \<Rightarrow> [last tokens] | Batch \<Rightarrow> tokens)
    else (case port_cardinality_of tr (arc_port a) of Single \<Rightarrow> [tokens ! idx]
      | Batch \<Rightarrow> take (arc_weight a) (drop idx tokens)))"
  have sub: "set sel \<subseteq> set tokens" using mem drop_mem
    by (auto simp: sel_def split: port_cardinality.split if_splits)
  have b': "b' = bind_input (arc_port a)
      (case port_cardinality_of tr (arc_port a) of Single \<Rightarrow> tok_json ?t | Batch \<Rightarrow> JArray (map tok_json tokens))
      (if arc_read a then fold (bind_read (arc_place a)) sel (bind_read_port (arc_port a) b1)
       else fold (bind_consume (arc_place a)) sel b1)"
  proof (cases "arc_read a")
    case True
    with assms b1 idx show ?thesis
      by (cases "port_cardinality_of tr (arc_port a)")
        (simp_all add: bind_normal_def Let_def sel_def split: if_splits)
  next
    case False
    with assms b1 idx show ?thesis
      by (cases "port_cardinality_of tr (arc_port a)")
        (simp_all add: bind_normal_def Let_def sel_def split: if_splits)
  qed
  have eff: "tb_consumed b' = tb_consumed b @ (if arc_read a then [] else map (\<lambda>t. (arc_place a, tok_id t)) sel)"
    "tb_read b' = tb_read b @ (if arc_read a then map (\<lambda>t. (arc_place a, t)) sel else [])"
    "tb_port_inputs b' = (tb_port_inputs b)(arc_port a \<mapsto>
      (case port_cardinality_of tr (arc_port a) of Single \<Rightarrow> tok_json ?t | Batch \<Rightarrow> JArray (map tok_json tokens)))"
    unfolding b' fr [symmetric]
    by (simp_all add: bind_input_def fold_bind_read fold_bind_consume bind_read_port_def)
  show ?thesis using idx sub eff by blast
qed

definition slot_effect :: "slot \<Rightarrow> token_binding \<Rightarrow> token_binding \<Rightarrow> bool" where
  "slot_effect s b b' \<longleftrightarrow> (case s of (a, tokens, idx) \<Rightarrow>
    \<exists>sel v. set sel \<subseteq> set tokens \<and>
      tb_consumed b' = tb_consumed b @ (if arc_read a then [] else map (\<lambda>t. (arc_place a, tok_id t)) sel) \<and>
      tb_read b' = tb_read b @ (if arc_read a then map (\<lambda>t. (arc_place a, t)) sel else []) \<and>
      tb_port_inputs b' = (tb_port_inputs b)(arc_port a \<mapsto> v))"

lemma bind_slot_effect:
  assumes "bind_slot tr reg s b = Some b'"
  shows "slot_effect s b b'"
proof -
  obtain a tokens idx where s: "s = (a, tokens, idx)" by (cases s)
  have taken: "set (take k (gather_matching a c tokens)) \<subseteq> set tokens" for k c
    by (auto simp: gather_matching_def split: option.splits dest!: in_set_takeD)
  have taken': "set (take k tokens) \<subseteq> set tokens" for k by (rule set_take_subset)
  show ?thesis
  proof (cases "arc_drain_max a")
    case (Some cap)
    then show ?thesis using assms taken' bind_drain_effect [of tr reg cap a tokens b b']
      by (auto simp: bind_slot_def s slot_effect_def)
  next
    case None
    show ?thesis
    proof (cases "arc_count_from a")
      case (Some r)
      then have "bind_gather tr reg r a tokens b = Some b'" using assms None by (simp add: bind_slot_def s)
      from bind_gather_effect [OF this] obtain c k sel where
        "sel = take k (gather_matching a c tokens)"
        "tb_consumed b' = tb_consumed b @ (if arc_read a then [] else map (\<lambda>t. (arc_place a, tok_id t)) sel)"
        "tb_read b' = tb_read b @ (if arc_read a then map (\<lambda>t. (arc_place a, t)) sel else [])"
        "tb_port_inputs b' = (tb_port_inputs b)(arc_port a \<mapsto> JArray (map tok_json sel))"
        by blast
      then show ?thesis unfolding slot_effect_def s prod.case using taken
        by (intro exI [of _ sel] exI [of _ "JArray (map tok_json sel)"]) simp
    next
      case N: None
      then show ?thesis using assms None bind_normal_effect [of tr reg a tokens idx b b']
        by (auto simp: bind_slot_def s slot_effect_def)
    qed
  qed
qed

lemma bind_slots_fold:
  "bind_slots tr reg slots =
    fold_opt (bind_slot tr reg) (filter (\<lambda>s. \<not> is_gather (fst s)) slots @
      filter (\<lambda>s. is_gather (fst s)) slots) empty_binding"
  unfolding bind_slots_def fold_opt_append ..

text \<open>The tokens of a binding come from the marking and from the places of its arcs.\<close>

definition binding_sound :: "arc list \<Rightarrow> marking \<Rightarrow> token_binding \<Rightarrow> bool" where
  "binding_sound arcs m b \<longleftrightarrow>
    (\<forall>(p, i) \<in> set (tb_consumed b). i \<in> set (ids_at m p) \<and>
       (\<exists>a \<in> set arcs. arc_place a = p \<and> \<not> arc_read a)) \<and>
    (\<forall>(p, t) \<in> set (tb_read b). t \<in> set (tokens_at m p) \<and>
       (\<exists>a \<in> set arcs. arc_place a = p \<and> arc_read a))"

lemma binding_sound_empty [simp]: "binding_sound arcs m empty_binding"
  by (simp add: binding_sound_def empty_binding_def)

lemma slot_effect_sound:
  assumes "slot_effect (a, tokens_at m (arc_place a), idx) b b'" and "a \<in> set arcs"
    and "binding_sound arcs m b"
  shows "binding_sound arcs m b'"
  using assms by (fastforce simp: slot_effect_def binding_sound_def split: if_splits)

lemma build_binding_sound:
  assumes "build_binding_for_indices tr arcs (map (\<lambda>a. tokens_at m (arc_place a)) arcs) is reg = Some b"
  shows "binding_sound arcs m b"
proof -
  let ?slots = "zip arcs (zip (map (\<lambda>a. tokens_at m (arc_place a)) arcs) is)"
  have slots: "a \<in> set arcs \<and> ts = tokens_at m (arc_place a)" if "(a, ts, i) \<in> set ?slots" for a ts i
    using that by (auto simp: set_zip)
  show ?thesis
  proof (rule fold_opt_invariant [OF assms [unfolded build_binding_for_indices_def bind_slots_fold]])
    fix s b b'
    assume s: "s \<in> set (filter (\<lambda>s. \<not> is_gather (fst s)) ?slots @ filter (\<lambda>s. is_gather (fst s)) ?slots)"
      and sound: "binding_sound arcs m b" and step: "bind_slot tr reg s b = Some b'"
    obtain a ts i where eq: "s = (a, ts, i)" by (cases s)
    have "s \<in> set ?slots" using s by auto
    then have "a \<in> set arcs" "ts = tokens_at m (arc_place a)" using slots eq by auto
    then show "binding_sound arcs m b'"
      using slot_effect_sound [of a m i b b' arcs] bind_slot_effect [OF step] sound eq by simp
  qed simp
qed

lemma try_combination_sound:
  "try_combination rh tr arcs (map (\<lambda>a. tokens_at m (arc_place a)) arcs) reg is = Some b \<Longrightarrow>
    binding_sound arcs m b"
  using build_binding_sound by (auto simp: try_combination_def split: option.splits if_splits)

lemma combo_search_SomeD:
  "combo_search cands leaf k level is = Some b \<Longrightarrow> \<exists>js. leaf js = Some b"
proof (induction cands leaf k level "is" rule: combo_search.induct)
  case (1 cands leaf k level "is")
  show ?case
  proof (cases "level \<ge> k")
    case True
    then show ?thesis using "1.prems" by (subst (asm) combo_search.simps) auto
  next
    case False
    then obtain c where "combo_search cands leaf k (Suc level) (is[level := c]) = Some b"
      "c \<in> set (cands level is)"
      using "1.prems" by (subst (asm) combo_search.simps) (auto dest: first_some_SomeD)
    then show ?thesis using "1.IH" [OF False] by blast
  qed
qed

lemma find_valid_binding_sound_aux:
  assumes "find_valid_binding rh tr arcs m reg = Some b"
  shows "binding_sound arcs m b"
  using assms
  by (auto simp: find_valid_binding_def Let_def search_all_def join_search_def
      dest!: first_some_SomeD combo_search_SomeD
      intro: build_binding_sound try_combination_sound split: if_splits option.splits)

section \<open>Properties of bindings\<close>

text \<open>
  A binding found for a transition only consumes tokens that are present in the marking,
  each at the place of a consuming input arc, and only reads tokens present at the place of a
  read arc; when the transition has a guard and inputs, the guard holds on the bound values.
\<close>

theorem find_valid_binding_sound:
  assumes "find_valid_binding rh tr arcs m reg = Some b"
  shows "(\<forall>(p, i) \<in> set (tb_consumed b). i \<in> set (ids_at m p) \<and>
       (\<exists>a \<in> set arcs. arc_place a = p \<and> \<not> arc_read a)) \<and>
    (\<forall>(p, t) \<in> set (tb_read b). t \<in> set (tokens_at m p) \<and>
       (\<exists>a \<in> set arcs. arc_place a = p \<and> arc_read a)) \<and>
    (\<forall>g. tr_guard tr = Some g \<and> arcs \<noteq> [] \<longrightarrow> evaluate_guard rh g (tb_port_inputs b) = Inr True)"
proof -
  have "evaluate_guard rh g (tb_port_inputs b) = Inr True" if "tr_guard tr = Some g" "arcs \<noteq> []" for g
    using assms that
    by (auto simp: find_valid_binding_def Let_def search_all_def join_search_def try_combination_def
        dest!: first_some_SomeD combo_search_SomeD split: if_splits option.splits)
  then show ?thesis
    using find_valid_binding_sound_aux [OF assms] unfolding binding_sound_def by blast
qed

definition demo_rhai :: rhai where
  "demo_rhai = \<lparr>rh_eval = (\<lambda>s sc. case (sc ''a'', sc ''b'') of
      (Some (DMap x), Some (DMap y)) \<Rightarrow>
        Inr (DBool (case (map_of x ''k'', map_of y ''k'') of
            (Some (DString s), Some (DString u)) \<Rightarrow> s = u
          | _ \<Rightarrow> False))
    | (Some x, _) \<Rightarrow> Inr (DMap [(''out'', x)])
    | _ \<Rightarrow> Inr (DBool True)),
    rh_mismatch = (\<lambda>_ _. []), rh_compile = (\<lambda>_. None), rh_iter = id\<rparr>"

definition demo_token :: "nat \<Rightarrow> string \<Rightarrow> token" where
  "demo_token i s = token_new i (int i) (Data (JObject [(''k'', JString s)]))"

definition demo_marking :: marking where
  "demo_marking = [''p'' \<mapsto> [demo_token 1 ''x'', demo_token 2 ''y''], ''q'' \<mapsto> [demo_token 3 ''y'']]"

definition demo_transition :: transition where
  "demo_transition = (transition_new ''t'' ''s'')\<lparr>tr_guard := Some ''a.k == b.k'',
     tr_input_ports := [port_new ''a'', port_new ''b''], tr_output_ports := [port_new ''out'']\<rparr>"

definition demo_arcs :: "arc list" where
  "demo_arcs = [arc_input 0 ''p'' ''t'' ''a'', arc_input 1 ''q'' ''t'' ''b'']"

lemmas demo_binding_defs = demo_rhai_def demo_token_def demo_marking_def demo_transition_def
  demo_arcs_def transition_new_def arc_input_def port_new_def token_new_def

lemma demo_binding:
  "map_option tb_consumed (find_valid_binding demo_rhai demo_transition demo_arcs demo_marking None) =
    Some [(''p'', 2), (''q'', 3)]"
  by code_simp

theorem find_valid_binding_sound_witness:
  "2 \<in> set (ids_at demo_marking ''p'') \<and> 3 \<in> set (ids_at demo_marking ''q'')"
proof -
  obtain b where "find_valid_binding demo_rhai demo_transition demo_arcs demo_marking None = Some b"
    and "tb_consumed b = [(''p'', 2), (''q'', 3)]"
    using demo_binding by auto
  then show ?thesis using find_valid_binding_sound [of demo_rhai demo_transition demo_arcs demo_marking None b]
    by simp
qed

text \<open>
  A gather barrier that fires takes exactly the number of tokens its coordinator names,
  never zero: the first ones in marking order whose correlation field equals the
  coordinator's; the script sees exactly the tokens that are consumed. A drain takes a
  non-empty prefix of the place limited by its cap, again seeing what it consumes.
\<close>

theorem gather_and_drain_consume_what_they_show:
  assumes "arc_read a = False" and "bind_slot tr reg (a, tokens, idx) b = Some b'"
    and "arc_drain_max a \<noteq> None \<or> arc_count_from a \<noteq> None"
  shows "\<exists>sel. sel \<noteq> [] \<and>
    tb_consumed b' = tb_consumed b @ map (\<lambda>t. (arc_place a, tok_id t)) sel \<and>
    tb_port_inputs b' (arc_port a) = Some (JArray (map tok_json sel)) \<and>
    (\<forall>cap. arc_drain_max a = Some cap \<longrightarrow> sel = take (max cap 1) tokens) \<and>
    (arc_drain_max a = None \<longrightarrow> (\<exists>cp cf coord k.
       split_once (CHR ''.'') (the (arc_count_from a)) = Some (cp, cf) \<and>
       tb_port_inputs b cp = Some coord \<and> (jget cf coord \<bind> as_u64) = Some k \<and>
       length sel = unat k \<and> sel = take (unat k) (gather_matching a coord tokens)))"
proof (cases "arc_drain_max a")
  case (Some cap)
  then show ?thesis using assms bind_drain_effect [of tr reg cap a tokens b b']
    by (auto simp: bind_slot_def)
next
  case None
  then obtain r where r: "arc_count_from a = Some r" using assms(3) by auto
  then have "bind_gather tr reg r a tokens b = Some b'" using assms(2) None by (simp add: bind_slot_def)
  from bind_gather_effect [OF this] show ?thesis using assms(1) None r
    by (elim exE conjE, intro exI conjI) (auto simp del: length_take)
qed

definition demo_drain :: arc where
  "demo_drain = (arc_input 0 ''p'' ''t'' ''a'')\<lparr>arc_drain_max := Some 1\<rparr>"

theorem gather_and_drain_consume_what_they_show_witness:
  "\<exists>b'. bind_slot demo_transition None (demo_drain, [demo_token 1 ''x'', demo_token 2 ''y''], 0) empty_binding
      = Some b' \<and> tb_port_inputs b' ''a'' = Some (JArray [tok_json (demo_token 1 ''x'')])"
proof -
  obtain b' where b': "bind_slot demo_transition None
      (demo_drain, [demo_token 1 ''x'', demo_token 2 ''y''], 0) empty_binding = Some b'"
    by (simp add: bind_slot_def demo_drain_def arc_input_def bind_drain_def value_valid_def)
  show ?thesis
    using gather_and_drain_consume_what_they_show [OF _ b'] b'
    by (auto simp: demo_drain_def arc_input_def)
qed

end
