(* ===== verification/Pre_Dispatch.thy ===== *)
theory Pre_Dispatch
  imports Errors
begin

text \<open>
  The pre-dispatch hook chain, \<^verbatim>\<open>src/engine/core-engine/crates/application/src/pre_dispatch.rs\<close>.
  A hook is a value of the model: the function from the context of a dispatch to what the
  awaited call gives, which is a timeout, an error or an outcome. Durations are milliseconds.
  The lemmas describe the evaluation of a chain as the first decisive hook, with the last
  enrichment before it.
\<close>

section \<open>Hooks\<close>

record pre_dispatch_metadata =
  pdm_scenario_id :: "string option"
  pdm_tenant_id :: "string option"
  pdm_correlation_id :: "string option"
  pdm_process_step :: "string option"
  pdm_hook_chain_index :: nat

record chain_eval_inputs =
  cei_net_id :: string
  cei_transition_id :: transition_id
  cei_transition_name :: string
  cei_effect_handler_id :: "string option"
  cei_inputs :: port_values
  cei_read_inputs :: port_values
  cei_effect_config :: "json option"
  cei_net_parameters :: "json option"
  cei_metadata :: pre_dispatch_metadata

datatype pre_dispatch_outcome =
    OContinue "json option"
  | OReject string
  | ODefer nat

datatype pre_dispatch_error =
    HookTimeoutError string nat
  | MalformedResponse string string
  | Transport string string
  | HookPanicked string
  | HookExecutionFailed string string

datatype hook_result =
    TimedOut
  | HookErr pre_dispatch_error
  | HookOk pre_dispatch_outcome

fun outcome_kind :: "pre_dispatch_outcome \<Rightarrow> pre_dispatch_outcome_kind" where
  "outcome_kind (OContinue _) = KContinue"
| "outcome_kind (OReject _) = KReject"
| "outcome_kind (ODefer _) = KDefer"

text \<open>The texts: decimal numbers, and durations as their debug form prints them.\<close>

fun digits_rev :: "nat \<Rightarrow> string" where
  "digits_rev n = (if n < 10 then [char_of (48 + n)] else char_of (48 + n mod 10) # digits_rev (n div 10))"

declare digits_rev.simps [simp del]

definition show_nat :: "nat \<Rightarrow> string" where
  "show_nat n = rev (digits_rev n)"

definition duration_text :: "nat \<Rightarrow> string" where
  "duration_text ms =
    (if ms = 0 then ''0ns''
     else if ms < 1000 then show_nat ms @ ''ms''
     else let f = ms mod 1000;
              frac = rev (dropWhile (\<lambda>c. c = CHR ''0'')
                (rev (map (\<lambda>i. char_of (48 + f div i mod 10)) [100, 10, 1])))
          in show_nat (ms div 1000) @ (if frac = [] then [] else CHR ''.'' # frac) @ ''s'')"

definition quoted :: "string \<Rightarrow> string" where
  "quoted s = [CHR 0x27] @ s @ [CHR 0x27]"

fun pre_dispatch_error_text :: "pre_dispatch_error \<Rightarrow> string" where
  "pre_dispatch_error_text (HookTimeoutError n d) =
    ''Hook '' @ quoted n @ '' timed out after '' @ duration_text d"
| "pre_dispatch_error_text (MalformedResponse n m) =
    ''Hook '' @ quoted n @ '' returned malformed response: '' @ m"
| "pre_dispatch_error_text (Transport n m) = ''Hook '' @ quoted n @ '' transport error: '' @ m"
| "pre_dispatch_error_text (HookPanicked n) = ''Hook '' @ quoted n @ '' panicked''"
| "pre_dispatch_error_text (HookExecutionFailed n m) =
    ''Hook '' @ quoted n @ '' execution failed: '' @ m"

record chain_entry =
  ce_name :: string
  ce_hook :: "chain_eval_inputs \<Rightarrow> hook_result"
  ce_fail_open :: bool
  ce_timeout :: nat
  ce_match_effect_handlers :: "string list"

type_synonym pre_dispatch_chain = "chain_entry list"

section \<open>Defer budgets\<close>

definition DEFAULT_MAX_DEFERS :: "32 word" where
  "DEFAULT_MAX_DEFERS = 10"

record defer_budgets =
  db_counts :: "(string \<times> transition_id) \<rightharpoonup> 32 word"
  db_max_defers :: "32 word"

definition budgets_new :: "32 word \<Rightarrow> defer_budgets" where
  "budgets_new n = \<lparr>db_counts = Map.empty, db_max_defers = n\<rparr>"

definition budgets_current :: "string \<Rightarrow> transition_id \<Rightarrow> defer_budgets \<Rightarrow> 32 word" where
  "budgets_current n t d = (case db_counts d (n, t) of Some c \<Rightarrow> c | None \<Rightarrow> 0)"

definition budgets_bump :: "string \<Rightarrow> transition_id \<Rightarrow> defer_budgets \<Rightarrow> 32 word \<times> defer_budgets" where
  "budgets_bump n t d = (let c = budgets_current n t d + 1
    in (c, d\<lparr>db_counts := (db_counts d)((n, t) \<mapsto> c)\<rparr>))"

definition budgets_reset :: "string \<Rightarrow> transition_id \<Rightarrow> defer_budgets \<Rightarrow> defer_budgets" where
  "budgets_reset n t d = d\<lparr>db_counts := (db_counts d)((n, t) := None)\<rparr>"

section \<open>Evaluating a chain\<close>

datatype chain_eval_outcome =
    CContinue "json option"
  | CReject string string
  | CDefer string nat

definition trace_entry :: "string \<Rightarrow> pre_dispatch_outcome_kind \<Rightarrow> string option \<Rightarrow> nat option \<Rightarrow> bool \<Rightarrow>
    pre_dispatch_hook_outcome" where
  "trace_entry n k r ms fo = \<lparr>pho_hook_name = n, pho_kind = k, pho_reason = r,
     pho_retry_after_ms = ms, pho_fail_open_applied = fo\<rparr>"

definition entry_applies :: "chain_entry \<Rightarrow> string option \<Rightarrow> bool" where
  "entry_applies en h = (ce_match_effect_handlers en = [] \<or>
    (case h of Some i \<Rightarrow> i \<in> set (ce_match_effect_handlers en) | None \<Rightarrow> False))"

definition invoke_hook :: "chain_eval_inputs \<Rightarrow> nat \<Rightarrow> chain_entry \<Rightarrow> hook_result" where
  "invoke_hook ins idx en =
    ce_hook en (ins\<lparr>cei_metadata := (cei_metadata ins)\<lparr>pdm_hook_chain_index := idx\<rparr>\<rparr>)"

fun evaluate_chain_loop :: "chain_eval_inputs \<Rightarrow> nat \<Rightarrow> pre_dispatch_chain \<Rightarrow> json option \<Rightarrow>
    pre_dispatch_hook_outcome list \<Rightarrow> chain_eval_outcome \<times> pre_dispatch_hook_outcome list" where
  "evaluate_chain_loop ins idx [] enr tr = (CContinue enr, tr)"
| "evaluate_chain_loop ins idx (en # ens) enr tr =
    (if \<not> entry_applies en (cei_effect_handler_id ins) then evaluate_chain_loop ins (idx + 1) ens enr tr
     else (case invoke_hook ins idx en of
         TimedOut \<Rightarrow>
           if ce_fail_open en
           then evaluate_chain_loop ins (idx + 1) ens enr (tr @ [trace_entry (ce_name en) KContinue None None True])
           else let reason = ce_name en @ '': hook-error: timeout after '' @ duration_text (ce_timeout en)
                in (CReject (ce_name en) reason, tr @ [trace_entry (ce_name en) KReject (Some reason) None False])
       | HookErr err \<Rightarrow>
           if ce_fail_open en
           then evaluate_chain_loop ins (idx + 1) ens enr (tr @ [trace_entry (ce_name en) KContinue None None True])
           else let reason = ce_name en @ '': hook-error: '' @ pre_dispatch_error_text err
                in (CReject (ce_name en) reason, tr @ [trace_entry (ce_name en) KReject (Some reason) None False])
       | HookOk (OContinue enriched) \<Rightarrow>
           evaluate_chain_loop ins (idx + 1) ens (if enriched \<noteq> None then enriched else enr)
             (tr @ [trace_entry (ce_name en) KContinue None None False])
       | HookOk (OReject reason) \<Rightarrow>
           (CReject (ce_name en) reason, tr @ [trace_entry (ce_name en) KReject (Some reason) None False])
       | HookOk (ODefer ms) \<Rightarrow>
           (CDefer (ce_name en) ms, tr @ [trace_entry (ce_name en) KDefer None (Some ms) False])))"

definition evaluate_chain :: "pre_dispatch_chain \<Rightarrow> chain_eval_inputs \<Rightarrow>
    chain_eval_outcome \<times> pre_dispatch_hook_outcome list" where
  "evaluate_chain ch ins = evaluate_chain_loop ins 0 ch None []"

record pre_dispatch_runtime =
  pdr_net_id :: string
  pdr_chain :: pre_dispatch_chain

section \<open>Specification of a chain\<close>

text \<open>
  What one hook contributes: nothing, a decision, or a pass with an optional enrichment.
\<close>

datatype verdict = Decides chain_eval_outcome | Passes "json option" | Silent

definition hook_verdict :: "chain_eval_inputs \<Rightarrow> nat \<times> chain_entry \<Rightarrow> verdict" where
  "hook_verdict ins ie = (case ie of (i, en) \<Rightarrow>
    if \<not> entry_applies en (cei_effect_handler_id ins) then Silent
    else (case invoke_hook ins i en of
        TimedOut \<Rightarrow> if ce_fail_open en then Passes None
          else Decides (CReject (ce_name en)
            (ce_name en @ '': hook-error: timeout after '' @ duration_text (ce_timeout en)))
      | HookErr err \<Rightarrow> if ce_fail_open en then Passes None
          else Decides (CReject (ce_name en) (ce_name en @ '': hook-error: '' @ pre_dispatch_error_text err))
      | HookOk (OContinue e) \<Rightarrow> Passes e
      | HookOk (OReject r) \<Rightarrow> Decides (CReject (ce_name en) r)
      | HookOk (ODefer ms) \<Rightarrow> Decides (CDefer (ce_name en) ms)))"

fun decision :: "verdict \<Rightarrow> chain_eval_outcome option" where
  "decision (Decides d) = Some d"
| "decision _ = None"

fun enrichment :: "verdict \<Rightarrow> json option" where
  "enrichment (Passes e) = e"
| "enrichment _ = None"

text \<open>The last present value of a list of optional values.\<close>

definition last_some :: "'a option list \<Rightarrow> 'a option" where
  "last_some xs = first_some id (rev xs)"

lemma evaluate_chain_loop_spec:
  "fst (evaluate_chain_loop ins idx ch enr tr) =
    (let vs = map (hook_verdict ins) (List.enumerate idx ch) in
     case first_some decision vs of
       Some d \<Rightarrow> d
     | None \<Rightarrow> CContinue (case last_some (map enrichment vs) of Some e \<Rightarrow> Some e | None \<Rightarrow> enr))"
proof (induction ch arbitrary: idx enr tr)
  case Nil
  then show ?case by (simp add: last_some_def)
next
  case (Cons en ch)
  show ?case
    by (cases "entry_applies en (cei_effect_handler_id ins)";
        cases "invoke_hook ins idx en";
        (simp add: Cons.IH hook_verdict_def Let_def last_some_def first_some_append
          split: option.splits pre_dispatch_outcome.splits)?)
qed

section \<open>Properties\<close>

text \<open>
  A chain is decided by the first hook that rejects, defers, or fails without fail-open;
  later hooks do not matter. When none does, the dispatch continues with the last enrichment
  any hook returned.
\<close>

theorem evaluate_chain_first_decisive:
  "fst (evaluate_chain ch ins) =
    (let vs = map (hook_verdict ins) (List.enumerate 0 ch) in
     case first_some decision vs of
       Some d \<Rightarrow> d
     | None \<Rightarrow> CContinue (last_some (map enrichment vs)))"
  by (simp add: evaluate_chain_def evaluate_chain_loop_spec Let_def split: option.splits)

end
