(* ===== verification/Secrets.thy ===== *)
theory Secrets
  imports Json
begin

text \<open>
  Secret references in configurations, \<^verbatim>\<open>src/shared/secrets/src/resolver.rs\<close> with the stores
  of \<^verbatim>\<open>in_memory_store.rs\<close> and \<^verbatim>\<open>chain_store.rs\<close>. The pattern \<open>{{secret:KEY}}\<close> is matched by
  the functions below as the regular expression engine does: leftmost, the key being the
  longest run of characters other than a closing brace. The lemmas show that resolution
  succeeds exactly when every referenced key is known.
\<close>

section \<open>The pattern\<close>

definition secret_open :: string where
  "secret_open = ''{{secret:''"

text \<open>A match at the start of a string: the key and what follows the match.\<close>

definition secret_match_at :: "string \<Rightarrow> (string \<times> string) option" where
  "secret_match_at s =
    (if take (length secret_open) s = secret_open then
       (let r = drop (length secret_open) s;
            key = takeWhile (\<lambda>c. c \<noteq> CHR ''}'') r;
            after = dropWhile (\<lambda>c. c \<noteq> CHR ''}'') r
        in if key \<noteq> [] \<and> take 2 after = ''}}'' then Some (key, drop 2 after) else None)
     else None)"

lemma secret_match_shorter: "secret_match_at s = Some (k, r) \<Longrightarrow> length r < length s"
proof -
  assume m: "secret_match_at s = Some (k, r)"
  let ?rest = "drop (length secret_open) s"
  have "length (dropWhile (\<lambda>c. c \<noteq> CHR ''}'') ?rest) \<le> length ?rest" by (rule length_dropWhile_le)
  moreover have "length r \<le> length (dropWhile (\<lambda>c. c \<noteq> CHR ''}'') ?rest)"
    using m by (auto simp: secret_match_at_def Let_def split: if_splits)
  moreover have "s \<noteq> []" using m by (auto simp: secret_match_at_def secret_open_def split: if_splits)
  ultimately show ?thesis by (cases s) (auto simp: secret_open_def)
qed

text \<open>All captures, left to right and not overlapping.\<close>

function secret_captures :: "string \<Rightarrow> string list" where
  "secret_captures s = (case s of
      [] \<Rightarrow> []
    | _ # s' \<Rightarrow> (case secret_match_at s of
        Some (key, r) \<Rightarrow> key # secret_captures r
      | None \<Rightarrow> secret_captures s'))"
  by pat_completeness auto
termination
  by (relation "measure length") (auto dest: secret_match_shorter)

declare secret_captures.simps [simp del]

text \<open>\<open>str::replace\<close>: every occurrence, left to right.\<close>

function replace_all :: "string \<Rightarrow> string \<Rightarrow> string \<Rightarrow> string" where
  "replace_all from to s = (case s of
      [] \<Rightarrow> []
    | c # s' \<Rightarrow>
        if from \<noteq> [] \<and> take (length from) s = from
        then to @ replace_all from to (drop (length from) s)
        else c # replace_all from to s')"
  by pat_completeness auto
termination by (relation "measure (\<lambda>(from, to, s). length s)") auto

declare replace_all.simps [simp del]

section \<open>Stores\<close>

datatype secret_error = SecretNotFound string | StoreUnavailable string | AccessDenied string

fun secret_error_text :: "secret_error \<Rightarrow> string" where
  "secret_error_text (SecretNotFound k) = ''secret not found: '' @ k"
| "secret_error_text (StoreUnavailable m) = ''secret store unavailable: '' @ m"
| "secret_error_text (AccessDenied k) = ''access denied for secret: '' @ k"

text \<open>A store is its \<open>get\<close> method.\<close>

type_synonym secret_store = "string \<Rightarrow> (secret_error, string) result"

definition in_memory_store :: "(string, string) hashmap \<Rightarrow> secret_store" where
  "in_memory_store m k = (case hm_get m k of Some v \<Rightarrow> Inr v | None \<Rightarrow> Inl (SecretNotFound k))"

fun chained_loop :: "secret_store list \<Rightarrow> string \<Rightarrow> secret_error \<Rightarrow> (secret_error, string) result" where
  "chained_loop [] k last_err = Inl last_err"
| "chained_loop (st # sts) k last_err = (case st k of
      Inr v \<Rightarrow> Inr v
    | Inl (SecretNotFound _) \<Rightarrow> chained_loop sts k (SecretNotFound k)
    | Inl e \<Rightarrow> Inl e)"

definition chained_store :: "secret_store list \<Rightarrow> secret_store" where
  "chained_store sts k = chained_loop sts k (SecretNotFound k)"

section \<open>Resolution\<close>

definition secret_ref :: "string \<Rightarrow> string" where
  "secret_ref key = secret_open @ key @ ''}}''"

fun replace_refs :: "secret_store \<Rightarrow> string list \<Rightarrow> string \<Rightarrow> (secret_error, string) result" where
  "replace_refs st [] acc = Inr acc"
| "replace_refs st (k # ks) acc = (case st k of
      Inl e \<Rightarrow> Inl e
    | Inr v \<Rightarrow> replace_refs st ks (replace_all (secret_ref k) v acc))"

definition resolve_string :: "secret_store \<Rightarrow> string \<Rightarrow> (secret_error, json) result" where
  "resolve_string st s =
    (if secret_captures s = [] then Inr (JString s)
     else (case secret_match_at s of
         Some (key, []) \<Rightarrow> (case st key of Inl e \<Rightarrow> Inl e | Inr v \<Rightarrow> Inr (JString v))
       | _ \<Rightarrow> (case replace_refs st (secret_captures s) s of
           Inl e \<Rightarrow> Inl e | Inr r \<Rightarrow> Inr (JString r))))"

fun resolve_secrets :: "secret_store \<Rightarrow> json \<Rightarrow> (secret_error, json) result"
  and resolve_list :: "secret_store \<Rightarrow> json list \<Rightarrow> (secret_error, json list) result"
  and resolve_fields :: "secret_store \<Rightarrow> (string \<times> json) list \<Rightarrow> fields \<Rightarrow> (secret_error, fields) result" where
  "resolve_secrets st (JString s) = resolve_string st s"
| "resolve_secrets st (JObject fs) = (case resolve_fields st fs [] of
      Inl e \<Rightarrow> Inl e | Inr gs \<Rightarrow> Inr (JObject gs))"
| "resolve_secrets st (JArray xs) = (case resolve_list st xs of
      Inl e \<Rightarrow> Inl e | Inr ys \<Rightarrow> Inr (JArray ys))"
| "resolve_secrets st v = Inr v"
| "resolve_list st [] = Inr []"
| "resolve_list st (x # xs) = (case resolve_secrets st x of
      Inl e \<Rightarrow> Inl e
    | Inr y \<Rightarrow> (case resolve_list st xs of Inl e \<Rightarrow> Inl e | Inr ys \<Rightarrow> Inr (y # ys)))"
| "resolve_fields st [] acc = Inr acc"
| "resolve_fields st ((k, x) # fs) acc = (case resolve_secrets st x of
      Inl e \<Rightarrow> Inl e | Inr y \<Rightarrow> resolve_fields st fs (obj_insert k y acc))"

fun extract_secret_keys :: "json \<Rightarrow> string list"
  and extract_list_keys :: "json list \<Rightarrow> string list"
  and extract_field_keys :: "(string \<times> json) list \<Rightarrow> string list" where
  "extract_secret_keys (JString s) = secret_captures s"
| "extract_secret_keys (JObject fs) = extract_field_keys fs"
| "extract_secret_keys (JArray xs) = extract_list_keys xs"
| "extract_secret_keys v = []"
| "extract_list_keys [] = []"
| "extract_list_keys (x # xs) = extract_secret_keys x @ extract_list_keys xs"
| "extract_field_keys [] = []"
| "extract_field_keys ((k, x) # fs) = extract_secret_keys x @ extract_field_keys fs"

section \<open>Lemmas\<close>

abbreviation known :: "secret_store \<Rightarrow> string \<Rightarrow> bool" where
  "known st k \<equiv> \<not> isl (st k)"

lemma replace_refs_ok: "isl (replace_refs st ks acc) \<longleftrightarrow> (\<exists>k \<in> set ks. isl (st k))"
  by (induction ks arbitrary: acc) (auto split: sum.splits)

lemma captures_whole: "secret_match_at s = Some (k, []) \<Longrightarrow> secret_captures s = [k]"
  by (subst secret_captures.simps)
    (auto simp: secret_match_at_def secret_open_def secret_captures.simps [of "[]"] split: list.splits if_splits)

lemma resolve_string_ok: "isl (resolve_string st s) \<longleftrightarrow> (\<exists>k \<in> set (secret_captures s). isl (st k))"
proof (cases "\<exists>k. secret_match_at s = Some (k, [])")
  case True
  then obtain k where k: "secret_match_at s = Some (k, [])" ..
  then show ?thesis using captures_whole [OF k] by (auto simp: resolve_string_def split: sum.splits)
next
  case False
  then have eq: "resolve_string st s = (if secret_captures s = [] then Inr (JString s)
      else (case replace_refs st (secret_captures s) s of Inl e \<Rightarrow> Inl e | Inr r \<Rightarrow> Inr (JString r)))"
    by (auto simp: resolve_string_def split: option.splits list.splits)
  have "isl (case x of Inl e \<Rightarrow> Inl e | Inr r \<Rightarrow> Inr (JString r)) = isl x"
    for x :: "(secret_error, string) result" by (cases x) auto
  then show ?thesis unfolding eq using replace_refs_ok [of st "secret_captures s" s] by auto
qed

lemma resolve_ok:
  "isl (resolve_secrets st v) \<longleftrightarrow> (\<exists>k \<in> set (extract_secret_keys v). isl (st k))"
  "isl (resolve_list st vs) \<longleftrightarrow> (\<exists>k \<in> set (extract_list_keys vs). isl (st k))"
  "isl (resolve_fields st fs acc) \<longleftrightarrow> (\<exists>k \<in> set (extract_field_keys fs). isl (st k))"
  by (induction st v and st vs and st fs acc rule: resolve_secrets_resolve_list_resolve_fields.induct)
    (auto simp: resolve_string_ok split: sum.splits)


section \<open>Properties\<close>

text \<open>
  Resolving the secrets of a configuration succeeds exactly when the store knows every key
  the configuration refers to; the keys are the ones the extraction lists.
\<close>

theorem resolve_secrets_iff_known:
  "(\<exists>v'. resolve_secrets st v = Inr v') \<longleftrightarrow> list_all (\<lambda>k. \<exists>s. st k = Inr s) (extract_secret_keys v)"
  using resolve_ok(1) [of st v] by (auto simp: list_all_iff isl_def) (metis sum.exhaust)+

text \<open>
  In mixed text the references are replaced one after the other in the text built so far,
  so a secret whose value looks like a later reference is itself expanded.
\<close>

theorem secret_value_reexpanded:
  "resolve_secrets (\<lambda>k. Inr (if k = ''A'' then ''{{secret:B}}'' else ''leak''))
     (JString ''x{{secret:A}}{{secret:B}}'') = Inr (JString ''xleakleak'')"
  by code_simp

text \<open>
  A chain of stores answers with the first store that does not report the key as missing,
  be it a value or a hard error; only when all report it missing is it missing.
\<close>

theorem chained_store_first_answer:
  "chained_store sts k =
    (case find (\<lambda>st. \<not> (\<exists>j. st k = Inl (SecretNotFound j))) sts of
       Some st \<Rightarrow> st k | None \<Rightarrow> Inl (SecretNotFound k))"
proof -
  have "chained_loop sts k (SecretNotFound k) =
      (case find (\<lambda>st. \<not> (\<exists>j. st k = Inl (SecretNotFound j))) sts of
        Some st \<Rightarrow> st k | None \<Rightarrow> Inl (SecretNotFound k))"
    by (induction sts) (auto split: sum.splits secret_error.splits)
  then show ?thesis by (simp add: chained_store_def)
qed

end
