(* ===== verification/Marking_Cache.thy ===== *)
theory Marking_Cache
  imports Event_Store
begin

text \<open>
  The marking cache, \<open>advance_marking\<close> of
  \<^verbatim>\<open>src/engine/core-engine/crates/application/src/evaluation.rs\<close>. The cache holds a marking and
  the storage position it reflects. The operation reads the store up to three times and the
  cache twice, and other tasks may append, evict or advance the cache in between; the
  definition therefore takes the store and the cache as each read finds them. The lemmas are
  proved once for every event repository, from the laws of the locale.
\<close>

section \<open>Advancing the cache\<close>

datatype marking_delta = Unchanged | Applied "persisted_event list" | Rebuilt

type_synonym marking_cache = "(nat \<times> marking) option"

text \<open>
  \<open>s1\<close>: the store at \<open>len()\<close>; \<open>s2\<close>: at \<open>events_from_checked\<close>; \<open>s3\<close>: at \<open>marking_base\<close>;
  \<open>c1\<close>: the cache under the read lock; \<open>c2\<close>: the cache under the write lock. The result is
  the marking, the delta and the cache left behind.
\<close>

definition rebuild_marking ::
  "'st event_repo \<Rightarrow> 'st \<Rightarrow> marking \<times> marking_delta \<times> marking_cache" where
  "rebuild_marking E s3 =
    (let (base, ts, extent) = er_marking_base E s3;
         m = project_onto base ts
     in (m, Rebuilt, Some (extent, m)))"

definition advance_marking_at :: "'st event_repo \<Rightarrow> 'st \<Rightarrow> 'st \<Rightarrow> 'st \<Rightarrow> marking_cache \<Rightarrow>
    marking_cache \<Rightarrow> marking \<times> marking_delta \<times> marking_cache" where
  "advance_marking_at E s1 s2 s3 c1 c2 =
    (let current_idx = er_len E s1 in
     case c1 of
       None \<Rightarrow> rebuild_marking E s3
     | Some (cached_idx, cached_marking) \<Rightarrow>
         if cached_idx = current_idx then (cached_marking, Unchanged, c2)
         else (case er_events_from_checked E s2 cached_idx of
             None \<Rightarrow> rebuild_marking E s3
           | Some new_events \<Rightarrow>
               let folded_extent = cached_idx + length new_events;
                   start = (case c2 of
                       Some (idx, arc) \<Rightarrow> if idx = cached_idx then arc else cached_marking
                     | None \<Rightarrow> cached_marking);
                   m = project_onto start new_events
               in (m, Applied new_events, Some (folded_extent, m))))"

text \<open>With no other task between the reads:\<close>

definition advance_marking ::
  "'st event_repo \<Rightarrow> 'st \<Rightarrow> marking_cache \<Rightarrow> marking \<times> marking_delta \<times> marking_cache" where
  "advance_marking E s c = advance_marking_at E s s s c c"

section \<open>Coherence\<close>

text \<open>A cache is coherent with a history: its marking is the projection of the prefix it names.\<close>

definition cache_ok :: "persisted_event list \<Rightarrow> marking_cache \<Rightarrow> bool" where
  "cache_ok h c = (case c of None \<Rightarrow> True
    | Some (n, m) \<Rightarrow> n \<le> length h \<and> m = project_marking (take n h))"

lemma cache_ok_None [simp]: "cache_ok h None"
  by (simp add: cache_ok_def)

lemma cache_ok_extend: "cache_ok h c \<Longrightarrow> cache_ok (h @ d) c"
  by (auto simp: cache_ok_def split: option.splits)

text \<open>What a delta says of two markings of one history.\<close>

definition delta_ok :: "persisted_event list \<Rightarrow> marking_cache \<Rightarrow> marking_delta \<Rightarrow> nat \<Rightarrow> bool" where
  "delta_ok h c d n = (case d of
      Unchanged \<Rightarrow> \<exists>m. c = Some (n, m)
    | Applied es \<Rightarrow> \<exists>i m. c = Some (i, m) \<and> i \<le> n \<and> es = drop i (take n h)
    | Rebuilt \<Rightarrow> True)"

context event_repository
begin

lemma rebuild_marking_law:
  "R s h \<Longrightarrow> rebuild_marking E s = (project_marking h, Rebuilt, Some (length h, project_marking h))"
  using base_law by (auto simp: rebuild_marking_def Let_def split: prod.splits)

lemma advance_marking_coherent:
  assumes r1: "R s1 h" and r2: "R s2 (h @ d)" and r3: "R s3 (h @ d @ d')"
    and c1: "cache_ok h c1" and c2: "cache_ok (h @ d @ d') c2"
    and res: "advance_marking_at E s1 s2 s3 c1 c2 = (m, delta, c')"
  shows "\<exists>n. length h \<le> n \<and> n \<le> length (h @ d @ d') \<and> m = project_marking (take n (h @ d @ d')) \<and>
    cache_ok (h @ d @ d') c' \<and> delta_ok (h @ d @ d') c1 delta n"
proof (cases c1)
  case None
  with res rebuild_marking_law [OF r3] show ?thesis
    by (intro exI [of _ "length (h @ d @ d')"])
      (auto simp: advance_marking_at_def delta_ok_def cache_ok_def)
next
  case (Some a)
  obtain i mc where a: "c1 = Some (i, mc)" using Some by (cases a) auto
  have i: "i \<le> length h" "mc = project_marking (take i h)" using c1 by (auto simp: cache_ok_def a)
  show ?thesis
  proof (cases "i = length h")
    case True
    then show ?thesis using res i c2
      by (intro exI [of _ "length h"]) (auto simp: advance_marking_at_def a len_law [OF r1] delta_ok_def)
  next
    case False
    show ?thesis
    proof (cases "er_events_from_checked E s2 i")
      case None
      with False res rebuild_marking_law [OF r3] show ?thesis
        by (intro exI [of _ "length (h @ d @ d')"])
          (auto simp: advance_marking_at_def a len_law [OF r1] delta_ok_def cache_ok_def)
    next
      case (Some es)
      have es: "es = drop i (h @ d)" using checked_law [OF r2 Some] .
      have start: "(case c2 of Some (idx, arc) \<Rightarrow> if idx = i then arc else mc | None \<Rightarrow> mc) = mc"
        using c2 i by (auto simp: cache_ok_def split: option.splits)
      have "project_onto mc es = project_marking (take i (h @ d) @ drop i (h @ d))"
        using i by (simp only: es project_marking_append) simp
      then have m: "project_onto mc es = project_marking (h @ d)"
        by (simp only: append_take_drop_id)
      have len: "i + length es = length (h @ d)" using i es by simp
      have "m = project_marking (h @ d)" "delta = Applied es" "c' = Some (length (h @ d), m)"
        using res False Some start m len
        by (auto simp: advance_marking_at_def a len_law [OF r1] Let_def)
      then show ?thesis using i es
        by (intro exI [of _ "length (h @ d)"]) (simp add: delta_ok_def a cache_ok_def)
    qed
  qed
qed

lemma advance_marking_exact:
  assumes "R s h" and "cache_ok h c" and "advance_marking E s c = (m, delta, c')"
  shows "m = project_marking h \<and> c' = Some (length h, m) \<and> delta_ok h c delta (length h)"
proof -
  have "\<exists>n. length h \<le> n \<and> n \<le> length (h @ [] @ []) \<and> m = project_marking (take n (h @ [] @ [])) \<and>
      cache_ok (h @ [] @ []) c' \<and> delta_ok (h @ [] @ []) c delta n"
    by (rule advance_marking_coherent) (use assms in \<open>simp_all add: advance_marking_def\<close>)
  then have m: "m = project_marking h" "delta_ok h c delta (length h)" by auto
  have "\<exists>n. c' = Some (n, m) \<and> n = length h"
    using assms(3) m len_law [OF assms(1)] rebuild_marking_law [OF assms(1)] assms(2)
    by (auto simp: advance_marking_def advance_marking_at_def Let_def cache_ok_def
        dest!: checked_law [OF assms(1)] split: option.splits prod.splits if_splits)
  then show ?thesis using m by simp
qed

end

section \<open>Topology\<close>

text \<open>The in-memory topology store, \<^verbatim>\<open>infrastructure/src/memory_topology_store.rs\<close>.\<close>

type_synonym topology_store = "petri_net option"

definition topology_get :: "topology_store \<Rightarrow> petri_net option" where
  "topology_get s = s"

definition topology_set :: "petri_net \<Rightarrow> topology_store \<Rightarrow> topology_store" where
  "topology_set n s = Some n"

definition topology_clear :: "topology_store \<Rightarrow> topology_store" where
  "topology_clear s = None"

definition topology_update_script ::
  "transition_id \<Rightarrow> string \<Rightarrow> string option \<Rightarrow> topology_store \<Rightarrow> bool \<times> topology_store" where
  "topology_update_script i script guard s = (case s of
      None \<Rightarrow> (False, s)
    | Some n \<Rightarrow> (case get_transition n i of
        None \<Rightarrow> (False, s)
      | Some t \<Rightarrow> (True, Some (n\<lparr>net_transitions :=
          hm_insert i (t\<lparr>tr_script := script, tr_guard := guard\<rparr>) (net_transitions n)\<rparr>))))"

section \<open>Properties\<close>



text \<open>
  Called with no other task in between, it returns the projection of the whole history
  and leaves the cache at the end of the log, whether it hit, folded a delta, or rebuilt
  because eviction had overtaken the cursor.
\<close>

theorem advance_marking_is_projection:
  assumes "store_run cfg loads wakes s h" and "cache_ok h c"
  shows "fst (advance_marking (memory_repo cfg) s c) = project_marking h \<and>
    snd (snd (advance_marking (memory_repo cfg) s c)) = Some (length h, project_marking h)"
proof -
  obtain m delta c' where r: "advance_marking (memory_repo cfg) s c = (m, delta, c')"
    by (cases "advance_marking (memory_repo cfg) s c") auto
  show ?thesis using mem.advance_marking_exact [OF store_run_rep [OF assms(1)] assms(2) r] r by simp
qed

theorem advance_marking_is_projection_witness:
  "fst (advance_marking (memory_repo demo_cfg) demo_store (Some (0, marking_new))) =
    project_marking demo_history"
  using advance_marking_is_projection [OF demo_run [of False], of "Some (0, marking_new)"]
  by (simp add: cache_ok_def project_marking_def)

end
