(* ===== verification/Firing.thy ===== *)
theory Firing
  imports Binding Pre_Dispatch Secrets Marking_Cache
begin

text \<open>
  Firing a transition, \<^verbatim>\<open>src/engine/core-engine/crates/application/src/firing.rs\<close>: routing of
  output tokens, bridges to other nets, script transitions, effect transitions in live and in
  replay mode with the pre-dispatch stage, and skipped transitions. An operation is a function
  from the world to a result and the next world; the world holds the event store, the counters
  behind fresh identifiers and clock readings, the replay cursor, the defer budgets, and the
  calls made to effect handlers. Handlers, hooks, the interpreter and the repository are the
  parameters of the environment.
\<close>

section \<open>Environment and world\<close>

record dispatch_options =
  do_skip_mask :: "string list"
  do_stage_overrides :: "(string, json) hashmap"

text \<open>A handler's answer may depend on how many handler calls were made before.\<close>

record effect_handler =
  eh_execute :: "nat \<Rightarrow> effect_input \<Rightarrow> (effect_error, effect_output) result"
  eh_port_schemas :: "effect_port_schemas option"

record 'st env =
  en_repo :: "'st event_repo"
  en_topology :: topology_store
  en_rhai :: rhai
  en_handlers :: "string \<rightharpoonup> effect_handler"
  en_mode :: execution_mode
  en_registry :: "schema_registry option"
  en_secrets :: "secret_store option"
  en_parameters :: "json option"
  en_pre_dispatch :: "pre_dispatch_runtime option"
  en_options :: dispatch_options
  en_clock :: "nat \<Rightarrow> time"
  en_uuid :: "nat \<Rightarrow> uuid"
  en_uuid_text :: "uuid \<Rightarrow> string"

record 'st world =
  w_store :: 'st
  w_ticks :: nat
  w_uuids :: nat
  w_replay_cursor :: nat
  w_budgets :: defer_budgets
  w_executed :: "(string \<times> effect_input) list"
  w_replayed :: "(string \<times> effect_input \<times> json) list"

type_synonym ('st, 'a) act = "'st world \<Rightarrow> (service_error, 'a) result \<times> 'st world"

definition act_return :: "'a \<Rightarrow> ('st, 'a) act" where
  "act_return x w = (Inr x, w)"

definition act_fail :: "service_error \<Rightarrow> ('st, 'a) act" where
  "act_fail e w = (Inl e, w)"

text \<open>Sequencing with early return of errors, as the operator \<open>?\<close> does.\<close>

definition act_bind :: "('st, 'a) act \<Rightarrow> ('a \<Rightarrow> ('st, 'b) act) \<Rightarrow> ('st, 'b) act" where
  "act_bind m f w = (case m w of (Inl e, w') \<Rightarrow> (Inl e, w') | (Inr x, w') \<Rightarrow> f x w')"

fun act_lift :: "(service_error, 'a) result \<Rightarrow> ('st, 'a) act" where
  "act_lift (Inl e) = act_fail e"
| "act_lift (Inr x) = act_return x"

definition act_now :: "'st env \<Rightarrow> ('st, time) act" where
  "act_now env w = (Inr (en_clock env (w_ticks w)), w\<lparr>w_ticks := Suc (w_ticks w)\<rparr>)"

definition act_uuid :: "'st env \<Rightarrow> ('st, uuid) act" where
  "act_uuid env w = (Inr (en_uuid env (w_uuids w)), w\<lparr>w_uuids := Suc (w_uuids w)\<rparr>)"

definition act_append :: "'st env \<Rightarrow> domain_event \<Rightarrow> ('st, persisted_event) act" where
  "act_append env e w =
    (case er_append (en_repo env) (en_clock env (w_ticks w)) e (w_store w) of
       (Inl err, s) \<Rightarrow> (Inl (EventStoreFailure err), w\<lparr>w_store := s, w_ticks := Suc (w_ticks w)\<rparr>)
     | (Inr p, s) \<Rightarrow> (Inr p, w\<lparr>w_store := s, w_ticks := Suc (w_ticks w)\<rparr>))"

definition act_budgets :: "(defer_budgets \<Rightarrow> 'a \<times> defer_budgets) \<Rightarrow> ('st, 'a) act" where
  "act_budgets f w = (let (x, b) = f (w_budgets w) in (Inr x, w\<lparr>w_budgets := b\<rparr>))"

definition act_execute :: "string \<Rightarrow> effect_handler \<Rightarrow> effect_input \<Rightarrow>
    ('st, (effect_error, effect_output) result) act" where
  "act_execute hid h inp w =
    (Inr (eh_execute h (length (w_executed w)) inp), w\<lparr>w_executed := w_executed w @ [(hid, inp)]\<rparr>)"

definition token_fresh :: "'st env \<Rightarrow> token_color \<Rightarrow> ('st, token) act" where
  "token_fresh env c = act_bind (act_uuid env) (\<lambda>i. act_bind (act_now env) (\<lambda>now.
     act_return (token_new i now c)))"

section \<open>Error texts\<close>

fun event_store_error_text :: "event_store_error \<Rightarrow> string" where
  "event_store_error_text (PersistFailed m) = ''Failed to persist event: '' @ m"
| "event_store_error_text Timeout = ''Timeout waiting for event persistence''"

fun service_error_text :: "(uuid \<Rightarrow> string) \<Rightarrow> service_error \<Rightarrow> string" where
  "service_error_text u (TransitionNotFound t) = ''Transition not found: '' @ t"
| "service_error_text u (PlaceNotFound p) = ''Place not found: '' @ p"
| "service_error_text u (TokenNotFound t p) = ''Token not found: '' @ u t @ '' in place '' @ p"
| "service_error_text u (InvalidOperation m) = ''Invalid operation: '' @ m"
| "service_error_text u (TransitionNotEnabled t r) = ''Transition '' @ t @ '' is not enabled: '' @ r"
| "service_error_text u (InsufficientTokens p r a) =
    ''Insufficient tokens at place '' @ p @ '': required '' @ show_nat r @ '', available '' @ show_nat a"
| "service_error_text u (GuardNotSatisfied t) = ''Guard condition not satisfied for transition '' @ t"
| "service_error_text u (ScriptError s m) = ''Script error in '' @ s @ '': '' @ m"
| "service_error_text u (UnknownOutputPort n) = ''Unknown output port '' @ quoted n @ '' returned by script''"
| "service_error_text u (NoArcForPort n) = ''No arc connected to output port '' @ quoted n"
| "service_error_text u (BatchOutputNotArray n) =
    ''batch output port '' @ quoted n @ '' produced a non-array value''"
| "service_error_text u NoTopology = ''No topology loaded''"
| "service_error_text u (EffectFailedError t h m r) =
    ''Effect handler '' @ quoted h @ '' failed for transition '' @ t @ '': '' @ m"
| "service_error_text u (SchemaValidationFailed n t e) =
    ''Schema validation failed on port '' @ quoted n @ '' of transition '' @ t @ '': '' @ e"
| "service_error_text u (BridgeReplyMissing n c) =
    ''Bridge reply routing failed at place '' @ quoted n @ '': no matching reply address'' @
    (case c of None \<Rightarrow> [] | Some ch \<Rightarrow> '' for channel '' @ quoted ch)"
| "service_error_text u (EffectContractError m) = ''Effect handler contract mismatch: '' @ m"
| "service_error_text u (SecretResolutionFailed t m) =
    ''Secret resolution failed for transition '' @ t @ '': '' @ m"
| "service_error_text u (InternalError m) = ''Internal error: '' @ m"
| "service_error_text u (EventStoreFailure e) = ''Event store error: '' @ event_store_error_text e"
| "service_error_text u (PreDispatchRejectedError t h r) =
    ''Pre-dispatch rejected transition '' @ t @ '' by hook '' @ quoted h @ '': '' @ r"
| "service_error_text u (PreDispatchDeferredError t h ms) =
    ''Pre-dispatch deferred transition '' @ t @ '' by hook '' @ quoted h @ '' for '' @ show_nat ms @ ''ms''"

section \<open>Inputs\<close>

definition collect_read_inputs :: "token_binding \<Rightarrow> port_values" where
  "collect_read_inputs b = (\<lambda>n. if n \<in> set (tb_read_port_names b) then tb_port_inputs b n else None)"

definition select_process_step :: "transition \<Rightarrow> string option" where
  "select_process_step tr = (case tr_process_step_started tr of
      Some s \<Rightarrow> Some s | None \<Rightarrow> tr_process_step_completed tr)"

definition resolve_param :: "string \<Rightarrow> json option \<Rightarrow> json option \<Rightarrow> (service_error, string) result" where
  "resolve_param field params effect_result =
    (case strip_prefix ''$result.'' field of
       Some key \<Rightarrow> (case effect_result of
           None \<Rightarrow> Inl (InternalError (''Bridge target '' @ quoted field @
             '' references $result but no effect result available''))
         | Some r \<Rightarrow> (case jget key r \<bind> as_str of
             Some s \<Rightarrow> Inr s
           | None \<Rightarrow> Inl (InternalError (''Effect result key '' @ quoted key @ '' not found or not a string''))))
     | None \<Rightarrow> (case strip_prefix ''$params.'' field of
         Some key \<Rightarrow> (case params of
             None \<Rightarrow> Inl (InternalError (''Bridge target '' @ quoted field @
               '' references $params but net has no parameters''))
           | Some r \<Rightarrow> (case jget key r \<bind> as_str of
               Some s \<Rightarrow> Inr s
             | None \<Rightarrow> Inl (InternalError (''Net parameter '' @ quoted key @ '' not found or not a string''))))
       | None \<Rightarrow> Inr field))"

section \<open>Routing outputs\<close>

type_synonym bridge_out = "place_id \<times> token \<times> bridge_target \<times> string \<times> string option"
type_synonym routed = "produced \<times> bridge_out list"

definition reply_address :: "string option \<Rightarrow> reply_routing option \<Rightarrow> bridge_reply_address option" where
  "reply_address channel routing = (case routing of
      None \<Rightarrow> None
    | Some meta \<Rightarrow> (case channel of
        Some ch \<Rightarrow> (case reply_channels meta of None \<Rightarrow> None | Some m \<Rightarrow> hm_get m ch)
      | None \<Rightarrow> reply_to meta))"

text \<open>Where a fresh token goes depends on the kind of the place its arc points to.\<close>

definition deliver_token :: "'st env \<Rightarrow> petri_net \<Rightarrow> reply_routing option \<Rightarrow> json option \<Rightarrow> arc \<Rightarrow> token \<Rightarrow>
    routed \<Rightarrow> ('st, routed) act" where
  "deliver_token env net routing effect_result oa t acc =
    (case get_place net (arc_place oa) of
       None \<Rightarrow> act_return (fst acc @ [(arc_place oa, t)], snd acc)
     | Some pl \<Rightarrow> (case pl_kind pl of
         BridgeReply channel \<Rightarrow> (case reply_address channel routing of
             Some addr \<Rightarrow> act_return (fst acc, snd acc @ [(arc_place oa, t,
               \<lparr>target_net_id = bra_net_id addr, target_place_name = bra_place_name addr,
                bt_reply_to = None, bt_reply_channels = None\<rparr>, pl_name pl, None)])
           | None \<Rightarrow> act_fail (BridgeReplyMissing (pl_name pl) channel))
       | BridgeOut tnet tplace rep chs _ \<Rightarrow>
           act_bind (act_lift (resolve_param tnet (en_parameters env) effect_result)) (\<lambda>rnet.
           act_bind (act_lift (resolve_param tplace (en_parameters env) effect_result)) (\<lambda>rplace.
           act_return (fst acc, snd acc @ [(arc_place oa, t,
             \<lparr>target_net_id = rnet, target_place_name = rplace, bt_reply_to = rep,
              bt_reply_channels = chs\<rparr>, pl_name pl, rep)])))
       | Sink \<Rightarrow> act_return acc
       | _ \<Rightarrow> act_return (fst acc @ [(arc_place oa,
           (case routing of
              Some meta \<Rightarrow> if \<not> arc_reset_reply_routing oa then token_with_reply_routing meta t else t
            | None \<Rightarrow> t))], snd acc)))"

text \<open>One element of an output port.\<close>

definition route_element :: "'st env \<Rightarrow> petri_net \<Rightarrow> transition \<Rightarrow> transition_id \<Rightarrow> reply_routing option \<Rightarrow>
    schema_registry option \<Rightarrow> json option \<Rightarrow> string \<Rightarrow> port \<Rightarrow> json \<Rightarrow> routed \<Rightarrow> ('st, routed) act" where
  "route_element env net tr tid routing reg effect_result pn port data acc =
    act_bind (act_lift
      (if pn \<noteq> ''_error'' then
         (case (reg, port_schema_ref port) of
            (Some r, Some s) \<Rightarrow> (case registry_validate r s data of
                Inl e \<Rightarrow> Inl (SchemaValidationFailed pn tid (schema_error_text e))
              | Inr _ \<Rightarrow> Inr ())
          | _ \<Rightarrow> Inr ())
       else Inr ())) (\<lambda>_.
    case output_arc_for_port net tid pn of
      None \<Rightarrow> act_fail (NoArcForPort pn)
    | Some oa \<Rightarrow> act_bind (token_fresh env (json_to_token_color data)) (\<lambda>t.
        deliver_token env net routing effect_result oa t acc))"

fun route_elements :: "(json \<Rightarrow> routed \<Rightarrow> ('st, routed) act) \<Rightarrow> json list \<Rightarrow> routed \<Rightarrow> ('st, routed) act" where
  "route_elements f [] acc = act_return acc"
| "route_elements f (v # vs) acc = act_bind (f v acc) (route_elements f vs)"

text \<open>One output port: a batch port must return an array and produces one token per element.\<close>

definition route_port :: "'st env \<Rightarrow> petri_net \<Rightarrow> transition \<Rightarrow> transition_id \<Rightarrow> reply_routing option \<Rightarrow>
    schema_registry option \<Rightarrow> json option \<Rightarrow> string \<times> json \<Rightarrow> routed \<Rightarrow> ('st, routed) act" where
  "route_port env net tr tid routing reg effect_result out acc = (case out of (pn, data) \<Rightarrow>
    (case output_port tr pn of
       None \<Rightarrow> act_fail (UnknownOutputPort pn)
     | Some port \<Rightarrow>
         (case (if port_card port = Batch
                then (case data of JArray arr \<Rightarrow> Some arr | _ \<Rightarrow> None) else Some [data]) of
            None \<Rightarrow> act_fail (BatchOutputNotArray pn)
          | Some vs \<Rightarrow> route_elements (route_element env net tr tid routing reg effect_result pn port) vs acc)))"

fun route_ports :: "(string \<times> json \<Rightarrow> routed \<Rightarrow> ('st, routed) act) \<Rightarrow> port_outputs \<Rightarrow> routed \<Rightarrow> ('st, routed) act" where
  "route_ports f [] acc = act_return acc"
| "route_ports f (o1 # os) acc = act_bind (f o1 acc) (route_ports f os)"

definition route_output_tokens :: "'st env \<Rightarrow> petri_net \<Rightarrow> transition \<Rightarrow> transition_id \<Rightarrow> port_outputs \<Rightarrow>
    reply_routing option \<Rightarrow> schema_registry option \<Rightarrow> json option \<Rightarrow> ('st, routed) act" where
  "route_output_tokens env net tr tid outs routing reg effect_result =
    route_ports (route_port env net tr tid routing reg effect_result) outs ([], [])"

fun emit_bridge_out_events :: "'st env \<Rightarrow> transition_id \<Rightarrow> nat option \<Rightarrow> bridge_out list \<Rightarrow> ('st, unit) act" where
  "emit_bridge_out_events env tid by_event [] = act_return ()"
| "emit_bridge_out_events env tid by_event ((p, t, target, pn, rep) # bs) =
    act_bind (act_uuid env) (\<lambda>u.
    act_bind (act_append env (TokenBridgedOut t p pn (target_net_id target) (target_place_name target)
      tid (en_uuid_text env u) by_event rep (bt_reply_channels target))) (\<lambda>_.
    emit_bridge_out_events env tid by_event bs))"

section \<open>Permanent failures\<close>

fun remove_all_tokens :: "'st env \<Rightarrow> string \<Rightarrow> consumed \<Rightarrow> ('st, unit) act" where
  "remove_all_tokens env reason [] = act_return ()"
| "remove_all_tokens env reason ((p, i) # cs) =
    act_bind (act_append env (TokenRemoved i p (Some reason) None)) (\<lambda>_. remove_all_tokens env reason cs)"

definition consume_bound_tokens_on_permanent_failure ::
  "'st env \<Rightarrow> consumed \<Rightarrow> service_error \<Rightarrow> ('st, persisted_event) act" where
  "consume_bound_tokens_on_permanent_failure env cs err =
    (if is_permanent err then
       (let reason = ''permanent transition failure: '' @ service_error_text (en_uuid_text env) err in
        act_bind (act_append env (ErrorOccurred reason)) (\<lambda>_.
        act_bind (remove_all_tokens env reason cs) (\<lambda>_. act_fail err)))
     else act_fail err)"

section \<open>Script transitions\<close>

definition act_try :: "('st, 'a) act \<Rightarrow> ('st, (service_error, 'a) result) act" where
  "act_try m w = (case m w of (r, w') \<Rightarrow> (Inr r, w'))"

definition bind_transition :: "'st env \<Rightarrow> petri_net \<Rightarrow> transition \<Rightarrow> transition_id \<Rightarrow> marking \<Rightarrow>
    (service_error, token_binding) result" where
  "bind_transition env net tr tid m =
    (case find_valid_binding (en_rhai env) tr (input_arcs net tid) m (en_registry env) of
       None \<Rightarrow> Inl (GuardNotSatisfied tid)
     | Some b \<Rightarrow> Inr b)"

definition fire_script_transition :: "'st env \<Rightarrow> petri_net \<Rightarrow> transition \<Rightarrow> transition_id \<Rightarrow> marking \<Rightarrow>
    ('st, persisted_event) act" where
  "fire_script_transition env net tr tid m =
    act_bind (act_lift (bind_transition env net tr tid m)) (\<lambda>b.
    case execute_script (en_rhai env) (tr_script tr) (tb_port_inputs b) of
      Inl e \<Rightarrow> consume_bound_tokens_on_permanent_failure env (tb_consumed b) e
    | Inr outs \<Rightarrow>
        act_bind (act_try (route_output_tokens env net tr tid outs (tb_reply_routing b)
          (en_registry env) None)) (\<lambda>r.
        case r of
          Inl e \<Rightarrow> consume_bound_tokens_on_permanent_failure env (tb_consumed b) e
        | Inr (produced, bridges) \<Rightarrow>
            act_bind (act_append env (TransitionFired tid (Some (tr_name tr)) (tb_consumed b) produced
              (tb_read b) (tr_process_step_started tr) (tr_process_step_completed tr))) (\<lambda>p.
            act_bind (emit_bridge_out_events env tid (Some (pe_sequence p)) bridges) (\<lambda>_.
            act_return p))))"

section \<open>Effect transitions\<close>

definition apply_stage_override :: "json option \<Rightarrow> dispatch_options \<Rightarrow> string \<Rightarrow> json option" where
  "apply_stage_override base opts tid = (case hm_get (do_stage_overrides opts) tid of
      None \<Rightarrow> base
    | Some patch \<Rightarrow> Some (apply_merge_patch (case base of Some b \<Rightarrow> b | None \<Rightarrow> JObject []) patch))"

definition resolve_config :: "'st env \<Rightarrow> transition_id \<Rightarrow> json option \<Rightarrow> (service_error, json option) result" where
  "resolve_config env tid config = (case (en_secrets env, config) of
      (Some st, Some c) \<Rightarrow> (case resolve_secrets st c of
          Inl e \<Rightarrow> Inl (SecretResolutionFailed tid (secret_error_text e))
        | Inr v \<Rightarrow> Inr (Some v))
    | _ \<Rightarrow> Inr config)"

definition outcome_final_kind :: "chain_eval_outcome \<Rightarrow> pre_dispatch_outcome_kind" where
  "outcome_final_kind oc = (case oc of
      CContinue _ \<Rightarrow> KContinue | CReject _ _ \<Rightarrow> KReject | CDefer _ _ \<Rightarrow> KDefer)"

text \<open>What follows the verdict of the chain: continue, reject, or defer within the budget.\<close>

definition pre_dispatch_verdict :: "'st env \<Rightarrow> pre_dispatch_runtime \<Rightarrow> transition_id \<Rightarrow> json option \<Rightarrow>
    chain_eval_outcome \<Rightarrow> ('st, json option) act" where
  "pre_dispatch_verdict env rt tid config oc = (case oc of
      CContinue enriched \<Rightarrow>
        act_bind (act_budgets (\<lambda>d. ((), budgets_reset (pdr_net_id rt) tid d))) (\<lambda>_.
        act_return (case enriched of Some e \<Rightarrow> Some e | None \<Rightarrow> config))
    | CReject hook reason \<Rightarrow>
        act_bind (act_now env) (\<lambda>now.
        act_bind (act_append env (PreDispatchRejected tid hook reason now)) (\<lambda>_.
        act_bind (act_budgets (\<lambda>d. ((), budgets_reset (pdr_net_id rt) tid d))) (\<lambda>_.
        act_fail (PreDispatchRejectedError tid hook reason))))
    | CDefer hook ms \<Rightarrow>
        act_bind (act_budgets (\<lambda>d. let (c, d') = budgets_bump (pdr_net_id rt) tid d
          in ((c, db_max_defers d'), d'))) (\<lambda>(count, max_defers).
        act_bind (act_now env) (\<lambda>now.
        act_bind (act_append env (PreDispatchDeferred tid hook ms count now)) (\<lambda>_.
        if count > max_defers then
          (let reason = ''defer-budget-exceeded'' in
           act_bind (act_now env) (\<lambda>now'.
           act_bind (act_append env (PreDispatchRejected tid hook reason now')) (\<lambda>_.
           act_bind (act_budgets (\<lambda>d. ((), budgets_reset (pdr_net_id rt) tid d))) (\<lambda>_.
           act_fail (PreDispatchRejectedError tid hook reason)))))
        else act_fail (PreDispatchDeferredError tid hook ms)))))"

definition chain_inputs_of :: "'st env \<Rightarrow> pre_dispatch_runtime \<Rightarrow> transition \<Rightarrow> string \<Rightarrow> token_binding \<Rightarrow>
    json option \<Rightarrow> chain_eval_inputs" where
  "chain_inputs_of env rt tr hid b config = \<lparr>cei_net_id = pdr_net_id rt,
     cei_transition_id = tr_id tr, cei_transition_name = tr_name tr,
     cei_effect_handler_id = Some hid, cei_inputs = tb_port_inputs b,
     cei_read_inputs = collect_read_inputs b, cei_effect_config = config,
     cei_net_parameters = en_parameters env,
     cei_metadata = \<lparr>pdm_scenario_id = None,
       pdm_tenant_id = (case en_parameters env of None \<Rightarrow> None
         | Some p \<Rightarrow> (jget ''tenant_id'' p \<bind> as_str)),
       pdm_correlation_id = None, pdm_process_step = select_process_step tr,
       pdm_hook_chain_index = 0\<rparr>\<rparr>"

definition pre_dispatch_stage :: "'st env \<Rightarrow> transition \<Rightarrow> string \<Rightarrow> token_binding \<Rightarrow> json option \<Rightarrow>
    ('st, json option) act" where
  "pre_dispatch_stage env tr hid b config = (case en_pre_dispatch env of
      None \<Rightarrow> act_return config
    | Some rt \<Rightarrow>
        if pdr_chain rt = [] then act_return config
        else (case evaluate_chain (pdr_chain rt) (chain_inputs_of env rt tr hid b config) of (oc, trc) \<Rightarrow>
          act_bind (act_now env) (\<lambda>now.
          act_bind (act_append env (PreDispatchEvaluated (tr_id tr) (Some (tr_name tr)) trc
            (outcome_final_kind oc) now)) (\<lambda>_.
          pre_dispatch_verdict env rt (tr_id tr) config oc))))"

text \<open>The bound inputs as a JSON object; their names are the ports of the input arcs.\<close>

definition inputs_json :: "string list \<Rightarrow> port_values \<Rightarrow> json" where
  "inputs_json names inputs = JObject (fold (\<lambda>n fs. case inputs n of
      None \<Rightarrow> fs | Some v \<Rightarrow> obj_insert n v fs) names [])"

definition effect_error_json :: "string \<Rightarrow> string \<Rightarrow> transition_id \<Rightarrow> json \<Rightarrow> bool \<Rightarrow> json" where
  "effect_error_json msg hid tid inputs retryable = JObject [(''error'', JString msg),
     (''handler_id'', JString hid), (''inputs'', inputs), (''retryable'', Bool retryable),
     (''transition_id'', JString tid)]"

text \<open>After a handler succeeded: route, record, bridge; a routing error still consumes.\<close>

definition effect_succeeded :: "'st env \<Rightarrow> petri_net \<Rightarrow> transition \<Rightarrow> string \<Rightarrow> token_binding \<Rightarrow> effect_output \<Rightarrow>
    ('st, persisted_event) act" where
  "effect_succeeded env net tr hid b out =
    act_bind (act_try (route_output_tokens env net tr (tr_id tr) (eo_tokens out) (tb_reply_routing b)
      (en_registry env) (Some (eo_result out)))) (\<lambda>r.
    case r of
      Inr (produced, bridges) \<Rightarrow>
        act_bind (act_append env (EffectCompleted (tr_id tr) (Some (tr_name tr)) (tb_consumed b) produced
          hid (eo_result out) (tb_read b) (tr_process_step_started tr) (tr_process_step_completed tr))) (\<lambda>p.
        act_bind (emit_bridge_out_events env (tr_id tr) (Some (pe_sequence p)) bridges) (\<lambda>_.
        act_return p))
    | Inl e \<Rightarrow>
        act_bind (act_append env (EffectFailed (tr_id tr) (Some (tr_name tr)) (tb_consumed b) [] hid
          (service_error_text (en_uuid_text env) e) True (Some (tb_port_inputs b)) False)) (\<lambda>_.
        act_fail e))"

definition effect_failed :: "'st env \<Rightarrow> petri_net \<Rightarrow> transition \<Rightarrow> string \<Rightarrow> token_binding \<Rightarrow> effect_error \<Rightarrow>
    ('st, persisted_event) act" where
  "effect_failed env net tr hid b err =
    (let msg = effect_error_text err; retryable = is_retryable err in
     if output_port tr ''_error'' \<noteq> None then
       act_bind (route_output_tokens env net tr (tr_id tr)
         [(''_error'', effect_error_json msg hid (tr_id tr)
            (inputs_json (map arc_port (input_arcs net (tr_id tr))) (tb_port_inputs b)) retryable)]
         (tb_reply_routing b) None None) (\<lambda>(produced, bridges).
       act_bind (act_append env (EffectFailed (tr_id tr) (Some (tr_name tr)) (tb_consumed b) produced hid
         msg True (Some (tb_port_inputs b)) retryable)) (\<lambda>p.
       act_bind (emit_bridge_out_events env (tr_id tr) (Some (pe_sequence p)) bridges) (\<lambda>_.
       act_return p)))
     else
       act_bind (act_append env (EffectFailed (tr_id tr) (Some (tr_name tr)) (tb_consumed b) [] hid
         msg True (Some (tb_port_inputs b)) retryable)) (\<lambda>_.
       act_fail (EffectFailedError (tr_id tr) hid msg retryable)))"

definition fire_effect_live :: "'st env \<Rightarrow> petri_net \<Rightarrow> transition \<Rightarrow> string \<Rightarrow> token_binding \<Rightarrow>
    ('st, persisted_event) act" where
  "fire_effect_live env net tr hid b = (case en_handlers env hid of
      None \<Rightarrow> act_fail (InternalError (''Effect handler not found: '' @ hid))
    | Some h \<Rightarrow>
        act_bind (act_lift (resolve_config env (tr_id tr)
          (apply_stage_override (tr_effect_config tr) (en_options env) (tr_id tr)))) (\<lambda>config.
        act_bind (pre_dispatch_stage env tr hid b config) (\<lambda>final_config.
        act_bind (act_execute hid h \<lparr>ei_transition_id = tr_id tr, ei_inputs = tb_port_inputs b,
          ei_config = final_config, ei_read_inputs = collect_read_inputs b,
          ei_process_step = select_process_step tr\<rparr>) (\<lambda>r.
        case r of
          Inr out \<Rightarrow> effect_succeeded env net tr hid b out
        | Inl err \<Rightarrow> effect_failed env net tr hid b err))))"

fun is_effect_event :: "domain_event \<Rightarrow> bool" where
  "is_effect_event (EffectCompleted _ _ _ _ _ _ _ _ _) = True"
| "is_effect_event (EffectFailed _ _ _ _ _ _ _ _ _) = True"
| "is_effect_event _ = False"

definition act_set_cursor :: "nat \<Rightarrow> ('st, unit) act" where
  "act_set_cursor n w = (Inr (), w\<lparr>w_replay_cursor := n\<rparr>)"

definition act_replay :: "'st env \<Rightarrow> string \<Rightarrow> effect_input \<Rightarrow> json \<Rightarrow> ('st, unit) act" where
  "act_replay env hid inp res w = (case en_handlers env hid of
      None \<Rightarrow> (Inr (), w)
    | Some h \<Rightarrow> (Inr (), w\<lparr>w_replayed := w_replayed w @ [(hid, inp, res)]\<rparr>))"

text \<open>The stored event at the cursor is re-emitted; the handler only observes its result.\<close>

definition replay_stored :: "'st env \<Rightarrow> transition \<Rightarrow> string \<Rightarrow> token_binding \<Rightarrow> nat \<Rightarrow> domain_event \<Rightarrow>
    ('st, persisted_event) act" where
  "replay_stored env tr hid b cursor stored =
    (let mismatch = InternalError (''Replay mismatch at cursor '' @ show_nat cursor @ '': expected ('' @
           tr_id tr @ '', '' @ hid @ '')'')
     in case stored of
          EffectCompleted tid _ cs ps hid' res rd _ _ \<Rightarrow>
            if tid = tr_id tr \<and> hid' = hid then
              act_bind (act_set_cursor (cursor + 1)) (\<lambda>_.
              act_bind (act_replay env hid \<lparr>ei_transition_id = tr_id tr, ei_inputs = tb_port_inputs b,
                ei_config = tr_effect_config tr, ei_read_inputs = collect_read_inputs b,
                ei_process_step = select_process_step tr\<rparr> res) (\<lambda>_.
              act_append env (EffectCompleted (tr_id tr) (Some (tr_name tr)) cs ps hid res rd
                (tr_process_step_started tr) (tr_process_step_completed tr))))
            else act_fail mismatch
        | EffectFailed tid _ cs ps hid' msg tc inp rt \<Rightarrow>
            if tid = tr_id tr \<and> hid' = hid then
              act_bind (act_set_cursor (cursor + 1)) (\<lambda>_.
              act_bind (act_append env (EffectFailed (tr_id tr) (Some (tr_name tr)) cs ps hid msg tc inp rt)) (\<lambda>p.
              if tc then act_return p
              else act_fail (EffectFailedError (tr_id tr) hid msg rt)))
            else act_fail mismatch
        | _ \<Rightarrow> act_fail mismatch)"

definition fire_effect_replay :: "'st env \<Rightarrow> transition \<Rightarrow> string \<Rightarrow> token_binding \<Rightarrow> ('st, persisted_event) act" where
  "fire_effect_replay env tr hid b w =
    (let effect_events = filter (\<lambda>e. is_effect_event (pe_event e)) (er_all_events (en_repo env) (w_store w));
         cursor = w_replay_cursor w
     in if cursor \<ge> length effect_events
        then act_fail (InternalError (''Replay: no effect event at cursor '' @ show_nat cursor @ '' (total: '' @
          show_nat (length effect_events) @ '')'')) w
        else replay_stored env tr hid b cursor (pe_event (effect_events ! cursor)) w)"

definition fire_effect_transition :: "'st env \<Rightarrow> petri_net \<Rightarrow> transition \<Rightarrow> string \<Rightarrow> marking \<Rightarrow>
    ('st, persisted_event) act" where
  "fire_effect_transition env net tr hid m =
    act_bind (act_lift (bind_transition env net tr (tr_id tr) m)) (\<lambda>b.
    case en_mode env of
      Live \<Rightarrow> fire_effect_live env net tr hid b
    | Replay \<Rightarrow> fire_effect_replay env tr hid b)"

section \<open>Skipping and firing\<close>

fun unit_tokens :: "'st env \<Rightarrow> arc list \<Rightarrow> ('st, produced) act" where
  "unit_tokens env [] = act_return []"
| "unit_tokens env (a # as) = act_bind (token_fresh env Unit) (\<lambda>t.
    act_bind (unit_tokens env as) (\<lambda>ts. act_return ((arc_place a, t) # ts)))"

definition execute_skip :: "'st env \<Rightarrow> petri_net \<Rightarrow> transition \<Rightarrow> transition_id \<Rightarrow> marking \<Rightarrow>
    ('st, persisted_event) act" where
  "execute_skip env net tr tid m =
    act_bind (act_lift (bind_transition env net tr tid m)) (\<lambda>b.
    act_bind (unit_tokens env (output_arcs net tid)) (\<lambda>produced.
    act_append env (TransitionSkipped tid (Some (tr_name tr)) (tb_consumed b) produced ''skip_mask'')))"

definition fire_transition :: "'st env \<Rightarrow> marking \<Rightarrow> transition_id \<Rightarrow> ('st, persisted_event) act" where
  "fire_transition env m tid = (case topology_get (en_topology env) of
      None \<Rightarrow> act_fail NoTopology
    | Some net \<Rightarrow> (case get_transition net tid of
        None \<Rightarrow> act_fail (TransitionNotFound tid)
      | Some tr \<Rightarrow>
          if tid \<in> set (do_skip_mask (en_options env)) then execute_skip env net tr tid m
          else (case tr_effect_handler_id tr of
              Some hid \<Rightarrow> fire_effect_transition env net tr hid m
            | None \<Rightarrow> fire_script_transition env net tr tid m)))"

end
