(* ===== verification/Firing_Logic.thy ===== *)
theory Firing_Logic
  imports Firing
begin

text \<open>
  A small program logic for the operations of \<^verbatim>\<open>firing.rs\<close>: what a step appends to the history
  and what it leaves of the world, composed along \<open>act_bind\<close>. The rule for \<open>append\<close> is
  proved from the laws of an event repository whose appends succeed, which the in-memory
  store is.
\<close>

section \<open>Steps that leave the store alone\<close>

definition quiet :: "'st world \<Rightarrow> 'st world \<Rightarrow> bool" where
  "quiet w w' \<longleftrightarrow> w_store w' = w_store w \<and> w_replay_cursor w' = w_replay_cursor w \<and>
     w_budgets w' = w_budgets w \<and> w_executed w' = w_executed w \<and> w_replayed w' = w_replayed w"

definition quietly :: "('st, 'a) act \<Rightarrow> bool" where
  "quietly m \<longleftrightarrow> (\<forall>w. quiet w (snd (m w)))"

lemma quiet_refl [simp]: "quiet w w"
  by (simp add: quiet_def)

lemma quiet_trans: "quiet w w' \<Longrightarrow> quiet w' w'' \<Longrightarrow> quiet w w''"
  by (simp add: quiet_def)

lemma quietly_bind:
  assumes "quietly m" and "\<And>x. quietly (f x)"
  shows "quietly (act_bind m f)"
  unfolding quietly_def
proof
  fix w
  obtain r w' where m: "m w = (r, w')" by (cases "m w")
  have "quiet w w'" using assms(1) m by (auto simp: quietly_def dest: spec [of _ w])
  moreover have "quiet w' (snd (f x w'))" for x using assms(2) by (simp add: quietly_def)
  ultimately show "quiet w (snd (act_bind m f w))"
    by (auto simp: act_bind_def m intro: quiet_trans split: sum.splits)
qed

lemma quietly_return: "quietly (act_return x)"
  by (simp add: quietly_def act_return_def)

lemma quietly_fail: "quietly (act_fail e)"
  by (simp add: quietly_def act_fail_def)

lemma quietly_lift: "quietly (act_lift r)"
  by (cases r) (simp_all add: quietly_return quietly_fail)

lemma quietly_now: "quietly (act_now env)"
  by (simp add: quietly_def act_now_def quiet_def)

lemma quietly_uuid: "quietly (act_uuid env)"
  by (simp add: quietly_def act_uuid_def quiet_def)

lemmas quietly_rules = quietly_bind quietly_return quietly_fail quietly_lift quietly_now quietly_uuid

lemma quietly_token_fresh: "quietly (token_fresh env c)"
  unfolding token_fresh_def by (intro quietly_rules)

lemma quietly_deliver: "quietly (deliver_token env net routing er oa t acc)"
  unfolding deliver_token_def
  by (auto intro!: quietly_rules split: option.splits place_kind.splits)

lemma quietly_route_element: "quietly (route_element env net tr tid routing reg er pn port data acc)"
  unfolding route_element_def
  by (auto intro!: quietly_rules quietly_token_fresh quietly_deliver split: option.splits)

lemma quietly_route_elements: "(\<And>v acc. quietly (f v acc)) \<Longrightarrow> quietly (route_elements f vs acc)"
  by (induction vs arbitrary: acc) (auto intro!: quietly_rules)

lemma quietly_route_port: "quietly (route_port env net tr tid routing reg er out acc)"
  unfolding route_port_def
  by (auto intro!: quietly_rules quietly_route_elements quietly_route_element split: prod.splits option.splits)

lemma quietly_route_ports: "(\<And>v acc. quietly (f v acc)) \<Longrightarrow> quietly (route_ports f vs acc)"
  by (induction vs arbitrary: acc) (auto intro!: quietly_rules)

lemma quietly_route: "quietly (route_output_tokens env net tr tid outs routing reg er)"
  unfolding route_output_tokens_def by (intro quietly_route_ports quietly_route_port)

lemma quietly_unit_tokens: "quietly (unit_tokens env as)"
  by (induction as) (auto intro!: quietly_rules quietly_token_fresh)

section \<open>Weakest preconditions over histories\<close>

definition wp :: "('st \<Rightarrow> persisted_event list \<Rightarrow> bool) \<Rightarrow> ('st, 'a) act \<Rightarrow> 'st world \<Rightarrow>
    persisted_event list \<Rightarrow>
    ((service_error, 'a) result \<Rightarrow> 'st world \<Rightarrow> persisted_event list \<Rightarrow> bool) \<Rightarrow> bool" where
  "wp R m w h Q \<longleftrightarrow> (case m w of (r, w') \<Rightarrow> \<exists>ps. R (w_store w') (h @ ps) \<and> Q r w' ps)"

lemma wp_conseq: "wp R m w h Q' \<Longrightarrow> (\<And>r w' ps. R (w_store w') (h @ ps) \<Longrightarrow> Q' r w' ps \<Longrightarrow> Q r w' ps) \<Longrightarrow> wp R m w h Q"
  by (auto simp: wp_def split: prod.splits)

lemma wp_return: "R (w_store w) h \<Longrightarrow> Q (Inr x) w [] \<Longrightarrow> wp R (act_return x) w h Q"
  by (auto simp: wp_def act_return_def intro!: exI [of _ "[]"])

lemma wp_fail: "R (w_store w) h \<Longrightarrow> Q (Inl e) w [] \<Longrightarrow> wp R (act_fail e) w h Q"
  by (auto simp: wp_def act_fail_def intro!: exI [of _ "[]"])

lemma wp_lift: "R (w_store w) h \<Longrightarrow> Q r w [] \<Longrightarrow> wp R (act_lift r) w h Q"
  by (cases r) (auto intro: wp_return wp_fail)

lemma wp_bind:
  assumes "wp R m w h (\<lambda>r w' ps. case r of Inl e \<Rightarrow> Q (Inl e) w' ps
    | Inr x \<Rightarrow> wp R (f x) w' (h @ ps) (\<lambda>r w'' qs. Q r w'' (ps @ qs)))"
  shows "wp R (act_bind m f) w h Q"
proof -
  obtain r w' where m: "m w = (r, w')" by (cases "m w")
  show ?thesis
  proof (cases r)
    case (Inl e)
    then show ?thesis using assms by (auto simp: wp_def m act_bind_def)
  next
    case (Inr x)
    obtain r2 w2 where f: "f x w' = (r2, w2)" by (cases "f x w'")
    obtain ps qs where "R (w_store w2) ((h @ ps) @ qs)" "Q r2 w2 (ps @ qs)"
      using assms Inr by (auto simp: wp_def m f)
    then show ?thesis using Inr by (auto simp: wp_def act_bind_def m f intro!: exI [of _ "ps @ qs"])
  qed
qed

lemma wp_quiet:
  assumes "quietly m" and "R (w_store w) h" and "\<And>r w'. m w = (r, w') \<Longrightarrow> quiet w w' \<Longrightarrow> Q r w' []"
  shows "wp R m w h Q"
proof -
  obtain r w' where m: "m w = (r, w')" by (cases "m w")
  have "quiet w w'" using assms(1) m by (auto simp: quietly_def dest: spec [of _ w])
  then show ?thesis using assms m by (auto simp: wp_def quiet_def intro!: exI [of _ "[]"])
qed

lemma wp_bind_quiet:
  assumes "quietly m" and "R (w_store w) h"
    and "\<And>e w'. m w = (Inl e, w') \<Longrightarrow> quiet w w' \<Longrightarrow> Q (Inl e) w' []"
    and "\<And>x w'. m w = (Inr x, w') \<Longrightarrow> quiet w w' \<Longrightarrow> R (w_store w') h \<Longrightarrow> wp R (f x) w' h Q"
  shows "wp R (act_bind m f) w h Q"
  by (rule wp_bind, rule wp_quiet [where R = R and h = h, OF assms(1,2)])
    (use assms(2-4) in \<open>auto split: sum.splits simp: quiet_def\<close>)

lemma wp_bind_lift:
  assumes "R (w_store w) h" and "\<And>e. r = Inl e \<Longrightarrow> Q (Inl e) w []"
    and "\<And>x. r = Inr x \<Longrightarrow> wp R (f x) w h Q"
  shows "wp R (act_bind (act_lift r) f) w h Q"
  by (rule wp_bind, rule wp_lift [where R = R, OF assms(1)]) (use assms in \<open>auto split: sum.splits\<close>)

lemma wp_bind_now:
  "R (w_store w) h \<Longrightarrow> (\<And>now w'. quiet w w' \<Longrightarrow> R (w_store w') h \<Longrightarrow> wp R (f now) w' h Q) \<Longrightarrow>
    wp R (act_bind (act_now env) f) w h Q"
  by (rule wp_bind_quiet [OF quietly_now]) (auto simp: act_now_def)

lemma wp_try: "wp R m w h (\<lambda>r. Q (Inr r)) \<Longrightarrow> wp R (act_try m) w h Q"
  by (auto simp: wp_def act_try_def split: prod.splits)

lemma wp_bind_try_quiet:
  assumes "quietly m" and "R (w_store w) h"
    and "\<And>r w'. m w = (r, w') \<Longrightarrow> quiet w w' \<Longrightarrow> R (w_store w') h \<Longrightarrow> wp R (f r) w' h Q"
  shows "wp R (act_bind (act_try m) f) w h Q"
  by (rule wp_bind, rule wp_try, rule wp_quiet [where R = R and h = h, OF assms(1,2)])
    (use assms(2,3) in \<open>auto simp: quiet_def\<close>)

lemma wp_budgets:
  "R (w_store w) h \<Longrightarrow> Q (Inr (fst (f (w_budgets w)))) (w\<lparr>w_budgets := snd (f (w_budgets w))\<rparr>) [] \<Longrightarrow>
    wp R (act_budgets f) w h Q"
  by (auto simp: wp_def act_budgets_def split: prod.splits intro!: exI [of _ "[]"])

lemma wp_execute:
  "R (w_store w) h \<Longrightarrow>
    Q (Inr (eh_execute eh (length (w_executed w)) inp)) (w\<lparr>w_executed := w_executed w @ [(hid, inp)]\<rparr>) [] \<Longrightarrow>
    wp R (act_execute hid eh inp) w h Q"
  by (auto simp: wp_def act_execute_def intro!: exI [of _ "[]"])

lemma wp_set_cursor:
  "R (w_store w) h \<Longrightarrow> Q (Inr ()) (w\<lparr>w_replay_cursor := n\<rparr>) [] \<Longrightarrow> wp R (act_set_cursor n) w h Q"
  by (auto simp: wp_def act_set_cursor_def intro!: exI [of _ "[]"])

lemma wp_replay:
  "R (w_store w) h \<Longrightarrow> (\<And>rs. Q (Inr ()) (w\<lparr>w_replayed := w_replayed w @ rs\<rparr>) []) \<Longrightarrow>
    wp R (act_replay env hid inp res) w h Q"
proof -
  assume r: "R (w_store w) h" and q: "\<And>rs. Q (Inr ()) (w\<lparr>w_replayed := w_replayed w @ rs\<rparr>) []"
  have "Q (Inr ()) w []" using q [of "[]"] by simp
  then show ?thesis using r q [of "[(hid, inp, res)]"]
    by (auto simp: wp_def act_replay_def split: option.splits intro!: exI [of _ "[]"])
qed

lemmas wp_rules = wp_bind wp_return wp_fail wp_lift wp_try wp_budgets wp_execute wp_set_cursor wp_replay

section \<open>A repository whose appends succeed\<close>

locale journal = event_repository +
  assumes append_total: "R s h \<Longrightarrow> \<exists>p s'. er_append E now e s = (Inr p, s')"
begin

lemma wp_append:
  assumes "en_repo env = E" and "R (w_store w) h"
    and "\<And>p w'. pe_event p = e \<Longrightarrow> quiet (w\<lparr>w_store := w_store w'\<rparr>) w' \<Longrightarrow> R (w_store w') (h @ [p]) \<Longrightarrow>
      Q (Inr p) w' [p]"
  shows "wp R (act_append env e) w h Q"
proof -
  let ?now = "en_clock env (w_ticks w)"
  obtain p s' where a: "er_append E ?now e (w_store w) = (Inr p, s')"
    using append_total [OF assms(2)] by blast
  then have "R s' (h @ [p])" "pe_event p = e" using append_ok [OF assms(2) a] by auto
  then show ?thesis using a assms(1,3)
    by (auto simp: wp_def act_append_def quiet_def intro!: exI [of _ "[p]"])
qed

lemma wp_bind_append:
  assumes "en_repo env = E" and "R (w_store w) h"
    and "\<And>p w'. pe_event p = e \<Longrightarrow> quiet (w\<lparr>w_store := w_store w'\<rparr>) w' \<Longrightarrow> R (w_store w') (h @ [p]) \<Longrightarrow>
      wp R (f p) w' (h @ [p]) (\<lambda>r w'' qs. Q r w'' (p # qs))"
  shows "wp R (act_bind (act_append env e) f) w h Q"
  by (rule wp_bind, rule wp_append [OF assms(1,2)]) (use assms(3) in simp)

lemma wp_emit:
  assumes "en_repo env = E" and "R (w_store w) h"
    and "\<And>w' ps. quiet (w\<lparr>w_store := w_store w'\<rparr>) w' \<Longrightarrow> R (w_store w') (h @ ps) \<Longrightarrow>
      list_all2 (\<lambda>(p, t, target, pn, rep) e. \<exists>u. pe_event e = TokenBridgedOut t p pn (target_net_id target)
        (target_place_name target) tid (en_uuid_text env u) by_event rep (bt_reply_channels target)) bs ps \<Longrightarrow>
      Q (Inr ()) w' ps"
  shows "wp R (emit_bridge_out_events env tid by_event bs) w h Q"
  using assms(2,3)
proof (induction bs arbitrary: w h Q)
  case Nil
  then show ?case by (auto intro!: wp_return)
next
  case (Cons b bs)
  obtain p t target pn rep where b: "b = (p, t, target, pn, rep)" by (cases b)
  show ?case unfolding b emit_bridge_out_events.simps
  proof (rule wp_bind_quiet [where R = R, OF quietly_uuid Cons.prems(1)])
    fix u w1 assume q1: "quiet w w1" and r1: "R (w_store w1) h"
    show "wp R (act_bind (act_append env (TokenBridgedOut t p pn (target_net_id target)
        (target_place_name target) tid (en_uuid_text env u) by_event rep (bt_reply_channels target)))
        (\<lambda>_. emit_bridge_out_events env tid by_event bs)) w1 h Q"
      by (rule wp_bind_append [OF assms(1) r1], rule Cons.IH, assumption, rule Cons.prems(2))
        (use q1 in \<open>auto simp: quiet_def b\<close>)
  qed (auto simp: act_uuid_def)
qed

lemma wp_remove_all:
  assumes "en_repo env = E" and "R (w_store w) h"
    and "\<And>w' ps. quiet (w\<lparr>w_store := w_store w'\<rparr>) w' \<Longrightarrow> R (w_store w') (h @ ps) \<Longrightarrow>
      map pe_event ps = map (\<lambda>(p, i). TokenRemoved i p (Some reason) None) cs \<Longrightarrow> Q (Inr ()) w' ps"
  shows "wp R (remove_all_tokens env reason cs) w h Q"
  using assms(2,3)
proof (induction cs arbitrary: w h Q)
  case Nil
  then show ?case by (auto intro!: wp_return)
next
  case (Cons c cs)
  obtain p i where c: "c = (p, i)" by (cases c)
  show ?case unfolding c remove_all_tokens.simps
    by (rule wp_bind_append [OF assms(1) Cons.prems(1)], rule Cons.IH, assumption, rule Cons.prems(2))
      (auto simp: quiet_def c)
qed

end

interpretation run: journal "memory_repo c" "store_run c loads wakes" for c loads wakes
proof unfold_locales
  fix s h now e p s' assume "store_run c loads wakes s h" "er_append (memory_repo c) now e s = (Inr p, s')"
  then show "store_run c loads wakes s' (h @ [p]) \<and> pe_event p = e"
    using run_append mem.append_ok [OF store_run_rep] by (fastforce simp: memory_repo_def)
next
  fix s h now e err s' assume "store_run c loads wakes s h" "er_append (memory_repo c) now e s = (Inl err, s')"
  then show "store_run c loads wakes s' h" by (auto simp: memory_repo_def mem_append_def Let_def)
next
  fix s h now e assume "store_run c loads wakes s h"
  show "\<exists>p s'. er_append (memory_repo c) now e s = (Inr p, s')"
    by (simp add: memory_repo_def mem_append_def Let_def)
next
  fix s h assume "store_run c loads wakes s h"
  then show "store_run c loads wakes (er_reset (memory_repo c) s) []" by (rule run_reset)
qed (use mem.len_law mem.checked_law mem.base_law store_run_rep in \<open>blast+\<close>)

section \<open>What the operations journal\<close>

text \<open>Bridge events, one per bridged token, in order, naming the event that produced them.\<close>

definition bridged_by :: "'st env \<Rightarrow> transition_id \<Rightarrow> nat \<Rightarrow> bridge_out list \<Rightarrow> persisted_event list \<Rightarrow> bool" where
  "bridged_by env tid n bs ps \<longleftrightarrow> list_all2 (\<lambda>(p, t, target, pn, rep) e. \<exists>u. pe_event e =
     TokenBridgedOut t p pn (target_net_id target) (target_place_name target) tid (en_uuid_text env u)
       (Some n) rep (bt_reply_channels target)) bs ps"

fun is_pre_dispatch :: "domain_event \<Rightarrow> bool" where
  "is_pre_dispatch (PreDispatchEvaluated _ _ _ _ _) = True"
| "is_pre_dispatch (PreDispatchRejected _ _ _ _) = True"
| "is_pre_dispatch (PreDispatchDeferred _ _ _ _ _) = True"
| "is_pre_dispatch _ = False"

definition pre_only :: "persisted_event list \<Rightarrow> bool" where
  "pre_only ps \<longleftrightarrow> list_all (\<lambda>p. is_pre_dispatch (pe_event p)) ps"

definition same_calls :: "'st world \<Rightarrow> 'st world \<Rightarrow> bool" where
  "same_calls w w' \<longleftrightarrow> w_executed w' = w_executed w \<and> w_replayed w' = w_replayed w \<and>
     w_replay_cursor w' = w_replay_cursor w"

lemma quiet_same_calls: "quiet w w' \<Longrightarrow> same_calls w w'"
  by (simp add: quiet_def same_calls_def)

lemma pre_only_simps [simp]:
  "pre_only []" "pre_only (p # ps) \<longleftrightarrow> is_pre_dispatch (pe_event p) \<and> pre_only ps"
  "pre_only (ps @ qs) \<longleftrightarrow> pre_only ps \<and> pre_only qs"
  by (simp_all add: pre_only_def)

lemma project_pre_only [simp]: "pre_only ps \<Longrightarrow> project_onto m ps = m"
proof (induction ps arbitrary: m)
  case (Cons p ps)
  then have "apply_event_to_marking (pe_event p) m = m" by (cases "pe_event p") auto
  then show ?case using Cons by (simp add: project_onto_Cons)
qed simp

lemma project_bridged [simp]: "bridged_by env tid n bs ps \<Longrightarrow> project_onto m ps = m"
  unfolding bridged_by_def
  by (induction bs ps arbitrary: m rule: list_all2_induct) (auto simp: project_onto_Cons)

lemma project_removed:
  "map pe_event ps = map (\<lambda>(p, i). TokenRemoved i p why corr) cs \<Longrightarrow> project_onto m ps = consume_all cs m"
proof (induction cs arbitrary: ps m)
  case (Cons c cs)
  then obtain p qs where "ps = p # qs" by (cases ps) auto
  then show ?case using Cons by (cases c) (auto simp: project_onto_Cons consume_all_def)
qed simp

text \<open>The result of a script firing, over the events it journals.\<close>

definition script_outcome :: "'st env \<Rightarrow> petri_net \<Rightarrow> transition \<Rightarrow> transition_id \<Rightarrow> marking \<Rightarrow>
    (service_error, persisted_event) result \<Rightarrow> persisted_event list \<Rightarrow> bool" where
  "script_outcome env net tr tid m r ps =
    (case find_valid_binding (en_rhai env) tr (input_arcs net tid) m (en_registry env) of
       None \<Rightarrow> r = Inl (GuardNotSatisfied tid) \<and> ps = []
     | Some b \<Rightarrow> (case r of
         Inr p \<Rightarrow> \<exists>outs produced bridges w1 w2 qs.
           execute_script (en_rhai env) (tr_script tr) (tb_port_inputs b) = Inr outs \<and>
           route_output_tokens env net tr tid outs (tb_reply_routing b) (en_registry env) None w1 =
             (Inr (produced, bridges), (w2 :: 'st world)) \<and>
           pe_event p = TransitionFired tid (Some (tr_name tr)) (tb_consumed b) produced (tb_read b)
             (tr_process_step_started tr) (tr_process_step_completed tr) \<and>
           ps = p # qs \<and> bridged_by env tid (pe_sequence p) bridges qs
       | Inl e \<Rightarrow> if is_permanent e
           then (\<exists>reason. map pe_event ps =
             ErrorOccurred reason # map (\<lambda>(p, i). TokenRemoved i p (Some reason) None) (tb_consumed b))
           else ps = []))"

context journal
begin

lemma wp_consume_bound:
  assumes "en_repo env = E" and "R (w_store w) h"
    and "\<And>w' ps. same_calls w w' \<Longrightarrow> (if is_permanent err
           then (\<exists>reason. map pe_event ps =
             ErrorOccurred reason # map (\<lambda>(p, i). TokenRemoved i p (Some reason) None) cs)
           else ps = []) \<Longrightarrow> Q (Inl err) w' ps"
  shows "wp R (consume_bound_tokens_on_permanent_failure env cs err) w h Q"
proof (cases "is_permanent err")
  case False
  then show ?thesis using assms by (auto simp: consume_bound_tokens_on_permanent_failure_def same_calls_def
    intro!: wp_fail)
next
  case True
  define reason where "reason = ''permanent transition failure: '' @ service_error_text (en_uuid_text env) err"
  have "wp R (act_bind (act_append env (ErrorOccurred reason)) (\<lambda>_.
        act_bind (remove_all_tokens env reason cs) (\<lambda>_. act_fail err))) w h Q"
    by (rule wp_bind_append [OF assms(1,2)], rule wp_bind, rule wp_remove_all [OF assms(1)], assumption,
        simp, rule wp_fail)
      (use True in \<open>auto simp: same_calls_def quiet_def intro!: assms(3)\<close>)
  then show ?thesis using True
    by (simp add: consume_bound_tokens_on_permanent_failure_def reason_def Let_def)
qed

lemma wp_emit_bridged:
  assumes "en_repo env = E" and "R (w_store w) h"
    and "\<And>w' ps. R (w_store w') (h @ ps) \<Longrightarrow> same_calls w w' \<Longrightarrow> bridged_by env tid n bs ps \<Longrightarrow> Q (Inr ()) w' ps"
  shows "wp R (emit_bridge_out_events env tid (Some n) bs) w h Q"
  by (rule wp_emit [OF assms(1,2)]) (auto simp: bridged_by_def same_calls_def quiet_def intro!: assms(3))

text \<open>The common end of a firing: record the event, then bridge.\<close>

lemma wp_record:
  assumes "en_repo env = E" and "R (w_store w) h"
    and "\<And>p w' qs. same_calls w w' \<Longrightarrow> pe_event p = e \<Longrightarrow> bridged_by env tid (pe_sequence p) bs qs \<Longrightarrow>
      Q (Inr p) w' (p # qs)"
  shows "wp R (act_bind (act_append env e) (\<lambda>p.
      act_bind (emit_bridge_out_events env tid (Some (pe_sequence p)) bs) (\<lambda>_. act_return p))) w h Q"
  by (rule wp_bind_append [OF assms(1,2)], rule wp_bind, rule wp_emit_bridged [OF assms(1)], assumption)
    (auto intro!: wp_return assms(3) simp: same_calls_def quiet_def)

lemma wp_fire_script:
  assumes "en_repo env = E" and "R (w_store w) h"
  shows "wp R (fire_script_transition env net tr tid m) w h
    (\<lambda>r w' ps. same_calls w w' \<and> script_outcome env net tr tid m r ps)" (is "wp R _ w h ?Q")
  unfolding fire_script_transition_def
proof (rule wp_bind_lift [where R = R, OF assms(2)], goal_cases)
  case (1 e)
  then show ?case
    by (auto simp: bind_transition_def script_outcome_def same_calls_def split: option.splits)
next
  case (2 b)
  then have b: "find_valid_binding (en_rhai env) tr (input_arcs net tid) m (en_registry env) = Some b"
    by (auto simp: bind_transition_def split: option.splits)
  have fails: "wp R (consume_bound_tokens_on_permanent_failure env (tb_consumed b) e) w1 h ?Q"
    if "quiet w w1" for e w1
    by (rule wp_consume_bound [OF assms(1)])
      (use that assms(2) in \<open>auto simp: script_outcome_def b quiet_def same_calls_def split: if_splits\<close>)
  show ?case
  proof (cases "execute_script (en_rhai env) (tr_script tr) (tb_port_inputs b)")
    case (Inl e)
    then show ?thesis using fails [of w] by simp
  next
    case (Inr outs)
    show ?thesis unfolding Inr sum.case
    proof (rule wp_bind_try_quiet [where R = R, OF quietly_route assms(2)], goal_cases)
      case routed: (1 r w1)
      show ?case
      proof (cases r)
        case (Inl e)
        then show ?thesis using fails [OF routed(2)] by simp
      next
        case r: (Inr x)
        obtain produced bridges where x: "x = (produced, bridges)" by (cases x)
        show ?thesis unfolding r x sum.case prod.case
          by (rule wp_record [OF assms(1) routed(3)])
            (use routed Inr in \<open>auto simp: r x same_calls_def quiet_def script_outcome_def b\<close>)
      qed
    qed
  qed
qed

end

text \<open>The events of an effect that ran: exactly one event that consumes the bound tokens, then bridges.\<close>

definition settled :: "'st env \<Rightarrow> transition \<Rightarrow> string \<Rightarrow> token_binding \<Rightarrow> (effect_error, effect_output) result \<Rightarrow>
    (service_error, persisted_event) result \<Rightarrow> persisted_event list \<Rightarrow> bool" where
  "settled env tr hid b answer r ps \<longleftrightarrow> (\<exists>p qs produced bridges. ps = p # qs \<and>
     bridged_by env (tr_id tr) (pe_sequence p) bridges qs \<and>
     (case answer of
        Inr out \<Rightarrow>
          pe_event p = EffectCompleted (tr_id tr) (Some (tr_name tr)) (tb_consumed b) produced hid
            (eo_result out) (tb_read b) (tr_process_step_started tr) (tr_process_step_completed tr) \<and>
            r = Inr p \<or>
          (\<exists>msg e. produced = [] \<and> bridges = [] \<and> pe_event p = EffectFailed (tr_id tr) (Some (tr_name tr))
            (tb_consumed b) [] hid msg True (Some (tb_port_inputs b)) False \<and> r = Inl e)
      | Inl err \<Rightarrow>
          pe_event p = EffectFailed (tr_id tr) (Some (tr_name tr)) (tb_consumed b) produced hid
            (effect_error_text err) True (Some (tb_port_inputs b)) (is_retryable err) \<and>
          r = (if output_port tr ''_error'' = None
               then Inl (EffectFailedError (tr_id tr) hid (effect_error_text err) (is_retryable err))
               else Inr p)))"

definition effect_outcome :: "'st env \<Rightarrow> transition \<Rightarrow> string \<Rightarrow> token_binding \<Rightarrow> 'st world \<Rightarrow>
    (service_error, persisted_event) result \<Rightarrow> 'st world \<Rightarrow> persisted_event list \<Rightarrow> bool" where
  "effect_outcome env tr hid b w r w' ps \<longleftrightarrow>
    (w_executed w' = w_executed w \<and> (\<exists>e. r = Inl e) \<and> pre_only ps) \<or>
    (\<exists>eh inp pre qs. en_handlers env hid = Some eh \<and> w_executed w' = w_executed w @ [(hid, inp)] \<and>
       ei_transition_id inp = tr_id tr \<and> ei_inputs inp = tb_port_inputs b \<and>
       ps = pre @ qs \<and> pre_only pre \<and>
       (let answer = eh_execute eh (length (w_executed w)) inp in
        settled env tr hid b answer r qs \<or>
        qs = [] \<and> (\<exists>err e. answer = Inl err \<and> r = Inl e) \<and> output_port tr ''_error'' \<noteq> None))"

context journal
begin

lemma wp_effect_succeeded:
  assumes "en_repo env = E" and "R (w_store w) h"
  shows "wp R (effect_succeeded env net tr hid b out) w h
    (\<lambda>r w' ps. same_calls w w' \<and> settled env tr hid b (Inr out) r ps)"
  unfolding effect_succeeded_def
proof (rule wp_bind_try_quiet [where R = R, OF quietly_route assms(2)], goal_cases)
  case routed: (1 r w1)
  show ?case
  proof (cases r)
    case (Inl e)
    show ?thesis unfolding Inl sum.case
      by (rule wp_bind_append [OF assms(1) routed(3)], rule wp_fail)
        (use routed(2) in \<open>auto simp: settled_def same_calls_def quiet_def bridged_by_def\<close>)
  next
    case (Inr x)
    obtain produced bridges where x: "x = (produced, bridges)" by (cases x)
    show ?thesis unfolding Inr x sum.case prod.case
      by (rule wp_record [OF assms(1) routed(3)])
        (use routed(2) in \<open>auto simp: same_calls_def quiet_def settled_def\<close>)
  qed
qed

lemma wp_effect_failed:
  assumes "en_repo env = E" and "R (w_store w) h"
  shows "wp R (effect_failed env net tr hid b err) w h
    (\<lambda>r w' ps. same_calls w w' \<and> (settled env tr hid b (Inl err) r ps \<or>
       ps = [] \<and> (\<exists>e. r = Inl e) \<and> output_port tr ''_error'' \<noteq> None))"
proof (cases "output_port tr ''_error'' = None")
  case True
  have "wp R (act_bind (act_append env (EffectFailed (tr_id tr) (Some (tr_name tr)) (tb_consumed b) [] hid
      (effect_error_text err) True (Some (tb_port_inputs b)) (is_retryable err))) (\<lambda>_.
      act_fail (EffectFailedError (tr_id tr) hid (effect_error_text err) (is_retryable err)))) w h
    (\<lambda>r w' ps. same_calls w w' \<and> settled env tr hid b (Inl err) r ps)"
    by (rule wp_bind_append [OF assms], rule wp_fail)
      (use True in \<open>auto simp: settled_def same_calls_def quiet_def bridged_by_def\<close>)
  then show ?thesis using True by (auto simp: effect_failed_def Let_def elim!: wp_conseq)
next
  case False
  then show ?thesis unfolding effect_failed_def Let_def if_P [OF False]
  proof (intro wp_bind_quiet [where R = R, OF quietly_route assms(2)], goal_cases)
    case (1 e w1)
    then show ?case by (simp add: quiet_same_calls)
  next
    case routed: (2 x w1)
    obtain produced bridges where x: "x = (produced, bridges)" by (cases x)
    show ?case unfolding x prod.case
      by (rule wp_record [OF assms(1) routed(4)])
        (use routed(3) False in \<open>auto simp: same_calls_def quiet_def settled_def\<close>)
  qed
qed

end

text \<open>The exact effect of the verdict of a chain, with the defer budget.\<close>

definition verdict_outcome :: "pre_dispatch_runtime \<Rightarrow> transition_id \<Rightarrow> json option \<Rightarrow> chain_eval_outcome \<Rightarrow>
    defer_budgets \<Rightarrow> (service_error, json option) result \<Rightarrow> defer_budgets \<Rightarrow> domain_event list \<Rightarrow> bool" where
  "verdict_outcome rt tid config oc d r d' es = (case oc of
      CContinue x \<Rightarrow> r = Inr (case x of Some e \<Rightarrow> Some e | None \<Rightarrow> config) \<and> es = [] \<and>
        d' = budgets_reset (pdr_net_id rt) tid d
    | CReject hook reason \<Rightarrow> r = Inl (PreDispatchRejectedError tid hook reason) \<and>
        (\<exists>t. es = [PreDispatchRejected tid hook reason t]) \<and> d' = budgets_reset (pdr_net_id rt) tid d
    | CDefer hook ms \<Rightarrow> (case budgets_bump (pdr_net_id rt) tid d of (n, d1) \<Rightarrow>
        if n > db_max_defers d1 then
          r = Inl (PreDispatchRejectedError tid hook ''defer-budget-exceeded'') \<and>
          (\<exists>t t'. es = [PreDispatchDeferred tid hook ms n t,
             PreDispatchRejected tid hook ''defer-budget-exceeded'' t']) \<and>
          d' = budgets_reset (pdr_net_id rt) tid d1
        else r = Inl (PreDispatchDeferredError tid hook ms) \<and>
          (\<exists>t. es = [PreDispatchDeferred tid hook ms n t]) \<and> d' = d1))"

lemma verdict_outcome_pre_only:
  "verdict_outcome rt tid config oc d r d' (map pe_event ps) \<Longrightarrow> pre_only ps"
  by (auto simp: verdict_outcome_def pre_only_def list_all_iff map_eq_Cons_conv map_eq_append_conv
      split: chain_eval_outcome.splits prod.splits if_splits)

context journal
begin

lemma wp_bind_reset:
  assumes "R (w_store w) h" and "Q (Inl e) (w\<lparr>w_budgets := budgets_reset n tid (w_budgets w)\<rparr>) []"
  shows "wp R (act_bind (act_budgets (\<lambda>d. ((), budgets_reset n tid d))) (\<lambda>_. act_fail e)) w h Q"
  by (rule wp_bind, rule wp_budgets) (use assms in \<open>auto intro!: wp_fail\<close>)

lemma wp_verdict:
  assumes "en_repo env = E" and "R (w_store w) h"
  shows "wp R (pre_dispatch_verdict env rt tid config oc) w h (\<lambda>r w' ps. same_calls w w' \<and>
    verdict_outcome rt tid config oc (w_budgets w) r (w_budgets w') (map pe_event ps))"
proof (cases oc)
  case (CContinue x)
  then show ?thesis using assms
    by (auto simp: pre_dispatch_verdict_def same_calls_def verdict_outcome_def
        intro!: wp_bind wp_budgets wp_return)
next
  case (CReject hook reason)
  show ?thesis unfolding pre_dispatch_verdict_def CReject chain_eval_outcome.case
    by (rule wp_bind_now [where R = R, OF assms(2)], rule wp_bind_append [OF assms(1)], assumption,
        rule wp_bind_reset, assumption)
      (auto simp: same_calls_def quiet_def verdict_outcome_def)
next
  case (CDefer hook ms)
  obtain n d1 where bump: "budgets_bump (pdr_net_id rt) tid (w_budgets w) = (n, d1)"
    by (cases "budgets_bump (pdr_net_id rt) tid (w_budgets w)")
  show ?thesis unfolding pre_dispatch_verdict_def CDefer chain_eval_outcome.case
    apply (rule wp_bind, rule wp_budgets [where R = R, OF assms(2)])
    apply (simp only: bump Let_def prod.case fst_conv snd_conv sum.case append_Nil append_Nil2)
    apply (rule wp_bind_now, simp add: assms)
    apply (rule wp_bind_append [OF assms(1)], assumption)
    apply (split if_split, intro conjI impI)
     apply (rule wp_bind_now, assumption, rule wp_bind_append [OF assms(1)], assumption,
        rule wp_bind_reset, assumption)
     apply (auto simp: same_calls_def quiet_def verdict_outcome_def bump intro!: wp_fail)
    done
qed

lemma wp_pre_dispatch:
  assumes "en_repo env = E" and "R (w_store w) h"
  shows "wp R (pre_dispatch_stage env tr hid b config) w h (\<lambda>r w' ps. same_calls w w' \<and> pre_only ps)"
proof (cases "\<exists>rt. en_pre_dispatch env = Some rt \<and> pdr_chain rt \<noteq> []")
  case False
  then show ?thesis using assms(2)
    by (auto simp: pre_dispatch_stage_def same_calls_def split: option.splits intro!: wp_return)
next
  case True
  then obtain rt where rt: "en_pre_dispatch env = Some rt" "pdr_chain rt \<noteq> []" by blast
  obtain oc trc where ev: "evaluate_chain (pdr_chain rt) (chain_inputs_of env rt tr hid b config) = (oc, trc)"
    by (cases "evaluate_chain (pdr_chain rt) (chain_inputs_of env rt tr hid b config)")
  have "wp R (act_bind (act_now env) (\<lambda>now.
      act_bind (act_append env (PreDispatchEvaluated (tr_id tr) (Some (tr_name tr)) trc
        (outcome_final_kind oc) now)) (\<lambda>_.
      pre_dispatch_verdict env rt (tr_id tr) config oc))) w h
      (\<lambda>r w' ps. same_calls w w' \<and> pre_only ps)"
    by (rule wp_bind_now [where R = R, OF assms(2)], rule wp_bind_append [OF assms(1)], assumption,
        rule wp_conseq, rule wp_verdict [OF assms(1)], assumption)
      (auto simp: same_calls_def quiet_def dest: verdict_outcome_pre_only)
  then show ?thesis by (simp add: pre_dispatch_stage_def rt ev)
qed

lemma wp_fire_effect_live:
  assumes "en_repo env = E" and "R (w_store w) h"
  shows "wp R (fire_effect_live env net tr hid b) w h (effect_outcome env tr hid b w)"
proof (cases "en_handlers env hid")
  case None
  then show ?thesis using assms(2)
    by (auto simp: fire_effect_live_def effect_outcome_def intro!: wp_fail)
next
  case (Some eh)
  show ?thesis unfolding fire_effect_live_def Some option.case
  proof (rule wp_bind_lift [where R = R, OF assms(2)], goal_cases)
    case (1 e)
    then show ?case by (simp add: effect_outcome_def)
  next
    case (2 config)
    show ?case
    proof (rule wp_bind, rule wp_conseq, rule wp_pre_dispatch [OF assms], goal_cases)
      case staged: (1 r w1 pre)
      show ?case
      proof (cases r)
        case (Inl e)
        then show ?thesis using staged(2) by (simp add: effect_outcome_def same_calls_def)
      next
        case (Inr final_config)
        show ?thesis unfolding Inr sum.case
          apply (rule wp_bind, rule wp_execute [where R = R, OF staged(1)])
          apply (simp only: sum.case append_Nil2)
          apply (split sum.split, intro conjI allI impI)
           apply (rule wp_conseq, rule wp_effect_failed [OF assms(1)], simp add: staged)
           apply (use staged(2) in \<open>auto simp: effect_outcome_def Some same_calls_def Let_def\<close>) [1]
          apply (rule wp_conseq, rule wp_effect_succeeded [OF assms(1)], simp add: staged)
          apply (use staged(2) in \<open>auto simp: effect_outcome_def Some same_calls_def Let_def\<close>)
          done
      qed
    qed
  qed
qed

end

text \<open>The transition an event of the log stands for, if it records a firing.\<close>

fun fired_id :: "domain_event \<Rightarrow> transition_id option" where
  "fired_id (TransitionFired t _ _ _ _ _ _) = Some t"
| "fired_id (TransitionSkipped t _ _ _ _) = Some t"
| "fired_id (EffectCompleted t _ _ _ _ _ _ _ _) = Some t"
| "fired_id (EffectFailed t _ _ _ _ _ _ _ _) = Some t"
| "fired_id _ = None"

text \<open>Replay either stops without a trace, or re-emits an event with the recorded effect.\<close>

definition replay_outcome :: "transition_id \<Rightarrow> domain_event \<Rightarrow> 'st world \<Rightarrow> (service_error, persisted_event) result \<Rightarrow>
    'st world \<Rightarrow> persisted_event list \<Rightarrow> bool" where
  "replay_outcome tid stored w r w' ps \<longleftrightarrow> w_executed w' = w_executed w \<and>
    (ps = [] \<and> (\<exists>e. r = Inl e) \<and> same_calls w w' \<or>
     (\<exists>p. ps = [p] \<and> is_effect_event (pe_event p) \<and> fired_id (pe_event p) = Some tid \<and>
        (\<forall>q. r = Inr q \<longrightarrow> q = p) \<and> w_replay_cursor w' = Suc (w_replay_cursor w) \<and>
        apply_event_to_marking (pe_event p) = apply_event_to_marking stored))"

context journal
begin

lemma wp_replay_stored:
  assumes "en_repo env = E" and "R (w_store w) h" and "cursor = w_replay_cursor w"
  shows "wp R (replay_stored env tr hid b cursor stored) w h (replay_outcome (tr_id tr) stored w)"
proof (cases stored)
  case (EffectCompleted tid nm cs ps hid' res rd s1 s2)
  show ?thesis unfolding replay_stored_def EffectCompleted Let_def domain_event.case
    by (split if_split, intro conjI impI, rule wp_bind, rule wp_set_cursor [where R = R, OF assms(2)],
        simp only: sum.case append_Nil append_Nil2, rule wp_bind, rule wp_replay,
        simp add: assms(2), simp only: sum.case append_Nil append_Nil2, rule wp_append [OF assms(1)],
        simp add: assms(2))
      (use assms(2,3) in \<open>auto intro!: wp_fail simp: replay_outcome_def same_calls_def quiet_def fun_eq_iff\<close>)
next
  case (EffectFailed tid nm cs ps hid' msg tc inp rt)
  show ?thesis unfolding replay_stored_def EffectFailed Let_def domain_event.case
    by (split if_split, intro conjI impI, rule wp_bind, rule wp_set_cursor [where R = R, OF assms(2)],
        simp only: sum.case append_Nil append_Nil2, rule wp_bind_append [OF assms(1)], simp add: assms(2))
      (use assms(2,3) in \<open>auto intro!: wp_fail wp_return simp: replay_outcome_def same_calls_def quiet_def fun_eq_iff\<close>)
qed (auto simp: replay_stored_def Let_def assms replay_outcome_def same_calls_def intro!: wp_fail)

lemma wp_fire_effect_replay:
  assumes "en_repo env = E" and "R (w_store w) h"
  defines "effs \<equiv> filter (\<lambda>e. is_effect_event (pe_event e)) (er_all_events E (w_store w))"
  shows "wp R (fire_effect_replay env tr hid b) w h
    (replay_outcome (tr_id tr) (pe_event (effs ! w_replay_cursor w)) w)"
proof -
  have "fire_effect_replay env tr hid b w = (if w_replay_cursor w \<ge> length effs
      then act_fail (InternalError (''Replay: no effect event at cursor '' @ show_nat (w_replay_cursor w) @
        '' (total: '' @ show_nat (length effs) @ '')''))
      else replay_stored env tr hid b (w_replay_cursor w) (pe_event (effs ! w_replay_cursor w))) w"
    by (simp add: fire_effect_replay_def effs_def assms(1) Let_def)
  moreover have "wp R (if w_replay_cursor w \<ge> length effs
      then act_fail (InternalError (''Replay: no effect event at cursor '' @ show_nat (w_replay_cursor w) @
        '' (total: '' @ show_nat (length effs) @ '')''))
      else replay_stored env tr hid b (w_replay_cursor w) (pe_event (effs ! w_replay_cursor w))) w h
      (replay_outcome (tr_id tr) (pe_event (effs ! w_replay_cursor w)) w)"
    using wp_replay_stored [OF assms(1,2) refl] assms(2)
    by (auto intro!: wp_fail simp: replay_outcome_def same_calls_def)
  ultimately show ?thesis unfolding wp_def by argo
qed

lemma wp_execute_skip:
  assumes "en_repo env = E" and "R (w_store w) h"
  shows "wp R (execute_skip env net tr tid m) w h (\<lambda>r w' ps. same_calls w w' \<and>
    (case find_valid_binding (en_rhai env) tr (input_arcs net tid) m (en_registry env) of
       None \<Rightarrow> r = Inl (GuardNotSatisfied tid) \<and> ps = []
     | Some b \<Rightarrow> \<exists>p produced. r = Inr p \<and> ps = [p] \<and> pe_event p = TransitionSkipped tid (Some (tr_name tr))
         (tb_consumed b) produced ''skip_mask''))"
  unfolding execute_skip_def
proof (rule wp_bind_lift [where R = R, OF assms(2)], goal_cases)
  case (1 e)
  then show ?case by (auto simp: bind_transition_def same_calls_def split: option.splits)
next
  case (2 b)
  then have b: "find_valid_binding (en_rhai env) tr (input_arcs net tid) m (en_registry env) = Some b"
    by (auto simp: bind_transition_def split: option.splits)
  have total: "unit_tokens env as w0 = (Inl e, w1) \<Longrightarrow> False" for as w0 e w1
    by (induction as arbitrary: w0 w1)
      (auto simp: act_bind_def act_return_def token_fresh_def act_uuid_def act_now_def
        split: prod.splits sum.splits)
  show ?case
    by (rule wp_bind_quiet [where R = R, OF quietly_unit_tokens assms(2)], drule total, erule FalseE,
        rule wp_append [OF assms(1)], assumption)
      (auto simp: b same_calls_def quiet_def)
qed

end

end
