(* ===== verification/Firing_Outcome.thy ===== *)
theory Firing_Outcome
  imports Firing_Logic
begin

text \<open>
  What firing a transition achieves: the properties of the operations of \<^verbatim>\<open>firing.rs\<close>, for the
  in-memory store in any reachable state. Routing is compared with a specification that lists
  the deliveries of a script's outputs; firings are shown to be all or nothing.
\<close>

section \<open>Specification of routing\<close>

definition port_elements :: "transition \<Rightarrow> string \<Rightarrow> json \<Rightarrow> json list" where
  "port_elements tr pn data = (case output_port tr pn of
      None \<Rightarrow> []
    | Some port \<Rightarrow> if port_card port = Batch then (case data of JArray vs \<Rightarrow> vs | _ \<Rightarrow> []) else [data])"

definition deliveries :: "petri_net \<Rightarrow> transition \<Rightarrow> transition_id \<Rightarrow> port_outputs \<Rightarrow> (place_id \<times> token_color) list" where
  "deliveries net tr tid outs = concat (map (\<lambda>(pn, data).
     case output_arc_for_port net tid pn of
       None \<Rightarrow> []
     | Some oa \<Rightarrow> map (\<lambda>v. (arc_place oa, json_to_token_color v)) (port_elements tr pn data)) outs)"

definition crosses :: "petri_net \<Rightarrow> place_id \<Rightarrow> bool" where
  "crosses net p = (case get_place net p of None \<Rightarrow> False
    | Some pl \<Rightarrow> (case pl_kind pl of BridgeOut _ _ _ _ _ \<Rightarrow> True | BridgeReply _ \<Rightarrow> True | _ \<Rightarrow> False))"

definition lands :: "petri_net \<Rightarrow> place_id \<Rightarrow> bool" where
  "lands net p = (case get_place net p of None \<Rightarrow> True
    | Some pl \<Rightarrow> (case pl_kind pl of BridgeOut _ _ _ _ _ \<Rightarrow> False | BridgeReply _ \<Rightarrow> False | Sink \<Rightarrow> False | _ \<Rightarrow> True))"

definition schema_passes :: "schema_registry option \<Rightarrow> string \<Rightarrow> port \<Rightarrow> json \<Rightarrow> bool" where
  "schema_passes reg pn port v = (pn \<noteq> ''_error'' \<longrightarrow> (case (reg, port_schema_ref port) of
      (Some r, Some s) \<Rightarrow> registry_validate r s v = Inr () | _ \<Rightarrow> True))"

definition routed_view :: "routed \<Rightarrow> (place_id \<times> token_color) list \<times> (place_id \<times> token_color) list" where
  "routed_view acc = (map (\<lambda>(p, t). (p, tok_color t)) (fst acc), map (\<lambda>(p, t, _). (p, tok_color t)) (snd acc))"

definition delivered :: "petri_net \<Rightarrow> (place_id \<times> token_color) list \<Rightarrow> routed \<Rightarrow> routed \<Rightarrow> bool" where
  "delivered net ds acc acc' \<longleftrightarrow>
    routed_view acc' = (fst (routed_view acc) @ filter (lands net \<circ> fst) ds,
      snd (routed_view acc) @ filter (crosses net \<circ> fst) ds)"

lemma act_bind_Inr:
  "act_bind m f w = (Inr y, w') \<longleftrightarrow> (\<exists>x w1. m w = (Inr x, w1) \<and> f x w1 = (Inr y, w'))"
  by (auto simp: act_bind_def split: prod.splits sum.splits)

lemma act_lift_Inr: "act_lift r w = (Inr x, w') \<longleftrightarrow> r = Inr x \<and> w' = w"
  by (cases r) (auto simp: act_return_def act_fail_def)

lemma token_fresh_color: "token_fresh env c w = (Inr t, w') \<Longrightarrow> tok_color t = c"
  by (auto simp: token_fresh_def act_bind_Inr act_return_def token_new_def)

lemma deliver_token_spec:
  assumes "deliver_token env net routing er oa t acc w = (Inr acc', w')"
  shows "delivered net [(arc_place oa, tok_color t)] acc acc'"
proof (cases "get_place net (arc_place oa)")
  case None
  then show ?thesis using assms
    by (auto simp: deliver_token_def act_return_def delivered_def routed_view_def lands_def crosses_def)
next
  case (Some pl)
  have "tok_color (case routing of
      Some meta \<Rightarrow> if \<not> arc_reset_reply_routing oa then token_with_reply_routing meta t else t
    | None \<Rightarrow> t) = tok_color t"
    by (auto simp: token_with_reply_routing_def split: option.splits)
  then show ?thesis using assms unfolding deliver_token_def Some option.case
    by (cases "pl_kind pl") (auto simp: act_return_def act_bind_Inr act_lift_Inr act_fail_def
        delivered_def routed_view_def lands_def crosses_def Some split: option.splits)
qed

lemma route_element_spec:
  assumes "route_element env net tr tid routing reg er pn port data acc w = (Inr acc', w')"
  shows "\<exists>oa. output_arc_for_port net tid pn = Some oa \<and> schema_passes reg pn port data \<and>
    delivered net [(arc_place oa, json_to_token_color data)] acc acc'"
proof -
  have sch: "schema_passes reg pn port data"
    using assms by (auto simp: route_element_def act_bind_Inr act_lift_Inr schema_passes_def
        split: if_splits option.splits sum.splits)
  obtain oa where oa: "output_arc_for_port net tid pn = Some oa"
    using assms by (auto simp: route_element_def act_bind_Inr act_fail_def split: option.splits)
  obtain t w1 where t: "tok_color t = json_to_token_color data"
    and rest: "deliver_token env net routing er oa t acc w1 = (Inr acc', w')"
    using assms token_fresh_color unfolding route_element_def act_bind_Inr oa option.case by blast
  have "delivered net [(arc_place oa, json_to_token_color data)] acc acc'"
    using deliver_token_spec [OF rest] t by simp
  then show ?thesis using sch oa by blast
qed

lemma delivered_trans:
  "delivered net ds a b \<Longrightarrow> delivered net es b c \<Longrightarrow> delivered net (ds @ es) a c"
  by (simp add: delivered_def)

lemma delivered_Nil: "delivered net [] a a"
  by (simp add: delivered_def)

lemma route_elements_spec:
  assumes "route_elements (route_element env net tr tid routing reg er pn port) vs acc w = (Inr acc', w')"
  shows "(\<forall>v \<in> set vs. schema_passes reg pn port v) \<and>
    delivered net (case output_arc_for_port net tid pn of None \<Rightarrow> []
      | Some oa \<Rightarrow> map (\<lambda>v. (arc_place oa, json_to_token_color v)) vs) acc acc'"
  using assms
proof (induction vs arbitrary: acc w)
  case Nil
  then show ?case by (auto simp: act_return_def delivered_Nil split: option.splits)
next
  case (Cons v vs)
  obtain acc1 w1 where 1: "route_element env net tr tid routing reg er pn port v acc w = (Inr acc1, w1)"
    and 2: "route_elements (route_element env net tr tid routing reg er pn port) vs acc1 w1 = (Inr acc', w')"
    using Cons.prems by (auto simp: act_bind_Inr)
  obtain oa where oa: "output_arc_for_port net tid pn = Some oa" "schema_passes reg pn port v"
    "delivered net [(arc_place oa, json_to_token_color v)] acc acc1"
    using route_element_spec [OF 1] by blast
  show ?case using Cons.IH [OF 2] oa delivered_trans [OF oa(3)] by auto
qed

lemma route_port_spec:
  assumes "route_port env net tr tid routing reg er (pn, data) acc w = (Inr acc', w')"
  shows "\<exists>port. output_port tr pn = Some port \<and>
    (port_card port = Batch \<longrightarrow> (\<exists>vs. data = JArray vs)) \<and>
    (\<forall>v \<in> set (port_elements tr pn data). schema_passes reg pn port v) \<and>
    delivered net (deliveries net tr tid [(pn, data)]) acc acc'"
  using assms
  by (auto simp: route_port_def act_fail_def port_elements_def deliveries_def
      dest!: route_elements_spec split: option.splits if_splits json.splits)

definition outputs_ok :: "transition \<Rightarrow> schema_registry option \<Rightarrow> port_outputs \<Rightarrow> bool" where
  "outputs_ok tr reg outs \<longleftrightarrow> list_all (\<lambda>(pn, data). case output_port tr pn of
     None \<Rightarrow> False
   | Some port \<Rightarrow> (port_card port = Batch \<longrightarrow> (case data of JArray _ \<Rightarrow> True | _ \<Rightarrow> False)) \<and>
       list_all (schema_passes reg pn port) (port_elements tr pn data)) outs"

lemma route_ports_spec:
  assumes "route_ports (route_port env net tr tid routing reg er) outs acc w = (Inr acc', w')"
  shows "outputs_ok tr reg outs \<and> delivered net (deliveries net tr tid outs) acc acc'"
  using assms
proof (induction outs arbitrary: acc w)
  case Nil
  then show ?case by (auto simp: act_return_def delivered_Nil deliveries_def outputs_ok_def)
next
  case (Cons out outs)
  obtain pn data where out: "out = (pn, data)" by (cases out)
  obtain acc1 w1 where 1: "route_port env net tr tid routing reg er (pn, data) acc w = (Inr acc1, w1)"
    and 2: "route_ports (route_port env net tr tid routing reg er) outs acc1 w1 = (Inr acc', w')"
    using Cons.prems by (auto simp: act_bind_Inr out)
  have split: "deliveries net tr tid (out # outs) = deliveries net tr tid [out] @ deliveries net tr tid outs"
    by (simp add: deliveries_def)
  show ?case using Cons.IH [OF 2] route_port_spec [OF 1] unfolding split
    by (auto simp: out outputs_ok_def list_all_iff intro!: delivered_trans)
qed

section \<open>Firings are all or nothing\<close>

lemma wpD: "wp R m w h Q \<Longrightarrow> m w = (r, w') \<Longrightarrow> \<exists>ps. R (w_store w') (h @ ps) \<and> Q r w' ps"
  by (simp add: wp_def)

definition all_or_nothing :: "token_binding \<Rightarrow> marking \<Rightarrow> marking \<Rightarrow> bool" where
  "all_or_nothing b M M' \<longleftrightarrow> M' = M \<or> (\<exists>produced. M' = produce_all produced (consume_all (tb_consumed b) M))"

lemma settled_marking:
  assumes "settled env tr hid b answer r ps"
  shows "\<exists>produced. project_onto M ps = produce_all produced (consume_all (tb_consumed b) M)"
proof -
  obtain p qs produced bridges where ps: "ps = p # qs"
    and br: "bridged_by env (tr_id tr) (pe_sequence p) bridges qs"
    and ev: "(\<exists>a n hn res rd s1 s2. pe_event p = EffectCompleted a n (tb_consumed b) produced hn res rd s1 s2) \<or>
      (\<exists>a n hn msg inp rt. pe_event p = EffectFailed a n (tb_consumed b) produced hn msg True inp rt)"
    using assms unfolding settled_def by (cases answer; auto; blast)
  have "apply_event_to_marking (pe_event p) M = produce_all produced (consume_all (tb_consumed b) M)"
    using ev by auto
  then show ?thesis using ps br by (auto simp: project_onto_Cons)
qed

lemma effect_outcome_marking:
  assumes "effect_outcome env tr hid b w r w' ps"
  shows "all_or_nothing b M (project_onto M ps)"
  using assms settled_marking [of env tr hid b _ _ _ M] unfolding effect_outcome_def all_or_nothing_def Let_def
  by (auto simp: project_onto_append)

lemma project_error_removed:
  assumes "map pe_event ps = ErrorOccurred reason # map (\<lambda>(p, i). TokenRemoved i p (Some reason) None) cs"
  shows "ps \<noteq> [] \<and> project_onto M ps = consume_all cs M"
proof -
  obtain p qs where "ps = p # qs" using assms by (cases ps) auto
  then show ?thesis using assms project_removed [of qs "Some reason" None cs M] by (simp add: project_onto_Cons)
qed

lemma script_outcome_marking:
  assumes "script_outcome env net tr tid m r ps"
    and "find_valid_binding (en_rhai env) tr (input_arcs net tid) m (en_registry env) = Some b"
  shows "all_or_nothing b M (project_onto M ps)"
proof (cases r)
  case (Inr p)
  then show ?thesis using assms by (auto simp: script_outcome_def all_or_nothing_def project_onto_Cons)
next
  case (Inl e)
  show ?thesis
  proof (cases "is_permanent e")
    case True
    then have "project_onto M ps = consume_all (tb_consumed b) M"
      using assms Inl project_error_removed [of ps _ "tb_consumed b" M] by (auto simp: script_outcome_def)
    then show ?thesis by (auto simp: all_or_nothing_def intro!: exI [of _ "[]"])
  qed (use assms Inl in \<open>simp add: script_outcome_def all_or_nothing_def\<close>)
qed

definition fires_only :: "transition_id \<Rightarrow> persisted_event list \<Rightarrow> bool" where
  "fires_only t ps \<longleftrightarrow> list_all (\<lambda>p. fired_id (pe_event p) \<in> {None, Some t}) ps"

definition fire_count :: "persisted_event list \<Rightarrow> nat" where
  "fire_count ps = length (filter (\<lambda>p. fired_id (pe_event p) \<noteq> None) ps)"

lemma fire_count_simps [simp]:
  "fire_count [] = 0" "fire_count (p # ps) = (if fired_id (pe_event p) = None then fire_count ps else Suc (fire_count ps))"
  "fire_count (ps @ qs) = fire_count ps + fire_count qs"
  by (simp_all add: fire_count_def)

lemma fire_count_zero: "(\<And>p. p \<in> set ps \<Longrightarrow> fired_id (pe_event p) = None) \<Longrightarrow> fire_count ps = 0"
  by (simp add: fire_count_def filter_empty_conv)

lemma fires_only_simps [simp]:
  "fires_only t []" "fires_only t (p # ps) \<longleftrightarrow> fired_id (pe_event p) \<in> {None, Some t} \<and> fires_only t ps"
  "fires_only t (ps @ qs) \<longleftrightarrow> fires_only t ps \<and> fires_only t qs"
  by (simp_all add: fires_only_def)

lemma fires_only_zero: "fire_count ps = 0 \<Longrightarrow> fires_only t ps"
  by (auto simp: fires_only_def fire_count_def list_all_iff filter_empty_conv)

lemma fire_count_pre [simp]:
  assumes "pre_only ps"
  shows "fire_count ps = 0"
proof (rule fire_count_zero)
  fix p assume "p \<in> set ps"
  then have "is_pre_dispatch (pe_event p)" using assms by (auto simp: pre_only_def list_all_iff)
  then show "fired_id (pe_event p) = None" by (cases "pe_event p") auto
qed

lemma fire_count_bridged [simp]: "bridged_by env tid n bs ps \<Longrightarrow> fire_count ps = 0"
  unfolding bridged_by_def by (induction bs ps rule: list_all2_induct) auto

lemma fire_count_removed [simp]:
  assumes "map pe_event ps = map (\<lambda>(p, i). TokenRemoved i p why corr) cs"
  shows "fire_count ps = 0"
proof (rule fire_count_zero)
  fix p assume "p \<in> set ps"
  then have "pe_event p \<in> set (map pe_event ps)" by simp
  then show "fired_id (pe_event p) = None" unfolding assms by auto
qed

lemmas fires_only_none [simp] = fire_count_pre [THEN fires_only_zero] fire_count_bridged [THEN fires_only_zero]
  fire_count_removed [THEN fires_only_zero]

text \<open>One firing of a transition leaves at most one firing event, exactly one when it succeeds.\<close>

definition fires_once :: "transition_id \<Rightarrow> (service_error, persisted_event) result \<Rightarrow> persisted_event list \<Rightarrow> bool" where
  "fires_once tid r ps \<longleftrightarrow> fires_only tid ps \<and> fire_count ps \<le> 1 \<and>
     (\<forall>p. r = Inr p \<longrightarrow> p \<in> set ps \<and> fire_count ps = 1)"

lemma fires_once_simps [simp]:
  "fires_once tid (Inl e) []" "fires_once tid (Inr p) [q] \<longleftrightarrow> q = p \<and> fired_id (pe_event p) = Some tid"
  by (auto simp: fires_once_def)

lemma settled_fires_once: "settled env tr hid b answer r ps \<Longrightarrow> fires_once (tr_id tr) r ps"
  unfolding settled_def fires_once_def by (cases answer) (auto split: if_splits)

lemma effect_outcome_fires_once:
  assumes "effect_outcome env tr hid b w r w' ps"
  shows "fires_once (tr_id tr) r ps"
proof -
  from assms consider (idle) "\<exists>e. r = Inl e" "fire_count ps = 0" | (ran) pre qs answer where "ps = pre @ qs" "fire_count pre = 0"
      "settled env tr hid b answer r qs \<or> qs = [] \<and> (\<exists>e. r = Inl e)"
    unfolding effect_outcome_def Let_def by fastforce
  then show ?thesis
  proof cases
    case idle
    then show ?thesis by (auto simp: fires_once_def fires_only_zero)
  next
    case ran
    then show ?thesis using settled_fires_once [of env tr hid b answer r qs] fires_only_zero [OF ran(2)]
      by (auto simp: fires_once_def)
  qed
qed

lemma script_outcome_fires_once: "script_outcome env net tr tid m r ps \<Longrightarrow> fires_once tid r ps"
  by (auto simp: script_outcome_def fires_once_def split: option.splits sum.splits if_splits)

text \<open>What one call of \<open>fire_transition\<close> may do, whichever way the transition is executed.\<close>

definition fire_outcome :: "'st env \<Rightarrow> marking \<Rightarrow> transition_id \<Rightarrow> marking \<Rightarrow> 'st world \<Rightarrow>
    (service_error, persisted_event) result \<Rightarrow> 'st world \<Rightarrow> persisted_event list \<Rightarrow> bool" where
  "fire_outcome env m tid M w r w' ps \<longleftrightarrow>
    (w_executed w' = w_executed w \<or> (\<exists>call. w_executed w' = w_executed w @ [call])) \<and>
    fires_once tid r ps \<and>
    (en_mode env = Live \<longrightarrow> project_onto M ps = M \<or>
      (\<exists>net tr b. en_topology env = Some net \<and> get_transition net tid = Some tr \<and>
         find_valid_binding (en_rhai env) tr (input_arcs net tid) m (en_registry env) = Some b \<and>
         (\<exists>produced. project_onto M ps = produce_all produced (consume_all (tb_consumed b) M))))"

lemma get_transition_id: "net_wf net \<Longrightarrow> get_transition net tid = Some tr \<Longrightarrow> tr_id tr = tid"
  by (auto simp: net_wf_def get_transition_def list_all_iff dest!: map_of_SomeD)

context journal
begin

lemma wp_fire_transition:
  assumes E: "en_repo env = E" and R: "R (w_store w) h"
    and wf: "\<And>net. en_topology env = Some net \<Longrightarrow> net_wf net"
  shows "wp R (fire_transition env m tid) w h (fire_outcome env m tid M w)"
proof (cases "\<exists>net tr. en_topology env = Some net \<and> get_transition net tid = Some tr")
  case False
  then show ?thesis using R
    by (auto simp: fire_transition_def topology_get_def fire_outcome_def split: option.splits intro!: wp_fail)
next
  case True
  then obtain net tr where net: "en_topology env = Some net" "get_transition net tid = Some tr" by blast
  have id: "tr_id tr = tid" using get_transition_id wf net by blast
  note ft = fire_transition_def topology_get_def net option.case
  show ?thesis
  proof (cases "tid \<in> set (do_skip_mask (en_options env))")
    case True
    show ?thesis unfolding ft if_P [OF True]
      by (rule wp_conseq, rule wp_execute_skip [OF E R])
        (auto simp: fire_outcome_def net same_calls_def project_onto_Cons split: option.splits)
  next
    case noskip: False
    show ?thesis
    proof (cases "tr_effect_handler_id tr")
      case None
      show ?thesis unfolding ft if_not_P [OF noskip] None
      proof (rule wp_conseq, rule wp_fire_script [OF E R], goal_cases)
        case (1 r w' ps)
        then have "fires_once tid r ps" using script_outcome_fires_once by blast
        with 1 show ?case using script_outcome_marking [of env net tr tid m r ps _ M]
          by (cases "find_valid_binding (en_rhai env) tr (input_arcs net tid) m (en_registry env)")
            (auto simp: fire_outcome_def same_calls_def net all_or_nothing_def script_outcome_def split: sum.splits)
      qed
    next
      case (Some hid)
      show ?thesis unfolding ft if_not_P [OF noskip] Some fire_effect_transition_def
      proof (rule wp_bind_lift [where R = R, OF R], goal_cases)
        case (1 e)
        then show ?case by (simp add: fire_outcome_def)
      next
        case (2 b)
        then have b: "find_valid_binding (en_rhai env) tr (input_arcs net tid) m (en_registry env) = Some b"
          by (auto simp: bind_transition_def id split: option.splits)
        show ?case
        proof (cases "en_mode env")
          case Replay
          show ?thesis unfolding Replay execution_mode.case
            by (rule wp_conseq, rule wp_fire_effect_replay [OF E R])
              (auto simp: fire_outcome_def replay_outcome_def fires_once_def id Replay)
        next
          case Live
          show ?thesis unfolding Live execution_mode.case
          proof (rule wp_conseq, rule wp_fire_effect_live [OF E R], goal_cases)
            case (1 r w' ps)
            have "w_executed w' = w_executed w \<or> (\<exists>call. w_executed w' = w_executed w @ [call])"
              using 1(2) unfolding effect_outcome_def by blast
            then show ?case using effect_outcome_marking [OF 1(2), of M] effect_outcome_fires_once [OF 1(2)] id b net
              by (auto simp: fire_outcome_def all_or_nothing_def split: sum.splits)
          qed
        qed
      qed
    qed
  qed
qed

end

section \<open>Deferral\<close>

text \<open>The results of attempting an operation again and again.\<close>

fun attempts :: "nat \<Rightarrow> ('st, 'a) act \<Rightarrow> 'st world \<Rightarrow> (service_error, 'a) result list \<times> 'st world" where
  "attempts 0 m w = ([], w)"
| "attempts (Suc n) m w = (case m w of (r, w1) \<Rightarrow> case attempts n m w1 of (rs, w2) \<Rightarrow> (r # rs, w2))"

lemma budgets_simps:
  "budgets_current n t (budgets_reset n t d) = 0"
  "db_max_defers (budgets_reset n t d) = db_max_defers d"
  "budgets_bump n t d = (c, d') \<Longrightarrow> c = budgets_current n t d + 1 \<and> budgets_current n t d' = c \<and>
     db_max_defers d' = db_max_defers d"
  by (auto simp: budgets_current_def budgets_reset_def budgets_bump_def Let_def)

lemma word_Suc: "unat (x :: 32 word) < 2 ^ 32 - 1 \<Longrightarrow> unat (x + 1) = Suc (unat x)"
  by (simp add: unat_word_ariths)

lemma verdict_defers:
  assumes "en_repo env = memory_repo c" and "store_run c loads wakes (w_store w) h"
    and "pre_dispatch_verdict env rt tid config (CDefer hook ms) w = (r, w')"
    and "db_max_defers (w_budgets w) = mx" and "unat mx < 2 ^ 32 - 1"
    and "unat (budgets_current (pdr_net_id rt) tid (w_budgets w)) = k" and "k \<le> unat mx"
  shows "(\<exists>ps. store_run c loads wakes (w_store w') (h @ ps)) \<and>
    db_max_defers (w_budgets w') = mx \<and>
    (if k < unat mx
     then r = Inl (PreDispatchDeferredError tid hook ms) \<and>
       unat (budgets_current (pdr_net_id rt) tid (w_budgets w')) = Suc k
     else r = Inl (PreDispatchRejectedError tid hook ''defer-budget-exceeded'') \<and>
       budgets_current (pdr_net_id rt) tid (w_budgets w') = 0)"
proof -
  obtain ps where ps: "store_run c loads wakes (w_store w') (h @ ps)"
    and v: "verdict_outcome rt tid config (CDefer hook ms) (w_budgets w) r (w_budgets w') (map pe_event ps)"
    using wpD [OF run.wp_verdict [OF assms(1,2)] assms(3)] by blast
  obtain n d1 where bump: "budgets_bump (pdr_net_id rt) tid (w_budgets w) = (n, d1)"
    by (cases "budgets_bump (pdr_net_id rt) tid (w_budgets w)")
  note b = budgets_simps(3) [OF bump]
  have n: "unat n = Suc k" using b word_Suc assms(5-7) by auto
  have d1: "db_max_defers d1 = mx" using b assms(4) by simp
  have "n > mx \<longleftrightarrow> \<not> k < unat mx" using n by (simp add: word_less_nat_alt) linarith
  moreover have "if n > mx
      then r = Inl (PreDispatchRejectedError tid hook ''defer-budget-exceeded'') \<and>
        w_budgets w' = budgets_reset (pdr_net_id rt) tid d1
      else r = Inl (PreDispatchDeferredError tid hook ms) \<and> w_budgets w' = d1"
    using v d1 by (simp add: verdict_outcome_def bump split: if_splits)
  ultimately show ?thesis using ps n d1 b budgets_simps(1,2) by (auto split: if_splits)
qed

lemma attempts_defer:
  assumes "en_repo env = memory_repo c" and "store_run c loads wakes (w_store w) h"
    and "db_max_defers (w_budgets w) = mx" and "unat mx < 2 ^ 32 - 1"
    and "unat (budgets_current (pdr_net_id rt) tid (w_budgets w)) + k = unat mx"
    and "attempts (Suc k) (pre_dispatch_verdict env rt tid config (CDefer hook ms)) w = (rs, w')"
  shows "rs = replicate k (Inl (PreDispatchDeferredError tid hook ms)) @
      [Inl (PreDispatchRejectedError tid hook ''defer-budget-exceeded'')] \<and>
    budgets_current (pdr_net_id rt) tid (w_budgets w') = 0"
  using assms(2,3,5,6)
proof (induction k arbitrary: w h rs)
  case 0
  obtain r w1 where x: "pre_dispatch_verdict env rt tid config (CDefer hook ms) w = (r, w1)" by force
  show ?case using verdict_defers [OF assms(1) 0(1) x 0(2) assms(4) refl] 0(3,4) x by auto
next
  case (Suc k)
  obtain r w1 where x: "pre_dispatch_verdict env rt tid config (CDefer hook ms) w = (r, w1)" by force
  obtain rs1 where rs: "attempts (Suc k) (pre_dispatch_verdict env rt tid config (CDefer hook ms)) w1 = (rs1, w')"
    "rs = r # rs1"
    using Suc.prems(4) x by (auto split: prod.splits)
  obtain ps where d: "store_run c loads wakes (w_store w1) (h @ ps)" "db_max_defers (w_budgets w1) = mx"
    "r = Inl (PreDispatchDeferredError tid hook ms)"
    "unat (budgets_current (pdr_net_id rt) tid (w_budgets w1)) + k = unat mx"
    using verdict_defers [OF assms(1) Suc.prems(1) x Suc.prems(2) assms(4) refl] Suc.prems(3) by auto
  show ?case using Suc.IH [OF d(1,2,4) rs(1)] rs(2) d(3) by simp
qed

section \<open>A concrete net\<close>

definition demo_go :: transition where
  "demo_go = (transition_new ''go'' ''s'')\<lparr>tr_input_ports := [port_new ''a''], tr_output_ports := [port_new ''out'']\<rparr>"

definition demo_fire_net :: petri_net where
  "demo_fire_net = add_arc (arc_output 1 ''go'' ''out'' ''o'') (add_arc (arc_input 0 ''p'' ''go'' ''a'')
     (snd (add_transition demo_go (snd (add_place (place_internal ''o'')
       (snd (add_place (place_internal ''p'') net_new)))))))"

definition demo_handler :: effect_handler where
  "demo_handler = \<lparr>eh_execute = (\<lambda>_ _. Inr \<lparr>eo_tokens = [(''out'', Null)], eo_result = Null\<rparr>),
     eh_port_schemas = None\<rparr>"

definition demo_env :: "inner env" where
  "demo_env = \<lparr>en_repo = memory_repo demo_cfg, en_topology = Some demo_fire_net, en_rhai = demo_rhai,
     en_handlers = [''h'' \<mapsto> demo_handler], en_mode = Live, en_registry = None, en_secrets = None,
     en_parameters = None, en_pre_dispatch = None,
     en_options = \<lparr>do_skip_mask = [], do_stage_overrides = []\<rparr>,
     en_clock = int, en_uuid = (\<lambda>n. n + 100), en_uuid_text = (\<lambda>_. ''u'')\<rparr>"

definition demo_world :: "inner world" where
  "demo_world = \<lparr>w_store = demo_store, w_ticks = 0, w_uuids = 0, w_replay_cursor = 0,
     w_budgets = budgets_new 2, w_executed = [], w_replayed = []\<rparr>"

lemma demo_env_repo [simp]: "en_repo demo_env = memory_repo demo_cfg"
  by (simp add: demo_env_def)

lemma demo_world_run: "store_run demo_cfg False w (w_store demo_world) demo_history"
  using demo_run by (simp add: demo_world_def)

lemma demo_env_wf: "en_topology demo_env = Some net \<Longrightarrow> net_wf net"
  by (auto simp: demo_env_def) code_simp

lemma demo_fires: "\<exists>p. fst (fire_transition demo_env (project_marking demo_history) ''go'' demo_world) = Inr p"
proof -
  have "\<not> (case fst (fire_transition demo_env (project_marking demo_history) ''go'' demo_world) of
      Inl _ \<Rightarrow> True | Inr _ \<Rightarrow> False)"
    by code_simp
  then show ?thesis by (auto split: sum.splits)
qed

section \<open>Properties\<close>

text \<open>
  C11: routing delivers every output value exactly once and in order: when it succeeds, every
  named port exists, a batch port carried an array, every value passed the schema of its port,
  and the tokens put into the marking and the tokens sent over bridges are the deliveries of the
  outputs to ordinary places and to bridge places; a delivery to a sink leaves no token. No token
  is ever put into a bridge or a sink.
\<close>

theorem route_output_tokens_delivers:
  assumes "route_output_tokens env net tr tid outs routing reg er w = (Inr (produced, bridges), w')"
  shows "outputs_ok tr reg outs \<and>
    map (\<lambda>(p, t). (p, tok_color t)) produced = filter (\<lambda>d. lands net (fst d)) (deliveries net tr tid outs) \<and>
    map (\<lambda>(p, t, _). (p, tok_color t)) bridges = filter (\<lambda>d. crosses net (fst d)) (deliveries net tr tid outs)"
  using route_ports_spec [of env net tr tid routing reg er outs "([], [])" w "(produced, bridges)" w'] assms
  by (simp add: route_output_tokens_def delivered_def routed_view_def comp_def)

theorem route_output_tokens_delivers_witness:
  "case fst (route_output_tokens demo_env demo_fire_net demo_go ''go'' [(''out'', Null)] None None None demo_world) of
     Inr (produced, bridges) \<Rightarrow> map (\<lambda>(p, t). (p, tok_color t)) produced = [(''o'', Unit)]
   | Inl _ \<Rightarrow> False"
proof -
  let ?x = "route_output_tokens demo_env demo_fire_net demo_go ''go'' [(''out'', Null)] None None None demo_world"
  have "\<not> (case fst ?x of Inl _ \<Rightarrow> True | Inr _ \<Rightarrow> False)" by code_simp
  then obtain produced bridges w' where x: "?x = (Inr (produced, bridges), w')"
    by (cases ?x) (auto split: sum.splits)
  have "filter (\<lambda>d. lands demo_fire_net (fst d)) (deliveries demo_fire_net demo_go ''go'' [(''out'', Null)]) =
      [(''o'', Unit)]" by code_simp
  then show ?thesis using route_output_tokens_delivers [OF x] by (simp add: x)
qed



text \<open>
  C10: a script transition that fires journals one firing event with the tokens of its binding and
  then one bridge event per bridged token, nothing else; a failure that is permanent journals an
  error and removes exactly the bound tokens, so that the transition does not fail forever on the
  same tokens; any other failure journals nothing and leaves the marking alone.
\<close>

theorem script_firing_outcome:
  assumes "en_repo env = memory_repo c" and "store_run c loads wakes (w_store w) h"
    and "fire_script_transition env net tr tid m w = (r, w')"
  shows "\<exists>ps. store_run c loads wakes (w_store w') (h @ ps) \<and> w_executed w' = w_executed w \<and>
    (case find_valid_binding (en_rhai env) tr (input_arcs net tid) m (en_registry env) of
       None \<Rightarrow> r = Inl (GuardNotSatisfied tid) \<and> ps = []
     | Some b \<Rightarrow> (case r of
         Inr p \<Rightarrow> \<exists>produced bridges qs. ps = p # qs \<and>
           pe_event p = TransitionFired tid (Some (tr_name tr)) (tb_consumed b) produced (tb_read b)
             (tr_process_step_started tr) (tr_process_step_completed tr) \<and>
           bridged_by env tid (pe_sequence p) bridges qs \<and>
           project_marking (h @ ps) = produce_all produced (consume_all (tb_consumed b) (project_marking h))
       | Inl e \<Rightarrow>
           if is_permanent e
           then ps \<noteq> [] \<and> project_marking (h @ ps) = consume_all (tb_consumed b) (project_marking h)
           else ps = []))"
proof -
  obtain ps where ps: "store_run c loads wakes (w_store w') (h @ ps)" "same_calls w w'"
    "script_outcome env net tr tid m r ps"
    using wpD [OF run.wp_fire_script [OF assms(1,2)] assms(3)] by blast
  show ?thesis
    by (rule exI [of _ ps]) (use ps project_error_removed [of ps] in \<open>auto simp: script_outcome_def same_calls_def project_marking_append
        project_onto_Cons split: option.splits sum.splits\<close>)
qed

theorem script_firing_outcome_witness:
  "\<exists>ps. store_run demo_cfg False False
     (w_store (snd (fire_script_transition demo_env demo_fire_net demo_go ''go'' marking_new demo_world)))
     (demo_history @ ps) \<and> ps = []"
proof -
  let ?x = "fire_script_transition demo_env demo_fire_net demo_go ''go'' marking_new demo_world"
  have none: "find_valid_binding (en_rhai demo_env) demo_go (input_arcs demo_fire_net ''go'') marking_new
      (en_registry demo_env) = None"
    by code_simp
  show ?thesis
    using script_firing_outcome [OF demo_env_repo demo_world_run [of False] prod.collapse [of ?x, symmetric]]
    unfolding none by auto
qed

text \<open>
  C4: an effect handler runs at most once per firing, and a handler that ran settles its tokens:
  unless the error port itself cannot be routed, the log gets exactly one completion or failure
  event with the tokens of the binding, so they are consumed once and the effect is not repeated
  for them. If the handler did not run (no handler, unresolved secrets, a rejection or a deferral
  by a hook) the firing returns an error, journals only pre-dispatch events and leaves the marking.
\<close>

theorem effect_at_most_once:
  assumes "en_repo env = memory_repo c" and "store_run c loads wakes (w_store w) h"
    and "fire_effect_live env net tr hid b w = (r, w')"
  shows "\<exists>ps. store_run c loads wakes (w_store w') (h @ ps) \<and>
    (w_executed w' = w_executed w \<and> (\<exists>e. r = Inl e) \<and> pre_only ps \<and>
       project_marking (h @ ps) = project_marking h \<or>
     (\<exists>eh inp pre qs. en_handlers env hid = Some eh \<and> w_executed w' = w_executed w @ [(hid, inp)] \<and>
       ei_inputs inp = tb_port_inputs b \<and> ps = pre @ qs \<and> pre_only pre \<and>
       (settled env tr hid b (eh_execute eh (length (w_executed w)) inp) r qs \<and>
          (\<exists>produced. project_marking (h @ ps) = produce_all produced (consume_all (tb_consumed b) (project_marking h))) \<or>
        qs = [] \<and> (\<exists>err e. eh_execute eh (length (w_executed w)) inp = Inl err \<and> r = Inl e) \<and>
          output_port tr ''_error'' \<noteq> None)))"
proof -
  obtain ps where ps: "store_run c loads wakes (w_store w') (h @ ps)" "effect_outcome env tr hid b w r w' ps"
    using wpD [OF run.wp_fire_effect_live [OF assms(1,2)] assms(3)] by blast
  from ps(2) consider
      (idle) "w_executed w' = w_executed w" "\<exists>e. r = Inl e" "pre_only ps"
    | (ran) eh inp pre qs where "en_handlers env hid = Some eh" "w_executed w' = w_executed w @ [(hid, inp)]"
        "ei_inputs inp = tb_port_inputs b" "ps = pre @ qs" "pre_only pre"
        "settled env tr hid b (eh_execute eh (length (w_executed w)) inp) r qs \<or>
         qs = [] \<and> (\<exists>err e. eh_execute eh (length (w_executed w)) inp = Inl err \<and> r = Inl e) \<and>
           output_port tr ''_error'' \<noteq> None"
    unfolding effect_outcome_def Let_def by blast
  then show ?thesis
  proof cases
    case idle
    then show ?thesis using ps(1) by (intro exI [of _ ps]) (simp add: project_marking_append)
  next
    case ran
    have done_once: "settled env tr hid b answer r qs \<Longrightarrow>
        \<exists>produced. project_marking (h @ ps) = produce_all produced (consume_all (tb_consumed b) (project_marking h))" for answer
      using settled_marking [of env tr hid b answer r qs "project_marking h"] ran(4,5)
      by (simp add: project_marking_append project_onto_append)
    show ?thesis
      by (rule exI [of _ ps], rule conjI [OF ps(1)], rule disjI2,
          rule exI [of _ eh], rule exI [of _ inp], rule exI [of _ pre], rule exI [of _ qs])
        (use ran done_once in simp, blast)
  qed
qed

theorem effect_at_most_once_witness:
  "\<exists>ps. store_run demo_cfg False False
     (w_store (snd (fire_effect_live demo_env demo_fire_net demo_go ''h'' empty_binding demo_world)))
     (demo_history @ ps) \<and>
   length (w_executed (snd (fire_effect_live demo_env demo_fire_net demo_go ''h'' empty_binding demo_world))) = 1"
proof -
  let ?x = "fire_effect_live demo_env demo_fire_net demo_go ''h'' empty_binding demo_world"
  have "length (w_executed (snd ?x)) = 1" by code_simp
  then show ?thesis
    using effect_at_most_once [OF demo_env_repo demo_world_run [of False] prod.collapse [of ?x, symmetric]]
    by blast
qed

text \<open>
  Replay calls no handler: it either stops without a trace, or appends one effect event that
  changes the marking exactly as the recorded event at the cursor did, and moves the cursor on by
  one.
\<close>

theorem replay_has_no_effects:
  assumes "en_repo env = memory_repo c" and "store_run c loads wakes (w_store w) h"
    and "fire_effect_replay env tr hid b w = (r, w')"
  shows "\<exists>ps. store_run c loads wakes (w_store w') (h @ ps) \<and> w_executed w' = w_executed w \<and>
    (ps = [] \<and> (\<exists>e. r = Inl e) \<and> w_replay_cursor w' = w_replay_cursor w \<or>
     (\<exists>p. ps = [p] \<and> is_effect_event (pe_event p)) \<and> w_replay_cursor w' = Suc (w_replay_cursor w) \<and>
     project_marking (h @ ps) = apply_event_to_marking (pe_event
       (filter (\<lambda>e. is_effect_event (pe_event e)) (mem_all_events (w_store w)) ! w_replay_cursor w))
       (project_marking h))"
proof -
  have all: "er_all_events (memory_repo c) = mem_all_events" by (simp add: memory_repo_def)
  obtain ps where ps: "store_run c loads wakes (w_store w') (h @ ps)"
    "replay_outcome (tr_id tr) (pe_event (filter (\<lambda>e. is_effect_event (pe_event e)) (mem_all_events (w_store w)) !
       w_replay_cursor w)) w r w' ps"
    using wpD [OF run.wp_fire_effect_replay [OF assms(1,2)] assms(3)] unfolding all by blast
  then show ?thesis
    by (intro exI [of _ ps]) (auto simp: replay_outcome_def same_calls_def project_marking_append project_onto_Cons)
qed

theorem replay_has_no_effects_witness:
  "w_executed (snd (fire_effect_replay demo_env demo_go ''h'' empty_binding demo_world)) = []"
  using replay_has_no_effects [OF demo_env_repo demo_world_run [of False] prod.collapse [symmetric],
      of demo_go "''h''" empty_binding]
  by (auto simp: demo_world_def)

text \<open>
  Deferral cannot go on forever: when the hook keeps deferring a transition, exactly
  \<open>max_defers\<close> attempts in a row are deferred, the next one is rejected with the reason that the
  budget is exceeded, and the counter starts again from zero. The counter has 32 bits, so the
  limit must lie below the largest value.
\<close>

theorem defer_budget_escalates:
  assumes "en_repo env = memory_repo c" and "store_run c loads wakes (w_store w) h"
    and "unat (db_max_defers (w_budgets w)) < 2 ^ 32 - 1"
    and "budgets_current (pdr_net_id rt) tid (w_budgets w) = 0"
    and "attempts (Suc (unat (db_max_defers (w_budgets w))))
      (pre_dispatch_verdict env rt tid config (CDefer hook ms)) w = (rs, w')"
  shows "rs = replicate (unat (db_max_defers (w_budgets w))) (Inl (PreDispatchDeferredError tid hook ms)) @
      [Inl (PreDispatchRejectedError tid hook ''defer-budget-exceeded'')] \<and>
    budgets_current (pdr_net_id rt) tid (w_budgets w') = 0"
  by (rule attempts_defer [OF assms(1,2) refl assms(3) _ assms(5)]) (simp add: assms(4))

theorem defer_budget_escalates_witness:
  "fst (attempts 3 (pre_dispatch_verdict demo_env \<lparr>pdr_net_id = ''n'', pdr_chain = []\<rparr> ''go'' None
      (CDefer ''hook'' 5)) demo_world) =
    [Inl (PreDispatchDeferredError ''go'' ''hook'' 5), Inl (PreDispatchDeferredError ''go'' ''hook'' 5),
      Inl (PreDispatchRejectedError ''go'' ''hook'' ''defer-budget-exceeded'')]"
proof -
  let ?rt = "\<lparr>pdr_net_id = ''n'', pdr_chain = []\<rparr>"
  have mx: "unat (db_max_defers (w_budgets demo_world)) = 2"
    by (simp add: demo_world_def budgets_new_def)
  have lt: "unat (db_max_defers (w_budgets demo_world)) < 2 ^ 32 - 1" unfolding mx by simp
  have z: "budgets_current (pdr_net_id ?rt) ''go'' (w_budgets demo_world) = 0"
    by (simp add: demo_world_def budgets_new_def budgets_current_def)
  have two: "replicate 2 x = [x, x]" for x :: "(service_error, json option) result" by (simp add: numeral_2_eq_2)
  have three: "Suc (unat (db_max_defers (w_budgets demo_world))) = 3" unfolding mx by simp
  show ?thesis
    using defer_budget_escalates [OF demo_env_repo demo_world_run [of False] lt z prod.collapse [symmetric],
        of None "''hook''" 5] unfolding three mx two
    by (elim conjE) simp
qed

end
