(* ===== verification/Binding_Memo.thy ===== *)
theory Binding_Memo
  imports Binding Marking_Cache
begin

text \<open>
  The negative-binding memo,
  \<^verbatim>\<open>src/engine/core-engine/crates/application/src/binding_memo.rs\<close>, and its reconciliation with
  a marking delta, \<open>reconcile_binding_memo\<close> of \<^verbatim>\<open>evaluation.rs\<close>. The invariant: every
  transition in the memo has no valid binding at the current marking. The lemmas show that a
  verdict depends only on the tokens of the input places, and that applying a delta keeps the
  invariant.
\<close>

section \<open>The memo\<close>

record binding_memo =
  bm_no_binding :: "transition_id set"
  bm_consumers :: "place_id \<rightharpoonup> transition_id list"
  bm_built :: bool

definition memo_new :: binding_memo where
  "memo_new = \<lparr>bm_no_binding = {}, bm_consumers = Map.empty, bm_built = False\<rparr>"

definition add_consumer :: "transition_id \<Rightarrow> place_id \<Rightarrow> (place_id \<rightharpoonup> transition_id list) \<Rightarrow>
    place_id \<rightharpoonup> transition_id list" where
  "add_consumer t p m = m(p \<mapsto> (case m p of Some ts \<Rightarrow> ts | None \<Rightarrow> []) @ [t])"

definition rebuild_index :: "petri_net \<Rightarrow> binding_memo \<Rightarrow> binding_memo" where
  "rebuild_index net bm = bm\<lparr>
     bm_consumers := fold (\<lambda>tr m. fold (\<lambda>a. add_consumer (tr_id tr) (arc_place a))
       (input_arcs net (tr_id tr)) m) (transitions_values net) Map.empty,
     bm_no_binding := {},
     bm_built := True\<rparr>"

definition clear_entries :: "binding_memo \<Rightarrow> binding_memo" where
  "clear_entries bm = bm\<lparr>bm_no_binding := {}\<rparr>"

definition mark_empty :: "transition_id \<Rightarrow> binding_memo \<Rightarrow> binding_memo" where
  "mark_empty t bm = bm\<lparr>bm_no_binding := insert t (bm_no_binding bm)\<rparr>"

definition invalidate_place :: "place_id \<Rightarrow> binding_memo \<Rightarrow> binding_memo" where
  "invalidate_place p bm = (case bm_consumers bm p of
      None \<Rightarrow> bm
    | Some ts \<Rightarrow> bm\<lparr>bm_no_binding := bm_no_binding bm - set ts\<rparr>)"

fun touched_places :: "domain_event \<Rightarrow> place_id list" where
  "touched_places (TokenCreated _ p _ _ _ _) = [p]"
| "touched_places (TokenConsumed _ p) = [p]"
| "touched_places (TokenRemoved _ p _ _) = [p]"
| "touched_places (TokenUpdated _ p _ _) = [p]"
| "touched_places (TransitionFired _ _ cs ps _ _ _) = map fst cs @ map fst ps"
| "touched_places (EffectCompleted _ _ cs ps _ _ _ _ _) = map fst cs @ map fst ps"
| "touched_places (TransitionSkipped _ _ cs ps _) = map fst cs @ map fst ps"
| "touched_places (EffectFailed _ _ cs ps _ _ tc _ _) = (if tc then map fst cs @ map fst ps else [])"
| "touched_places _ = []"

fun memo_apply_event :: "petri_net option \<Rightarrow> domain_event \<Rightarrow> binding_memo \<Rightarrow> binding_memo" where
  "memo_apply_event net (NetInitialized _) bm =
    (case net of Some n \<Rightarrow> rebuild_index n bm | None \<Rightarrow> clear_entries bm)"
| "memo_apply_event net (TransitionScriptUpdated t _ _) bm =
    bm\<lparr>bm_no_binding := bm_no_binding bm - {t}\<rparr>"
| "memo_apply_event net e bm = fold invalidate_place (touched_places e) bm"

definition memo_apply_events :: "petri_net option \<Rightarrow> domain_event list \<Rightarrow> binding_memo \<Rightarrow> binding_memo" where
  "memo_apply_events net es bm =
    fold (memo_apply_event net) es
      (if \<not> bm_built bm
       then (case net of Some n \<Rightarrow> rebuild_index n bm | None \<Rightarrow> clear_entries bm) else bm)"

fun is_net_initialized :: "domain_event \<Rightarrow> bool" where
  "is_net_initialized (NetInitialized _) = True"
| "is_net_initialized _ = False"

definition reconcile_binding_memo :: "topology_store \<Rightarrow> marking_delta \<Rightarrow> binding_memo \<Rightarrow> binding_memo" where
  "reconcile_binding_memo topo delta bm = (case delta of
      Unchanged \<Rightarrow> bm
    | Rebuilt \<Rightarrow> (case topology_get topo of
        Some net \<Rightarrow> rebuild_index net bm
      | None \<Rightarrow> clear_entries bm)
    | Applied es \<Rightarrow>
        (let needs_net = (\<not> bm_built bm \<or> list_ex (\<lambda>p. is_net_initialized (pe_event p)) es)
         in memo_apply_events (if needs_net then topology_get topo else None) (map pe_event es) bm))"

section \<open>What a verdict depends on\<close>

lemma find_valid_binding_cong:
  assumes "\<And>a. a \<in> set arcs \<Longrightarrow> tokens_at m (arc_place a) = tokens_at m' (arc_place a)"
  shows "find_valid_binding rh tr arcs m reg = find_valid_binding rh tr arcs m' reg"
proof -
  have ats: "map (\<lambda>a. tokens_at m (arc_place a)) arcs = map (\<lambda>a. tokens_at m' (arc_place a)) arcs"
    using assms by simp
  have weights: "list_ex (\<lambda>a. arc_count_from a = None \<and> arc_drain_max a = None \<and>
        length (tokens_at m (arc_place a)) < arc_weight a) arcs =
      list_ex (\<lambda>a. arc_count_from a = None \<and> arc_drain_max a = None \<and>
        length (tokens_at m' (arc_place a)) < arc_weight a) arcs"
    using assms by (auto simp: list_ex_iff)
  show ?thesis unfolding find_valid_binding_def Let_def ats weights ..
qed

lemma tokens_at_consume_untouched:
  "q \<notin> fst ` set cs \<Longrightarrow> tokens_at (consume_all cs m) q = tokens_at m q"
proof (induction cs arbitrary: m)
  case (Cons c cs)
  have "consume_all (c # cs) m = consume_all cs (marking_remove (fst c) (snd c) m)"
    by (simp add: consume_all_def case_prod_beta)
  then show ?case using Cons by auto
qed simp

lemma untouched_place:
  assumes "q \<notin> set (touched_places e)"
  shows "tokens_at (apply_event_to_marking e m) q = tokens_at m q"
  using assms
  by (cases e) (auto simp: tokens_at_produce_all tokens_at_consume_untouched filter_empty_conv split: if_splits)

section \<open>The invariant\<close>

definition index_ok :: "petri_net \<Rightarrow> binding_memo \<Rightarrow> bool" where
  "index_ok net bm \<longleftrightarrow> (\<forall>tr a. tr \<in> set (transitions_values net) \<longrightarrow>
     a \<in> set (input_arcs net (tr_id tr)) \<longrightarrow>
     (\<exists>ts. bm_consumers bm (arc_place a) = Some ts \<and> tr_id tr \<in> set ts))"

definition memo_ok :: "rhai \<Rightarrow> schema_registry option \<Rightarrow> petri_net \<Rightarrow> marking \<Rightarrow> binding_memo \<Rightarrow> bool" where
  "memo_ok rh reg net m bm \<longleftrightarrow>
     (bm_built bm \<longrightarrow> index_ok net bm) \<and> (\<not> bm_built bm \<longrightarrow> bm_no_binding bm = {}) \<and>
     (\<forall>tr \<in> set (transitions_values net). tr_id tr \<in> bm_no_binding bm \<longrightarrow>
       find_valid_binding rh tr (input_arcs net (tr_id tr)) m reg = None)"

lemma memo_ok_new [simp]: "memo_ok rh reg net m memo_new"
  by (simp add: memo_ok_def memo_new_def)

abbreviation consumes :: "(place_id \<rightharpoonup> transition_id list) \<Rightarrow> place_id \<Rightarrow> transition_id \<Rightarrow> bool" where
  "consumes c p t \<equiv> (\<exists>ts. c p = Some ts \<and> t \<in> set ts)"

lemma consumes_add: "consumes (add_consumer t p c) q u \<longleftrightarrow> consumes c q u \<or> q = p \<and> u = t"
  by (cases "c p") (auto simp: add_consumer_def)

lemma consumes_arcs:
  "consumes (fold (\<lambda>a. add_consumer t (arc_place a)) as c) q u \<longleftrightarrow>
    consumes c q u \<or> u = t \<and> (\<exists>a \<in> set as. arc_place a = q)"
proof (induction as arbitrary: c)
  case (Cons a as)
  show ?case unfolding fold_simps comp_apply Cons.IH consumes_add by auto
qed simp

lemma consumes_transitions:
  "consumes (fold (\<lambda>tr m. fold (\<lambda>a. add_consumer (tr_id tr) (arc_place a)) (input_arcs net (tr_id tr)) m)
      trs c) q u \<longleftrightarrow>
    consumes c q u \<or> (\<exists>tr \<in> set trs. u = tr_id tr \<and> (\<exists>a \<in> set (input_arcs net (tr_id tr)). arc_place a = q))"
proof (induction trs arbitrary: c)
  case (Cons tr trs)
  show ?case unfolding fold_simps comp_apply Cons.IH consumes_arcs by auto
qed simp

lemma index_ok_rebuild: "index_ok net (rebuild_index net bm)"
proof -
  have "consumes (bm_consumers (rebuild_index net bm)) q u \<longleftrightarrow>
      (\<exists>tr \<in> set (transitions_values net). u = tr_id tr \<and>
        (\<exists>a \<in> set (input_arcs net (tr_id tr)). arc_place a = q))" for q u
    using consumes_transitions [of net "transitions_values net" Map.empty q u]
    by (simp add: rebuild_index_def)
  then show ?thesis unfolding index_ok_def by blast
qed

lemma memo_ok_rebuild: "memo_ok rh reg net m (rebuild_index net bm)"
  using index_ok_rebuild by (simp add: memo_ok_def) (simp add: rebuild_index_def)

lemma invalidate_frame [simp]:
  "bm_consumers (invalidate_place p bm) = bm_consumers bm"
  "bm_built (invalidate_place p bm) = bm_built bm"
  by (auto simp: invalidate_place_def split: option.splits)

lemma fold_invalidate:
  "bm_consumers (fold invalidate_place ps bm) = bm_consumers bm \<and>
   bm_built (fold invalidate_place ps bm) = bm_built bm \<and>
   bm_no_binding (fold invalidate_place ps bm) =
     {t \<in> bm_no_binding bm. \<forall>p \<in> set ps. \<not> consumes (bm_consumers bm) p t}"
proof (induction ps arbitrary: bm)
  case (Cons p ps)
  have one: "bm_no_binding (invalidate_place p bm) = {t \<in> bm_no_binding bm. \<not> consumes (bm_consumers bm) p t}"
    by (auto simp: invalidate_place_def split: option.splits)
  show ?case unfolding fold_simps comp_apply using Cons.IH [of "invalidate_place p bm"] one by auto
qed simp

text \<open>The invariant while a delta is applied: transitions in \<open>X\<close> are still to be dropped.\<close>

definition memo_ok_upto :: "transition_id set \<Rightarrow> rhai \<Rightarrow> schema_registry option \<Rightarrow> petri_net \<Rightarrow> marking \<Rightarrow>
    binding_memo \<Rightarrow> bool" where
  "memo_ok_upto X rh reg net m bm \<longleftrightarrow>
     (bm_built bm \<longrightarrow> index_ok net bm) \<and> (\<not> bm_built bm \<longrightarrow> bm_no_binding bm = {}) \<and>
     (\<forall>tr \<in> set (transitions_values net). tr_id tr \<in> bm_no_binding bm - X \<longrightarrow>
       find_valid_binding rh tr (input_arcs net (tr_id tr)) m reg = None)"

lemma memo_ok_upto_empty: "memo_ok_upto {} rh reg net m bm = memo_ok rh reg net m bm"
  by (simp add: memo_ok_upto_def memo_ok_def)

lemma memo_apply_other:
  assumes "\<not> is_net_initialized e"
  shows "bm_consumers (memo_apply_event n e bm) = bm_consumers bm"
    and "bm_built (memo_apply_event n e bm) = bm_built bm"
    and "bm_no_binding (memo_apply_event n e bm) \<subseteq> bm_no_binding bm"
    and "t \<in> bm_no_binding (memo_apply_event n e bm) \<Longrightarrow> p \<in> set (touched_places e) \<Longrightarrow>
      \<not> consumes (bm_consumers bm) p t"
  using assms fold_invalidate [of "touched_places e" bm] by (cases e; force)+

lemma memo_step:
  assumes ok: "memo_ok_upto X rh reg net m bm"
    and net: "is_net_initialized e \<longrightarrow> n = Some net"
  shows "memo_ok_upto X rh reg net (apply_event_to_marking e m) (memo_apply_event n e bm)"
proof (cases "is_net_initialized e")
  case True
  then have "memo_apply_event n e bm = rebuild_index net bm" using net by (cases e) auto
  then show ?thesis using index_ok_rebuild [of net bm]
    by (simp add: memo_ok_upto_def) (simp add: rebuild_index_def)
next
  case False
  note other = memo_apply_other [OF False, where n = n and bm = bm]
  have "find_valid_binding rh tr (input_arcs net (tr_id tr)) (apply_event_to_marking e m) reg = None"
    if tr: "tr \<in> set (transitions_values net)"
      and mem: "tr_id tr \<in> bm_no_binding (memo_apply_event n e bm) - X" for tr
  proof -
    have old: "tr_id tr \<in> bm_no_binding bm - X" using mem other(3) by auto
    then have built: "bm_built bm" using ok by (auto simp: memo_ok_upto_def)
    have "arc_place a \<notin> set (touched_places e)" if "a \<in> set (input_arcs net (tr_id tr))" for a
      using ok built tr that other(4) [where t = "tr_id tr" and p = "arc_place a"] mem
      by (auto simp: memo_ok_upto_def index_ok_def)
    then have "find_valid_binding rh tr (input_arcs net (tr_id tr)) (apply_event_to_marking e m) reg =
        find_valid_binding rh tr (input_arcs net (tr_id tr)) m reg"
      by (intro find_valid_binding_cong untouched_place) auto
    then show ?thesis using ok tr old by (simp add: memo_ok_upto_def)
  qed
  moreover have "bm_built (memo_apply_event n e bm) \<longrightarrow> index_ok net (memo_apply_event n e bm)"
    using ok other(1,2) by (simp add: memo_ok_upto_def index_ok_def)
  moreover have "\<not> bm_built (memo_apply_event n e bm) \<longrightarrow> bm_no_binding (memo_apply_event n e bm) = {}"
    using ok other(2,3) by (auto simp: memo_ok_upto_def)
  ultimately show ?thesis unfolding memo_ok_upto_def by blast
qed

lemma memo_steps:
  assumes "memo_ok_upto X rh reg net m bm"
    and "(\<exists>p \<in> set es. is_net_initialized (pe_event p)) \<longrightarrow> n = Some net"
  shows "memo_ok_upto X rh reg net (project_onto m es) (fold (memo_apply_event n) (map pe_event es) bm)"
  using assms
proof (induction es arbitrary: m bm)
  case (Cons p es)
  show ?case using Cons.IH [OF memo_step [OF Cons.prems(1), of "pe_event p" n]] Cons.prems(2)
    by (simp add: project_onto_Cons)
qed simp

lemma memo_apply_shrinks:
  "bm_no_binding (fold (memo_apply_event n) es bm) \<subseteq> bm_no_binding bm"
proof (induction es arbitrary: bm)
  case (Cons e es)
  have "bm_no_binding (memo_apply_event n e bm) \<subseteq> bm_no_binding bm"
  proof (cases "is_net_initialized e")
    case True
    then show ?thesis
      by (cases e) (auto simp: rebuild_index_def clear_entries_def split: option.splits)
  qed (rule memo_apply_other(3))
  then show ?case using Cons.IH [of "memo_apply_event n e bm"] by auto
qed simp

lemma script_update_drops:
  assumes "TransitionScriptUpdated t s g \<in> set es"
  shows "t \<notin> bm_no_binding (fold (memo_apply_event n) es bm)"
proof -
  obtain xs ys where "es = xs @ TransitionScriptUpdated t s g # ys" using assms by (meson split_list)
  then have "bm_no_binding (fold (memo_apply_event n) es bm) \<subseteq>
      bm_no_binding (memo_apply_event n (TransitionScriptUpdated t s g) (fold (memo_apply_event n) xs bm))"
    using memo_apply_shrinks [of n ys "memo_apply_event n (TransitionScriptUpdated t s g)
        (fold (memo_apply_event n) xs bm)"] by simp
  then show ?thesis by auto
qed

text \<open>
  The topology may have changed since the memo was last in step: either wholesale, with a
  load recorded in the delta, or in the scripts of transitions recorded in the delta.
\<close>

definition topology_step :: "petri_net \<Rightarrow> petri_net \<Rightarrow> persisted_event list \<Rightarrow> bool" where
  "topology_step net net' es \<longleftrightarrow>
    (\<exists>p \<in> set es. is_net_initialized (pe_event p)) \<or>
    (net_arcs net' = net_arcs net \<and>
     (\<forall>tr \<in> set (transitions_values net').
        (\<exists>tr0 \<in> set (transitions_values net). tr_id tr0 = tr_id tr) \<and>
        (tr \<in> set (transitions_values net) \<or>
         (\<exists>s g. TransitionScriptUpdated (tr_id tr) s g \<in> pe_event ` set es))))"

lemma memo_ok_upto_net:
  assumes ok: "memo_ok rh reg net m bm" and arcs: "net_arcs net' = net_arcs net"
    and trs: "\<forall>tr \<in> set (transitions_values net').
        (\<exists>tr0 \<in> set (transitions_values net). tr_id tr0 = tr_id tr) \<and>
        (tr \<in> set (transitions_values net) \<or> tr_id tr \<in> X)"
  shows "memo_ok_upto X rh reg net' m bm"
proof -
  have ia: "input_arcs net' t = input_arcs net t" for t by (simp add: input_arcs_def arcs)
  have "index_ok net' bm" if "bm_built bm"
    unfolding index_ok_def ia
  proof (intro allI impI)
    fix tr a
    assume tr: "tr \<in> set (transitions_values net')" and a: "a \<in> set (input_arcs net (tr_id tr))"
    obtain tr0 where tr0: "tr0 \<in> set (transitions_values net)" "tr_id tr0 = tr_id tr" using trs tr by blast
    have "index_ok net bm" using ok that by (simp add: memo_ok_def)
    then show "consumes (bm_consumers bm) (arc_place a) (tr_id tr)"
      using tr0 a unfolding index_ok_def by metis
  qed
  moreover have "\<not> bm_built bm \<longrightarrow> bm_no_binding bm = {}" using ok by (simp add: memo_ok_def)
  moreover have "find_valid_binding rh tr (input_arcs net' (tr_id tr)) m reg = None"
    if "tr \<in> set (transitions_values net')" and "tr_id tr \<in> bm_no_binding bm - X" for tr
  proof -
    have "tr \<in> set (transitions_values net)" using trs that by blast
    then show ?thesis using ok that(2) by (simp add: memo_ok_def ia)
  qed
  ultimately show ?thesis unfolding memo_ok_upto_def by blast
qed

lemma memo_apply_keeps:
  assumes ok: "memo_ok rh reg net m bm" and step: "topology_step net net' es"
  shows "memo_ok rh reg net' (project_onto m es) (reconcile_binding_memo (Some net') (Applied es) bm)"
proof -
  let ?init = "\<exists>p \<in> set es. is_net_initialized (pe_event p)"
  define n where "n = (if \<not> bm_built bm \<or> list_ex (\<lambda>p. is_net_initialized (pe_event p)) es then Some net' else None)"
  define bm0 where "bm0 = (if \<not> bm_built bm then rebuild_index net' bm else bm)"
  have rec: "reconcile_binding_memo (Some net') (Applied es) bm = fold (memo_apply_event n) (map pe_event es) bm0"
    by (simp add: reconcile_binding_memo_def topology_get_def memo_apply_events_def n_def bm0_def)
  have n: "?init \<longrightarrow> n = Some net'" by (auto simp: list_ex_iff n_def)
  show ?thesis
  proof (cases "\<not> bm_built bm")
    case True
    then have "memo_ok_upto {} rh reg net' m bm0" by (simp add: memo_ok_upto_empty memo_ok_rebuild bm0_def)
    from memo_steps [OF this n] show ?thesis by (simp add: rec memo_ok_upto_empty)
  next
    case False
    show ?thesis
    proof (cases ?init)
      case True
      then obtain xs p ys where es: "es = xs @ p # ys" "is_net_initialized (pe_event p)"
        by (meson split_list)
      have at: "memo_apply_event n (pe_event p) b = rebuild_index net' b" for b
        using es(2) n True by (cases "pe_event p") auto
      have "memo_ok_upto {} rh reg net' (project_onto m (xs @ [p]))
          (fold (memo_apply_event n) (map pe_event (xs @ [p])) bm0)"
        using at by (simp add: memo_ok_upto_empty memo_ok_rebuild)
      from memo_steps [OF this, of ys n] have "memo_ok rh reg net' (project_onto m es)
          (fold (memo_apply_event n) (map pe_event es) bm0)"
        using n es(2) by (auto simp: es(1) memo_ok_upto_empty project_onto_append project_onto_Cons)
      then show ?thesis unfolding rec .
    next
      case noinit: False
      let ?X = "{t. \<exists>s g. TransitionScriptUpdated t s g \<in> pe_event ` set es}"
      have "memo_ok_upto ?X rh reg net' m bm"
        by (rule memo_ok_upto_net [OF ok]) (use step noinit in \<open>auto simp: topology_step_def\<close>)
      from memo_steps [OF this n] have
        up: "memo_ok_upto ?X rh reg net' (project_onto m es) (fold (memo_apply_event n) (map pe_event es) bm)" .
      have "t \<notin> bm_no_binding (fold (memo_apply_event n) (map pe_event es) bm)" if t: "t \<in> ?X" for t
      proof -
        obtain s g where "TransitionScriptUpdated t s g \<in> set (map pe_event es)" using t by auto
        then show ?thesis by (rule script_update_drops)
      qed
      then have "memo_ok_upto {} rh reg net' (project_onto m es) (fold (memo_apply_event n) (map pe_event es) bm)"
        using up unfolding memo_ok_upto_def by blast
      then show ?thesis using False by (simp add: rec memo_ok_upto_empty bm0_def)
    qed
  qed
qed

lemma memo_reconcile_keeps:
  assumes "memo_ok rh reg net m bm"
    and "\<And>es. delta = Applied es \<Longrightarrow> topology_step net net' es \<and> m' = project_onto m es"
    and "delta = Unchanged \<Longrightarrow> net' = net \<and> m' = m"
  shows "memo_ok rh reg net' m' (reconcile_binding_memo (Some net') delta bm)"
proof (cases delta)
  case (Applied es)
  then show ?thesis using memo_apply_keeps [OF assms(1)] assms(2) by simp
next
  case Rebuilt
  then show ?thesis using memo_ok_rebuild by (simp add: reconcile_binding_memo_def topology_get_def)
qed (use assms in \<open>simp add: reconcile_binding_memo_def\<close>)

lemma fold_invalidate_built [simp]: "bm_built (fold invalidate_place ps bm) = bm_built bm"
  by (induction ps arbitrary: bm) (auto simp: invalidate_place_def split: option.splits)

lemma memo_apply_event_built:
  "bm_built bm \<Longrightarrow> n \<noteq> None \<or> \<not> is_net_initialized e \<Longrightarrow> bm_built (memo_apply_event n e bm)"
  by (cases e) (auto simp: rebuild_index_def)

lemma memo_apply_events_built:
  assumes "bm_built bm" and "n \<noteq> None \<or> \<not> list_ex is_net_initialized es"
  shows "bm_built (fold (memo_apply_event n) es bm)"
  using assms by (induction es arbitrary: bm) (auto simp: memo_apply_event_built)

lemma reconcile_built:
  assumes "delta \<noteq> Unchanged \<or> bm_built bm"
  shows "bm_built (reconcile_binding_memo (Some net) delta bm)"
proof (cases delta)
  case (Applied es)
  show ?thesis unfolding reconcile_binding_memo_def Applied marking_delta.case Let_def topology_get_def memo_apply_events_def
    by (rule memo_apply_events_built) (auto simp: rebuild_index_def list_ex_iff)
qed (use assms in \<open>auto simp: reconcile_binding_memo_def topology_get_def rebuild_index_def\<close>)

section \<open>Properties\<close>



end
