(* ===== verification/Selection.thy ===== *)
theory Selection
  imports Binding_Memo "HOL-Library.Product_Lexorder"
begin

text \<open>
  Choosing the next transition,
  \<^verbatim>\<open>src/engine/core-engine/crates/application/src/evaluation.rs\<close>: the queries for enabled
  transitions and their statuses, and \<open>select_next_transition\<close> with its scheduling order
  (earliest enabling time, more inputs, higher priority, smaller identifier). The lemmas show
  that the order is a strict total order when no priority is a NaN, so that the choice does
  not depend on the order in which the hash map of transitions is walked, and that the memo
  does not change the choice.
\<close>

section \<open>Enabledness\<close>

definition is_enabled :: "rhai \<Rightarrow> topology_store \<Rightarrow> transition_id \<Rightarrow> marking \<Rightarrow> schema_registry option \<Rightarrow>
    (service_error, bool) result" where
  "is_enabled rh topo i m reg = (case topology_get topo of
      None \<Rightarrow> Inl NoTopology
    | Some net \<Rightarrow> (case get_transition net i of
        None \<Rightarrow> Inl (TransitionNotFound i)
      | Some tr \<Rightarrow> Inr (find_valid_binding rh tr (input_arcs net i) m reg \<noteq> None)))"

definition enabled_transitions :: "rhai \<Rightarrow> topology_store \<Rightarrow> marking \<Rightarrow> schema_registry option \<Rightarrow>
    (service_error, transition_id list) result" where
  "enabled_transitions rh topo m reg = (case topology_get topo of
      None \<Rightarrow> Inl NoTopology
    | Some net \<Rightarrow> Inr (map tr_id (filter (\<lambda>tr.
        find_valid_binding rh tr (input_arcs net (tr_id tr)) m reg \<noteq> None) (transitions_values net))))"

datatype transition_status =
    StatusEnabled
  | DisabledNoTokens string
  | DisabledGuardFailed string
  | DisabledGuardError string

definition transition_status_of :: "rhai \<Rightarrow> petri_net \<Rightarrow> marking \<Rightarrow> schema_registry option \<Rightarrow> transition \<Rightarrow>
    transition_status" where
  "transition_status_of rh net m reg tr =
    (let arcs = input_arcs net (tr_id tr) in
     case find (\<lambda>a. length (tokens_at m (arc_place a)) < arc_weight a) arcs of
       Some a \<Rightarrow> DisabledNoTokens (arc_place a)
     | None \<Rightarrow> (case find_valid_binding rh tr arcs m reg of
         Some _ \<Rightarrow> StatusEnabled
       | None \<Rightarrow> (case tr_guard tr of
           Some g \<Rightarrow> DisabledGuardFailed g
         | None \<Rightarrow> StatusEnabled)))"

definition transition_statuses :: "rhai \<Rightarrow> topology_store \<Rightarrow> marking \<Rightarrow> schema_registry option \<Rightarrow>
    (service_error, (transition_id, transition_status) hashmap) result" where
  "transition_statuses rh topo m reg = (case topology_get topo of
      None \<Rightarrow> Inl NoTopology
    | Some net \<Rightarrow> Inr (fold (\<lambda>tr. hm_insert (tr_id tr) (transition_status_of rh net m reg tr))
        (transitions_values net) []))"

definition transition_enabling_time :: "rhai \<Rightarrow> topology_store \<Rightarrow> transition_id \<Rightarrow> marking \<Rightarrow>
    schema_registry option \<Rightarrow> (service_error, time option) result" where
  "transition_enabling_time rh topo i m reg = (case topology_get topo of
      None \<Rightarrow> Inl NoTopology
    | Some net \<Rightarrow> (case get_transition net i of
        None \<Rightarrow> Inl (TransitionNotFound i)
      | Some tr \<Rightarrow> Inr (case find_valid_binding rh tr (input_arcs net i) m reg of
          Some b \<Rightarrow> tb_max_created_at b
        | None \<Rightarrow> None)))"

section \<open>Selection\<close>

datatype select_phase = Normal | Finalizing

record best_so_far =
  best_id :: "transition_id option"
  best_time :: "time option"
  best_input_count :: nat
  best_priority :: "f64 option"

definition no_best :: best_so_far where
  "no_best = \<lparr>best_id = None, best_time = None, best_input_count = 0, best_priority = None\<rparr>"

definition phase_skips :: "select_phase \<Rightarrow> transition \<Rightarrow> bool" where
  "phase_skips ph tr = (case ph of Normal \<Rightarrow> tr_finalizer tr | Finalizing \<Rightarrow> \<not> tr_finalizer tr)"

definition is_better :: "transition_id \<Rightarrow> time option \<Rightarrow> nat \<Rightarrow> f64 option \<Rightarrow> best_so_far \<Rightarrow> bool" where
  "is_better i enabling input_count priority bst =
    (case (best_id bst, best_time bst) of
       (Some bid, Some bt) \<Rightarrow>
         (case enabling of
            None \<Rightarrow> False
          | Some t \<Rightarrow>
              if t < bt then True
              else if t = bt then
                (if input_count > best_input_count bst then True
                 else if input_count = best_input_count bst then
                   (case (priority, best_priority bst) of
                      (Some p, Some bp) \<Rightarrow>
                        if f64_lt bp p then True else if f64_lt p bp then False else i < bid
                    | (Some _, None) \<Rightarrow> True
                    | (None, Some _) \<Rightarrow> False
                    | (None, None) \<Rightarrow> i < bid)
                 else False)
              else False)
     | _ \<Rightarrow> enabling \<noteq> None)"

definition binding_priority :: "rhai \<Rightarrow> transition \<Rightarrow> token_binding \<Rightarrow> f64 option" where
  "binding_priority rh tr b = (case tr_priority tr of
      None \<Rightarrow> None
    | Some e \<Rightarrow> evaluate_priority rh e (tb_port_inputs b))"

text \<open>One turn of the loop over the transitions: the best so far, and the newly empty ones.\<close>

definition select_step :: "rhai \<Rightarrow> petri_net \<Rightarrow> marking \<Rightarrow> schema_registry option \<Rightarrow>
    transition_id set option \<Rightarrow> select_phase \<Rightarrow> transition \<Rightarrow>
    best_so_far \<times> transition_id list \<Rightarrow> best_so_far \<times> transition_id list" where
  "select_step rh net m reg known ph tr st = (case st of (bst, empties) \<Rightarrow>
    (if phase_skips ph tr then (bst, empties)
     else if (case known of Some k \<Rightarrow> tr_id tr \<in> k | None \<Rightarrow> False) then (bst, empties)
     else let arcs = input_arcs net (tr_id tr) in
       (case find_valid_binding rh tr arcs m reg of
          None \<Rightarrow> (bst, if known \<noteq> None then empties @ [tr_id tr] else empties)
        | Some b \<Rightarrow>
            (let enabling = tb_max_created_at b;
                 input_count = length arcs;
                 priority = binding_priority rh tr b
             in if is_better (tr_id tr) enabling input_count priority bst
                then (\<lparr>best_id = Some (tr_id tr), best_time = enabling,
                       best_input_count = input_count, best_priority = priority\<rparr>, empties)
                else (bst, empties)))))"

definition select_next_transition :: "rhai \<Rightarrow> topology_store \<Rightarrow> marking \<Rightarrow> schema_registry option \<Rightarrow>
    binding_memo option \<Rightarrow> select_phase \<Rightarrow>
    (service_error, transition_id option) result \<times> binding_memo option" where
  "select_next_transition rh topo m reg memo ph = (case topology_get topo of
      None \<Rightarrow> (Inl NoTopology, memo)
    | Some net \<Rightarrow>
        (let (bst, empties) = fold (select_step rh net m reg (map_option bm_no_binding memo) ph)
              (transitions_values net) (no_best, [])
         in (Inr (best_id bst), map_option (fold mark_empty empties) memo)))"

section \<open>Candidates and their order\<close>

record candidate =
  ca_id :: transition_id
  ca_time :: time
  ca_count :: nat
  ca_priority :: "f64 option"

text \<open>A transition that takes part in the selection, with the data it is ranked by.\<close>

definition candidate_of :: "rhai \<Rightarrow> petri_net \<Rightarrow> marking \<Rightarrow> schema_registry option \<Rightarrow> select_phase \<Rightarrow>
    transition \<Rightarrow> candidate option" where
  "candidate_of rh net m reg ph tr =
    (if phase_skips ph tr then None
     else (case find_valid_binding rh tr (input_arcs net (tr_id tr)) m reg of
         None \<Rightarrow> None
       | Some b \<Rightarrow> (case tb_max_created_at b of
           None \<Rightarrow> None
         | Some t \<Rightarrow> Some \<lparr>ca_id = tr_id tr, ca_time = t, ca_count = length (input_arcs net (tr_id tr)),
             ca_priority = binding_priority rh tr b\<rparr>)))"

definition candidates_of :: "rhai \<Rightarrow> petri_net \<Rightarrow> marking \<Rightarrow> schema_registry option \<Rightarrow> select_phase \<Rightarrow>
    candidate list" where
  "candidates_of rh net m reg ph = List.map_filter (candidate_of rh net m reg ph) (transitions_values net)"

text \<open>The rank: smaller is better. A missing priority ranks below every priority.\<close>

definition priority_rank :: "f64 option \<Rightarrow> int \<times> int" where
  "priority_rank p = (case p of None \<Rightarrow> (1, 0) | Some f \<Rightarrow> (0, - f64_ord f))"

definition rank :: "candidate \<Rightarrow> time \<times> int \<times> (int \<times> int) \<times> string" where
  "rank c = (ca_time c, - int (ca_count c), priority_rank (ca_priority c), ca_id c)"

definition no_nan :: "candidate \<Rightarrow> bool" where
  "no_nan c = (case ca_priority c of None \<Rightarrow> True | Some f \<Rightarrow> \<not> f64_is_nan f)"

fun best_of :: "candidate option \<Rightarrow> best_so_far" where
  "best_of None = no_best"
| "best_of (Some c) = \<lparr>best_id = Some (ca_id c), best_time = Some (ca_time c),
    best_input_count = ca_count c, best_priority = ca_priority c\<rparr>"

lemma is_better_rank:
  assumes "no_nan c" and "no_nan d"
  shows "is_better (ca_id c) (Some (ca_time c)) (ca_count c) (ca_priority c) (best_of (Some d)) \<longleftrightarrow>
    rank c < rank d"
  using assms
  by (auto simp: is_better_def rank_def priority_rank_def no_nan_def f64_lt_def split: option.splits)

text \<open>The loop over the transitions, seen as a walk over the candidates.\<close>

definition pick :: "candidate \<Rightarrow> candidate option \<Rightarrow> candidate option" where
  "pick c acc =
    (if is_better (ca_id c) (Some (ca_time c)) (ca_count c) (ca_priority c) (best_of acc)
     then Some c else acc)"

lemma not_better_None: "\<not> is_better i None n p (best_of acc)"
  by (cases acc) (auto simp: is_better_def no_best_def)

lemma select_step_candidate:
  assumes "\<And>k. known = Some k \<Longrightarrow> tr_id tr \<in> k \<Longrightarrow>
      find_valid_binding rh tr (input_arcs net (tr_id tr)) m reg = None"
  shows "fst (select_step rh net m reg known ph tr (best_of acc, es)) =
    (case candidate_of rh net m reg ph tr of None \<Rightarrow> best_of acc | Some c \<Rightarrow> best_of (pick c acc))"
proof (cases "find_valid_binding rh tr (input_arcs net (tr_id tr)) m reg")
  case None
  then show ?thesis
    by (cases known) (simp_all add: select_step_def candidate_of_def Let_def)
next
  case (Some b)
  then have "\<not> (case known of Some k \<Rightarrow> tr_id tr \<in> k | None \<Rightarrow> False)"
    using assms by (cases known) auto
  then show ?thesis using Some not_better_None
    by (cases "tb_max_created_at b") (simp_all add: select_step_def candidate_of_def pick_def Let_def)
qed

lemma fold_select:
  assumes "\<And>k tr. known = Some k \<Longrightarrow> tr \<in> set trs \<Longrightarrow> tr_id tr \<in> k \<Longrightarrow>
      find_valid_binding rh tr (input_arcs net (tr_id tr)) m reg = None"
  shows "fst (fold (select_step rh net m reg known ph) trs (best_of acc, es)) =
    best_of (fold pick (List.map_filter (candidate_of rh net m reg ph) trs) acc)"
  using assms
proof (induction trs arbitrary: acc es)
  case (Cons tr trs)
  let ?st = "select_step rh net m reg known ph tr (best_of acc, es)"
  have fst_st: "fst ?st = (case candidate_of rh net m reg ph tr of
      None \<Rightarrow> best_of acc | Some c \<Rightarrow> best_of (pick c acc))"
    by (rule select_step_candidate) (use Cons.prems in auto)
  obtain acc' es' where st: "?st = (best_of acc', es')"
    and acc': "acc' = (case candidate_of rh net m reg ph tr of None \<Rightarrow> acc | Some c \<Rightarrow> pick c acc)"
    using fst_st by (cases ?st) (auto split: option.splits)
  show ?case using Cons.IH [of acc' es'] Cons.prems st acc'
    by (auto simp: map_filter_simps split: option.splits)
qed (simp add: map_filter_simps)

lemma fold_pick_min:
  assumes "\<And>c. c \<in> set cs \<union> set_option acc \<Longrightarrow> no_nan c"
  shows "case fold pick cs acc of
      None \<Rightarrow> cs = [] \<and> acc = None
    | Some c \<Rightarrow> c \<in> set cs \<union> set_option acc \<and> (\<forall>d \<in> set cs \<union> set_option acc. rank c \<le> rank d)"
  using assms
proof (induction cs arbitrary: acc)
  case Nil
  then show ?case by (cases acc) auto
next
  case (Cons c cs)
  have p: "pick c acc = (case acc of None \<Rightarrow> Some c | Some d \<Rightarrow> if rank c < rank d then Some c else Some d)"
  proof (cases acc)
    case None
    then show ?thesis by (simp add: pick_def is_better_def no_best_def)
  next
    case (Some d)
    then show ?thesis using is_better_rank [of c d] Cons.prems [of c] Cons.prems [of d]
      by (simp add: pick_def)
  qed
  have nn: "no_nan x" if "x \<in> set cs \<union> set_option (pick c acc)" for x
    using that Cons.prems [of x] Cons.prems [of c] by (auto simp: p split: option.splits if_splits)
  have IH: "case fold pick cs (pick c acc) of
      None \<Rightarrow> cs = [] \<and> pick c acc = None
    | Some e \<Rightarrow> e \<in> set cs \<union> set_option (pick c acc) \<and>
        (\<forall>d \<in> set cs \<union> set_option (pick c acc). rank e \<le> rank d)"
    by (rule Cons.IH) (rule nn)
  show ?case
  proof (cases acc)
    case None
    then have "pick c None = Some c" using p by simp
    then show ?thesis using IH None by (auto split: option.splits)
  next
    case (Some d)
    then have "pick c (Some d) = (if rank c < rank d then Some c else Some d)" using p by simp
    then show ?thesis using IH Some by (cases "rank c < rank d") (force split: option.splits)+
  qed
qed

lemma select_picks:
  assumes "\<And>bm tr. memo = Some bm \<Longrightarrow> tr \<in> set (transitions_values net) \<Longrightarrow>
      tr_id tr \<in> bm_no_binding bm \<Longrightarrow>
      find_valid_binding rh tr (input_arcs net (tr_id tr)) m reg = None"
  shows "fst (select_next_transition rh (Some net) m reg memo ph) =
    Inr (map_option ca_id (fold pick (candidates_of rh net m reg ph) None))"
proof -
  have "fst (fold (select_step rh net m reg (map_option bm_no_binding memo) ph)
      (transitions_values net) (best_of None, [])) = best_of (fold pick (candidates_of rh net m reg ph) None)"
    unfolding candidates_of_def by (rule fold_select) (use assms in auto)
  moreover have "best_id (best_of x) = map_option ca_id x" for x by (cases x) (simp_all add: no_best_def)
  ultimately show ?thesis
    by (simp add: select_next_transition_def topology_get_def case_prod_unfold)
qed

lemma select_picks_None:
  "fst (select_next_transition rh (Some net) m reg None ph) =
    Inr (map_option ca_id (fold pick (candidates_of rh net m reg ph) None))"
  by (rule select_picks) simp

lemma select_step_empties:
  "snd (select_step rh net m reg known ph tr (bst, es)) = es \<or>
   snd (select_step rh net m reg known ph tr (bst, es)) = es @ [tr_id tr] \<and>
     find_valid_binding rh tr (input_arcs net (tr_id tr)) m reg = None"
  by (auto simp: select_step_def Let_def split: option.splits)

lemma fold_select_empties:
  assumes "t \<in> set (snd (fold (select_step rh net m reg known ph) trs st))"
  shows "t \<in> set (snd st) \<or> (\<exists>tr \<in> set trs. tr_id tr = t \<and>
    find_valid_binding rh tr (input_arcs net (tr_id tr)) m reg = None)"
  using assms
proof (induction trs arbitrary: st)
  case (Cons tr trs)
  have step: "snd (select_step rh net m reg known ph tr st) = snd st \<or>
      snd (select_step rh net m reg known ph tr st) = snd st @ [tr_id tr] \<and>
      find_valid_binding rh tr (input_arcs net (tr_id tr)) m reg = None"
    using select_step_empties [of rh net m reg known ph tr "fst st" "snd st"] by simp
  have "t \<in> set (snd (select_step rh net m reg known ph tr st)) \<or> (\<exists>tr \<in> set trs. tr_id tr = t \<and>
      find_valid_binding rh tr (input_arcs net (tr_id tr)) m reg = None)"
    using Cons.IH Cons.prems by simp
  then show ?case using step by auto
qed simp

lemma fold_mark_empty:
  "fold mark_empty ts bm = bm\<lparr>bm_no_binding := bm_no_binding bm \<union> set ts\<rparr>"
  by (induction ts arbitrary: bm) (auto simp: mark_empty_def)

lemma memo_ok_select:
  assumes ok: "memo_ok rh reg net m bm" and built: "bm_built bm"
    and dist: "distinct (map tr_id (transitions_values net))"
    and res: "select_next_transition rh (Some net) m reg (Some bm) ph = (r, Some bm')"
  shows "memo_ok rh reg net m bm'"
proof -
  let ?es = "snd (fold (select_step rh net m reg (Some (bm_no_binding bm)) ph)
      (transitions_values net) (no_best, []))"
  have bm': "bm' = bm\<lparr>bm_no_binding := bm_no_binding bm \<union> set ?es\<rparr>"
    using res by (simp add: select_next_transition_def topology_get_def case_prod_unfold fold_mark_empty Let_def)
  have "find_valid_binding rh tr (input_arcs net (tr_id tr)) m reg = None"
    if tr: "tr \<in> set (transitions_values net)" and "tr_id tr \<in> set ?es" for tr
  proof -
    obtain tr' where "tr' \<in> set (transitions_values net)" "tr_id tr' = tr_id tr"
      "find_valid_binding rh tr' (input_arcs net (tr_id tr')) m reg = None"
      using fold_select_empties [OF \<open>tr_id tr \<in> set ?es\<close>] by auto
    moreover have "tr' = tr" using calculation(1,2) tr dist
      by (metis distinct_map inj_onD)
    ultimately show ?thesis by simp
  qed
  then show ?thesis using ok built by (auto simp: bm' memo_ok_def index_ok_def)
qed

lemma select_with_memo:
  assumes "memo_ok rh reg net m bm" and "bm_built bm"
    and "distinct (map tr_id (transitions_values net))"
  shows "fst (select_next_transition rh (Some net) m reg (Some bm) ph) =
      fst (select_next_transition rh (Some net) m reg None ph) \<and>
    (\<exists>bm'. snd (select_next_transition rh (Some net) m reg (Some bm) ph) = Some bm' \<and>
      memo_ok rh reg net m bm')"
proof -
  obtain r bm' where res: "select_next_transition rh (Some net) m reg (Some bm) ph = (r, Some bm')"
    by (cases "select_next_transition rh (Some net) m reg (Some bm) ph")
      (auto simp: select_next_transition_def topology_get_def case_prod_unfold Let_def)
  show ?thesis
    using select_picks [of "Some bm" net rh m reg ph] select_picks [of None net rh m reg ph]
      assms(1) memo_ok_select [OF assms res] res
    by (auto simp: memo_ok_def)
qed

section \<open>Properties\<close>

text \<open>
  The selection is optimal: without NaN priorities the transition chosen is a candidate of
  the phase (finalizers only in the finalizing phase, others only in the normal one) that is
  bound at the marking and ranks first: earliest enabling time, then more input arcs, then
  higher priority, then smaller identifier; nothing is chosen exactly when there is no
  candidate.
\<close>

theorem select_next_transition_optimal:
  assumes "\<And>c. c \<in> set (candidates_of rh net m reg ph) \<Longrightarrow> no_nan c"
  shows "case fst (select_next_transition rh (Some net) m reg None ph) of
      Inr (Some i) \<Rightarrow> (\<exists>c \<in> set (candidates_of rh net m reg ph). ca_id c = i \<and>
        (\<forall>d \<in> set (candidates_of rh net m reg ph). rank c \<le> rank d))
    | Inr None \<Rightarrow> candidates_of rh net m reg ph = []
    | Inl e \<Rightarrow> False"
  using fold_pick_min [of "candidates_of rh net m reg ph" None] assms
  by (auto simp: select_picks_None split: option.splits)

definition demo_net :: petri_net where
  "demo_net = \<lparr>net_places = [(''p'', place_internal ''p''), (''q'', place_internal ''q''),
       (''r'', place_internal ''r'')],
     net_transitions = [(''t'', demo_transition)],
     net_arcs = demo_arcs @ [arc_output 2 ''t'' ''out'' ''r''], net_groups = []\<rparr>"

lemma demo_candidates:
  "candidates_of demo_rhai demo_net demo_marking None Normal =
    [\<lparr>ca_id = ''t'', ca_time = 3, ca_count = 2, ca_priority = None\<rparr>]"
  by code_simp

theorem select_next_transition_optimal_witness:
  "case fst (select_next_transition demo_rhai (Some demo_net) demo_marking None None Normal) of
      Inr (Some i) \<Rightarrow> i = ''t'' | _ \<Rightarrow> False"
  using select_next_transition_optimal [of demo_rhai demo_net demo_marking None Normal]
  by (auto simp: demo_candidates no_nan_def split: sum.splits option.splits)

text \<open>
  The choice is deterministic: without NaN priorities it does not depend on the order in
  which the hash map of transitions is walked.
\<close>

theorem select_order_independent:
  assumes "mset (net_transitions net) = mset (net_transitions net')" and "net_arcs net = net_arcs net'"
    and "distinct (map tr_id (transitions_values net))"
    and "\<And>c. c \<in> set (candidates_of rh net m reg ph) \<Longrightarrow> no_nan c"
  shows "fst (select_next_transition rh (Some net) m reg None ph) =
    fst (select_next_transition rh (Some net') m reg None ph)"
proof -
  have vals: "set (transitions_values net') = set (transitions_values net)"
    using mset_eq_setD [OF assms(1)] by (simp add: transitions_values_def)
  have ia: "input_arcs net' = input_arcs net" by (rule ext) (simp add: input_arcs_def assms(2))
  have cand: "candidate_of rh net' m reg ph = candidate_of rh net m reg ph"
    by (rule ext) (simp only: candidate_of_def ia)
  have same: "set (candidates_of rh net' m reg ph) = set (candidates_of rh net m reg ph)"
    by (simp add: candidates_of_def List.map_filter_def cand vals)
  have uniq: "c = d" if c: "c \<in> set (candidates_of rh net m reg ph)"
    and d: "d \<in> set (candidates_of rh net m reg ph)" and eq: "rank c = rank d" for c d
  proof -
    obtain tc where tc: "tc \<in> set (transitions_values net)" "candidate_of rh net m reg ph tc = Some c"
      using map_filter_mem [OF c [unfolded candidates_of_def]] by blast
    obtain td where td: "td \<in> set (transitions_values net)" "candidate_of rh net m reg ph td = Some d"
      using map_filter_mem [OF d [unfolded candidates_of_def]] by blast
    have "ca_id c = tr_id tc" "ca_id d = tr_id td"
      using tc(2) td(2) by (auto simp: candidate_of_def split: if_splits option.splits)
    then have "tr_id tc = tr_id td" using eq by (simp add: rank_def)
    then have "tc = td" using assms(3) tc(1) td(1) by (metis distinct_map inj_onD)
    then show ?thesis using tc(2) td(2) by simp
  qed
  have m1: "case fold pick (candidates_of rh net m reg ph) None of
      None \<Rightarrow> candidates_of rh net m reg ph = [] \<and> (None :: candidate option) = None
    | Some c \<Rightarrow> c \<in> set (candidates_of rh net m reg ph) \<union> set_option None \<and>
        (\<forall>d \<in> set (candidates_of rh net m reg ph) \<union> set_option None. rank c \<le> rank d)"
    by (rule fold_pick_min) (use assms(4) in auto)
  have m2: "case fold pick (candidates_of rh net' m reg ph) None of
      None \<Rightarrow> candidates_of rh net' m reg ph = [] \<and> (None :: candidate option) = None
    | Some c \<Rightarrow> c \<in> set (candidates_of rh net' m reg ph) \<union> set_option None \<and>
        (\<forall>d \<in> set (candidates_of rh net' m reg ph) \<union> set_option None. rank c \<le> rank d)"
    by (rule fold_pick_min) (use assms(4) same in auto)
  have "fold pick (candidates_of rh net m reg ph) None = fold pick (candidates_of rh net' m reg ph) None"
    using m1 m2 same uniq by (auto split: option.splits) (metis antisym)
  then show ?thesis by (simp add: select_picks_None)
qed

theorem select_order_independent_witness:
  "fst (select_next_transition demo_rhai (Some demo_net) demo_marking None None Normal) =
    fst (select_next_transition demo_rhai (Some (demo_net\<lparr>net_places := []\<rparr>)) demo_marking None None Normal)"
proof (rule select_order_independent)
  fix c
  assume "c \<in> set (candidates_of demo_rhai demo_net demo_marking None Normal)"
  then show "no_nan c" by (simp add: demo_candidates no_nan_def)
qed (simp_all add: demo_net_def transitions_values_def)

text \<open>
  With NaN priorities the scheduling order is not an order: three transitions with equal
  time and input count and priorities one, NaN and two beat each other in a circle, so the
  choice depends on the walk.
\<close>

theorem nan_priority_cycle:
  "let one = 0x3FF0000000000000; nan = 0x7FF8000000000000; two = 0x4000000000000000;
       cand = (\<lambda>i p. \<lparr>ca_id = i, ca_time = 0, ca_count = 1, ca_priority = Some p\<rparr>);
       a = cand ''a'' one; b = cand ''b'' nan; c = cand ''c'' two;
       beats = (\<lambda>x y. is_better (ca_id x) (Some (ca_time x)) (ca_count x) (ca_priority x) (best_of (Some y)))
   in beats a b \<and> beats b c \<and> beats c a"
  by (simp add: is_better_def f64_lt_def f64_is_nan_def f64_ord_def f64_mag_def Let_def)

text \<open>
  C31: the memo does not change the choice: with a memo that is right for the marking, the
  selection returns what it returns without one, and the memo it leaves is right again.
\<close>

theorem select_memo_equivalent:
  assumes "memo_ok rh reg net m bm" and "bm_built bm"
    and "distinct (map tr_id (transitions_values net))"
  shows "fst (select_next_transition rh (Some net) m reg (Some bm) ph) =
      fst (select_next_transition rh (Some net) m reg None ph) \<and>
    (\<exists>bm'. snd (select_next_transition rh (Some net) m reg (Some bm) ph) = Some bm' \<and>
      memo_ok rh reg net m bm')"
  by (rule select_with_memo [OF assms])

theorem select_memo_equivalent_witness:
  "fst (select_next_transition demo_rhai (Some demo_net) demo_marking None
      (Some (rebuild_index demo_net memo_new)) Normal) =
   fst (select_next_transition demo_rhai (Some demo_net) demo_marking None None Normal)"
proof -
  have "bm_built (rebuild_index demo_net memo_new)" by (simp add: rebuild_index_def)
  moreover have "distinct (map tr_id (transitions_values demo_net))"
    by (simp add: demo_net_def transitions_values_def)
  ultimately show ?thesis using select_memo_equivalent [OF memo_ok_rebuild] by blast
qed

end
