(* ===== verification/Evaluation.thy ===== *)
theory Evaluation
  imports Firing_Outcome Selection
begin

text \<open>
  The evaluation loop, \<open>evaluate_until_quiescent\<close>, \<open>drain_finalizers\<close> and
  \<open>check_terminal_state\<close> of \<^verbatim>\<open>src/engine/core-engine/crates/application/src/evaluation.rs\<close>.
  One pass fires selected transitions until nothing is selectable, the step limit is reached,
  or a firing fails. The state is the world of a firing together with the marking cache and
  the binding memo. The loop is recursion on the steps that are left; the drain of finalizers
  is bounded by the constant of the source. The lemmas carry an invariant through the loop:
  the store stands for a history that is only extended, the cache is a projection of it, and
  the memo is right for the cached marking.
\<close>

section \<open>State and results\<close>

record 'st eval_state =
  es_world :: "'st world"
  es_cache :: marking_cache
  es_memo :: binding_memo

record terminal_reached_info =
  tri_place_id :: string
  tri_exit_code :: "json option"

record failure_info =
  fi_transition_id :: transition_id
  fi_reason :: string
  fi_retryable :: bool

datatype evaluate_final_state = Quiescent | LimitReached

record evaluate_result =
  ev_steps_executed :: nat
  ev_transitions_fired :: "(transition_id \<times> nat) list"
  ev_final_state :: evaluate_final_state
  ev_events :: "persisted_event list"
  ev_terminal_reached :: "terminal_reached_info option"
  ev_failure_reached :: "failure_info option"

fun token_exit_code :: "token_color \<Rightarrow> json option" where
  "token_exit_code (Data d) = Some (case jget ''exit_code'' d of Some x \<Rightarrow> x | None \<Rightarrow> d)"
| "token_exit_code _ = None"

definition check_terminal_state :: "topology_store \<Rightarrow> marking \<Rightarrow> terminal_reached_info option" where
  "check_terminal_state topo m = (case topology_get topo of
      None \<Rightarrow> None
    | Some net \<Rightarrow> first_some (\<lambda>(_, pl).
        if pl_kind pl \<noteq> Terminal then None
        else (case tokens_at m (pl_id pl) of
            [] \<Rightarrow> None
          | t # _ \<Rightarrow> Some \<lparr>tri_place_id = pl_id pl, tri_exit_code = token_exit_code (tok_color t)\<rparr>))
        (net_places net))"

section \<open>One turn\<close>

text \<open>Advance the cache and reconcile the memo from the same delta.\<close>

definition advance_state :: "'st env \<Rightarrow> 'st eval_state \<Rightarrow> marking \<times> 'st eval_state" where
  "advance_state env st =
    (let (m, delta, c) = advance_marking (en_repo env) (w_store (es_world st)) (es_cache st)
     in (m, st\<lparr>es_cache := c, es_memo := reconcile_binding_memo (en_topology env) delta (es_memo st)\<rparr>))"

definition MAX_FINALIZER_STEPS :: nat where
  "MAX_FINALIZER_STEPS = 64"

text \<open>The loop of \<open>drain_finalizers\<close>: selection bypasses the memo and an error ends the drain.\<close>

fun drain_loop :: "'st env \<Rightarrow> nat \<Rightarrow> persisted_event list \<Rightarrow> 'st eval_state \<Rightarrow>
    persisted_event list \<times> 'st eval_state" where
  "drain_loop env 0 fired st = (fired, st)"
| "drain_loop env (Suc k) fired st =
    (case advance_state env st of (m, st1) \<Rightarrow>
     (case fst (select_next_transition (en_rhai env) (en_topology env) m (en_registry env) None Finalizing) of
        Inl e \<Rightarrow> (fired, st1)
      | Inr None \<Rightarrow> (fired, st1)
      | Inr (Some tid) \<Rightarrow>
          (case fire_transition env m tid (es_world st1) of
             (Inr p, w) \<Rightarrow> drain_loop env k (fired @ [p]) (st1\<lparr>es_world := w\<rparr>)
           | (Inl e, w) \<Rightarrow>
               (fired @ er_events_from (en_repo env) (w_store w) (er_len (en_repo env) (w_store (es_world st1))),
                st1\<lparr>es_world := w\<rparr>))))"

definition drain_finalizers :: "'st env \<Rightarrow> 'st eval_state \<Rightarrow> persisted_event list \<times> 'st eval_state" where
  "drain_finalizers env st = drain_loop env MAX_FINALIZER_STEPS [] st"

section \<open>The loop\<close>

fun error_retryable :: "service_error \<Rightarrow> bool" where
  "error_retryable (EffectFailedError _ _ _ r) = r"
| "error_retryable _ = False"

text \<open>What a failed firing makes of the pass: the arms of the match on the result.\<close>

definition pass_failed :: "'st env \<Rightarrow> nat \<Rightarrow> (transition_id \<times> nat) list \<Rightarrow> persisted_event list \<Rightarrow>
    transition_id \<Rightarrow> nat \<Rightarrow> service_error \<Rightarrow> 'st eval_state \<Rightarrow>
    (service_error, evaluate_result) result \<times> 'st eval_state" where
  "pass_failed env steps fired evs tid idx e st =
    (if is_permanent e then
       (case drain_finalizers env st of (fin, st') \<Rightarrow>
         (Inr \<lparr>ev_steps_executed = steps, ev_transitions_fired = fired, ev_final_state = Quiescent,
            ev_events = evs @ er_events_from (en_repo env) (w_store (es_world st)) idx @ fin,
            ev_terminal_reached = None,
            ev_failure_reached = Some \<lparr>fi_transition_id = tid,
              fi_reason = ''Transition '' @ tid @ '': '' @ service_error_text (en_uuid_text env) e,
              fi_retryable = error_retryable e\<rparr>\<rparr>, st'))
     else (case e of
         PreDispatchDeferredError _ _ _ \<Rightarrow>
           (Inr \<lparr>ev_steps_executed = steps, ev_transitions_fired = fired, ev_final_state = Quiescent,
              ev_events = evs, ev_terminal_reached = None, ev_failure_reached = None\<rparr>, st)
       | PreDispatchRejectedError t hook reason \<Rightarrow>
           (case drain_finalizers env st of (fin, st') \<Rightarrow>
             (Inr \<lparr>ev_steps_executed = steps, ev_transitions_fired = fired, ev_final_state = Quiescent,
                ev_events = evs @ fin, ev_terminal_reached = None,
                ev_failure_reached = Some \<lparr>fi_transition_id = t,
                  fi_reason = ''Pre-dispatch hook '' @ quoted hook @ '' rejected transition '' @ t @ '': '' @ reason,
                  fi_retryable = False\<rparr>\<rparr>, st'))
       | _ \<Rightarrow> (Inl e, st)))"

text \<open>The first number is \<open>max_steps - steps_executed\<close>.\<close>

fun evaluate_loop :: "'st env \<Rightarrow> nat \<Rightarrow> nat \<Rightarrow> (transition_id \<times> nat) list \<Rightarrow> persisted_event list \<Rightarrow>
    'st eval_state \<Rightarrow> (service_error, evaluate_result) result \<times> 'st eval_state" where
  "evaluate_loop env 0 steps fired evs st =
    (Inr \<lparr>ev_steps_executed = steps, ev_transitions_fired = fired, ev_final_state = LimitReached,
       ev_events = evs, ev_terminal_reached = None, ev_failure_reached = None\<rparr>, st)"
| "evaluate_loop env (Suc k) steps fired evs st =
    (case advance_state env st of (m, st1) \<Rightarrow>
     (case select_next_transition (en_rhai env) (en_topology env) m (en_registry env)
             (Some (es_memo st1)) Normal of
        (Inl e, memo) \<Rightarrow> (Inl e, st1)
      | (Inr sel, memo) \<Rightarrow>
          let st2 = (case memo of Some bm \<Rightarrow> st1\<lparr>es_memo := bm\<rparr> | None \<Rightarrow> st1) in
          (case sel of
             None \<Rightarrow>
               (Inr \<lparr>ev_steps_executed = steps, ev_transitions_fired = fired, ev_final_state = Quiescent,
                  ev_events = evs, ev_terminal_reached = check_terminal_state (en_topology env) m,
                  ev_failure_reached = None\<rparr>, st2)
           | Some tid \<Rightarrow>
               (case fire_transition env m tid (es_world st2) of
                  (Inr p, w) \<Rightarrow> evaluate_loop env k (Suc steps) (fired @ [(tid, pe_sequence p)]) (evs @ [p])
                    (st2\<lparr>es_world := w\<rparr>)
                | (Inl e, w) \<Rightarrow> pass_failed env steps fired evs tid
                    (er_len (en_repo env) (w_store (es_world st2))) e (st2\<lparr>es_world := w\<rparr>)))))"

definition evaluate_until_quiescent :: "'st env \<Rightarrow> nat \<Rightarrow> 'st eval_state \<Rightarrow>
    (service_error, evaluate_result) result \<times> 'st eval_state" where
  "evaluate_until_quiescent env max_steps st = evaluate_loop env max_steps 0 [] [] st"

section \<open>What selection returns\<close>

lemma fold_pick_mem: "fold pick cs acc = Some c \<Longrightarrow> c \<in> set cs \<or> acc = Some c"
proof (induction cs arbitrary: acc)
  case (Cons d cs)
  then show ?case using Cons.IH [of "pick d acc"] by (auto simp: pick_def split: if_splits)
qed simp

lemma fold_pick_None: "fold pick cs acc = None \<Longrightarrow> cs = [] \<and> acc = None"
proof (induction cs arbitrary: acc)
  case (Cons d cs)
  have "pick d acc \<noteq> None" by (cases acc) (simp_all add: pick_def is_better_def no_best_def)
  then show ?case using Cons.IH [of "pick d acc"] Cons.prems by simp
qed simp

lemma candidate_transition:
  assumes "c \<in> set (candidates_of rh net m reg ph)"
  shows "\<exists>tr \<in> set (transitions_values net). tr_id tr = ca_id c \<and> \<not> phase_skips ph tr \<and>
    find_valid_binding rh tr (input_arcs net (tr_id tr)) m reg \<noteq> None"
proof -
  obtain tr where tr: "tr \<in> set (transitions_values net)" "candidate_of rh net m reg ph tr = Some c"
    using map_filter_mem [OF assms [unfolded candidates_of_def]] by blast
  then show ?thesis by (intro bexI [OF _ tr(1)]) (auto simp: candidate_of_def split: if_splits option.splits)
qed

definition bound_in_phase :: "rhai \<Rightarrow> petri_net \<Rightarrow> marking \<Rightarrow> schema_registry option \<Rightarrow> select_phase \<Rightarrow>
    transition_id \<Rightarrow> bool" where
  "bound_in_phase rh net m reg ph tid \<longleftrightarrow> list_ex (\<lambda>tr. tr_id tr = tid \<and> \<not> phase_skips ph tr \<and>
     find_valid_binding rh tr (input_arcs net (tr_id tr)) m reg \<noteq> None) (transitions_values net)"

lemma select_result:
  assumes "fst (select_next_transition rh (Some net) m reg None ph) = r"
  shows "case r of Inl _ \<Rightarrow> False
    | Inr None \<Rightarrow> candidates_of rh net m reg ph = []
    | Inr (Some tid) \<Rightarrow> bound_in_phase rh net m reg ph tid"
proof (cases "fold pick (candidates_of rh net m reg ph) None")
  case None
  then show ?thesis using assms fold_pick_None by (auto simp: select_picks_None)
next
  case (Some c)
  then have "c \<in> set (candidates_of rh net m reg ph)" using fold_pick_mem by fastforce
  then show ?thesis using candidate_transition [of c] assms Some
    by (auto simp: select_picks_None bound_in_phase_def list_ex_iff)
qed

lemma select_memo_built:
  assumes "select_next_transition rh (Some net) m reg (Some bm) ph = (r, Some bm')"
  shows "bm_built bm' = bm_built bm"
  using assms by (auto simp: select_next_transition_def topology_get_def case_prod_unfold Let_def fold_mark_empty)

section \<open>The invariant of a pass\<close>

definition eval_inv :: "('st \<Rightarrow> persisted_event list \<Rightarrow> bool) \<Rightarrow> 'st env \<Rightarrow> petri_net \<Rightarrow> persisted_event list \<Rightarrow>
    'st eval_state \<Rightarrow> bool" where
  "eval_inv R env net h st \<longleftrightarrow> R (w_store (es_world st)) h \<and> cache_ok h (es_cache st) \<and>
    (case es_cache st of None \<Rightarrow> True | Some (n, m) \<Rightarrow>
       bm_built (es_memo st) \<and> memo_ok (en_rhai env) (en_registry env) net m (es_memo st))"

lemma topology_step_refl: "topology_step net net es"
  by (auto simp: topology_step_def)

lemma eval_inv_memo:
  assumes "eval_inv R env net h st" and "es_cache st = Some (length h, project_marking h)"
    and "memo_ok (en_rhai env) (en_registry env) net (project_marking h) bm" and "bm_built bm"
  shows "eval_inv R env net h (st\<lparr>es_memo := bm\<rparr>)"
  using assms by (simp add: eval_inv_def)

lemma eval_inv_fired:
  assumes "eval_inv R env net h st" and "R (w_store w) (h @ ps)"
  shows "eval_inv R env net (h @ ps) (st\<lparr>es_world := w\<rparr>)"
  using assms cache_ok_extend [of h "es_cache st" ps] by (cases "es_cache st") (auto simp: eval_inv_def)

context event_repository
begin

lemma advance_state_inv:
  assumes inv: "eval_inv R env net h st" and E: "en_repo env = E" and net: "en_topology env = Some net"
    and adv: "advance_state env st = (m, st1)"
  shows "m = project_marking h \<and> eval_inv R env net h st1 \<and> es_world st1 = es_world st \<and>
    es_cache st1 = Some (length h, project_marking h)"
proof -
  obtain m' delta c where a: "advance_marking E (w_store (es_world st)) (es_cache st) = (m', delta, c)"
    by (cases "advance_marking E (w_store (es_world st)) (es_cache st)") auto
  have st1: "m' = m" "st1 = st\<lparr>es_cache := c, es_memo := reconcile_binding_memo (Some net) delta (es_memo st)\<rparr>"
    using adv a by (auto simp: advance_state_def E net)
  have R: "R (w_store (es_world st)) h" and ok: "cache_ok h (es_cache st)"
    using inv by (auto simp: eval_inv_def)
  have ex: "m' = project_marking h" "c = Some (length h, m')" "delta_ok h (es_cache st) delta (length h)"
    using advance_marking_exact [OF R ok a] by auto
  have memo: "memo_ok (en_rhai env) (en_registry env) net (project_marking h)
      (reconcile_binding_memo (Some net) delta (es_memo st))"
  proof (cases delta)
    case Unchanged
    then show ?thesis using ex inv ok
      by (auto simp: delta_ok_def eval_inv_def cache_ok_def reconcile_binding_memo_def)
  next
    case (Applied es)
    then obtain i m0 where c0: "es_cache st = Some (i, m0)" "i \<le> length h" "es = drop i h"
      using ex(3) by (auto simp: delta_ok_def)
    then have m0: "project_marking h = project_onto m0 es"
      using ok by (simp add: cache_ok_def flip: project_marking_append)
    show ?thesis
      by (rule memo_reconcile_keeps [of _ _ net m0])
        (use inv c0 m0 topology_step_refl Applied in \<open>auto simp: eval_inv_def\<close>)
  next
    case Rebuilt
    then show ?thesis using memo_ok_rebuild by (simp add: reconcile_binding_memo_def topology_get_def)
  qed
  have built: "bm_built (reconcile_binding_memo (Some net) delta (es_memo st))"
    by (rule reconcile_built) (use ex(3) inv in \<open>cases delta; auto simp: delta_ok_def eval_inv_def\<close>)
  show ?thesis using ex st1 R memo built by (simp add: eval_inv_def cache_ok_def)
qed

end

section \<open>Passes\<close>

text \<open>A firing that failed left the world of the state behind.\<close>

definition failed_last :: "'st env \<Rightarrow> (service_error \<Rightarrow> bool) \<Rightarrow> 'st eval_state \<Rightarrow> bool" where
  "failed_last env P st \<longleftrightarrow> (\<exists>m tid w e. fire_transition env m tid w = (Inl e, es_world st) \<and> P e)"

definition deferred :: "service_error \<Rightarrow> bool" where
  "deferred e = (case e of PreDispatchDeferredError _ _ _ \<Rightarrow> True | _ \<Rightarrow> False)"

lemma deferred_iff: "deferred e \<longleftrightarrow> (\<exists>t hook ms. e = PreDispatchDeferredError t hook ms)"
  by (cases e) (simp_all add: deferred_def)

text \<open>Only transitions of a kind fire in a stretch of the log.\<close>

definition fires_kind :: "petri_net \<Rightarrow> (transition \<Rightarrow> bool) \<Rightarrow> persisted_event list \<Rightarrow> bool" where
  "fires_kind net K ps \<longleftrightarrow> (\<forall>p \<in> set ps. \<forall>tid. fired_id (pe_event p) = Some tid \<longrightarrow>
     (\<exists>tr \<in> set (transitions_values net). tr_id tr = tid \<and> K tr))"

lemma fires_kind_append [simp]: "fires_kind net K (ps @ qs) \<longleftrightarrow> fires_kind net K ps \<and> fires_kind net K qs"
  by (auto simp: fires_kind_def)

lemma fires_kind_Nil [simp]: "fires_kind net K []"
  by (simp add: fires_kind_def)

lemma fires_kind_bound:
  assumes "fires_once tid r ps" and "bound_in_phase rh net m reg ph tid"
    and "\<And>tr. \<not> phase_skips ph tr \<Longrightarrow> K tr"
  shows "fires_kind net K ps"
proof -
  obtain tr where tr: "tr \<in> set (transitions_values net)" "tr_id tr = tid" "K tr"
    using assms(2,3) by (auto simp: bound_in_phase_def list_ex_iff)
  have "fired_id (pe_event p) \<in> {None, Some tid}" if "p \<in> set ps" for p
    using assms(1) that by (auto simp: fires_once_def fires_only_def list_all_iff)
  then show ?thesis unfolding fires_kind_def using tr by fastforce
qed

text \<open>A drain with room for \<open>k\<close> firings that appended \<open>ps\<close>.\<close>

definition drained :: "'st env \<Rightarrow> petri_net \<Rightarrow> persisted_event list \<Rightarrow> nat \<Rightarrow> persisted_event list \<Rightarrow>
    'st eval_state \<Rightarrow> bool" where
  "drained env net h k ps st \<longleftrightarrow> fires_kind net tr_finalizer ps \<and> fire_count ps \<le> k \<and>
    (candidates_of (en_rhai env) net (project_marking (h @ ps)) (en_registry env) Finalizing = [] \<or>
     fire_count ps = k \<or> failed_last env (\<lambda>_. True) st)"

context journal
begin

lemma fire_step:
  assumes "eval_inv R env net h st" and "en_repo env = E" and "en_topology env = Some net" and "net_wf net"
    and "fire_transition env m tid (es_world st) = (r, w)"
  obtains ps where "R (w_store w) (h @ ps)" "eval_inv R env net (h @ ps) (st\<lparr>es_world := w\<rparr>)" "fires_once tid r ps"
proof -
  have "R (w_store (es_world st)) h" using assms(1) by (simp add: eval_inv_def)
  moreover have "\<And>n. en_topology env = Some n \<Longrightarrow> net_wf n" using assms(3,4) by simp
  ultimately obtain ps where "R (w_store w) (h @ ps)"
    "fire_outcome env m tid (project_marking h) (es_world st) r w ps"
    using wpD [OF wp_fire_transition [OF assms(2)] assms(5)] by blast
  then show ?thesis using that [of ps] eval_inv_fired [OF assms(1)]
    by (cases r) (auto simp: fire_outcome_def)
qed

lemma drain_loop_inv:
  assumes "eval_inv R env net h st" and "en_repo env = E" and "en_topology env = Some net" and "net_wf net"
    and "drain_loop env k fired st = (fired', st')"
  shows "\<exists>ps. eval_inv R env net (h @ ps) st' \<and> drained env net h k ps st'"
  using assms(1,5)
proof (induction k arbitrary: h fired st)
  case 0
  then show ?case by (intro exI [of _ "[]"]) (auto simp: drained_def)
next
  case (Suc k)
  obtain m st1 where adv: "advance_state env st = (m, st1)" by force
  have a: "m = project_marking h" "eval_inv R env net h st1"
    using advance_state_inv [OF Suc.prems(1) assms(2,3) adv] by auto
  define r where "r = fst (select_next_transition (en_rhai env) (Some net) m (en_registry env) None Finalizing)"
  note sel = select_result [OF r_def [symmetric]]
  show ?case
  proof (cases r)
    case (Inl e)
    then show ?thesis using sel by simp
  next
    case (Inr s)
    show ?thesis
    proof (cases s)
      case None
      then have "st' = st1" using Suc.prems(2) Inr by (simp add: adv assms(3) flip: r_def)
      then show ?thesis using a sel Inr None by (intro exI [of _ "[]"]) (simp add: drained_def)
    next
      case (Some tid)
      obtain fr w where fire: "fire_transition env m tid (es_world st1) = (fr, w)" by force
      obtain ps where ps: "eval_inv R env net (h @ ps) (st1\<lparr>es_world := w\<rparr>)" "fires_once tid fr ps"
        using fire_step [OF a(2) assms(2-4) fire] by blast
      have k1: "fires_kind net tr_finalizer ps"
        by (rule fires_kind_bound [OF ps(2)]) (use sel Inr Some in \<open>auto simp: phase_skips_def\<close>)
      show ?thesis
      proof (cases fr)
        case fl: (Inl e)
        have "st' = st1\<lparr>es_world := w\<rparr>"
          using Suc.prems(2) Inr Some fire fl by (auto simp add: adv assms(3) simp flip: r_def)
        then show ?thesis using ps k1 fire fl
          by (intro exI [of _ ps]) (auto simp: drained_def failed_last_def fires_once_def)
      next
        case fr: (Inr p)
        have "drain_loop env k (fired @ [p]) (st1\<lparr>es_world := w\<rparr>) = (fired', st')"
          using Suc.prems(2) Inr Some fire fr by (auto simp add: adv assms(3) simp flip: r_def)
        from Suc.IH [OF ps(1) this] obtain qs where "eval_inv R env net ((h @ ps) @ qs) st'"
          "drained env net (h @ ps) k qs st'"
          by auto
        then show ?thesis using k1 ps(2) fr by (intro exI [of _ "ps @ qs"]) (auto simp: drained_def fires_once_def)
      qed
    qed
  qed
qed

end

text \<open>Before a failure only ordinary transitions fire, after it only finalizers, until they are drained.\<close>

definition torn_down :: "'st env \<Rightarrow> petri_net \<Rightarrow> persisted_event list \<Rightarrow> persisted_event list \<Rightarrow>
    'st eval_state \<Rightarrow> bool" where
  "torn_down env net h ps st \<longleftrightarrow>
    (\<exists>before after. ps = before @ after \<and> fires_kind net (\<lambda>tr. \<not> tr_finalizer tr) before \<and>
       drained env net (h @ before) MAX_FINALIZER_STEPS after st)"

lemma torn_down_shift:
  assumes "torn_down env net (h @ ps) qs st" and "fires_kind net (\<lambda>tr. \<not> tr_finalizer tr) ps"
  shows "torn_down env net h (ps @ qs) st"
proof -
  obtain before after where "qs = before @ after" "fires_kind net (\<lambda>tr. \<not> tr_finalizer tr) before"
    "drained env net ((h @ ps) @ before) MAX_FINALIZER_STEPS after st"
    using assms(1) by (auto simp: torn_down_def)
  then show ?thesis unfolding torn_down_def using assms(2)
    by (intro exI [of _ "ps @ before"] exI [of _ after]) simp
qed

definition idle :: "'st env \<Rightarrow> petri_net \<Rightarrow> persisted_event list \<Rightarrow> bool" where
  "idle env net h \<longleftrightarrow> candidates_of (en_rhai env) net (project_marking h) (en_registry env) Normal = []"

text \<open>The result of a pass that began with \<open>steps\<close> steps done and \<open>k\<close> left, over the history it ends with.\<close>

definition pass_ok :: "'st env \<Rightarrow> petri_net \<Rightarrow> persisted_event list \<Rightarrow> persisted_event list \<Rightarrow> nat \<Rightarrow> nat \<Rightarrow>
    'st eval_state \<Rightarrow> evaluate_result \<Rightarrow> bool" where
  "pass_ok env net h ps steps k st res \<longleftrightarrow>
    ev_steps_executed res = length (ev_transitions_fired res) \<and>
    steps \<le> ev_steps_executed res \<and> ev_steps_executed res \<le> steps + k \<and>
    map snd (ev_transitions_fired res) = map pe_sequence (take (ev_steps_executed res) (ev_events res)) \<and>
    set (drop steps (take (ev_steps_executed res) (ev_events res))) \<subseteq> set ps \<and>
    (case ev_failure_reached res of
       Some f \<Rightarrow> ev_final_state res = Quiescent \<and> ev_terminal_reached res = None \<and>
         torn_down env net h ps st
     | None \<Rightarrow> fires_kind net (\<lambda>tr. \<not> tr_finalizer tr) ps \<and>
         (case ev_final_state res of
            LimitReached \<Rightarrow> ev_steps_executed res = steps + k \<and> ev_terminal_reached res = None
          | Quiescent \<Rightarrow>
              idle env net (h @ ps) \<and>
                ev_terminal_reached res = check_terminal_state (Some net) (project_marking (h @ ps)) \<or>
              failed_last env deferred st \<and> ev_terminal_reached res = None))"

definition pass_outcome :: "'st env \<Rightarrow> petri_net \<Rightarrow> persisted_event list \<Rightarrow> persisted_event list \<Rightarrow> nat \<Rightarrow> nat \<Rightarrow>
    'st eval_state \<Rightarrow> (service_error, evaluate_result) result \<Rightarrow> bool" where
  "pass_outcome env net h ps steps k st r = (case r of
      Inl e \<Rightarrow> fires_kind net (\<lambda>tr. \<not> tr_finalizer tr) ps
    | Inr res \<Rightarrow> pass_ok env net h ps steps k st res)"

lemma pass_outcome_shift:
  assumes "pass_outcome env net (h @ ps) qs (Suc steps) k st r" and "fires_kind net (\<lambda>tr. \<not> tr_finalizer tr) ps"
    and "\<And>res. r = Inr res \<Longrightarrow> ev_events res ! steps \<in> set ps \<and> steps < length (ev_events res)"
  shows "pass_outcome env net h (ps @ qs) steps (Suc k) st r"
proof (cases r)
  case (Inr res)
  have ok: "pass_ok env net (h @ ps) qs (Suc steps) k st res" using assms(1) Inr by (simp add: pass_outcome_def)
  have "drop steps (take n xs) = xs ! steps # drop (Suc steps) (take n xs)"
    if "steps < n" "steps < length xs" for n and xs :: "persisted_event list"
    using that by (simp add: Cons_nth_drop_Suc [symmetric] drop_take)
      (metis Cons_nth_drop_Suc Suc_diff_Suc take_Suc_Cons)
  then have "set (drop steps (take (ev_steps_executed res) (ev_events res))) \<subseteq> set (ps @ qs)"
    using ok assms(3) [OF Inr] by (auto simp: pass_ok_def)
  then show ?thesis using ok assms(2) Inr
    by (auto simp: pass_outcome_def pass_ok_def torn_down_shift split: option.splits evaluate_final_state.splits)
qed (use assms in \<open>simp add: pass_outcome_def\<close>)

context journal
begin

lemma pass_failed_inv:
  assumes inv: "eval_inv R env net (h @ qs) st" and E: "en_repo env = E"
    and net: "en_topology env = Some net" "net_wf net"
    and fail: "fire_transition env m tid w = (Inl e, es_world st)"
    and normal: "fires_kind net (\<lambda>tr. \<not> tr_finalizer tr) qs"
    and acc: "length fired = steps" "length evs = steps" "map snd fired = map pe_sequence evs"
    and res: "pass_failed env steps fired evs tid' idx e st = (r, st')"
  shows "\<exists>ps. eval_inv R env net (h @ qs @ ps) st' \<and> pass_outcome env net h (qs @ ps) steps k st' r"
proof -
  obtain fin st1 where dr: "drain_finalizers env st = (fin, st1)" by force
  obtain ps where ps: "eval_inv R env net (h @ qs @ ps) st1" "drained env net (h @ qs) MAX_FINALIZER_STEPS ps st1"
    using drain_loop_inv [OF inv E net dr [unfolded drain_finalizers_def]] by auto
  have parts: "torn_down env net h (qs @ ps) st1" unfolding torn_down_def using ps normal by auto
  have last: "deferred e \<Longrightarrow> failed_last env deferred st" using fail by (auto simp: failed_last_def)
  consider "is_permanent e" | t hook reason where "\<not> is_permanent e" "e = PreDispatchRejectedError t hook reason"
    | t hook ms where "\<not> is_permanent e" "e = PreDispatchDeferredError t hook ms"
    | "\<not> is_permanent e" "r = Inl e" "st' = st"
    using res by (cases e) (auto simp: pass_failed_def dr split: if_splits)
  then show ?thesis
  proof cases
    case 1
    then show ?thesis using res ps(1) parts acc
      by (intro exI [of _ ps]) (auto simp: pass_failed_def dr pass_outcome_def pass_ok_def)
  next
    case 2
    then show ?thesis using res ps(1) parts acc
      by (intro exI [of _ ps]) (auto simp: pass_failed_def dr pass_outcome_def pass_ok_def)
  next
    case 3
    then show ?thesis using res inv normal acc last
      by (intro exI [of _ "[]"]) (auto simp: pass_failed_def pass_outcome_def pass_ok_def deferred_def)
  next
    case 4
    then show ?thesis using inv normal by (intro exI [of _ "[]"]) (simp add: pass_outcome_def)
  qed
qed

end

lemma evaluate_loop_events:
  assumes "evaluate_loop env k steps fired evs st = (Inr res, st')"
  shows "\<exists>more. ev_events res = evs @ more"
  using assms
proof (induction k arbitrary: steps fired evs st)
  case (Suc k)
  obtain m st1 where adv: "advance_state env st = (m, st1)" by force
  obtain r memo where sel: "select_next_transition (en_rhai env) (en_topology env) m (en_registry env)
      (Some (es_memo st1)) Normal = (r, memo)" by force
  define st2 where "st2 = (case memo of Some bm \<Rightarrow> st1\<lparr>es_memo := bm\<rparr> | None \<Rightarrow> st1)"
  show ?case
  proof (cases "\<exists>tid. r = Inr (Some tid)")
    case False
    then show ?thesis using Suc.prems adv sel by (auto split: sum.splits option.splits)
  next
    case True
    then obtain tid where tid: "r = Inr (Some tid)" by blast
    obtain fr w where fire: "fire_transition env m tid (es_world st2) = (fr, w)" by force
    show ?thesis
    proof (cases fr)
      case (Inl e)
      then have "pass_failed env steps fired evs tid (er_len (en_repo env) (w_store (es_world st2))) e
          (st2\<lparr>es_world := w\<rparr>) = (Inr res, st')"
        using Suc.prems adv sel tid fire by (simp add: st2_def Let_def)
      then show ?thesis
        by (auto simp: pass_failed_def split: if_splits prod.splits service_error.splits)
    next
      case (Inr p)
      then have "evaluate_loop env k (Suc steps) (fired @ [(tid, pe_sequence p)]) (evs @ [p])
          (st2\<lparr>es_world := w\<rparr>) = (Inr res, st')"
        using Suc.prems adv sel tid fire by (simp add: st2_def Let_def)
      from Suc.IH [OF this] show ?thesis by auto
    qed
  qed
qed auto

context journal
begin

lemma select_state_inv:
  assumes inv: "eval_inv R env net h st" and cache: "es_cache st = Some (length h, project_marking h)"
    and wf: "net_wf net"
    and sel: "select_next_transition (en_rhai env) (Some net) (project_marking h) (en_registry env)
      (Some (es_memo st)) Normal = (r, memo)"
  shows "\<exists>bm. memo = Some bm \<and> eval_inv R env net h (st\<lparr>es_memo := bm\<rparr>)" (is ?A)
    and "case r of Inl _ \<Rightarrow> False | Inr None \<Rightarrow> idle env net h
      | Inr (Some tid) \<Rightarrow> bound_in_phase (en_rhai env) net (project_marking h) (en_registry env) Normal tid" (is ?B)
proof -
  have ok: "memo_ok (en_rhai env) (en_registry env) net (project_marking h) (es_memo st)" "bm_built (es_memo st)"
    using inv cache by (auto simp: eval_inv_def)
  have dist: "distinct (map tr_id (transitions_values net))"
  proof -
    have "map tr_id (transitions_values net) = map fst (net_transitions net)"
      using wf by (auto simp: net_wf_def transitions_values_def list_all_iff)
    then show ?thesis using wf by (simp add: net_wf_def)
  qed
  note eq = select_with_memo [OF ok dist, of Normal]
  then obtain bm where bm: "memo = Some bm" "memo_ok (en_rhai env) (en_registry env) net (project_marking h) bm"
    using sel by auto
  have "bm_built bm" using select_memo_built [OF sel [unfolded bm(1)]] ok(2) by simp
  then show ?A using eval_inv_memo [OF inv cache bm(2)] bm(1) by blast
  have "fst (select_next_transition (en_rhai env) (Some net) (project_marking h) (en_registry env) None Normal) = r"
    using eq sel by simp
  from select_result [OF this] show ?B unfolding idle_def .
qed

lemma evaluate_loop_inv:
  assumes "eval_inv R env net h st" and E: "en_repo env = E" and net: "en_topology env = Some net" "net_wf net"
    and "length fired = steps" "length evs = steps"
    and "map snd fired = map pe_sequence evs" and "evaluate_loop env k steps fired evs st = (r, st')"
  shows "\<exists>ps. eval_inv R env net (h @ ps) st' \<and> pass_outcome env net h ps steps k st' r"
  using assms(1,5-8)
proof (induction k arbitrary: h steps fired evs st)
  case 0
  then show ?case by (intro exI [of _ "[]"]) (auto simp: pass_outcome_def pass_ok_def)
next
  case (Suc k)
  obtain m st1 where adv: "advance_state env st = (m, st1)" by force
  have a: "m = project_marking h" "eval_inv R env net h st1" "es_cache st1 = Some (length h, project_marking h)"
    using advance_state_inv [OF Suc.prems(1) E net(1) adv] by auto
  obtain s memo where sel: "select_next_transition (en_rhai env) (Some net) (project_marking h) (en_registry env)
      (Some (es_memo st1)) Normal = (s, memo)" by force
  obtain bm where bm: "memo = Some bm" "eval_inv R env net h (st1\<lparr>es_memo := bm\<rparr>)"
    using select_state_inv(1) [OF a(2,3) net(2) sel] by blast
  note pick = select_state_inv(2) [OF a(2,3) net(2) sel]
  define st2 where "st2 = st1\<lparr>es_memo := bm\<rparr>"
  note inv2 = bm(2) [folded st2_def]
  note unf = adv a(1) net(1) sel bm(1) st2_def [symmetric] Let_def
  consider "s = Inr None" | tid where "s = Inr (Some tid)" using pick by (auto split: sum.splits option.splits)
  then show ?case
  proof cases
    case 1
    then have "r = Inr \<lparr>ev_steps_executed = steps, ev_transitions_fired = fired, ev_final_state = Quiescent,
        ev_events = evs, ev_terminal_reached = check_terminal_state (Some net) (project_marking h),
        ev_failure_reached = None\<rparr>" "st' = st2"
      using Suc.prems(5) by (simp_all add: unf)
    then show ?thesis using inv2 pick 1 Suc.prems(2-4)
      by (intro exI [of _ "[]"]) (auto simp: pass_outcome_def pass_ok_def)
  next
    case 2
    obtain fr w where fire: "fire_transition env m tid (es_world st2) = (fr, w)" by force
    obtain ps where ps: "eval_inv R env net (h @ ps) (st2\<lparr>es_world := w\<rparr>)" "fires_once tid fr ps"
      using fire_step [OF inv2 E net fire] by blast
    have normal: "fires_kind net (\<lambda>tr. \<not> tr_finalizer tr) ps"
      by (rule fires_kind_bound [OF ps(2)]) (use pick 2 in \<open>auto simp: phase_skips_def\<close>)
    show ?thesis
    proof (cases fr)
      case (Inl e)
      have "pass_failed env steps fired evs tid (er_len (en_repo env) (w_store (es_world st2))) e
          (st2\<lparr>es_world := w\<rparr>) = (r, st')"
        using Suc.prems(5) 2 fire Inl by (simp add: unf)
      moreover have "fire_transition env m tid (es_world st2) = (Inl e, es_world (st2\<lparr>es_world := w\<rparr>))"
        using fire Inl by simp
      ultimately obtain qs where "eval_inv R env net (h @ ps @ qs) st'" "pass_outcome env net h (ps @ qs) steps (Suc k) st' r"
        using pass_failed_inv [OF ps(1) E net _ normal Suc.prems(2-4)] by blast
      then show ?thesis by blast
    next
      case (Inr p)
      have rec: "evaluate_loop env k (Suc steps) (fired @ [(tid, pe_sequence p)]) (evs @ [p])
          (st2\<lparr>es_world := w\<rparr>) = (r, st')"
        using Suc.prems(5) 2 fire Inr by (simp add: unf)
      obtain qs where qs: "eval_inv R env net ((h @ ps) @ qs) st'" "pass_outcome env net (h @ ps) qs (Suc steps) k st' r"
        using Suc.IH [OF ps(1) _ _ _ rec] Suc.prems(2-4) by auto
      have "ev_events res ! steps \<in> set ps \<and> steps < length (ev_events res)" if "r = Inr res" for res
        using evaluate_loop_events [OF rec [unfolded that]] ps(2) Inr Suc.prems(3)
        by (auto simp: nth_append fires_once_def)
      then show ?thesis using pass_outcome_shift [OF qs(2) normal] qs(1) by (intro exI [of _ "ps @ qs"]) auto
    qed
  qed
qed

end

section \<open>A concrete state\<close>

definition demo_state :: "inner eval_state" where
  "demo_state = \<lparr>es_world = demo_world, es_cache = None, es_memo = memo_new\<rparr>"

lemma demo_state_inv: "eval_inv (store_run demo_cfg False False) demo_env demo_fire_net demo_history demo_state"
  using demo_world_run [of False] by (simp add: eval_inv_def demo_state_def)

lemma demo_env_net: "en_topology demo_env = Some demo_fire_net" "net_wf demo_fire_net"
  using demo_env_wf by (simp_all add: demo_env_def)

section \<open>Properties\<close>

text \<open>
  C2: a pass of the evaluation loop keeps the state coherent: started in a state whose store is
  reachable, whose marking cache is the projection of a prefix of the log and whose memo is
  right for the cached marking, it ends in such a state, with the old log as a prefix of the new
  one, whether it ended quiescent, at the step limit, in a failure or in an error.
\<close>

theorem evaluation_keeps_state_coherent:
  assumes "eval_inv (store_run c loads wakes) env net h st"
    and "en_repo env = memory_repo c" and "en_topology env = Some net" and "net_wf net"
    and "evaluate_until_quiescent env max_steps st = (r, st')"
  shows "\<exists>ps. store_run c loads wakes (w_store (es_world st')) (h @ ps) \<and> cache_ok (h @ ps) (es_cache st') \<and>
    (case es_cache st' of None \<Rightarrow> True
     | Some (n, m) \<Rightarrow> memo_ok (en_rhai env) (en_registry env) net m (es_memo st'))"
proof -
  obtain ps where "eval_inv (store_run c loads wakes) env net (h @ ps) st'"
    using run.evaluate_loop_inv [OF assms(1-4) _ _ _ assms(5) [unfolded evaluate_until_quiescent_def]] by auto
  then show ?thesis by (intro exI [of _ ps]) (auto simp: eval_inv_def split: option.splits)
qed

theorem evaluation_keeps_state_coherent_witness:
  "\<exists>ps. store_run demo_cfg False False
     (w_store (es_world (snd (evaluate_until_quiescent demo_env 3 demo_state)))) (demo_history @ ps)"
  using evaluation_keeps_state_coherent [OF demo_state_inv demo_env_repo demo_env_net prod.collapse [symmetric]]
  by blast

text \<open>
  C9: a pass is bounded and reports what it did: it executes at most \<open>max_steps\<close> firings, exactly
  that many when it stops at the limit; the list of fired transitions has one entry per step with
  the sequence numbers of the events reported first, and those events are in the stretch of the
  log the pass appended. Finalizers never fire in a pass that ends without a failure.
\<close>

theorem evaluation_bounded:
  assumes "eval_inv (store_run c loads wakes) env net h st"
    and "en_repo env = memory_repo c" and "en_topology env = Some net" and "net_wf net"
    and "evaluate_until_quiescent env max_steps st = (Inr res, st')"
  shows "\<exists>ps. store_run c loads wakes (w_store (es_world st')) (h @ ps) \<and>
    ev_steps_executed res \<le> max_steps \<and>
    (ev_final_state res = LimitReached \<longrightarrow> ev_steps_executed res = max_steps) \<and>
    length (ev_transitions_fired res) = ev_steps_executed res \<and>
    map snd (ev_transitions_fired res) = map pe_sequence (take (ev_steps_executed res) (ev_events res)) \<and>
    set (take (ev_steps_executed res) (ev_events res)) \<subseteq> set ps \<and>
    (ev_failure_reached res = None \<longrightarrow> fires_kind net (\<lambda>tr. \<not> tr_finalizer tr) ps)"
proof -
  obtain ps where "eval_inv (store_run c loads wakes) env net (h @ ps) st'"
    "pass_ok env net h ps 0 max_steps st' res"
    using run.evaluate_loop_inv [OF assms(1-4) _ _ _ assms(5) [unfolded evaluate_until_quiescent_def]]
    by (auto simp: pass_outcome_def)
  then show ?thesis
    by (intro exI [of _ ps]) (auto simp: eval_inv_def pass_ok_def split: option.splits evaluate_final_state.splits)
qed

theorem evaluation_bounded_witness:
  "case fst (evaluate_until_quiescent demo_env 3 demo_state) of
     Inr res \<Rightarrow> length (ev_transitions_fired res) = ev_steps_executed res \<and> ev_steps_executed res \<le> 3 | Inl _ \<Rightarrow> False"
proof -
  let ?x = "evaluate_until_quiescent demo_env 3 demo_state"
  have "\<not> (case fst ?x of Inl _ \<Rightarrow> True | Inr _ \<Rightarrow> False)" by code_simp
  then obtain res st' where x: "?x = (Inr res, st')" by (cases ?x) (auto split: sum.splits)
  show ?thesis using evaluation_bounded [OF demo_state_inv demo_env_repo demo_env_net x] by (auto simp: x)
qed

text \<open>
  C7: quiescence is real: a pass that reports quiescence without a failure ends at a marking where
  no ordinary transition has a binding that could fire, and reports the terminal state of that
  marking; the only other way to end so is that a hook deferred the last firing.
\<close>

theorem evaluation_quiescent:
  assumes "eval_inv (store_run c loads wakes) env net h st"
    and "en_repo env = memory_repo c" and "en_topology env = Some net" and "net_wf net"
    and "evaluate_until_quiescent env max_steps st = (Inr res, st')"
    and "ev_final_state res = Quiescent" and "ev_failure_reached res = None"
  shows "\<exists>ps. store_run c loads wakes (w_store (es_world st')) (h @ ps) \<and>
    (candidates_of (en_rhai env) net (project_marking (h @ ps)) (en_registry env) Normal = [] \<and>
       ev_terminal_reached res = check_terminal_state (Some net) (project_marking (h @ ps)) \<or>
     (\<exists>m tid w t hook ms. fire_transition env m tid w = (Inl (PreDispatchDeferredError t hook ms), es_world st')))"
proof -
  obtain ps where ps: "eval_inv (store_run c loads wakes) env net (h @ ps) st'"
    "pass_ok env net h ps 0 max_steps st' res"
    using run.evaluate_loop_inv [OF assms(1-4) _ _ _ assms(5) [unfolded evaluate_until_quiescent_def]]
    by (auto simp: pass_outcome_def)
  have "failed_last env deferred st' \<Longrightarrow> \<exists>m tid w t hook ms.
      fire_transition env m tid w = (Inl (PreDispatchDeferredError t hook ms), es_world st')"
    unfolding failed_last_def by (metis deferred_iff)
  then show ?thesis using ps assms(6,7)
    by (intro exI [of _ ps]) (auto simp: eval_inv_def pass_ok_def idle_def)
qed

theorem evaluation_quiescent_witness:
  "\<exists>ps. candidates_of demo_rhai demo_fire_net (project_marking (demo_history @ ps)) None Normal = [] \<or>
    (\<exists>m tid w t hook ms. fire_transition demo_env m tid w = (Inl (PreDispatchDeferredError t hook ms),
      es_world (snd (evaluate_until_quiescent demo_env 3 demo_state))))"
proof -
  let ?x = "evaluate_until_quiescent demo_env 3 demo_state"
  have "case fst ?x of Inl _ \<Rightarrow> False | Inr res \<Rightarrow> ev_final_state res = Quiescent \<and> ev_failure_reached res = None"
    by code_simp
  then obtain res st' where x: "?x = (Inr res, st')" "ev_final_state res = Quiescent" "ev_failure_reached res = None"
    by (cases ?x) (auto split: sum.splits)
  have rh: "en_rhai demo_env = demo_rhai" "en_registry demo_env = None" by (simp_all add: demo_env_def)
  show ?thesis
    using evaluation_quiescent [OF demo_state_inv demo_env_repo demo_env_net x] unfolding rh x(1) by auto
qed


definition demo_fail_env :: "inner env" where
  "demo_fail_env = demo_env\<lparr>en_rhai := demo_rhai\<lparr>rh_eval := (\<lambda>_ _. Inl ''boom'')\<rparr>\<rparr>"

lemma advance_state_world [simp]: "es_world (snd (advance_state env st)) = es_world st"
  by (simp add: advance_state_def case_prod_unfold Let_def)

lemma demo_fails:
  "\<exists>res st' f. evaluate_until_quiescent demo_fail_env 1 demo_state = (Inr res, st') \<and> ev_failure_reached res = Some f"
proof -
  let ?a = "advance_state demo_fail_env demo_state"
  let ?s = "select_next_transition (en_rhai demo_fail_env) (en_topology demo_fail_env) (fst ?a)
    (en_registry demo_fail_env) (Some (es_memo (snd ?a))) Normal"
  let ?f = "fire_transition demo_fail_env (fst ?a) ''go'' demo_world"
  have sel: "fst ?s = Inr (Some ''go'')" by code_simp
  have "case fst ?f of Inl e \<Rightarrow> is_permanent e | Inr _ \<Rightarrow> False" by code_simp
  then obtain e where e: "fst ?f = Inl e" "is_permanent e" by (auto split: sum.splits)
  obtain memo w where "?s = (Inr (Some ''go''), memo)" "?f = (Inl e, w)"
    using sel e by (metis prod.collapse)
  moreover have "es_world (case memo of Some bm \<Rightarrow> (snd ?a)\<lparr>es_memo := bm\<rparr> | None \<Rightarrow> snd ?a) = demo_world"
    by (cases memo) (simp_all add: demo_state_def)
  ultimately show ?thesis using e(2)
    by (simp add: evaluate_until_quiescent_def case_prod_unfold Let_def pass_failed_def)
qed


end
