(* ===== verification/Token_Manager.thy ===== *)
theory Token_Manager
  imports Evaluation
begin

text \<open>
  Tokens placed, removed and changed from outside the net,
  \<^verbatim>\<open>src/engine/core-engine/crates/application/src/token_manager.rs\<close>, and the lazy
  idempotency index of \<^verbatim>\<open>application/src/idempotency_index.rs\<close>. An operation appends one
  event or fails and leaves the log alone; the lemmas say which event, on every branch.
\<close>

section \<open>Creating\<close>

definition injection_checked :: "'st env \<Rightarrow> place \<Rightarrow> token_color \<Rightarrow> schema_registry option \<Rightarrow> ('st, unit) act" where
  "injection_checked env pl color reg = (case (reg, pl_token_schema pl, color) of
      (Some r, Some s, Data d) \<Rightarrow> (case registry_validate r s d of
          Inl e \<Rightarrow> act_bind (act_uuid env) (\<lambda>u. act_fail (SchemaValidationFailed (pl_name pl) (en_uuid_text env u)
            (''Token injection at place '' @ quoted (pl_name pl) @ '': '' @ schema_error_text e)))
        | Inr _ \<Rightarrow> act_return ())
    | _ \<Rightarrow> act_return ())"

definition tm_create_token_with_meta :: "'st env \<Rightarrow> place_id \<Rightarrow> token_color \<Rightarrow> reply_routing option \<Rightarrow>
    string option \<Rightarrow> string option \<Rightarrow> schema_registry option \<Rightarrow> ('st, persisted_event) act" where
  "tm_create_token_with_meta env p color routing signal_key dedup_id reg =
    (case topology_get (en_topology env) of
       None \<Rightarrow> act_fail NoTopology
     | Some net \<Rightarrow> (case get_place net p of
         None \<Rightarrow> act_fail (PlaceNotFound p)
       | Some pl \<Rightarrow>
           act_bind (injection_checked env pl color reg) (\<lambda>_.
           act_bind (token_fresh env color) (\<lambda>t.
           act_append env (TokenCreated (case routing of Some r \<Rightarrow> token_with_reply_routing r t | None \<Rightarrow> t)
             p None None signal_key dedup_id)))))"

section \<open>Removing and updating\<close>

text \<open>
  The correlation id of a token: the first of the three keys that is present must be a string
  equal to it; a present key of another type hides the later ones.
\<close>

fun correlates :: "string \<Rightarrow> token_color \<Rightarrow> bool" where
  "correlates cid (Data d) \<longleftrightarrow>
    ((case jget ''id'' d of
        Some v \<Rightarrow> Some v
      | None \<Rightarrow> (case jget ''correlation_id'' d of Some v \<Rightarrow> Some v | None \<Rightarrow> jget ''job_id'' d))
      \<bind> as_str) = Some cid"
| "correlates cid _ = False"

text \<open>The target, or the error; a missing token is reported under its id, or under a fresh one.\<close>

definition find_target_token :: "'st env \<Rightarrow> marking \<Rightarrow> place_id \<Rightarrow> token_id option \<Rightarrow> string option \<Rightarrow>
    ('st, token) act" where
  "find_target_token env m p token_id correlation_id =
    (case topology_get (en_topology env) of
       None \<Rightarrow> act_fail NoTopology
     | Some net \<Rightarrow> (case get_place net p of
         None \<Rightarrow> act_fail (PlaceNotFound p)
       | Some _ \<Rightarrow> (case (token_id, correlation_id) of
           (Some tid, _) \<Rightarrow> (case find (\<lambda>t. tok_id t = tid) (tokens_at m p) of
               Some t \<Rightarrow> act_return t
             | None \<Rightarrow> act_fail (TokenNotFound tid p))
         | (None, Some cid) \<Rightarrow> (case find (\<lambda>t. correlates cid (tok_color t)) (tokens_at m p) of
               Some t \<Rightarrow> act_return t
             | None \<Rightarrow> act_bind (act_uuid env) (\<lambda>u. act_fail (TokenNotFound u p)))
         | (None, None) \<Rightarrow>
             act_fail (InvalidOperation ''Either token_id or correlation_id must be provided''))))"

definition tm_remove_token :: "'st env \<Rightarrow> marking \<Rightarrow> place_id \<Rightarrow> token_id option \<Rightarrow> string option \<Rightarrow>
    string option \<Rightarrow> ('st, persisted_event) act" where
  "tm_remove_token env m p token_id correlation_id reason =
    act_bind (find_target_token env m p token_id correlation_id) (\<lambda>t.
    act_append env (TokenRemoved (tok_id t) p reason correlation_id))"

definition tm_update_token :: "'st env \<Rightarrow> marking \<Rightarrow> place_id \<Rightarrow> token_id option \<Rightarrow> string option \<Rightarrow>
    token_color \<Rightarrow> ('st, persisted_event) act" where
  "tm_update_token env m p token_id correlation_id new_color =
    act_bind (find_target_token env m p token_id correlation_id) (\<lambda>t.
    act_append env (TokenUpdated (tok_id t) p new_color correlation_id))"

section \<open>The idempotency index\<close>

text \<open>
  The index is filled on first use from the store's seed and never again; afterwards it is a
  window of its own.
\<close>

type_synonym dedup_index = "bounded_dedup option"

definition index_ensure :: "'st event_repo \<Rightarrow> 'st \<Rightarrow> dedup_index \<Rightarrow> bounded_dedup" where
  "index_ensure E s ix = (case ix of Some d \<Rightarrow> d | None \<Rightarrow> er_dedup_seed E s)"

definition index_get :: "'st event_repo \<Rightarrow> 'st \<Rightarrow> place_id \<Rightarrow> string \<Rightarrow> dedup_index \<Rightarrow>
    persisted_event option \<times> dedup_index" where
  "index_get E s p i ix = (let d = index_ensure E s ix in (dedup_get d (p, i), Some d))"

definition index_insert :: "'st event_repo \<Rightarrow> 'st \<Rightarrow> place_id \<Rightarrow> string \<Rightarrow> persisted_event \<Rightarrow> dedup_index \<Rightarrow>
    dedup_index" where
  "index_insert E s p i e ix = Some (dedup_insert (p, i) e (index_ensure E s ix))"

section \<open>What the operations journal\<close>

lemma quietly_injection_checked: "quietly (injection_checked env pl color reg)"
  unfolding injection_checked_def
  by (auto intro!: quietly_rules split: option.splits token_color.splits sum.splits)

lemma quietly_find_target: "quietly (find_target_token env m p i cid)"
  unfolding find_target_token_def by (auto intro!: quietly_rules split: option.splits)

text \<open>A creation that succeeds appends one event for a token of the given colour.\<close>

definition created_outcome :: "'st env \<Rightarrow> place_id \<Rightarrow> token_color \<Rightarrow> reply_routing option \<Rightarrow> string option \<Rightarrow>
    string option \<Rightarrow> schema_registry option \<Rightarrow> (service_error, persisted_event) result \<Rightarrow>
    persisted_event list \<Rightarrow> bool" where
  "created_outcome env p color routing key did reg r ps = (case r of
      Inl _ \<Rightarrow> ps = []
    | Inr e \<Rightarrow> ps = [e] \<and> (\<exists>net pl t. en_topology env = Some net \<and> get_place net p = Some pl \<and>
        pe_event e = TokenCreated t p None None key did \<and> tok_color t = color \<and> tok_reply_routing t = routing \<and>
        (\<forall>rg s d. reg = Some rg \<longrightarrow> pl_token_schema pl = Some s \<longrightarrow> color = Data d \<longrightarrow>
           registry_validate rg s d = Inr ())))"

lemma injection_checked_ok:
  assumes "injection_checked env pl color reg w = (Inr u, w')" and "reg = Some rg" and "pl_token_schema pl = Some s"
    and "color = Data d"
  shows "registry_validate rg s d = Inr ()"
  using assms by (auto simp: injection_checked_def act_bind_def act_uuid_def act_fail_def split: sum.splits)

lemma token_fresh_total:
  assumes "token_fresh env color w = (r, w')"
  shows "\<exists>t. r = Inr t \<and> tok_color t = color \<and> tok_reply_routing t = None"
  using assms by (auto simp: token_fresh_def act_bind_def act_uuid_def act_now_def act_return_def token_new_def)

text \<open>A removal or an update targets a token that is in the place, by its id or its correlation id.\<close>

definition is_target :: "'st env \<Rightarrow> marking \<Rightarrow> place_id \<Rightarrow> token_id option \<Rightarrow> string option \<Rightarrow> token \<Rightarrow> bool" where
  "is_target env m p i cid t \<longleftrightarrow> (\<exists>net. en_topology env = Some net \<and> get_place net p \<noteq> None) \<and>
    t \<in> set (tokens_at m p) \<and>
    (case i of Some j \<Rightarrow> tok_id t = j | None \<Rightarrow> (case cid of Some s \<Rightarrow> correlates s (tok_color t) | None \<Rightarrow> False))"

lemma find_target_ok:
  assumes "find_target_token env m p i cid w = (Inr t, w')"
  shows "is_target env m p i cid t"
proof -
  have find: "find P xs = Some x \<Longrightarrow> x \<in> set xs \<and> P x" for P and xs :: "token list" and x
    by (auto simp: find_Some_iff)
  show ?thesis using assms
    by (auto simp: find_target_token_def is_target_def topology_get_def act_fail_def act_return_def act_bind_def
        act_uuid_def dest!: find split: option.splits)
qed

context journal
begin

lemma wp_create_token:
  assumes "en_repo env = E" and "R (w_store w) h"
  shows "wp R (tm_create_token_with_meta env p color routing key did reg) w h
    (\<lambda>r w' ps. created_outcome env p color routing key did reg r ps \<and> same_calls w w')"
proof (cases "\<exists>net pl. en_topology env = Some net \<and> get_place net p = Some pl")
  case False
  then show ?thesis using assms(2)
    by (auto simp: tm_create_token_with_meta_def topology_get_def created_outcome_def same_calls_def
        split: option.splits intro!: wp_fail)
next
  case True
  then obtain net pl where net: "en_topology env = Some net" "get_place net p = Some pl" by blast
  show ?thesis unfolding tm_create_token_with_meta_def topology_get_def net option.case
  proof (rule wp_bind_quiet [where R = R, OF quietly_injection_checked assms(2)], goal_cases)
    case (1 e w')
    then show ?case by (simp add: created_outcome_def quiet_same_calls)
  next
    case (2 u w1)
    note ok = injection_checked_ok [OF 2(1)]
    show ?case
    proof (rule wp_bind_quiet [where R = R, OF quietly_token_fresh 2(3)], goal_cases)
      case (1 e w')
      then show ?case using token_fresh_total by blast
    next
      case t: (2 t w2)
      then have "tok_color t = color" "tok_reply_routing t = None" using token_fresh_total by blast+
      then show ?case
        by (intro wp_append [OF assms(1) t(3)])
          (use 2(2) t(2) net ok in \<open>auto simp: created_outcome_def same_calls_def quiet_def
            token_with_reply_routing_def split: option.splits\<close>)
    qed
  qed
qed

lemma wp_remove_token:
  assumes "en_repo env = E" and "R (w_store w) h"
  shows "wp R (tm_remove_token env m p i cid why) w h (\<lambda>r w' ps. same_calls w w' \<and> (case r of
      Inl _ \<Rightarrow> ps = []
    | Inr e \<Rightarrow> ps = [e] \<and> (\<exists>t. is_target env m p i cid t \<and> pe_event e = TokenRemoved (tok_id t) p why cid)))"
  unfolding tm_remove_token_def
proof (rule wp_bind_quiet [where R = R, OF quietly_find_target assms(2)], goal_cases)
  case (2 t w1)
  then show ?case using find_target_ok [OF 2(1)]
    by (intro wp_append [OF assms(1) 2(3)]) (auto simp: same_calls_def quiet_def)
qed (simp add: quiet_same_calls)

lemma wp_update_token:
  assumes "en_repo env = E" and "R (w_store w) h"
  shows "wp R (tm_update_token env m p i cid color) w h (\<lambda>r w' ps. same_calls w w' \<and> (case r of
      Inl _ \<Rightarrow> ps = []
    | Inr e \<Rightarrow> ps = [e] \<and> (\<exists>t. is_target env m p i cid t \<and> pe_event e = TokenUpdated (tok_id t) p color cid)))"
  unfolding tm_update_token_def
proof (rule wp_bind_quiet [where R = R, OF quietly_find_target assms(2)], goal_cases)
  case (2 t w1)
  then show ?case using find_target_ok [OF 2(1)]
    by (intro wp_append [OF assms(1) 2(3)]) (auto simp: same_calls_def quiet_def)
qed (simp add: quiet_same_calls)

end

end
