(* ===== verification/Service.thy ===== *)
theory Service
  imports Token_Manager
begin

text \<open>
  The application service, \<open>PetriNetService\<close> of
  \<^verbatim>\<open>src/engine/core-engine/crates/application/src/service.rs\<close>: one net's event store, topology,
  marking cache, binding memo, idempotency index and configuration behind one set of commands.
  Each command is a function from the service to its result and the service afterwards. The
  store, the interpreter, the clock and the source of identifiers are its ports. The invariant
  says that the store stands for a history, the cache is a projection of a prefix of it, and
  the memo was right for the cached marking under a topology from which the events since then
  lead to the present one; it holds in every reachable state.
\<close>

section \<open>State\<close>

record execution_config =
  ec_validate_output_schemas :: bool
  ec_validate_injection_schemas :: bool

definition execution_config_default :: execution_config where
  "execution_config_default = \<lparr>ec_validate_output_schemas = True, ec_validate_injection_schemas = True\<rparr>"

record 'st ports =
  po_repo :: "'st event_repo"
  po_rhai :: rhai
  po_clock :: "nat \<Rightarrow> time"
  po_uuid :: "nat \<Rightarrow> uuid"
  po_uuid_text :: "uuid \<Rightarrow> string"

text \<open>
  The world of the state holds the event store, the replay cursor and the defer budgets of the
  hook runtime. The waker is the permit of a \<open>Notify\<close>: pulses collapse to one.
\<close>

record 'st service =
  sv_state :: "'st eval_state"
  sv_topology :: topology_store
  sv_initial_tokens :: "(place_id \<times> token_color) list"
  sv_workflow_id :: "uuid option"
  sv_workspace_id :: "string option"
  sv_execution_mode :: execution_mode
  sv_effect_handlers :: "string \<rightharpoonup> effect_handler"
  sv_schema_registry :: "schema_registry option"
  sv_execution_config :: execution_config
  sv_secret_store :: "secret_store option"
  sv_net_parameters :: "json option"
  sv_eval_lock :: bool
  sv_dedup_index :: dedup_index
  sv_pre_dispatch :: "pre_dispatch_runtime option"
  sv_dispatch_options :: dispatch_options
  sv_eval_notify :: "bool option"

definition service_new :: "'st world \<Rightarrow> topology_store \<Rightarrow> 'st service" where
  "service_new w topo = \<lparr>sv_state = \<lparr>es_world = w\<lparr>w_replay_cursor := 0\<rparr>, es_cache = None, es_memo = memo_new\<rparr>,
     sv_topology = topo, sv_initial_tokens = [], sv_workflow_id = None, sv_workspace_id = None,
     sv_execution_mode = Live, sv_effect_handlers = Map.empty, sv_schema_registry = None,
     sv_execution_config = execution_config_default, sv_secret_store = None, sv_net_parameters = None,
     sv_eval_lock = False, sv_dedup_index = None, sv_pre_dispatch = None,
     sv_dispatch_options = \<lparr>do_skip_mask = [], do_stage_overrides = []\<rparr>, sv_eval_notify = None\<rparr>"

type_synonym ('st, 'a) command = "'st service \<Rightarrow> (service_error, 'a) result \<times> 'st service"

text \<open>The registry that gates enablement and firing.\<close>

definition eval_schema_registry :: "'st service \<Rightarrow> schema_registry option" where
  "eval_schema_registry sv =
    (if ec_validate_output_schemas (sv_execution_config sv) then sv_schema_registry sv else None)"

text \<open>What a firing or a pass is called with.\<close>

definition env_of :: "'st ports \<Rightarrow> 'st service \<Rightarrow> 'st env" where
  "env_of po sv = \<lparr>en_repo = po_repo po, en_topology = sv_topology sv, en_rhai = po_rhai po,
     en_handlers = sv_effect_handlers sv, en_mode = sv_execution_mode sv,
     en_registry = eval_schema_registry sv, en_secrets = sv_secret_store sv,
     en_parameters = sv_net_parameters sv, en_pre_dispatch = sv_pre_dispatch sv,
     en_options = sv_dispatch_options sv, en_clock = po_clock po, en_uuid = po_uuid po,
     en_uuid_text = po_uuid_text po\<rparr>"

definition sv_world :: "'st service \<Rightarrow> 'st world" where
  "sv_world sv = es_world (sv_state sv)"

definition sv_put_world :: "'st world \<Rightarrow> 'st service \<Rightarrow> 'st service" where
  "sv_put_world w sv = sv\<lparr>sv_state := (sv_state sv)\<lparr>es_world := w\<rparr>\<rparr>"

definition in_world :: "('st, 'a) act \<Rightarrow> ('st, 'a) command" where
  "in_world f sv = (case f (sv_world sv) of (r, w) \<Rightarrow> (r, sv_put_world w sv))"

section \<open>Configuration\<close>

definition set_pre_dispatch_runtime :: "pre_dispatch_runtime \<Rightarrow> defer_budgets \<Rightarrow> 'st service \<Rightarrow> 'st service" where
  "set_pre_dispatch_runtime rt b sv = sv_put_world ((sv_world sv)\<lparr>w_budgets := b\<rparr>) (sv\<lparr>sv_pre_dispatch := Some rt\<rparr>)"

definition set_execution_mode :: "execution_mode \<Rightarrow> 'st service \<Rightarrow> 'st service" where
  "set_execution_mode mode sv =
    (let sv' = sv\<lparr>sv_execution_mode := mode\<rparr>
     in if mode = Replay then sv_put_world ((sv_world sv')\<lparr>w_replay_cursor := 0\<rparr>) sv' else sv')"

definition set_net_parameters :: "json \<Rightarrow> 'st service \<Rightarrow> 'st service" where
  "set_net_parameters params sv = sv\<lparr>sv_net_parameters := Some params\<rparr>"

definition dynamic_token_ref :: string where
  "dynamic_token_ref = ''#/definitions/DynamicToken''"

text \<open>The check of one declared port; \<open>side\<close> is the word of the message.\<close>

definition port_contract_error :: "string \<Rightarrow> string \<Rightarrow> transition \<Rightarrow> (string \<Rightarrow> port option) \<Rightarrow> string \<times> string \<Rightarrow>
    service_error option" where
  "port_contract_error side hid tr find_port decl = (case decl of (pn, expected) \<Rightarrow>
    (case find_port pn of
       None \<Rightarrow> Some (EffectContractError (''Handler '' @ quoted hid @ '' declares '' @ side @ '' port '' @ quoted pn @
         '' but transition '' @ quoted (tr_name tr) @ '' has no such port''))
     | Some port \<Rightarrow> (case port_schema_ref port of
         None \<Rightarrow> None
       | Some actual \<Rightarrow>
           if actual \<noteq> expected \<and> actual \<noteq> dynamic_token_ref
           then Some (EffectContractError (''Handler '' @ quoted hid @ '' expects schema '' @ quoted expected @
             '' on '' @ side @ '' port '' @ quoted pn @ '' but transition '' @ quoted (tr_name tr) @
             '' declares '' @ quoted actual))
           else None)))"

definition handler_contract_error :: "string \<Rightarrow> effect_port_schemas \<Rightarrow> transition \<Rightarrow> service_error option" where
  "handler_contract_error hid schemas tr =
    (if tr_effect_handler_id tr \<noteq> Some hid then None
     else (case first_some (port_contract_error ''input'' hid tr (input_port tr)) (eps_inputs schemas) of
         Some e \<Rightarrow> Some e
       | None \<Rightarrow> first_some (port_contract_error ''output'' hid tr (output_port tr)) (eps_outputs schemas)))"

definition register_effect_handler :: "string \<Rightarrow> effect_handler \<Rightarrow> ('st, unit) command" where
  "register_effect_handler hid h sv =
    (case (case (eh_port_schemas h, topology_get (sv_topology sv)) of
        (Some schemas, Some net) \<Rightarrow> first_some (handler_contract_error hid schemas) (transitions_values net)
      | _ \<Rightarrow> None) of
       Some e \<Rightarrow> (Inl e, sv)
     | None \<Rightarrow> (Inr (), sv\<lparr>sv_effect_handlers := (sv_effect_handlers sv)(hid \<mapsto> h)\<rparr>))"

definition set_workflow_id :: "uuid \<Rightarrow> 'st service \<Rightarrow> 'st service" where
  "set_workflow_id i sv = sv\<lparr>sv_workflow_id := Some i\<rparr>"

definition set_workspace_id :: "string \<Rightarrow> 'st service \<Rightarrow> 'st service" where
  "set_workspace_id i sv = sv\<lparr>sv_workspace_id := Some i\<rparr>"

definition set_eval_notify :: "'st service \<Rightarrow> 'st service" where
  "set_eval_notify sv = sv\<lparr>sv_eval_notify := Some False\<rparr>"

definition set_initial_tokens :: "(place_id \<times> token_color) list \<Rightarrow> 'st service \<Rightarrow> 'st service" where
  "set_initial_tokens ts sv = sv\<lparr>sv_initial_tokens := ts\<rparr>"

definition set_schema_registry :: "schema_registry \<Rightarrow> 'st service \<Rightarrow> 'st service" where
  "set_schema_registry reg sv = sv\<lparr>sv_schema_registry := Some reg\<rparr>"

definition set_execution_config :: "execution_config \<Rightarrow> 'st service \<Rightarrow> 'st service" where
  "set_execution_config c sv = sv\<lparr>sv_execution_config := c\<rparr>"

definition set_secret_store :: "secret_store \<Rightarrow> 'st service \<Rightarrow> 'st service" where
  "set_secret_store st sv = sv\<lparr>sv_secret_store := Some st\<rparr>"

definition set_dispatch_options :: "dispatch_options \<Rightarrow> 'st service \<Rightarrow> 'st service" where
  "set_dispatch_options o1 sv = sv\<lparr>sv_dispatch_options := o1\<rparr>"

section \<open>Topology\<close>

definition invalidate_cache :: "'st service \<Rightarrow> 'st service" where
  "invalidate_cache sv = sv\<lparr>sv_state := (sv_state sv)\<lparr>es_cache := None\<rparr>\<rparr>"

text \<open>The start that \<open>clear\<close> and \<open>reset\<close> share: empty store, no cached marking, cursor at zero.\<close>

definition wipe :: "'st ports \<Rightarrow> 'st service \<Rightarrow> 'st service" where
  "wipe po sv = invalidate_cache (sv_put_world
     ((sv_world sv)\<lparr>w_store := er_reset (po_repo po) (w_store (sv_world sv)), w_replay_cursor := 0\<rparr>) sv)"

definition clear :: "'st ports \<Rightarrow> 'st service \<Rightarrow> 'st service" where
  "clear po sv = (wipe po sv)\<lparr>sv_schema_registry := None\<rparr>"

definition initialize :: "'st ports \<Rightarrow> petri_net \<Rightarrow> ('st, persisted_event) command" where
  "initialize po net sv =
    (let sv' = sv\<lparr>sv_topology := topology_set net (sv_topology sv)\<rparr>
     in in_world (act_append (env_of po sv') (NetInitialized net)) sv')"

definition compiles :: "rhai \<Rightarrow> string \<Rightarrow> string option \<Rightarrow> (service_error, unit) result" where
  "compiles rh script guard = (case compile_check rh script of
      Inl e \<Rightarrow> Inl e
    | Inr _ \<Rightarrow> (case guard of None \<Rightarrow> Inr () | Some g \<Rightarrow> compile_check rh g))"

definition update_transition_script :: "'st ports \<Rightarrow> transition_id \<Rightarrow> string \<Rightarrow> string option \<Rightarrow>
    ('st, persisted_event) command" where
  "update_transition_script po tid script guard sv =
    (case compiles (po_rhai po) script guard of
       Inl e \<Rightarrow> (Inl e, sv)
     | Inr _ \<Rightarrow> (case topology_update_script tid script guard (sv_topology sv) of (found, topo) \<Rightarrow>
         let sv' = sv\<lparr>sv_topology := topo\<rparr> in
         if \<not> found then (Inl (TransitionNotFound tid), sv')
         else in_world (act_append (env_of po sv') (TransitionScriptUpdated tid script guard)) sv'))"

section \<open>Tokens\<close>

definition get_marking_cached :: "'st ports \<Rightarrow> 'st service \<Rightarrow> marking \<times> 'st service" where
  "get_marking_cached po sv =
    (case advance_state (env_of po sv) (sv_state sv) of (m, st) \<Rightarrow> (m, sv\<lparr>sv_state := st\<rparr>))"

definition injection_registry :: "'st service \<Rightarrow> schema_registry option" where
  "injection_registry sv =
    (if ec_validate_injection_schemas (sv_execution_config sv) then sv_schema_registry sv else None)"

definition notify_eval :: "'st service \<Rightarrow> 'st service" where
  "notify_eval sv = sv\<lparr>sv_eval_notify := (case sv_eval_notify sv of Some _ \<Rightarrow> Some True | None \<Rightarrow> None)\<rparr>"

text \<open>The lookup of a dedup id; an absent or empty id never finds anything.\<close>

definition seen_before :: "'st ports \<Rightarrow> place_id \<Rightarrow> string option \<Rightarrow> 'st service \<Rightarrow>
    persisted_event option \<times> 'st service" where
  "seen_before po p dedup_id sv = (case dedup_id of
      Some i \<Rightarrow> if i \<noteq> [] then
          (case index_get (po_repo po) (w_store (sv_world sv)) p i (sv_dedup_index sv) of
             (found, ix) \<Rightarrow> (found, sv\<lparr>sv_dedup_index := ix\<rparr>))
        else (None, sv)
    | None \<Rightarrow> (None, sv))"

definition remember :: "'st ports \<Rightarrow> place_id \<Rightarrow> string option \<Rightarrow> persisted_event \<Rightarrow> 'st service \<Rightarrow> 'st service" where
  "remember po p dedup_id e sv = (case dedup_id of
      Some i \<Rightarrow> if i \<noteq> [] then
          sv\<lparr>sv_dedup_index := index_insert (po_repo po) (w_store (sv_world sv)) p i e (sv_dedup_index sv)\<rparr>
        else sv
    | None \<Rightarrow> sv)"

definition create_token_with_meta :: "'st ports \<Rightarrow> place_id \<Rightarrow> token_color \<Rightarrow> reply_routing option \<Rightarrow>
    string option \<Rightarrow> string option \<Rightarrow> ('st, persisted_event) command" where
  "create_token_with_meta po p color routing signal_key dedup_id sv =
    (case seen_before po p dedup_id sv of
       (Some existing, sv1) \<Rightarrow> (Inr existing, sv1)
     | (None, sv1) \<Rightarrow>
         (case in_world (tm_create_token_with_meta (env_of po sv1) p color routing signal_key dedup_id
             (injection_registry sv1)) sv1 of
            (Inl e, sv2) \<Rightarrow> (Inl e, sv2)
          | (Inr event, sv2) \<Rightarrow> (Inr event, notify_eval (remember po p dedup_id event sv2))))"

definition create_token :: "'st ports \<Rightarrow> place_id \<Rightarrow> token_color \<Rightarrow> ('st, persisted_event) command" where
  "create_token po p color = create_token_with_meta po p color None None None"

definition sv_remove_token :: "'st ports \<Rightarrow> place_id \<Rightarrow> token_id option \<Rightarrow> string option \<Rightarrow> string option \<Rightarrow>
    ('st, persisted_event) command" where
  "sv_remove_token po p token_id correlation_id reason sv =
    (case get_marking_cached po sv of (m, sv1) \<Rightarrow>
     in_world (tm_remove_token (env_of po sv1) m p token_id correlation_id reason) sv1)"

definition sv_update_token :: "'st ports \<Rightarrow> place_id \<Rightarrow> token_id option \<Rightarrow> string option \<Rightarrow> token_color \<Rightarrow>
    ('st, persisted_event) command" where
  "sv_update_token po p token_id correlation_id new_color sv =
    (case get_marking_cached po sv of (m, sv1) \<Rightarrow>
     in_world (tm_update_token (env_of po sv1) m p token_id correlation_id new_color) sv1)"

definition token_exists_in_place :: "'st ports \<Rightarrow> place_id \<Rightarrow> token_id \<Rightarrow> 'st service \<Rightarrow> bool \<times> 'st service" where
  "token_exists_in_place po p i sv = (case get_marking_cached po sv of (m, sv1) \<Rightarrow>
     (case m p of Some ts \<Rightarrow> list_ex (\<lambda>t. tok_id t = i) ts | None \<Rightarrow> False, sv1))"

section \<open>Firing and evaluation\<close>

definition sv_fire_transition :: "'st ports \<Rightarrow> transition_id \<Rightarrow> ('st, persisted_event) command" where
  "sv_fire_transition po tid sv = (case get_marking_cached po sv of (m, sv1) \<Rightarrow>
     in_world (fire_transition (env_of po sv1) m tid) sv1)"

text \<open>The queries read the marking, which advances the cache, and change nothing else.\<close>

definition with_marking :: "'st ports \<Rightarrow> (marking \<Rightarrow> 'st service \<Rightarrow> 'a) \<Rightarrow> 'st service \<Rightarrow> 'a \<times> 'st service" where
  "with_marking po f sv = (case get_marking_cached po sv of (m, sv1) \<Rightarrow> (f m sv1, sv1))"

definition sv_is_enabled :: "'st ports \<Rightarrow> transition_id \<Rightarrow> ('st, bool) command" where
  "sv_is_enabled po tid = with_marking po (\<lambda>m sv.
     is_enabled (po_rhai po) (sv_topology sv) tid m (eval_schema_registry sv))"

definition sv_enabled_transitions :: "'st ports \<Rightarrow> ('st, transition_id list) command" where
  "sv_enabled_transitions po = with_marking po (\<lambda>m sv.
     enabled_transitions (po_rhai po) (sv_topology sv) m (eval_schema_registry sv))"

definition sv_transition_statuses :: "'st ports \<Rightarrow> ('st, (transition_id, transition_status) hashmap) command" where
  "sv_transition_statuses po = with_marking po (\<lambda>m sv.
     transition_statuses (po_rhai po) (sv_topology sv) m (eval_schema_registry sv))"

definition sv_transition_enabling_time :: "'st ports \<Rightarrow> transition_id \<Rightarrow> ('st, time option) command" where
  "sv_transition_enabling_time po tid = with_marking po (\<lambda>m sv.
     transition_enabling_time (po_rhai po) (sv_topology sv) tid m (eval_schema_registry sv))"

definition sv_select_next_transition :: "'st ports \<Rightarrow> ('st, transition_id option) command" where
  "sv_select_next_transition po = with_marking po (\<lambda>m sv.
     fst (select_next_transition (po_rhai po) (sv_topology sv) m (eval_schema_registry sv) None Normal))"

definition busy_result :: evaluate_result where
  "busy_result = \<lparr>ev_steps_executed = 0, ev_transitions_fired = [], ev_final_state = Quiescent,
     ev_events = [], ev_terminal_reached = None, ev_failure_reached = None\<rparr>"

text \<open>A pass is refused while another holds the lock; it releases the lock when it returns.\<close>

definition sv_evaluate_until_quiescent :: "'st ports \<Rightarrow> nat \<Rightarrow> ('st, evaluate_result) command" where
  "sv_evaluate_until_quiescent po max_steps sv =
    (if sv_eval_lock sv then (Inr busy_result, sv)
     else (case evaluate_until_quiescent (env_of po sv) max_steps (sv_state sv) of
         (r, st) \<Rightarrow> (r, sv\<lparr>sv_state := st\<rparr>)))"

text \<open>The drain waits for the lock, so it runs in a state where the lock is free.\<close>

definition sv_drain_finalizers :: "'st ports \<Rightarrow> 'st service \<Rightarrow> persisted_event list \<times> 'st service" where
  "sv_drain_finalizers po sv =
    (case drain_finalizers (env_of po sv) (sv_state sv) of (evs, st) \<Rightarrow> (evs, sv\<lparr>sv_state := st\<rparr>))"

section \<open>Log and reset\<close>

definition append_event :: "'st ports \<Rightarrow> domain_event \<Rightarrow> ('st, persisted_event) command" where
  "append_event po e sv = in_world (act_append (env_of po sv) e) sv"

fun restore_tokens :: "'st env \<Rightarrow> (place_id \<times> token_color) list \<Rightarrow> ('st, unit) act" where
  "restore_tokens env [] = act_return ()"
| "restore_tokens env ((p, c) # ts) = act_bind (token_fresh env c) (\<lambda>t.
    act_bind (act_append env (TokenCreated t p None None None None)) (\<lambda>_. restore_tokens env ts))"

definition reset :: "'st ports \<Rightarrow> ('st, unit) command" where
  "reset po sv =
    (let sv1 = wipe po sv; env = env_of po sv1 in
     in_world (act_bind
       (case topology_get (sv_topology sv1) of
          Some net \<Rightarrow> act_bind (act_append env (NetInitialized net)) (\<lambda>_. act_return ())
        | None \<Rightarrow> act_return ())
       (\<lambda>_. restore_tokens env (sv_initial_tokens sv1))) sv1)"

section \<open>Signals\<close>

definition resolve_place_id :: "string \<Rightarrow> 'st service \<Rightarrow> (service_error, place_id) result" where
  "resolve_place_id s sv = (case topology_get (sv_topology sv) of
      None \<Rightarrow> Inl NoTopology
    | Some net \<Rightarrow>
        if hm_get (net_places net) s \<noteq> None then Inr s
        else (case find (\<lambda>(_, pl). pl_name pl = s) (net_places net) of
            Some (i, _) \<Rightarrow> Inr i
          | None \<Rightarrow> Inl (PlaceNotFound s)))"

definition inject_signal :: "'st ports \<Rightarrow> string \<Rightarrow> json \<Rightarrow> ('st, persisted_event) command" where
  "inject_signal po s data sv = (case resolve_place_id s sv of
      Inl e \<Rightarrow> (Inl e, sv)
    | Inr p \<Rightarrow> create_token po p (json_to_token_color data) sv)"

end
