(* ===== verification/Service_Invariant.thy ===== *)
theory Service_Invariant
  imports Service
begin

text \<open>
  The invariant of the application service and its idempotency. A state of the service may be
  behind its log: the topology and the log move on, while the marking cache and the memo catch
  up at the next read of the marking. The lemmas carry this weaker invariant through every
  command, and the properties state it for all reachable services, together with the
  idempotency of token creation under redelivery.
\<close>

section \<open>States that lag behind the log\<close>

text \<open>
  The memo was right for the marking \<open>m\<close> under some topology, from which the events since lead to
  the present one; when its index was never built, a load of the net is among them.
\<close>

definition memo_behind :: "rhai \<Rightarrow> schema_registry option \<Rightarrow> topology_store \<Rightarrow> marking \<Rightarrow> persisted_event list \<Rightarrow>
    binding_memo \<Rightarrow> bool" where
  "memo_behind rh reg topo m es bm \<longleftrightarrow> (\<exists>net0. memo_ok rh reg net0 m bm \<and>
     (case topo of None \<Rightarrow> True | Some net \<Rightarrow> topology_step net0 net es \<and>
        (bm_built bm \<or> (\<exists>p \<in> set es. is_net_initialized (pe_event p)))))"

definition state_behind :: "('st \<Rightarrow> persisted_event list \<Rightarrow> bool) \<Rightarrow> rhai \<Rightarrow> schema_registry option \<Rightarrow>
    topology_store \<Rightarrow> persisted_event list \<Rightarrow> 'st eval_state \<Rightarrow> bool" where
  "state_behind R rh reg topo h st \<longleftrightarrow> R (w_store (es_world st)) h \<and> cache_ok h (es_cache st) \<and>
    (topo = None \<longrightarrow> \<not> bm_built (es_memo st)) \<and>
    (case es_cache st of None \<Rightarrow> True | Some (n, m) \<Rightarrow> memo_behind rh reg topo m (drop n h) (es_memo st))"

lemma topology_step_mono:
  assumes "topology_step net0 net es" and "set es \<subseteq> set es'"
  shows "topology_step net0 net es'"
proof -
  have "pe_event ` set es \<subseteq> pe_event ` set es'" using assms(2) by blast
  then show ?thesis using assms unfolding topology_step_def by (meson subset_eq)
qed

lemma topology_step_Nil:
  assumes "memo_ok rh reg net0 m bm" and "topology_step net0 net []"
  shows "memo_ok rh reg net m bm"
  using memo_ok_upto_net [OF assms(1), of net "{}"] assms(2)
  by (simp add: topology_step_def memo_ok_upto_empty)

lemma memo_behind_mono:
  assumes "memo_behind rh reg topo m es bm" and "set es \<subseteq> set es'"
  shows "memo_behind rh reg topo m es' bm"
  using assms topology_step_mono [OF _ assms(2)] unfolding memo_behind_def
  by (cases topo; simp; blast)

text \<open>Appending to the log keeps a state behind it, whatever else of the world changes.\<close>

lemma state_behind_append:
  assumes "state_behind R rh reg topo h st" and "R (w_store w) (h @ ps)"
  shows "state_behind R rh reg topo (h @ ps) (st\<lparr>es_world := w\<rparr>)"
proof (cases "es_cache st")
  case (Some c)
  obtain n m where c: "c = (n, m)" by (cases c)
  have "memo_behind rh reg topo m (drop n (h @ ps)) (es_memo st)"
    using memo_behind_mono [of rh reg topo m "drop n h"] assms(1) by (auto simp: state_behind_def Some c)
  then show ?thesis using assms cache_ok_extend [of h "es_cache st" ps]
    by (simp add: state_behind_def Some c del: drop_append)
qed (use assms in \<open>simp add: state_behind_def\<close>)

lemma eval_inv_behind:
  assumes "eval_inv R env net h st" and "en_topology env = Some net"
  shows "state_behind R (en_rhai env) (en_registry env) (Some net) h st"
  using assms topology_step_refl by (auto simp: eval_inv_def state_behind_def memo_behind_def split: option.splits)

lemma invalidate_places_subset: "bm_no_binding (fold invalidate_place ps bm) \<subseteq> bm_no_binding bm"
proof (induction ps arbitrary: bm)
  case (Cons p ps)
  have "bm_no_binding (invalidate_place p bm) \<subseteq> bm_no_binding bm"
    by (auto simp: invalidate_place_def split: option.splits)
  then show ?case using Cons [of "invalidate_place p bm"] by simp
qed simp

lemma memo_event_None:
  "bm_no_binding (memo_apply_event None e bm) \<subseteq> bm_no_binding bm \<and>
    bm_built (memo_apply_event None e bm) = bm_built bm"
proof (cases "\<exists>n. e = NetInitialized n")
  case False
  then have "(\<exists>t s g. e = TransitionScriptUpdated t s g) \<or>
      memo_apply_event None e bm = fold invalidate_place (touched_places e) bm"
    by (cases e) auto
  then show ?thesis using invalidate_places_subset [of "touched_places e" bm] by auto
qed (auto simp: clear_entries_def)

lemma memo_events_None:
  assumes "\<not> bm_built bm"
  shows "\<not> bm_built (reconcile_binding_memo None (Applied es) bm) \<and>
    bm_no_binding (reconcile_binding_memo None (Applied es) bm) = {}"
proof -
  have "bm_no_binding (fold (memo_apply_event None) es' b) \<subseteq> bm_no_binding b \<and>
      bm_built (fold (memo_apply_event None) es' b) = bm_built b" for es' b
  proof (induction es' arbitrary: b)
    case (Cons e es')
    then show ?case using memo_event_None [of e b] by (simp, blast)
  qed simp
  from this [of "map pe_event es" "clear_entries bm"] show ?thesis using assms
    by (simp add: reconcile_binding_memo_def memo_apply_events_def topology_get_def clear_entries_def)
qed

context event_repository
begin

lemma advance_behind_None:
  assumes st: "state_behind R (en_rhai env) (en_registry env) None h st" and E: "en_repo env = E"
    and topo: "en_topology env = None" and adv: "advance_state env st = (m, st1)"
  shows "m = project_marking h \<and> es_world st1 = es_world st \<and> es_cache st1 = Some (length h, project_marking h) \<and>
    state_behind R (en_rhai env) (en_registry env) None h st1"
proof -
  obtain m' delta c where a: "advance_marking E (w_store (es_world st)) (es_cache st) = (m', delta, c)"
    by (cases "advance_marking E (w_store (es_world st)) (es_cache st)") auto
  have st1: "m' = m" "st1 = st\<lparr>es_cache := c, es_memo := reconcile_binding_memo None delta (es_memo st)\<rparr>"
    using adv a by (auto simp: advance_state_def E topo)
  have R: "R (w_store (es_world st)) h" and ok: "cache_ok h (es_cache st)" and nb: "\<not> bm_built (es_memo st)"
    using st by (auto simp: state_behind_def)
  have ex: "m' = project_marking h" "c = Some (length h, m')" "delta_ok h (es_cache st) delta (length h)"
    using advance_marking_exact [OF R ok a] by auto
  have "\<not> bm_built (es_memo st1) \<and> bm_no_binding (es_memo st1) = {}"
  proof (cases delta)
    case Unchanged
    then obtain m0 where "es_cache st = Some (length h, m0)" using ex(3) by (auto simp: delta_ok_def)
    then have "bm_no_binding (es_memo st) = {}" using st nb by (auto simp: state_behind_def memo_behind_def memo_ok_def)
    then show ?thesis using Unchanged nb by (simp add: st1 reconcile_binding_memo_def)
  next
    case (Applied es)
    then show ?thesis using memo_events_None [OF nb] by (simp add: st1)
  next
    case Rebuilt
    then show ?thesis using nb by (simp add: st1 reconcile_binding_memo_def topology_get_def clear_entries_def)
  qed
  then have "memo_ok rh reg net_new mk (es_memo st1)" for rh reg mk
    by (simp add: memo_ok_def)
  then show ?thesis using R ex \<open>\<not> bm_built (es_memo st1) \<and> _\<close> st1
    by (auto simp: state_behind_def memo_behind_def cache_ok_def)
qed

lemma advance_behind_Some:
  assumes st: "state_behind R (en_rhai env) (en_registry env) (Some net) h st" and E: "en_repo env = E"
    and topo: "en_topology env = Some net" and adv: "advance_state env st = (m, st1)"
  shows "m = project_marking h \<and> es_world st1 = es_world st \<and> es_cache st1 = Some (length h, project_marking h) \<and>
    eval_inv R env net h st1"
proof -
  obtain m' delta c where a: "advance_marking E (w_store (es_world st)) (es_cache st) = (m', delta, c)"
    by (cases "advance_marking E (w_store (es_world st)) (es_cache st)") auto
  have st1: "m' = m" "st1 = st\<lparr>es_cache := c, es_memo := reconcile_binding_memo (Some net) delta (es_memo st)\<rparr>"
    using adv a by (auto simp: advance_state_def E topo)
  have R: "R (w_store (es_world st)) h" and ok: "cache_ok h (es_cache st)"
    using st by (auto simp: state_behind_def)
  have ex: "m' = project_marking h" "c = Some (length h, m')" "delta_ok h (es_cache st) delta (length h)"
    using advance_marking_exact [OF R ok a] by auto
  let ?bm = "reconcile_binding_memo (Some net) delta (es_memo st)"
  have "memo_ok (en_rhai env) (en_registry env) net (project_marking h) ?bm \<and> bm_built ?bm"
  proof (cases delta)
    case Unchanged
    then obtain m0 where c0: "es_cache st = Some (length h, m0)" using ex(3) by (auto simp: delta_ok_def)
    then have "m0 = project_marking h" using ok by (simp add: cache_ok_def)
    then show ?thesis using Unchanged st c0 topology_step_Nil
      by (auto simp: reconcile_binding_memo_def state_behind_def memo_behind_def)
  next
    case (Applied es)
    then obtain i m0 where c0: "es_cache st = Some (i, m0)" "i \<le> length h" "es = drop i h"
      using ex(3) by (auto simp: delta_ok_def)
    then have m0: "project_marking h = project_onto m0 es"
      using ok by (simp add: cache_ok_def flip: project_marking_append)
    obtain net0 where "memo_ok (en_rhai env) (en_registry env) net0 m0 (es_memo st)" "topology_step net0 net es"
      using st c0 by (auto simp: state_behind_def memo_behind_def)
    then have "memo_ok (en_rhai env) (en_registry env) net (project_marking h) ?bm"
      using memo_apply_keeps m0 Applied by simp
    then show ?thesis using reconcile_built [of delta] Applied by auto
  next
    case Rebuilt
    then show ?thesis using memo_ok_rebuild reconcile_built [of delta]
      by (simp add: reconcile_binding_memo_def topology_get_def)
  qed
  then show ?thesis using ex st1 R by (simp add: eval_inv_def cache_ok_def)
qed

text \<open>Reading the marking again finds the cache up to date.\<close>

lemma advance_state_again:
  assumes "R (w_store (es_world st)) h" and "en_repo env = E" and "es_cache st = Some (length h, m)"
  shows "advance_state env st = (m, st)"
  using assms len_law [OF assms(1)]
  by (simp add: advance_state_def advance_marking_def advance_marking_at_def reconcile_binding_memo_def)

end

section \<open>The invariant of the service\<close>

definition index_inv :: "dedup_index \<Rightarrow> bool" where
  "index_inv ix = (case ix of None \<Rightarrow> True | Some d \<Rightarrow> dedup_inv d)"

definition service_inv :: "('st \<Rightarrow> persisted_event list \<Rightarrow> bool) \<Rightarrow> 'st ports \<Rightarrow> persisted_event list \<Rightarrow>
    'st service \<Rightarrow> bool" where
  "service_inv R po h sv \<longleftrightarrow>
    state_behind R (po_rhai po) (eval_schema_registry sv) (sv_topology sv) h (sv_state sv) \<and>
    (case sv_topology sv of None \<Rightarrow> True | Some net \<Rightarrow> net_wf net) \<and> index_inv (sv_dedup_index sv)"

lemma env_of_simps [simp]:
  "en_repo (env_of po sv) = po_repo po" "en_rhai (env_of po sv) = po_rhai po"
  "en_topology (env_of po sv) = sv_topology sv" "en_registry (env_of po sv) = eval_schema_registry sv"
  by (simp_all add: env_of_def)

lemma put_world_simps [simp]:
  "sv_world (sv_put_world w sv) = w" "sv_topology (sv_put_world w sv) = sv_topology sv"
  "eval_schema_registry (sv_put_world w sv) = eval_schema_registry sv"
  "sv_dedup_index (sv_put_world w sv) = sv_dedup_index sv"
  "sv_state (sv_put_world w sv) = (sv_state sv)\<lparr>es_world := w\<rparr>"
  by (simp_all add: sv_put_world_def sv_world_def eval_schema_registry_def)

text \<open>Commands that only touch what the invariant does not mention.\<close>

lemma service_inv_frame:
  assumes "service_inv R po h sv" and "w_store (sv_world sv') = w_store (sv_world sv)"
    and "es_cache (sv_state sv') = es_cache (sv_state sv)" and "es_memo (sv_state sv') = es_memo (sv_state sv)"
    and "sv_topology sv' = sv_topology sv" and "eval_schema_registry sv' = eval_schema_registry sv"
    and "index_inv (sv_dedup_index sv')"
  shows "service_inv R po h sv'"
  using assms by (cases "es_cache (sv_state sv)") (auto simp: service_inv_def state_behind_def sv_world_def)

lemma service_inv_index: "service_inv R po h sv \<Longrightarrow> index_inv (sv_dedup_index sv)"
  by (simp add: service_inv_def)

lemma service_inv_store: "service_inv R po h sv \<Longrightarrow> R (w_store (sv_world sv)) h"
  by (simp add: service_inv_def state_behind_def sv_world_def)

lemma service_inv_appended:
  assumes "service_inv R po h sv" and "R (w_store w) (h @ ps)"
  shows "service_inv R po (h @ ps) (sv_put_world w sv)"
  using assms state_behind_append by (fastforce simp: service_inv_def)

text \<open>Changing the registry is harmless while no marking is cached.\<close>

lemma service_inv_uncached:
  assumes "service_inv R po h sv" and "es_cache (sv_state sv) = None"
    and "sv_state sv' = sv_state sv" and "sv_topology sv' = sv_topology sv"
    and "sv_dedup_index sv' = sv_dedup_index sv"
  shows "service_inv R po h sv'"
  using assms by (simp add: service_inv_def state_behind_def)

section \<open>Commands in a journal\<close>

locale engine = journal +
  assumes seed_inv: "R s h \<Longrightarrow> dedup_inv (er_dedup_seed E s)"
begin

lemma in_world_inv:
  assumes "service_inv R po h sv" and "wp R f (sv_world sv) h Q" and "in_world f sv = (r, sv')"
  shows "\<exists>ps. service_inv R po (h @ ps) sv' \<and> Q r (sv_world sv') ps"
proof -
  obtain w where w: "f (sv_world sv) = (r, w)" "sv' = sv_put_world w sv"
    using assms(3) by (auto simp: in_world_def split: prod.splits)
  obtain ps where "R (w_store w) (h @ ps)" "Q r w ps" using wpD [OF assms(2) w(1)] by blast
  then show ?thesis using service_inv_appended [OF assms(1)] w(2) by auto
qed

lemma get_marking_inv:
  assumes "service_inv R po h sv" and "po_repo po = E" and "get_marking_cached po sv = (m, sv1)"
  shows "m = project_marking h \<and> service_inv R po h sv1 \<and> sv_world sv1 = sv_world sv \<and>
    sv1 = sv\<lparr>sv_state := sv_state sv1\<rparr> \<and> sv_topology sv1 = sv_topology sv \<and>
    es_cache (sv_state sv1) = Some (length h, m) \<and>
    (\<forall>net. sv_topology sv = Some net \<longrightarrow> eval_inv R (env_of po sv) net h (sv_state sv1))"
proof -
  obtain st where adv: "advance_state (env_of po sv) (sv_state sv) = (m, st)" "sv1 = sv\<lparr>sv_state := st\<rparr>"
    using assms(3) by (auto simp: get_marking_cached_def split: prod.splits)
  have reg: "eval_schema_registry sv1 = eval_schema_registry sv" by (simp add: adv(2) eval_schema_registry_def)
  have inv: "state_behind R (en_rhai (env_of po sv)) (en_registry (env_of po sv)) (sv_topology sv) h (sv_state sv)"
    using assms(1) by (simp add: service_inv_def)
  have "m = project_marking h \<and> es_world st = es_world (sv_state sv) \<and> es_cache st = Some (length h, project_marking h) \<and>
      state_behind R (po_rhai po) (eval_schema_registry sv) (sv_topology sv) h st \<and>
      (\<forall>net. sv_topology sv = Some net \<longrightarrow> eval_inv R (env_of po sv) net h st)"
  proof (cases "sv_topology sv")
    case None
    then show ?thesis using advance_behind_None [OF inv [unfolded None] _ _ adv(1)] assms(2) by simp
  next
    case (Some net)
    have "m = project_marking h \<and> es_world st = es_world (sv_state sv) \<and>
        es_cache st = Some (length h, project_marking h) \<and> eval_inv R (env_of po sv) net h st"
      using advance_behind_Some [OF inv [unfolded Some] _ _ adv(1)] assms(2) Some by simp
    then show ?thesis using eval_inv_behind [of R "env_of po sv" net h st] Some by simp
  qed
  then show ?thesis using assms(1) adv(2) reg by (simp add: service_inv_def sv_world_def)
qed

end

interpretation eng: engine "memory_repo c" "store_run c loads wakes" for c loads wakes
proof unfold_locales
  fix s h assume "store_run c loads wakes s h"
  then show "dedup_inv (er_dedup_seed (memory_repo c) s)"
    using store_run_dedup_inv dedup_inv_scan by (auto simp: memory_repo_def mem_dedup_seed_def)
qed

section \<open>Every command keeps the invariant\<close>

lemma set_update_subset: "set (AList.update k v al) \<subseteq> insert (k, v) (set al)"
  by (induction al) auto

lemma update_script_net:
  assumes "net_wf net" and "topology_update_script tid script guard (Some net) = (True, topo)"
  shows "\<exists>net'. topo = Some net' \<and> net_wf net' \<and>
    (\<forall>p. pe_event p = TransitionScriptUpdated tid script guard \<longrightarrow> topology_step net net' [p])"
proof -
  obtain t where t: "get_transition net tid = Some t"
    "topo = Some (net\<lparr>net_transitions := hm_insert tid (t\<lparr>tr_script := script, tr_guard := guard\<rparr>) (net_transitions net)\<rparr>)"
    using assms(2) by (auto simp: topology_update_script_def split: option.splits)
  let ?t = "t\<lparr>tr_script := script, tr_guard := guard\<rparr>"
  let ?trs = "hm_insert tid ?t (net_transitions net)"
  let ?net = "net\<lparr>net_transitions := ?trs\<rparr>"
  have mem: "(tid, t) \<in> set (net_transitions net)" using t(1) by (auto simp: get_transition_def dest: map_of_SomeD)
  have id: "tr_id t = tid" using assms(1) mem by (auto simp: net_wf_def list_all_iff)
  have sub: "set ?trs \<subseteq> insert (tid, ?t) (set (net_transitions net))"
    by (rule set_update_subset)
  have "net_wf ?net"
    using assms(1) sub id by (auto simp: net_wf_def list_all_iff distinct_update)
  moreover have "topology_step net ?net [p]" if "pe_event p = TransitionScriptUpdated tid script guard" for p
  proof -
    have "tr \<in> set (transitions_values net) \<or> tr = ?t" if "tr \<in> set (transitions_values ?net)" for tr
      using that sub by (auto simp: transitions_values_def)
    moreover have "t \<in> set (transitions_values net)" using mem by (force simp: transitions_values_def)
    ultimately show ?thesis unfolding topology_step_def using that id by fastforce
  qed
  ultimately show ?thesis using t(2) by blast
qed

lemma topology_step_init: "is_net_initialized (pe_event p) \<Longrightarrow> p \<in> set es \<Longrightarrow> topology_step net0 net es"
  by (auto simp: topology_step_def)

lemma topology_step_trans:
  assumes "topology_step net0 net1 es" and "topology_step net1 net2 [p]"
  shows "topology_step net0 net2 (es @ [p])"
proof (cases "\<exists>q \<in> set (es @ [p]). is_net_initialized (pe_event q)")
  case True
  then show ?thesis using topology_step_init by blast
next
  case False
  then have a: "net_arcs net1 = net_arcs net0" "net_arcs net2 = net_arcs net1"
    using assms by (auto simp: topology_step_def)
  define U where "U t xs \<longleftrightarrow> (\<exists>s g. TransitionScriptUpdated t s g \<in> pe_event ` set xs)" for t and xs :: "persisted_event list"
  have mono: "U t es \<Longrightarrow> U t (es @ [p])" "U t [p] \<Longrightarrow> U t (es @ [p])" for t
    by (auto simp: U_def)
  define kept where "kept n n' xs \<longleftrightarrow> (\<forall>tr \<in> set (transitions_values n').
      (\<exists>tr0 \<in> set (transitions_values n). tr_id tr0 = tr_id tr) \<and> (tr \<in> set (transitions_values n) \<or> U (tr_id tr) xs))"
    for n n' xs
  have "kept net0 net1 es" "kept net1 net2 [p]"
    using assms False unfolding topology_step_def kept_def U_def by auto
  then have "kept net0 net2 (es @ [p])" unfolding kept_def by (metis mono)
  then show ?thesis using a unfolding topology_step_def kept_def U_def by simp
qed

lemma memo_behind_step:
  assumes "memo_behind rh reg topo m es bm"
    and "case topo of None \<Rightarrow> is_net_initialized (pe_event p) | Some net1 \<Rightarrow> topology_step net1 net [p]"
  shows "memo_behind rh reg (Some net) m (es @ [p]) bm"
proof (cases topo)
  case None
  then show ?thesis using assms topology_step_init [of p "es @ [p]"] by (auto simp: memo_behind_def)
next
  case (Some net1)
  then show ?thesis using assms topology_step_trans [of _ net1 es net p] by (auto simp: memo_behind_def)
qed

lemma service_inv_topology:
  assumes inv: "service_inv R po h sv" and wf: "net_wf net" and R: "R (w_store w) (h @ [p])"
    and step: "case sv_topology sv of None \<Rightarrow> is_net_initialized (pe_event p) | Some net1 \<Rightarrow> topology_step net1 net [p]"
  shows "service_inv R po (h @ [p]) (sv_put_world w (sv\<lparr>sv_topology := Some net\<rparr>))"
proof -
  have b: "state_behind R (po_rhai po) (eval_schema_registry sv) (Some net) (h @ [p]) ((sv_state sv)\<lparr>es_world := w\<rparr>)"
  proof (cases "es_cache (sv_state sv)")
    case None
    then show ?thesis using R by (simp add: state_behind_def)
  next
    case (Some c)
    obtain n m where c: "c = (n, m)" by (cases c)
    have inv': "cache_ok h (Some (n, m))"
      "memo_behind (po_rhai po) (eval_schema_registry sv) (sv_topology sv) m (drop n h) (es_memo (sv_state sv))"
      using inv by (auto simp: service_inv_def state_behind_def Some c)
    then have n: "n \<le> length h" by (simp add: cache_ok_def)
    have "memo_behind (po_rhai po) (eval_schema_registry sv) (Some net) m (drop n (h @ [p])) (es_memo (sv_state sv))"
      using memo_behind_step [OF inv'(2) step] n by simp
    then show ?thesis using R cache_ok_extend [OF inv'(1), of "[p]"] by (simp add: state_behind_def Some c)
  qed
  have "eval_schema_registry (sv_put_world w (sv\<lparr>sv_topology := Some net\<rparr>)) = eval_schema_registry sv"
    by (simp add: eval_schema_registry_def sv_put_world_def)
  then show ?thesis using b wf inv by (simp add: service_inv_def)
qed

lemma put_world_topology:
  "sv_put_world w (sv\<lparr>sv_topology := t\<rparr>) = (sv_put_world w sv)\<lparr>sv_topology := t\<rparr>"
  by (simp add: sv_put_world_def)

context engine
begin

lemma append_event_eq:
  assumes "R (w_store (sv_world sv)) h" and "po_repo po = E" and "in_world (act_append (env_of po sv0) e) sv = (r, sv')"
  shows "\<exists>p w. r = Inr p \<and> pe_event p = e \<and> sv' = sv_put_world w sv \<and> R (w_store w) (h @ [p])"
proof -
  have "wp R (act_append (env_of po sv0) e) (sv_world sv) h (\<lambda>r w ps. \<exists>p. r = Inr p \<and> pe_event p = e \<and> ps = [p])"
    by (rule wp_append [OF _ assms(1)]) (auto simp: assms(2))
  then show ?thesis using assms(3) by (auto simp: wp_def in_world_def split: prod.splits)
qed

lemma initialize_inv:
  assumes "service_inv R po h sv" and "po_repo po = E" and "net_wf net" and "initialize po net sv = (r, sv')"
  shows "\<exists>p. r = Inr p \<and> pe_event p = NetInitialized net \<and> service_inv R po (h @ [p]) sv'"
proof -
  have R: "R (w_store (sv_world (sv\<lparr>sv_topology := Some net\<rparr>))) h"
    using service_inv_store [OF assms(1)] by (simp add: sv_world_def)
  have "in_world (act_append (env_of po (sv\<lparr>sv_topology := Some net\<rparr>)) (NetInitialized net))
      (sv\<lparr>sv_topology := Some net\<rparr>) = (r, sv')"
    using assms(4) by (simp add: initialize_def topology_set_def Let_def)
  then obtain p w where p: "r = Inr p" "pe_event p = NetInitialized net" "R (w_store w) (h @ [p])"
    "sv' = sv_put_world w (sv\<lparr>sv_topology := Some net\<rparr>)"
    using append_event_eq [OF R assms(2)] by blast
  have "case sv_topology sv of None \<Rightarrow> is_net_initialized (pe_event p) | Some net1 \<Rightarrow> topology_step net1 net [p]"
    using p(2) topology_step_init [of p "[p]"] by (simp split: option.splits)
  from service_inv_topology [OF assms(1,3) p(3) this] show ?thesis using p by blast
qed

lemma update_transition_script_inv:
  assumes "service_inv R po h sv" and "po_repo po = E"
    and "update_transition_script po tid script guard sv = (r, sv')"
  shows "\<exists>ps. service_inv R po (h @ ps) sv' \<and> (case r of Inl _ \<Rightarrow> ps = [] \<and> sv' = sv
    | Inr p \<Rightarrow> ps = [p] \<and> pe_event p = TransitionScriptUpdated tid script guard)"
proof -
  obtain found topo where up: "topology_update_script tid script guard (sv_topology sv) = (found, topo)" by force
  show ?thesis
  proof (cases "found \<and> compiles (po_rhai po) script guard = Inr ()")
    case False
    then have "topo = sv_topology sv \<or> r = Inl (projl (compiles (po_rhai po) script guard)) \<and> sv' = sv"
      using up assms(3) by (auto simp: topology_update_script_def update_transition_script_def split: option.splits sum.splits)
    then have "sv' = sv \<and> (\<exists>e. r = Inl e)"
      using False assms(3) up by (auto simp: update_transition_script_def split: sum.splits)
    then show ?thesis using assms(1) by (intro exI [of _ "[]"]) auto
  next
    case True
    then obtain net where net: "sv_topology sv = Some net" using up by (auto simp: topology_update_script_def split: option.splits)
    then have wf: "net_wf net" using assms(1) by (simp add: service_inv_def)
    obtain net' where net': "topo = Some net'" "net_wf net'"
      "\<And>p. pe_event p = TransitionScriptUpdated tid script guard \<Longrightarrow> topology_step net net' [p]"
      using update_script_net [OF wf, of tid script guard topo] up net True by auto
    have R: "R (w_store (sv_world (sv\<lparr>sv_topology := Some net'\<rparr>))) h"
      using service_inv_store [OF assms(1)] by (simp add: sv_world_def)
    have "in_world (act_append (env_of po (sv\<lparr>sv_topology := topo\<rparr>)) (TransitionScriptUpdated tid script guard))
        (sv\<lparr>sv_topology := Some net'\<rparr>) = (r, sv')"
      using assms(3) True up net'(1) by (simp add: update_transition_script_def Let_def)
    then obtain p w where p: "r = Inr p" "pe_event p = TransitionScriptUpdated tid script guard" "R (w_store w) (h @ [p])"
      "sv' = sv_put_world w (sv\<lparr>sv_topology := Some net'\<rparr>)"
      using append_event_eq [OF R assms(2)] by blast
    have "case sv_topology sv of None \<Rightarrow> is_net_initialized (pe_event p) | Some net1 \<Rightarrow> topology_step net1 net' [p]"
      using net net'(3) p(2) by simp
    from service_inv_topology [OF assms(1) net'(2) p(3) this] show ?thesis using p by (intro exI [of _ "[p]"]) auto
  qed
qed

lemma wipe_inv:
  assumes "service_inv R po h sv" and "po_repo po = E"
  shows "service_inv R po [] (wipe po sv)"
  using assms reset_law [OF service_inv_store [OF assms(1)]]
  by (simp add: service_inv_def state_behind_def wipe_def invalidate_cache_def eval_schema_registry_def sv_put_world_def)

lemma clear_inv:
  assumes "service_inv R po h sv" and "po_repo po = E"
  shows "service_inv R po [] (clear po sv)"
  unfolding clear_def
  by (rule service_inv_uncached [OF wipe_inv [OF assms]]) (simp_all add: wipe_def invalidate_cache_def)

lemma wp_restore_tokens:
  assumes "en_repo env = E" and "R (w_store w) h"
  shows "wp R (restore_tokens env ts) w h (\<lambda>r w' ps. r = Inr () \<and> list_all2 (\<lambda>(p, c) e. \<exists>t.
    pe_event e = TokenCreated t p None None None None \<and> tok_color t = c) ts ps)"
  using assms(2)
proof (induction ts arbitrary: w h)
  case Nil
  then show ?case by (auto intro!: wp_return)
next
  case (Cons x ts)
  obtain p c where x: "x = (p, c)" by (cases x)
  show ?case unfolding x restore_tokens.simps
  proof (rule wp_bind_quiet [where R = R, OF quietly_token_fresh Cons.prems], goal_cases)
    case (1 e w')
    then show ?case using token_fresh_total by blast
  next
    case (2 t w1)
    then have t: "tok_color t = c" using token_fresh_total by blast
    show ?case
      by (rule wp_bind_append [OF assms(1) 2(3)], rule wp_conseq, rule Cons.IH, assumption) (use t in auto)
  qed
qed

lemma reset_inv:
  assumes "service_inv R po h sv" and "po_repo po = E" and "reset po sv = (r, sv')"
  shows "\<exists>init ps. service_inv R po (init @ ps) sv' \<and> r = Inr () \<and>
    map pe_event init = (case sv_topology sv of Some net \<Rightarrow> [NetInitialized net] | None \<Rightarrow> []) \<and>
    list_all2 (\<lambda>(p, c) e. \<exists>t. pe_event e = TokenCreated t p None None None None \<and> tok_color t = c)
      (sv_initial_tokens sv) ps"
proof -
  let ?sv1 = "wipe po sv"
  have same: "sv_topology ?sv1 = sv_topology sv" "sv_initial_tokens ?sv1 = sv_initial_tokens sv"
    by (simp_all add: wipe_def invalidate_cache_def sv_put_world_def)
  note inv1 = wipe_inv [OF assms(1,2)]
  let ?env = "env_of po ?sv1"
  have E: "en_repo ?env = E" using assms(2) by simp
  have "wp R (act_bind (case topology_get (sv_topology ?sv1) of
          Some net \<Rightarrow> act_bind (act_append ?env (NetInitialized net)) (\<lambda>_. act_return ())
        | None \<Rightarrow> act_return ()) (\<lambda>_. restore_tokens ?env (sv_initial_tokens ?sv1))) (sv_world ?sv1) []
      (\<lambda>r w' es. \<exists>init ps. es = init @ ps \<and> r = Inr () \<and>
        map pe_event init = (case sv_topology sv of Some net \<Rightarrow> [NetInitialized net] | None \<Rightarrow> []) \<and>
        list_all2 (\<lambda>(p, c) e. \<exists>t. pe_event e = TokenCreated t p None None None None \<and> tok_color t = c)
          (sv_initial_tokens sv) ps)"
  proof (rule wp_bind [OF wp_conseq [where Q' = "\<lambda>r w' init. r = Inr () \<and>
      map pe_event init = (case sv_topology sv of Some net \<Rightarrow> [NetInitialized net] | None \<Rightarrow> [])"]], goal_cases)
    case 1
    show ?case
    proof (cases "sv_topology sv")
      case None
      then show ?thesis using service_inv_store [OF inv1] by (auto simp: same topology_get_def intro!: wp_return)
    next
      case (Some net)
      show ?thesis unfolding same topology_get_def Some option.case
        by (rule wp_bind_append [OF E service_inv_store [OF inv1]], rule wp_return) auto
    qed
  next
    case (2 r w' init)
    then have "wp R (restore_tokens ?env (sv_initial_tokens ?sv1)) w' init (\<lambda>r w' ps. r = Inr () \<and>
        list_all2 (\<lambda>(p, c) e. \<exists>t. pe_event e = TokenCreated t p None None None None \<and> tok_color t = c)
          (sv_initial_tokens ?sv1) ps)"
      using wp_restore_tokens [OF E] by simp
    then show ?case using 2 by (auto simp: same elim!: wp_conseq)
  qed
  from in_world_inv [OF inv1 this] assms(3) show ?thesis by (fastforce simp: reset_def Let_def)
qed

end

section \<open>Tokens, passes and the step relation\<close>

lemma dedup_index_world: "sv_world (sv\<lparr>sv_dedup_index := ix\<rparr>) = sv_world sv"
  "eval_schema_registry (sv\<lparr>sv_dedup_index := ix\<rparr>) = eval_schema_registry sv"
  by (simp_all add: sv_world_def eval_schema_registry_def)

lemma service_inv_set_index:
  "service_inv R po h sv \<Longrightarrow> dedup_inv d \<Longrightarrow> service_inv R po h (sv\<lparr>sv_dedup_index := Some d\<rparr>)"
  by (rule service_inv_frame [of R po h sv]) (simp_all add: dedup_index_world index_inv_def)

lemma service_inv_notify: "service_inv R po h (notify_eval sv) = service_inv R po h sv"
  by (simp add: service_inv_def notify_eval_def eval_schema_registry_def)

context engine
begin

lemma index_ensure_inv:
  assumes "service_inv R po h sv" and "po_repo po = E"
  shows "dedup_inv (index_ensure (po_repo po) (w_store (sv_world sv)) (sv_dedup_index sv))"
  using assms(2) seed_inv [OF service_inv_store [OF assms(1)]] service_inv_index [OF assms(1)]
  by (auto simp: index_ensure_def index_inv_def split: option.splits)

lemma seen_before_inv:
  assumes "service_inv R po h sv" and "po_repo po = E" and "seen_before po p did sv = (found, sv1)"
  shows "service_inv R po h sv1 \<and> sv_world sv1 = sv_world sv"
  using assms(3) service_inv_set_index [OF assms(1) index_ensure_inv [OF assms(1,2)]] assms(1)
  by (auto simp: seen_before_def index_get_def Let_def dedup_index_world split: option.splits if_splits)

lemma remember_inv:
  assumes "service_inv R po h sv" and "po_repo po = E"
  shows "service_inv R po h (remember po p did e sv)"
  using service_inv_set_index [OF assms(1) dedup_inv_insert [OF index_ensure_inv [OF assms]]] assms(1)
  by (auto simp: remember_def index_insert_def split: option.splits)

lemma create_token_inv:
  assumes "service_inv R po h sv" and "po_repo po = E"
    and "create_token_with_meta po p color routing key did sv = (r, sv')"
  shows "\<exists>ps. service_inv R po (h @ ps) sv' \<and> (case seen_before po p did sv of
      (Some e, _) \<Rightarrow> r = Inr e \<and> ps = []
    | (None, sv1) \<Rightarrow> created_outcome (env_of po sv1) p color routing key did (injection_registry sv1) r ps)"
proof -
  obtain found sv1 where sb: "seen_before po p did sv = (found, sv1)" by force
  have inv1: "service_inv R po h sv1" using seen_before_inv [OF assms(1,2) sb] by blast
  show ?thesis
  proof (cases found)
    case (Some e)
    then show ?thesis using assms(3) inv1 sb by (intro exI [of _ "[]"]) (auto simp: create_token_with_meta_def)
  next
    case None
    obtain r2 sv2 where iw: "in_world (tm_create_token_with_meta (env_of po sv1) p color routing key did
        (injection_registry sv1)) sv1 = (r2, sv2)" by force
    have "en_repo (env_of po sv1) = E" using assms(2) by simp
    from in_world_inv [OF inv1 wp_create_token [OF this service_inv_store [OF inv1]] iw]
    obtain ps where ps: "service_inv R po (h @ ps) sv2"
      "created_outcome (env_of po sv1) p color routing key did (injection_registry sv1) r2 ps" by blast
    have "r = r2 \<and> service_inv R po (h @ ps) sv'"
      using assms(3) ps(1) remember_inv [OF ps(1) assms(2)]
      by (auto simp: create_token_with_meta_def sb None iw service_inv_notify split: sum.splits)
    then show ?thesis using ps(2) sb None by auto
  qed
qed

text \<open>The shape of the commands that read the marking first.\<close>

lemma marked_command_inv:
  assumes "service_inv R po h sv" and "po_repo po = E"
    and "(case get_marking_cached po sv of (m, sv1) \<Rightarrow> in_world (f (env_of po sv1) m) sv1) = (r, sv')"
    and "\<And>env w. en_repo env = E \<Longrightarrow> en_topology env = sv_topology sv \<Longrightarrow> R (w_store w) h \<Longrightarrow>
      wp R (f env (project_marking h)) w h (\<lambda>r w'. Q r)"
  shows "\<exists>ps. service_inv R po (h @ ps) sv' \<and> Q r ps"
proof -
  obtain m sv1 where g: "get_marking_cached po sv = (m, sv1)" by force
  note m = get_marking_inv [OF assms(1,2) g]
  then have inv1: "service_inv R po h sv1" by blast
  have "wp R (f (env_of po sv1) m) (sv_world sv1) h (\<lambda>r w'. Q r)"
    using assms(2) assms(4) [of "env_of po sv1" "sv_world sv1"] m service_inv_store [OF inv1] by simp
  from in_world_inv [OF inv1 this] show ?thesis using assms(3) g by simp
qed

lemma remove_token_inv:
  assumes "service_inv R po h sv" and "po_repo po = E" and "sv_remove_token po p i cid why sv = (r, sv')"
  shows "\<exists>ps. service_inv R po (h @ ps) sv' \<and> (case r of Inl _ \<Rightarrow> ps = []
    | Inr e \<Rightarrow> ps = [e] \<and> (\<exists>t. is_target (env_of po sv) (project_marking h) p i cid t \<and>
        pe_event e = TokenRemoved (tok_id t) p why cid))"
proof (rule marked_command_inv [OF assms(1,2) assms(3) [unfolded sv_remove_token_def]], goal_cases)
  case (1 env w)
  then show ?case by (intro wp_conseq [OF wp_remove_token [OF 1(1,3)]]) (auto simp: is_target_def split: sum.splits)
qed

lemma update_token_inv:
  assumes "service_inv R po h sv" and "po_repo po = E" and "sv_update_token po p i cid color sv = (r, sv')"
  shows "\<exists>ps. service_inv R po (h @ ps) sv' \<and> (case r of Inl _ \<Rightarrow> ps = []
    | Inr e \<Rightarrow> ps = [e] \<and> (\<exists>t. is_target (env_of po sv) (project_marking h) p i cid t \<and>
        pe_event e = TokenUpdated (tok_id t) p color cid))"
proof (rule marked_command_inv [OF assms(1,2) assms(3) [unfolded sv_update_token_def]], goal_cases)
  case (1 env w)
  then show ?case by (intro wp_conseq [OF wp_update_token [OF 1(1,3)]]) (auto simp: is_target_def split: sum.splits)
qed

lemma sv_fire_inv:
  assumes "service_inv R po h sv" and "po_repo po = E" and "sv_fire_transition po tid sv = (r, sv')"
  shows "\<exists>ps. service_inv R po (h @ ps) sv' \<and> fires_once tid r ps"
proof (rule marked_command_inv [OF assms(1,2) assms(3) [unfolded sv_fire_transition_def]], goal_cases)
  case (1 env w)
  then have "\<And>net. en_topology env = Some net \<Longrightarrow> net_wf net" using assms(1) by (auto simp: service_inv_def)
  then show ?case by (intro wp_conseq [OF wp_fire_transition [OF 1(1,3)]]) (auto simp: fire_outcome_def)
qed

text \<open>A pass first reads the marking, which brings the state up to date.\<close>

lemma evaluate_loop_advanced:
  assumes "R (w_store (es_world st)) h" and "en_repo env = E" and "advance_state env st = (m, st1)"
    and "es_world st1 = es_world st" and "es_cache st1 = Some (length h, m)"
  shows "evaluate_loop env (Suc k) steps fired evs st1 = evaluate_loop env (Suc k) steps fired evs st"
    and "drain_loop env (Suc k) evs st1 = drain_loop env (Suc k) evs st"
proof -
  have "advance_state env st1 = (m, st1)" using advance_state_again [OF _ assms(2,5)] assms(1,4) by simp
  then show "evaluate_loop env (Suc k) steps fired evs st1 = evaluate_loop env (Suc k) steps fired evs st"
    "drain_loop env (Suc k) evs st1 = drain_loop env (Suc k) evs st"
    using assms(3) by simp_all
qed

lemma select_NoTopology: "select_next_transition rh None m reg memo ph = (Inl NoTopology, memo)"
  by (simp add: select_next_transition_def topology_get_def)

lemma pass_behind:
  assumes sb: "state_behind R (en_rhai env) (en_registry env) (en_topology env) h st" and E: "en_repo env = E"
    and wf: "\<And>net. en_topology env = Some net \<Longrightarrow> net_wf net"
    and ev: "evaluate_until_quiescent env k st = (r, st')"
  shows "\<exists>ps. state_behind R (en_rhai env) (en_registry env) (en_topology env) (h @ ps) st' \<and>
    (case en_topology env of None \<Rightarrow> ps = [] | Some net \<Rightarrow> pass_outcome env net h ps 0 k st' r)"
proof (cases k)
  case 0
  then show ?thesis using ev sb
    by (intro exI [of _ "[]"]) (auto simp: evaluate_until_quiescent_def pass_outcome_def pass_ok_def split: option.splits)
next
  case (Suc j)
  obtain m st1 where adv: "advance_state env st = (m, st1)" by force
  have R: "R (w_store (es_world st)) h" using sb by (simp add: state_behind_def)
  show ?thesis
  proof (cases "en_topology env")
    case None
    have "state_behind R (en_rhai env) (en_registry env) None h st1"
      using advance_behind_None [OF sb [unfolded None] E None adv] by blast
    then show ?thesis using ev Suc adv
      by (intro exI [of _ "[]"]) (auto simp: evaluate_until_quiescent_def None select_NoTopology)
  next
    case (Some net)
    have a: "m = project_marking h" "es_world st1 = es_world st" "es_cache st1 = Some (length h, project_marking h)"
      "eval_inv R env net h st1"
      using advance_behind_Some [OF sb [unfolded Some] E Some adv] by auto
    have "evaluate_loop env k 0 [] [] st1 = (r, st')"
      using ev evaluate_loop_advanced(1) [OF R E adv a(2)] a(1,3) by (simp add: evaluate_until_quiescent_def Suc)
    from evaluate_loop_inv [OF a(4) E Some wf [OF Some] _ _ _ this]
    obtain ps where ps: "eval_inv R env net (h @ ps) st'" "pass_outcome env net h ps 0 k st' r" by auto
    from eval_inv_behind [OF ps(1) Some] show ?thesis using ps(2) Some by (intro exI [of _ ps]) simp
  qed
qed

lemma drain_behind:
  assumes sb: "state_behind R (en_rhai env) (en_registry env) (en_topology env) h st" and E: "en_repo env = E"
    and wf: "\<And>net. en_topology env = Some net \<Longrightarrow> net_wf net"
    and dr: "drain_finalizers env st = (evs, st')"
  shows "\<exists>ps. state_behind R (en_rhai env) (en_registry env) (en_topology env) (h @ ps) st' \<and>
    (case en_topology env of None \<Rightarrow> ps = [] | Some net \<Rightarrow> drained env net h MAX_FINALIZER_STEPS ps st')"
proof -
  obtain m st1 where adv: "advance_state env st = (m, st1)" by force
  have R: "R (w_store (es_world st)) h" using sb by (simp add: state_behind_def)
  obtain j where j: "MAX_FINALIZER_STEPS = Suc j" by (simp add: MAX_FINALIZER_STEPS_def)
  show ?thesis
  proof (cases "en_topology env")
    case None
    have "state_behind R (en_rhai env) (en_registry env) None h st1"
      using advance_behind_None [OF sb [unfolded None] E None adv] by blast
    then show ?thesis using dr adv
      by (intro exI [of _ "[]"]) (auto simp: drain_finalizers_def j None select_NoTopology)
  next
    case (Some net)
    have a: "m = project_marking h" "es_world st1 = es_world st" "es_cache st1 = Some (length h, project_marking h)"
      "eval_inv R env net h st1"
      using advance_behind_Some [OF sb [unfolded Some] E Some adv] by auto
    have "drain_loop env MAX_FINALIZER_STEPS [] st1 = (evs, st')"
      using dr evaluate_loop_advanced(2) [OF R E adv a(2)] a(1,3) by (simp add: drain_finalizers_def j)
    then obtain ps where ps: "eval_inv R env net (h @ ps) st'" "drained env net h MAX_FINALIZER_STEPS ps st'"
      using drain_loop_inv [OF a(4) E Some wf [OF Some]] by blast
    from eval_inv_behind [OF ps(1) Some] show ?thesis using ps(2) Some by (intro exI [of _ ps]) simp
  qed
qed

lemma service_behind:
  assumes "service_inv R po h sv"
  shows "state_behind R (en_rhai (env_of po sv)) (en_registry (env_of po sv)) (en_topology (env_of po sv)) h (sv_state sv)"
    and "\<And>net. en_topology (env_of po sv) = Some net \<Longrightarrow> net_wf net"
  using assms by (auto simp: service_inv_def)

lemma service_inv_state:
  assumes "service_inv R po h sv"
    and "state_behind R (en_rhai (env_of po sv)) (en_registry (env_of po sv)) (en_topology (env_of po sv)) h' st"
  shows "service_inv R po h' (sv\<lparr>sv_state := st\<rparr>)"
proof -
  have "eval_schema_registry (sv\<lparr>sv_state := st\<rparr>) = eval_schema_registry sv" by (simp add: eval_schema_registry_def)
  then show ?thesis using assms by (simp add: service_inv_def)
qed

lemma sv_evaluate_inv:
  assumes "service_inv R po h sv" and "po_repo po = E" and "sv_evaluate_until_quiescent po k sv = (r, sv')"
  shows "\<exists>ps. service_inv R po (h @ ps) sv' \<and> (if sv_eval_lock sv then sv' = sv \<and> r = Inr busy_result
    else case sv_topology sv of None \<Rightarrow> ps = []
      | Some net \<Rightarrow> pass_outcome (env_of po sv) net h ps 0 k (sv_state sv') r)"
proof (cases "sv_eval_lock sv")
  case True
  then show ?thesis using assms by (intro exI [of _ "[]"]) (auto simp: sv_evaluate_until_quiescent_def)
next
  case False
  obtain st where ev: "evaluate_until_quiescent (env_of po sv) k (sv_state sv) = (r, st)" "sv' = sv\<lparr>sv_state := st\<rparr>"
    using assms(3) False by (auto simp: sv_evaluate_until_quiescent_def split: prod.splits)
  have "en_repo (env_of po sv) = E" using assms(2) by simp
  from pass_behind [OF service_behind(1) [OF assms(1)] this service_behind(2) [OF assms(1)] ev(1)]
  obtain ps where "state_behind R (en_rhai (env_of po sv)) (en_registry (env_of po sv)) (en_topology (env_of po sv))
      (h @ ps) st" "case sv_topology sv of None \<Rightarrow> ps = [] | Some net \<Rightarrow> pass_outcome (env_of po sv) net h ps 0 k st r"
    by auto
  then show ?thesis using service_inv_state [OF assms(1)] ev(2) False
    by (intro exI [of _ ps]) (auto split: option.splits)
qed

lemma sv_drain_inv:
  assumes "service_inv R po h sv" and "po_repo po = E" and "sv_drain_finalizers po sv = (evs, sv')"
  shows "\<exists>ps. service_inv R po (h @ ps) sv' \<and> (case sv_topology sv of None \<Rightarrow> ps = []
      | Some net \<Rightarrow> drained (env_of po sv) net h MAX_FINALIZER_STEPS ps (sv_state sv'))"
proof -
  obtain st where dr: "drain_finalizers (env_of po sv) (sv_state sv) = (evs, st)" "sv' = sv\<lparr>sv_state := st\<rparr>"
    using assms(3) by (auto simp: sv_drain_finalizers_def split: prod.splits)
  have "en_repo (env_of po sv) = E" using assms(2) by simp
  from drain_behind [OF service_behind(1) [OF assms(1)] this service_behind(2) [OF assms(1)] dr(1)]
  obtain ps where "state_behind R (en_rhai (env_of po sv)) (en_registry (env_of po sv)) (en_topology (env_of po sv))
      (h @ ps) st" "case sv_topology sv of None \<Rightarrow> ps = []
      | Some net \<Rightarrow> drained (env_of po sv) net h MAX_FINALIZER_STEPS ps st"
    by auto
  then show ?thesis using service_inv_state [OF assms(1)] dr(2)
    by (intro exI [of _ ps]) (auto split: option.splits)
qed

end

section \<open>Reachable services\<close>

datatype service_command =
    SetPreDispatch pre_dispatch_runtime defer_budgets
  | SetMode execution_mode
  | SetParameters json
  | RegisterHandler string effect_handler
  | SetWorkflow uuid
  | SetWorkspace string
  | SetNotify
  | SetInitialTokens "(place_id \<times> token_color) list"
  | SetRegistry schema_registry
  | SetConfig execution_config
  | SetSecrets secret_store
  | SetOptions dispatch_options
  | Clear
  | Initialize petri_net
  | UpdateScript transition_id string "string option"
  | CreateToken place_id token_color "reply_routing option" "string option" "string option"
  | RemoveToken place_id "token_id option" "string option" "string option"
  | UpdateToken place_id "token_id option" "string option" token_color
  | ReadMarking
  | FireTransition transition_id
  | Evaluate nat
  | DrainFinalizers
  | AppendEvent domain_event
  | Reset
  | InjectSignal string json
  | OtherTaskHoldsLock bool

fun exec :: "'st ports \<Rightarrow> service_command \<Rightarrow> 'st service \<Rightarrow> 'st service" where
  "exec po (SetPreDispatch rt b) sv = set_pre_dispatch_runtime rt b sv"
| "exec po (SetMode m) sv = set_execution_mode m sv"
| "exec po (SetParameters j) sv = set_net_parameters j sv"
| "exec po (RegisterHandler i eh) sv = snd (register_effect_handler i eh sv)"
| "exec po (SetWorkflow i) sv = set_workflow_id i sv"
| "exec po (SetWorkspace i) sv = set_workspace_id i sv"
| "exec po SetNotify sv = set_eval_notify sv"
| "exec po (SetInitialTokens ts) sv = set_initial_tokens ts sv"
| "exec po (SetRegistry reg) sv = set_schema_registry reg sv"
| "exec po (SetConfig c) sv = set_execution_config c sv"
| "exec po (SetSecrets st) sv = set_secret_store st sv"
| "exec po (SetOptions opts) sv = set_dispatch_options opts sv"
| "exec po Clear sv = clear po sv"
| "exec po (Initialize net) sv = snd (initialize po net sv)"
| "exec po (UpdateScript t s g) sv = snd (update_transition_script po t s g sv)"
| "exec po (CreateToken p c r k d) sv = snd (create_token_with_meta po p c r k d sv)"
| "exec po (RemoveToken p i c r) sv = snd (sv_remove_token po p i c r sv)"
| "exec po (UpdateToken p i c col) sv = snd (sv_update_token po p i c col sv)"
| "exec po ReadMarking sv = snd (get_marking_cached po sv)"
| "exec po (FireTransition t) sv = snd (sv_fire_transition po t sv)"
| "exec po (Evaluate n) sv = snd (sv_evaluate_until_quiescent po n sv)"
| "exec po DrainFinalizers sv = snd (sv_drain_finalizers po sv)"
| "exec po (AppendEvent e) sv = snd (append_event po e sv)"
| "exec po Reset sv = snd (reset po sv)"
| "exec po (InjectSignal s j) sv = snd (inject_signal po s j sv)"
| "exec po (OtherTaskHoldsLock b) sv = sv\<lparr>sv_eval_lock := b\<rparr>"

text \<open>
  Loaded nets are well formed, and the registry that gates enablement changes only while no
  marking is cached: the setters do not invalidate the memo, whose verdicts depend on it.
\<close>

fun admissible :: "service_command \<Rightarrow> 'st service \<Rightarrow> bool" where
  "admissible (Initialize net) sv = net_wf net"
| "admissible (SetRegistry reg) sv =
    (es_cache (sv_state sv) = None \<or> \<not> ec_validate_output_schemas (sv_execution_config sv))"
| "admissible (SetConfig c) sv =
    (es_cache (sv_state sv) = None \<or> sv_schema_registry sv = None \<or>
     ec_validate_output_schemas c = ec_validate_output_schemas (sv_execution_config sv))"
| "admissible _ sv = True"

inductive service_run :: "store_cfg \<Rightarrow> inner ports \<Rightarrow> inner service \<Rightarrow> bool" for c po where
  run_start: "w_store w = inner_empty c \<Longrightarrow> service_run c po (service_new w None)"
| run_step: "service_run c po sv \<Longrightarrow> admissible cmd sv \<Longrightarrow> service_run c po (exec po cmd sv)"

lemmas setter_defs = set_pre_dispatch_runtime_def set_execution_mode_def set_net_parameters_def
  set_workflow_id_def set_workspace_id_def set_eval_notify_def set_initial_tokens_def set_secret_store_def
  set_dispatch_options_def set_schema_registry_def set_execution_config_def

lemma setters_inv:
  assumes "service_inv R po h sv"
  shows "service_inv R po h (set_pre_dispatch_runtime rt b sv)" "service_inv R po h (set_execution_mode mode sv)"
    "service_inv R po h (set_net_parameters j sv)" "service_inv R po h (set_workflow_id i sv)"
    "service_inv R po h (set_workspace_id s sv)" "service_inv R po h (set_eval_notify sv)"
    "service_inv R po h (set_initial_tokens ts sv)" "service_inv R po h (set_secret_store st sv)"
    "service_inv R po h (set_dispatch_options opts sv)" "service_inv R po h (sv\<lparr>sv_eval_lock := lck\<rparr>)"
    "service_inv R po h (sv\<lparr>sv_effect_handlers := hs\<rparr>)"
  using service_inv_index [OF assms]
  by (auto intro!: service_inv_frame [OF assms]
      simp: setter_defs Let_def sv_world_def sv_put_world_def eval_schema_registry_def)

lemma registry_setters_inv:
  assumes "service_inv R po h sv"
  shows "admissible (SetRegistry reg) sv \<Longrightarrow> service_inv R po h (set_schema_registry reg sv)"
    and "admissible (SetConfig c) sv \<Longrightarrow> service_inv R po h (set_execution_config c sv)"
proof -
  note uncached = service_inv_uncached [OF assms]
  note frame = service_inv_frame [OF assms]
  note defs = set_schema_registry_def set_execution_config_def sv_world_def eval_schema_registry_def
    service_inv_index [OF assms]
  show "service_inv R po h (set_schema_registry reg sv)" if "admissible (SetRegistry reg) sv"
    using that by (cases "es_cache (sv_state sv)") (simp_all add: uncached frame defs)
  show "service_inv R po h (set_execution_config c sv)" if "admissible (SetConfig c) sv"
  proof (cases "es_cache (sv_state sv)")
    case (Some x)
    show ?thesis by (rule frame) (use that Some in \<open>auto simp: defs\<close>)
  qed (simp add: uncached defs)
qed

context engine
begin

lemma exec_inv:
  assumes "service_inv R po h sv" and "po_repo po = E" and "admissible cmd sv"
  shows "\<exists>h'. service_inv R po h' (exec po cmd sv)"
proof -
  note inv = assms(1,2)
  note pair = prod.collapse [symmetric]
  have create: "\<exists>h'. service_inv R po h' (snd (create_token_with_meta po p c r k d sv))" for p c r k d
    using create_token_inv [OF inv pair] by blast
  show ?thesis
  proof (cases cmd)
    case (RegisterHandler i eh)
    then show ?thesis using setters_inv(11) [OF assms(1)] assms(1)
      by (auto simp: register_effect_handler_def split: option.splits)
  next
    case (SetRegistry reg)
    then show ?thesis using registry_setters_inv(1) [OF assms(1)] assms(3) by auto
  next
    case (SetConfig c)
    then show ?thesis using registry_setters_inv(2) [OF assms(1)] assms(3) by auto
  next
    case (Initialize net)
    then show ?thesis using initialize_inv [OF inv _ pair] assms(3) by auto
  next
    case (UpdateScript t s g)
    then show ?thesis using update_transition_script_inv [OF inv pair] by (simp, blast)
  next
    case (CreateToken p c r k d)
    then show ?thesis using create by simp
  next
    case (RemoveToken p i c r)
    then show ?thesis using remove_token_inv [OF inv pair] by (simp, blast)
  next
    case (UpdateToken p i c col)
    then show ?thesis using update_token_inv [OF inv pair] by (simp, blast)
  next
    case ReadMarking
    then show ?thesis using get_marking_inv [OF inv pair] by (simp, blast)
  next
    case (FireTransition t)
    then show ?thesis using sv_fire_inv [OF inv pair] by (simp, blast)
  next
    case (Evaluate n)
    then show ?thesis using sv_evaluate_inv [OF inv pair] by (simp, blast)
  next
    case DrainFinalizers
    then show ?thesis using sv_drain_inv [OF inv pair] by (simp, blast)
  next
    case (AppendEvent e)
    obtain p w where "snd (append_event po e sv) = sv_put_world w sv" "R (w_store w) (h @ [p])"
      using append_event_eq [OF service_inv_store [OF assms(1)] assms(2) pair] unfolding append_event_def by blast
    then show ?thesis using service_inv_appended [OF assms(1)] AppendEvent by auto
  next
    case Reset
    then show ?thesis using reset_inv [OF inv pair] by (simp, blast)
  next
    case (InjectSignal s j)
    then show ?thesis using create assms(1)
      by (auto simp: inject_signal_def create_token_def split: sum.splits)
  qed (simp_all, (intro exI, rule setters_inv [OF assms(1)] clear_inv [OF inv])+)
qed

end

lemma service_run_inv:
  assumes "service_run c po sv" and "po_repo po = memory_repo c"
  shows "\<exists>h. service_inv (store_run c False False) po h sv"
  using assms(1)
proof induction
  case (run_start w)
  then show ?case using run_init [of c False False]
    by (intro exI [of _ "[]"]) (simp add: service_inv_def state_behind_def service_new_def index_inv_def memo_new_def)
next
  case (run_step sv cmd)
  then show ?case using eng.exec_inv assms(2) by blast
qed

end
