(* ===== verification/Service_Outcome.thy ===== *)
theory Service_Outcome
  imports Service_Invariant
begin

text \<open>
  What the commands of the service promise to their callers: the marking a reader sees, the
  idempotency of token creation while fewer other ids than the capacity of the index arrive,
  the state that a reset restores, and the token that a removal takes.
\<close>

section \<open>Retention in the index\<close>

lemma dedup_insert_other:
  assumes inv: "dedup_inv d" and k: "k \<in> set (bd_order d)" and n: "newer_than k d < bd_cap d" and "j \<noteq> k"
  shows "dedup_get (dedup_insert j e d) k = dedup_get d k"
  using inv
proof (cases rule: dedup_insert_cases [where k = j])
  case full
  obtain old rest where o: "bd_order d = old # rest" "old \<noteq> j"
    "dedup_insert j e d =
      d\<lparr>bd_map := AList.delete old (hm_insert j e (bd_map d)), bd_order := rest @ [j]\<rparr>"
    using dedup_insert_full [OF inv full] .
  have "length (bd_order d) = bd_cap d" using full dedup_inv_lengths [OF inv] by simp
  then have "old \<noteq> k" using n o(1) by (auto simp: newer_than_def)
  then show ?thesis using o(3) \<open>j \<noteq> k\<close> by (simp add: dedup_get_def map_of_delete_conv map_of_update_conv)
qed (use inv \<open>j \<noteq> k\<close> in \<open>auto simp: dedup_get_def dedup_insert_present dedup_insert_room map_of_update_conv\<close>)

lemma dedup_get_inserted:
  assumes inv: "dedup_inv d"
  shows "dedup_get (dedup_insert k e d) k = Some e"
  using inv
proof (cases rule: dedup_insert_cases [where k = k])
  case full
  obtain old rest where "old \<noteq> k"
    "dedup_insert k e d = d\<lparr>bd_map := AList.delete old (hm_insert k e (bd_map d)), bd_order := rest @ [k]\<rparr>"
    using dedup_insert_full [OF inv full] .
  then show ?thesis by (simp add: dedup_get_def map_of_delete_conv map_of_update_conv)
qed (use inv in \<open>auto simp: dedup_get_def dedup_insert_present dedup_insert_room map_of_update_conv\<close>)

text \<open>The index of the service holds a key for an event, with fewer than \<open>n\<close> newer ones.\<close>

definition holds_key :: "dedup_key \<Rightarrow> persisted_event \<Rightarrow> nat \<Rightarrow> 'st service \<Rightarrow> bool" where
  "holds_key k e n sv \<longleftrightarrow> (\<exists>d. sv_dedup_index sv = Some d \<and> dedup_inv d \<and> k \<in> set (bd_order d) \<and>
     dedup_get d k = Some e \<and> newer_than k d \<le> n \<and> n \<le> bd_cap d)"

lemma holds_key_seen:
  assumes "holds_key (p, i) e n sv" and "i \<noteq> []"
  shows "create_token_with_meta po p color routing key (Some i) sv = (Inr e, sv)"
  using assms by (auto simp: holds_key_def create_token_with_meta_def seen_before_def index_get_def index_ensure_def Let_def)

lemma in_world_index: "in_world f sv = (r, sv') \<Longrightarrow> sv_dedup_index sv' = sv_dedup_index sv"
  by (auto simp: in_world_def split: prod.splits)

lemma holds_key_create:
  assumes k: "holds_key k e n sv" and cap: "\<And>d. sv_dedup_index sv = Some d \<Longrightarrow> n < bd_cap d"
    and "create_token_with_meta po p color routing key did sv = (r, sv')"
  shows "holds_key k e (Suc n) sv' \<and> (\<forall>d d'. sv_dedup_index sv = Some d \<longrightarrow> sv_dedup_index sv' = Some d' \<longrightarrow>
    bd_cap d' = bd_cap d)"
proof -
  obtain d where d: "sv_dedup_index sv = Some d" "dedup_inv d" "k \<in> set (bd_order d)" "dedup_get d k = Some e"
    "newer_than k d \<le> n" "n < bd_cap d"
    using k cap by (auto simp: holds_key_def)
  obtain found sv1 where sb: "seen_before po p did sv = (found, sv1)" by force
  have d1: "sv_dedup_index sv1 = Some d"
    using sb d(1) by (auto simp: seen_before_def index_get_def index_ensure_def Let_def split: option.splits if_splits)
  obtain r2 sv2 where iw: "in_world (tm_create_token_with_meta (env_of po sv1) p color routing key did
      (injection_registry sv1)) sv1 = (r2, sv2)" by force
  have d2: "sv_dedup_index sv2 = Some d" using in_world_index [OF iw] d1 by simp
  have keep: "sv_dedup_index sv' = Some d \<or> (\<exists>i ev. did = Some i \<and> i \<noteq> [] \<and> found = None \<and>
      sv_dedup_index sv' = Some (dedup_insert (p, i) ev d))"
    using assms(3) d1 d2
    by (cases found; cases r2)
      (auto simp: create_token_with_meta_def sb iw remember_def notify_eval_def index_insert_def index_ensure_def
        split: option.splits if_splits)
  show ?thesis
  proof (cases "sv_dedup_index sv' = Some d")
    case True
    then show ?thesis using d by (auto simp: holds_key_def)
  next
    case False
    then obtain i ev where i: "did = Some i" "i \<noteq> []" "found = None" "sv_dedup_index sv' = Some (dedup_insert (p, i) ev d)"
      using keep by blast
    then have "(p, i) \<noteq> k" using sb d(1,4) by (auto simp: seen_before_def index_get_def index_ensure_def Let_def)
    then show ?thesis using newer_than_insert [OF d(2,3), of "(p, i)" ev] dedup_insert_other [OF d(2,3), of "(p, i)" ev] i(4) d
      by (auto simp: holds_key_def)
  qed
qed

type_synonym creation = "place_id \<times> token_color \<times> reply_routing option \<times> string option \<times> string option"

definition creates :: "'st ports \<Rightarrow> creation list \<Rightarrow> 'st service \<Rightarrow> 'st service" where
  "creates po cs sv = fold (\<lambda>(p, c, r, k, d) sv. snd (create_token_with_meta po p c r k d sv)) cs sv"

lemma holds_key_creates:
  assumes "holds_key k e n sv" and "sv_dedup_index sv = Some d" and "n + length cs \<le> bd_cap d"
  shows "\<exists>m. holds_key k e m (creates po cs sv)"
  using assms
proof (induction cs arbitrary: n d sv)
  case Nil
  then show ?case by (auto simp: creates_def)
next
  case (Cons c cs)
  obtain p col r k' did where c: "c = (p, col, r, k', did)" by (cases c)
  obtain x sv1 where x: "create_token_with_meta po p col r k' did sv = (x, sv1)" by force
  have cap: "\<And>d'. sv_dedup_index sv = Some d' \<Longrightarrow> n < bd_cap d'" using Cons.prems(2,3) by simp
  note step = holds_key_create [OF Cons.prems(1) cap x]
  then obtain d1 where d1: "sv_dedup_index sv1 = Some d1" by (auto simp: holds_key_def)
  then have "bd_cap d1 = bd_cap d" using step Cons.prems(2) by blast
  then have "Suc n + length cs \<le> bd_cap d1" using Cons.prems(3) by simp
  from Cons.IH [OF conjunct1 [OF step] d1 this] show ?case by (simp add: creates_def c x)
qed

context engine
begin

lemma created_holds_key:
  assumes "service_inv R po h sv" and "po_repo po = E" and "i \<noteq> []" and "fst (seen_before po p (Some i) sv) = None"
    and "create_token_with_meta po p color routing key (Some i) sv = (Inr e, sv1)"
  shows "holds_key (p, i) e 1 sv1"
proof -
  obtain sv0 where sb: "seen_before po p (Some i) sv = (None, sv0)" using assms(4) by (metis prod.collapse)
  define d where "d = index_ensure (po_repo po) (w_store (sv_world sv)) (sv_dedup_index sv)"
  have d: "dedup_inv d" using index_ensure_inv [OF assms(1,2)] by (simp add: d_def)
  have d0: "sv_dedup_index sv0 = Some d" "dedup_get d (p, i) = None"
    using sb assms(3) by (auto simp: seen_before_def index_get_def Let_def d_def)
  obtain r2 sv2 where iw: "in_world (tm_create_token_with_meta (env_of po sv0) p color routing key (Some i)
      (injection_registry sv0)) sv0 = (r2, sv2)" by force
  have "r2 = Inr e" "sv_dedup_index sv1 = Some (dedup_insert (p, i) e d)"
    using assms(3,5) in_world_index [OF iw] d0(1)
    by (auto simp: create_token_with_meta_def sb iw remember_def notify_eval_def index_insert_def index_ensure_def split: sum.splits)
  then show ?thesis using dedup_get_inserted [OF d] newer_than_fresh [OF d d0(2), of e] dedup_inv_insert [OF d, of "(p, i)" e] d
    by (auto simp: holds_key_def dedup_inv_def)
qed

end

section \<open>Restored markings\<close>

lemma project_created:
  assumes "list_all2 (\<lambda>(p, c) e. \<exists>t. pe_event e = TokenCreated t p None None None None \<and> tok_color t = c) ts ps"
  shows "map tok_color (tokens_at (project_onto m ps) q) =
    map tok_color (tokens_at m q) @ map snd (filter (\<lambda>(p, c). p = q) ts)"
  using assms
proof (induction ts ps arbitrary: m rule: list_all2_induct)
  case (Cons x ts e ps)
  obtain p c t where "x = (p, c)" "pe_event e = TokenCreated t p None None None None" "tok_color t = c"
    using Cons(1) by (auto split: prod.splits)
  then show ?case using Cons(3) [of "add_token p t m"] by (auto simp: project_onto_Cons)
qed simp

section \<open>A concrete service\<close>

definition demo_ports :: "inner ports" where
  "demo_ports = \<lparr>po_repo = memory_repo demo_cfg, po_rhai = demo_rhai, po_clock = int, po_uuid = (\<lambda>n. n + 100),
     po_uuid_text = (\<lambda>_. ''u'')\<rparr>"

definition demo_service :: "inner service" where
  "demo_service = exec demo_ports (Initialize demo_fire_net)
     (exec demo_ports (SetInitialTokens [(''p'', Unit)])
       (service_new (demo_world\<lparr>w_store := inner_empty demo_cfg\<rparr>) None))"

lemma demo_ports_repo: "po_repo demo_ports = memory_repo demo_cfg"
  by (simp add: demo_ports_def)

lemma demo_service_run: "service_run demo_cfg demo_ports demo_service"
  unfolding demo_service_def by (intro run_step run_start) (simp_all add: demo_env_net(2))

section \<open>Properties\<close>



text \<open>
  C32: Token creation is idempotent under redelivery: when a creation with a non-empty id that the
  index did not know has succeeded, then after any further creations, fewer than the capacity of
  the index, repeating it returns the first event and changes nothing, whatever colour, routing
  or signal key the redelivery carries.
\<close>

theorem create_token_idempotent:
  assumes "service_run c po sv" and "po_repo po = memory_repo c" and "i \<noteq> []"
    and "fst (seen_before po p (Some i) sv) = None"
    and "create_token_with_meta po p color routing key (Some i) sv = (Inr e, sv1)"
    and "sv_dedup_index sv1 = Some d" and "length others < bd_cap d"
  shows "create_token_with_meta po p color' routing' key' (Some i) (creates po others sv1) =
    (Inr e, creates po others sv1)"
proof -
  obtain h where "service_inv (store_run c False False) po h sv" using service_run_inv [OF assms(1,2)] by blast
  then have "holds_key (p, i) e 1 sv1" using eng.created_holds_key assms(2-5) by blast
  then obtain n where "holds_key (p, i) e n (creates po others sv1)"
    using holds_key_creates assms(6,7) by fastforce
  then show ?thesis using holds_key_seen assms(3) by blast
qed

theorem create_token_idempotent_witness:
  "let sv1 = snd (create_token_with_meta demo_ports ''p'' Unit None None (Some ''x'') demo_service)
   in snd (create_token_with_meta demo_ports ''p'' Unit None None (Some ''x'') sv1) = sv1"
proof -
  let ?x = "create_token_with_meta demo_ports ''p'' Unit None None (Some ''x'') demo_service"
  have "case fst ?x of Inl _ \<Rightarrow> False | Inr _ \<Rightarrow> True" by code_simp
  then obtain e where e: "fst ?x = Inr e" by (auto split: sum.splits)
  have "case sv_dedup_index (snd ?x) of None \<Rightarrow> False | Some d \<Rightarrow> 0 < bd_cap d" by code_simp
  then obtain d where d: "sv_dedup_index (snd ?x) = Some d" "length ([] :: creation list) < bd_cap d"
    by (auto split: option.splits)
  have new: "fst (seen_before demo_ports ''p'' (Some ''x'') demo_service) = None" by code_simp
  have "?x = (Inr e, snd ?x)" using e by (metis prod.collapse)
  from create_token_idempotent [OF demo_service_run demo_ports_repo _ new this d, of Unit None None]
  show ?thesis by (simp add: creates_def Let_def)
qed

text \<open>
  A reset restores the initial state: it succeeds, and afterwards every place holds exactly the
  initial tokens configured for it, in their order, and nothing else, whatever happened before.
\<close>

theorem reset_restores_initial:
  assumes "service_run c po sv" and "po_repo po = memory_repo c" and "reset po sv = (r, sv')"
  shows "r = Inr () \<and> map tok_color (tokens_at (fst (get_marking_cached po sv')) p) =
    map snd (filter (\<lambda>(q, color). q = p) (sv_initial_tokens sv))"
proof -
  obtain h where "service_inv (store_run c False False) po h sv" using service_run_inv [OF assms(1,2)] by blast
  from eng.reset_inv [OF this assms(2,3)] obtain init ps where
    inv: "service_inv (store_run c False False) po (init @ ps) sv'" and r: "r = Inr ()"
    and init: "map pe_event init = (case sv_topology sv of Some net \<Rightarrow> [NetInitialized net] | None \<Rightarrow> [])"
    and ps: "list_all2 (\<lambda>(p, c) e. \<exists>t. pe_event e = TokenCreated t p None None None None \<and> tok_color t = c)
      (sv_initial_tokens sv) ps"
    by blast
  have "fst (get_marking_cached po sv') = project_marking (init @ ps)"
    using eng.get_marking_inv [OF inv assms(2) prod.collapse [symmetric]] by simp
  moreover have "project_marking init = marking_new"
    using init by (auto simp: project_marking_def project_onto_Cons split: option.splits)
  ultimately show ?thesis using r project_created [OF ps, of marking_new p] by (simp add: project_marking_append)
qed

theorem reset_restores_initial_witness:
  "map tok_color (tokens_at (fst (get_marking_cached demo_ports (snd (reset demo_ports demo_service)))) ''p'') = [Unit]"
proof -
  have "sv_initial_tokens demo_service = [(''p'', Unit)]" by code_simp
  then show ?thesis
    using reset_restores_initial [OF demo_service_run demo_ports_repo prod.collapse [symmetric], of "''p''"] by simp
qed

text \<open>
  A removal takes exactly one token: when it succeeds, the log grows by one event and the place
  loses the first token that carries the id of a token found there under the given token id or
  correlation id; when it fails, the log and with it the marking are unchanged.
\<close>

theorem remove_token_takes_target:
  assumes "service_run c po sv" and "po_repo po = memory_repo c"
    and "sv_remove_token po p i cid why sv = (r, sv')"
  shows "\<exists>h ps. store_run c False False (w_store (sv_world sv)) h \<and>
    store_run c False False (w_store (sv_world sv')) (h @ ps) \<and>
    (case r of
       Inl _ \<Rightarrow> ps = []
     | Inr e \<Rightarrow> ps = [e] \<and> (\<exists>t \<in> set (tokens_at (project_marking h) p).
         (case i of Some j \<Rightarrow> tok_id t = j
          | None \<Rightarrow> (case cid of Some s \<Rightarrow> correlates s (tok_color t) | None \<Rightarrow> False)) \<and>
         ids_at (project_marking (h @ ps)) p = remove1 (tok_id t) (ids_at (project_marking h) p) \<and>
         (\<forall>q. q \<noteq> p \<longrightarrow> tokens_at (project_marking (h @ ps)) q = tokens_at (project_marking h) q)))"
proof -
  obtain h where h: "service_inv (store_run c False False) po h sv" using service_run_inv [OF assms(1,2)] by blast
  from eng.remove_token_inv [OF h assms(2,3)] obtain ps where
    ps: "service_inv (store_run c False False) po (h @ ps) sv'"
    "case r of Inl _ \<Rightarrow> ps = [] | Inr e \<Rightarrow> ps = [e] \<and> (\<exists>t. is_target (env_of po sv) (project_marking h) p i cid t \<and>
        pe_event e = TokenRemoved (tok_id t) p why cid)"
    by blast
  have "case r of Inl _ \<Rightarrow> ps = [] | Inr e \<Rightarrow> ps = [e] \<and> (\<exists>t \<in> set (tokens_at (project_marking h) p).
         (case i of Some j \<Rightarrow> tok_id t = j
          | None \<Rightarrow> (case cid of Some s \<Rightarrow> correlates s (tok_color t) | None \<Rightarrow> False)) \<and>
         ids_at (project_marking (h @ ps)) p = remove1 (tok_id t) (ids_at (project_marking h) p) \<and>
         (\<forall>q. q \<noteq> p \<longrightarrow> tokens_at (project_marking (h @ ps)) q = tokens_at (project_marking h) q))"
  proof (cases r)
    case (Inr e)
    then obtain t where "ps = [e]" "is_target (env_of po sv) (project_marking h) p i cid t"
      "pe_event e = TokenRemoved (tok_id t) p why cid" using ps(2) by auto
    then show ?thesis using Inr
      by (auto simp: is_target_def project_marking_append project_onto_Cons ids_take_out intro!: bexI [of _ t])
  qed (use ps(2) in simp)
  then show ?thesis using service_inv_store [OF h] service_inv_store [OF ps(1)] by blast
qed

definition demo_occupied :: "inner service" where
  "demo_occupied = exec demo_ports (CreateToken ''p'' Unit None None None) demo_service"

lemma demo_occupied_run: "service_run demo_cfg demo_ports demo_occupied"
  unfolding demo_occupied_def by (intro run_step demo_service_run) simp

theorem remove_token_takes_target_witness:
  "\<exists>h e. fst (sv_remove_token demo_ports ''p'' (Some 100) None None demo_occupied) = Inr e \<and>
    store_run demo_cfg False False
      (w_store (sv_world (snd (sv_remove_token demo_ports ''p'' (Some 100) None None demo_occupied)))) (h @ [e]) \<and>
    100 \<in> set (ids_at (project_marking h) ''p'')"
proof -
  let ?x = "sv_remove_token demo_ports ''p'' (Some 100) None None demo_occupied"
  have "case fst ?x of Inl _ \<Rightarrow> False | Inr _ \<Rightarrow> True" by code_simp
  then obtain e where e: "fst ?x = Inr e" by (auto split: sum.splits)
  show ?thesis using remove_token_takes_target [OF demo_occupied_run demo_ports_repo prod.collapse [of ?x, symmetric]] e
    by fastforce
qed

section \<open>What clearing leaves behind\<close>

text \<open>
  Clearing empties the log but not the index: a creation whose id was used before the clear is
  answered with an event of the discarded log and creates no token.
\<close>

lemma clear_keeps_index:
  assumes "holds_key (p, i) e n sv" and "i \<noteq> []"
  shows "create_token_with_meta po p color routing key (Some i) (clear po sv) = (Inr e, clear po sv)"
  using assms holds_key_seen [of p i e n "clear po sv"]
  by (simp add: holds_key_def clear_def wipe_def invalidate_cache_def sv_put_world_def)

lemma reset_keeps_index: "sv_dedup_index (snd (reset po sv)) = sv_dedup_index sv"
  by (simp add: reset_def Let_def in_world_def wipe_def invalidate_cache_def sv_put_world_def split: prod.splits)

text \<open>
  Switching schema validation off between two passes leaves the verdicts of the memo in place: the
  transition that the registry had disabled is enabled, yet the next pass finds nothing to fire.
\<close>

definition demo_strict_net :: petri_net where
  "demo_strict_net = add_arc (arc_output 1 ''go'' ''out'' ''o'') (add_arc (arc_input 0 ''p'' ''go'' ''a'')
     (snd (add_transition (demo_go\<lparr>tr_input_ports := [(port_new ''a'')\<lparr>port_schema_ref := Some ''s''\<rparr>]\<rparr>)
       (snd (add_place (place_internal ''o'') (snd (add_place (place_internal ''p'') net_new)))))))"

definition demo_strict :: "inner service" where
  "demo_strict = exec demo_ports (CreateToken ''p'' Unit None None None)
     (exec demo_ports (Initialize demo_strict_net)
       (exec demo_ports (SetRegistry [(''s'', \<lambda>_. Some ''no'')])
         (service_new (demo_world\<lparr>w_store := inner_empty demo_cfg\<rparr>) None)))"

definition demo_relaxed :: "inner service" where
  "demo_relaxed = set_execution_config \<lparr>ec_validate_output_schemas = False, ec_validate_injection_schemas = True\<rparr>
     (exec demo_ports (Evaluate 5) demo_strict)"

lemma config_change_leaves_memo:
  "fst (sv_is_enabled demo_ports ''go'' demo_relaxed) = Inr True"
  "case fst (sv_evaluate_until_quiescent demo_ports 5 demo_relaxed) of
     Inr res \<Rightarrow> ev_steps_executed res = 0 \<and> ev_final_state res = Quiescent | Inl _ \<Rightarrow> False"
  by code_simp+

end
