(* ===== verification/Binding_Join.thy ===== *)
theory Binding_Join
  imports Binding
begin

text \<open>
  The indexed join is equivalent to the full enumeration. The argument: the depth-first search
  with all indices as candidates is the enumeration of the product; candidates of a pinned arc
  may be cut to one because the binding does not depend on the index; candidates of a joined
  arc that are left out have a key that differs from a fixed partner's, so the guard fails on
  every completion. The guard enters through one hypothesis, the contract stated in
  \<^verbatim>\<open>src/engine/core-engine/crates/application/src/join_index.rs\<close>: an extracted equality is a
  necessary condition of the guard.
\<close>

section \<open>The unpruned search is the enumeration\<close>

lemma combo_search_leaf: "level \<ge> k \<Longrightarrow> combo_search cands leaf k level is = leaf is"
  by (subst combo_search.simps) simp

lemma combo_search_step:
  "level < k \<Longrightarrow> combo_search cands leaf k level is =
    first_some (\<lambda>c. combo_search cands leaf k (Suc level) (is[level := c])) (cands level is)"
  by (subst combo_search.simps) simp

lemma combo_search_product:
  assumes "length is = k" and "level \<le> k"
  shows "combo_search (\<lambda>l _. cs l) leaf k level is =
    first_some (\<lambda>suf. leaf (take level is @ suf)) (product_lists (map cs [level..<k]))"
  using assms
proof (induction "k - level" arbitrary: level "is")
  case 0
  then show ?case by (simp add: combo_search_leaf split: option.splits)
next
  case (Suc n)
  then have lt: "level < k" by simp
  have take_upd: "take (Suc level) (is[level := c]) = take level is @ [c]" for c
    using lt Suc.prems(1) by (simp add: take_Suc_conv_app_nth)
  have "combo_search (\<lambda>l _. cs l) leaf k (Suc level) (is[level := c]) =
      first_some (\<lambda>suf. leaf (take level is @ c # suf)) (product_lists (map cs [Suc level..<k]))" for c
    using Suc.hyps(1) [of "Suc level" "is[level := c]"] Suc.hyps(2) Suc.prems lt
    by (simp add: take_upd)
  then show ?case using lt
    by (simp add: combo_search_step upt_conv_Cons first_some_concat first_some_map)
qed

lemma product_lists_length: "xs \<in> set (product_lists xss) \<Longrightarrow> length xs = length xss"
  by (induction xss arbitrary: xs) auto

section \<open>Bindings and indices\<close>

lemma fold_opt_rel:
  assumes "list_all2 (\<lambda>x y. \<forall>s. f x s = f y s) xs ys"
  shows "fold_opt f xs s = fold_opt f ys s"
  using assms by (induction arbitrary: s rule: list_all2_induct) (auto split: option.splits)

lemma bind_slots_rel:
  assumes "list_all2 (\<lambda>x y. fst x = fst y \<and> (\<forall>b. bind_slot tr reg x b = bind_slot tr reg y b)) xs ys"
  shows "bind_slots tr reg xs = bind_slots tr reg ys"
proof -
  have f: "list_all2 (\<lambda>x y. \<forall>b. bind_slot tr reg x b = bind_slot tr reg y b)
      (filter (\<lambda>s. P (fst s)) xs) (filter (\<lambda>s. P (fst s)) ys)" for P
    using assms by (induction rule: list_all2_induct) auto
  show ?thesis unfolding bind_slots_fold
    by (rule fold_opt_rel) (intro list_all2_appendI f)
qed

lemma bind_slot_pinned:
  assumes "arc_pinned a" and "x < length ts" and "y < length ts"
  shows "bind_slot tr reg (a, ts, x) b = bind_slot tr reg (a, ts, y) b"
  using assms by (auto simp: bind_slot_def arc_pinned_def bind_normal_def split: option.splits)

lemma bind_slot_empty: "bind_slot tr reg (a, [], x) b = None"
  by (auto simp: bind_slot_def bind_drain_def bind_normal_def bind_gather_def Let_def
      gather_matching_def split: option.splits)

lemma bind_slots_fails:
  assumes "s \<in> set slots" and "\<And>b. bind_slot tr reg s b = None"
  shows "bind_slots tr reg slots = None"
  unfolding bind_slots_fold by (rule fold_opt_fails [of s]) (use assms in auto)

lemma build_binding_pinned:
  assumes "length arcs = length ats" and "length pre + length post + 1 = length arcs"
    and "arc_pinned (arcs ! length pre)"
    and "x < length (ats ! length pre)" and "y < length (ats ! length pre)"
  shows "build_binding_for_indices tr arcs ats (pre @ x # post) reg =
    build_binding_for_indices tr arcs ats (pre @ y # post) reg"
  unfolding build_binding_for_indices_def
proof (rule bind_slots_rel, rule list_all2_all_nthI)
  fix n
  assume "n < length (zip arcs (zip ats (pre @ x # post)))"
  then have n: "n < length arcs" by simp
  show "fst (zip arcs (zip ats (pre @ x # post)) ! n) = fst (zip arcs (zip ats (pre @ y # post)) ! n) \<and>
      (\<forall>b. bind_slot tr reg (zip arcs (zip ats (pre @ x # post)) ! n) b =
        bind_slot tr reg (zip arcs (zip ats (pre @ y # post)) ! n) b)"
    using n assms bind_slot_pinned [of "arcs ! n" x "ats ! n" y]
    by (cases "n = length pre") (auto simp: nth_append nth_Cons')
qed (use assms in simp)

lemma build_binding_empty_place:
  assumes "length arcs = length ats" and "length is = length arcs" and "[] \<in> set ats"
  shows "build_binding_for_indices tr arcs ats is reg = None"
proof -
  obtain n where n: "n < length ats" "ats ! n = []" using assms(3) by (auto simp: in_set_conv_nth)
  have "zip arcs (zip ats is) ! n \<in> set (zip arcs (zip ats is))"
    using n assms by (intro nth_mem) simp
  then have "(arcs ! n, [], is ! n) \<in> set (zip arcs (zip ats is))" using n assms by simp
  then show ?thesis unfolding build_binding_for_indices_def
    by (rule bind_slots_fails) (rule bind_slot_empty)
qed

text \<open>With distinct ports, an indexable arc's port holds the token its index selects.\<close>

lemma fold_slots_port:
  assumes "fold_opt (bind_slot tr reg) slots b = Some b'"
    and "distinct (map (arc_port \<circ> fst) slots)" and "(a, ts, i) \<in> set slots"
    and "\<not> arc_pinned a" and "port_cardinality_of tr (arc_port a) = Single"
  shows "i < length ts \<and> tb_port_inputs b' (arc_port a) = Some (tok_json (ts ! i))"
  using assms
proof (induction slots arbitrary: b)
  case (Cons s slots)
  then obtain c where c: "bind_slot tr reg s b = Some c" "fold_opt (bind_slot tr reg) slots c = Some b'"
    by (auto split: option.splits)
  show ?case
  proof (cases "s = (a, ts, i)")
    case True
    have own: "i < length ts \<and> tb_port_inputs c (arc_port a) = Some (tok_json (ts ! i))"
      using c(1) Cons.prems(4,5) bind_normal_effect [of tr reg a ts i b c]
      by (auto simp: True bind_slot_def arc_pinned_def)
    have others: "arc_port (fst s') \<noteq> arc_port a" if "s' \<in> set slots" for s'
      using Cons.prems(2) that True by (force simp: image_iff)
    have "tb_port_inputs b' (arc_port a) = tb_port_inputs c (arc_port a)"
      by (rule fold_opt_invariant [OF c(2)])
        (use others bind_slot_effect in \<open>fastforce simp: slot_effect_def\<close>)+
    then show ?thesis using own by simp
  next
    case False
    then show ?thesis using Cons.IH [OF c(2)] Cons.prems by simp
  qed
qed simp

lemma distinct_ports_split:
  assumes "distinct (map (arc_port \<circ> fst) slots)"
  shows "distinct (map (arc_port \<circ> fst) (filter (\<lambda>s. \<not> P (fst s)) slots @ filter (\<lambda>s. P (fst s)) slots))"
  using assms by (induction slots) (auto simp: image_iff)

lemma build_binding_port:
  assumes "build_binding_for_indices tr arcs ats is reg = Some b"
    and "distinct (map arc_port arcs)" and "length arcs = length ats" and "length is = length arcs"
    and "n < length arcs" and "arc_indexable tr (arcs ! n)"
  shows "is ! n < length (ats ! n) \<and>
    tb_port_inputs b (arc_port (arcs ! n)) = Some (tok_json (ats ! n ! (is ! n)))"
proof -
  let ?slots = "zip arcs (zip ats is)"
  have "?slots ! n \<in> set ?slots" using assms(3-5) by (intro nth_mem) simp
  then have mem: "(arcs ! n, ats ! n, is ! n) \<in> set ?slots" using assms(3-5) by simp
  have "map (arc_port \<circ> fst) ?slots = map arc_port arcs"
    using assms(3,4) by (simp flip: map_map)
  then have d: "distinct (map (arc_port \<circ> fst) ?slots)" using assms(2) by simp
  show ?thesis
    using fold_slots_port [OF assms(1) [unfolded build_binding_for_indices_def bind_slots_fold]
        distinct_ports_split [OF d, of is_gather], of "arcs ! n" "ats ! n" "is ! n"] mem assms(6)
    by (cases "arc_count_from (arcs ! n)") (auto simp: arc_indexable_def)
qed

section \<open>The plan\<close>

lemma fold_map_update:
  "fold (\<lambda>x m. m(x \<mapsto> f x)) xs m k = (if k \<in> set xs then Some (f k) else m k)"
  by (induction xs arbitrary: m) auto

lemma port_to_arc_Some:
  assumes "port_to_arc arcs p = Some i"
  shows "i < length arcs \<and> arc_port (arcs ! i) = p"
  using assms
proof (induction arcs arbitrary: i rule: rev_induct)
  case (snoc a arcs)
  have "port_to_arc (arcs @ [a]) = (port_to_arc arcs)(arc_port a \<mapsto> length arcs)"
    by (simp add: port_to_arc_def enumerate_append_eq)
  then show ?case using snoc by (auto simp: nth_append split: if_splits)
qed (simp add: port_to_arc_def)

abbreviation join_key :: "json \<Rightarrow> string list \<Rightarrow> string" where
  "join_key v path \<equiv> the (scalar_key (pluck_path v path))"

lemma build_index_matches:
  "(case build_index colors path key of None \<Rightarrow> [] | Some is \<Rightarrow> is) =
    filter (\<lambda>i. join_key (colors ! i) path = key) [0..<length colors]"
proof (induction colors rule: rev_induct)
  case (snoc v colors)
  let ?m = "build_index colors path"
  have "build_index (colors @ [v]) path = ?m(join_key v path \<mapsto>
      (case ?m (join_key v path) of Some is \<Rightarrow> is | None \<Rightarrow> []) @ [length colors])"
    by (simp add: build_index_def enumerate_append_eq Let_def)
  moreover have "filter (\<lambda>i. join_key ((colors @ [v]) ! i) path = key) [0..<length colors] =
      filter (\<lambda>i. join_key (colors ! i) path = key) [0..<length colors]"
    by (rule filter_cong) (auto simp: nth_append)
  ultimately show ?case using snoc by (auto split: option.splits)
qed (simp add: build_index_def)

lemma intersect_filters:
  assumes "sorted_wrt (<) xs"
  shows "intersect_sorted (filter P xs) (filter Q xs) = filter (\<lambda>x. P x \<and> Q x) xs"
  using assms
proof (induction xs)
  case (Cons x xs)
  have gt: "\<forall>y \<in> set xs. x < y" using Cons.prems by simp
  have l: "intersect_sorted (x # as) ys = intersect_sorted as ys" if "\<forall>y \<in> set ys. x < y" for as ys
    using that by (cases ys) (cases as, auto)
  have r: "intersect_sorted ys (x # as) = intersect_sorted ys as" if "\<forall>y \<in> set ys. x < y" for as ys
    using that by (cases ys) (cases as, auto)
  show ?case using Cons gt l [of "filter Q xs"] r [of "filter P xs"] by auto
qed simp

lemma fold_matches:
  assumes "\<And>e. e \<in> set edges \<Longrightarrow> f e = filter (M e) [0..<n]"
  shows "fold (\<lambda>e cand. let ms = f e in
      Some (case cand of None \<Rightarrow> ms | Some prev \<Rightarrow> intersect_sorted prev ms)) edges (Some (filter P [0..<n])) =
    Some (filter (\<lambda>c. P c \<and> (\<forall>e \<in> set edges. M e c)) [0..<n])"
  using assms
proof (induction edges arbitrary: P)
  case (Cons e edges)
  have "intersect_sorted (filter P [0..<n]) (f e) = filter (\<lambda>c. P c \<and> M e c) [0..<n]"
    using Cons.prems [of e] intersect_filters [of "[0..<n]"] by (simp add: strict_sorted_iff)
  then show ?case using Cons.IH [of "\<lambda>c. P c \<and> M e c"] Cons.prems by (simp add: Let_def conj_assoc)
qed simp

lemma fold_matches_None:
  assumes "\<And>e. e \<in> set edges \<Longrightarrow> f e = filter (M e) [0..<n]" and "edges \<noteq> []"
  shows "fold (\<lambda>e cand. let ms = f e in
      Some (case cand of None \<Rightarrow> ms | Some prev \<Rightarrow> intersect_sorted prev ms)) edges None =
    Some (filter (\<lambda>c. \<forall>e \<in> set edges. M e c) [0..<n])"
proof -
  obtain e es where e: "edges = e # es" using assms(2) by (cases edges) auto
  show ?thesis using fold_matches [of es f M n "M e"] assms(1) by (simp add: e Let_def)
qed

text \<open>What a plan that was built guarantees at each level.\<close>

definition edge_ok :: "transition \<Rightarrow> arc list \<Rightarrow> join_constraint list \<Rightarrow> nat \<Rightarrow> back_edge \<Rightarrow> bool" where
  "edge_ok tr arcs cons hi e \<longleftrightarrow> be_partner e < hi \<and> hi < length arcs \<and>
    arc_indexable tr (arcs ! hi) \<and> arc_indexable tr (arcs ! be_partner e) \<and>
    (\<exists>con \<in> set cons.
      jc_port_a con = arc_port (arcs ! be_partner e) \<and> jc_path_a con = be_partner_path e \<and>
      jc_port_b con = arc_port (arcs ! hi) \<and> jc_path_b con = be_self_path e \<or>
      jc_port_b con = arc_port (arcs ! be_partner e) \<and> jc_path_b con = be_partner_path e \<and>
      jc_port_a con = arc_port (arcs ! hi) \<and> jc_path_a con = be_self_path e)"

lemma join_edge_ok:
  assumes "join_edge tr arcs con = Some (hi, e)" and "con \<in> set cons"
  shows "edge_ok tr arcs cons hi e"
  using assms
  by (auto simp: join_edge_def edge_ok_def dest!: port_to_arc_Some split: option.splits if_splits)

definition edge_match :: "token list list \<Rightarrow> nat \<Rightarrow> nat list \<Rightarrow> back_edge \<Rightarrow> nat \<Rightarrow> bool" where
  "edge_match ats level is e c \<longleftrightarrow>
    join_key (tok_json (ats ! level ! c)) (be_self_path e) =
    join_key (tok_json (ats ! be_partner e ! (is ! be_partner e))) (be_partner_path e)"

lemma join_plan_candidates:
  assumes plan: "join_plan_build tr arcs ats cons = Some plan"
    and len: "length arcs = length ats" and level: "level < length arcs"
    and fixed: "\<And>i. i < level \<Longrightarrow> is ! i < length (ats ! i)"
  shows "(arc_pinned (arcs ! level) \<and> join_candidates plan ats level is = [0]) \<or>
    (\<exists>edges. (\<forall>e \<in> set edges. edge_ok tr arcs cons level e \<and>
        (\<forall>c < length (ats ! level). scalar_key (pluck_path (tok_json (ats ! level ! c)) (be_self_path e)) \<noteq> None) \<and>
        (\<forall>c < length (ats ! be_partner e).
          scalar_key (pluck_path (tok_json (ats ! be_partner e ! c)) (be_partner_path e)) \<noteq> None)) \<and>
      join_candidates plan ats level is =
        filter (\<lambda>c. \<forall>e \<in> set edges. edge_match ats level is e c) [0..<length (ats ! level)])"
proof -
  define edges where "edges = List.map_filter (join_edge tr arcs) cons"
  define bk where "bk = map snd (filter (\<lambda>(hi, _). hi = level) edges)"
  let ?colors = "map (map tok_json) ats"
  let ?needed = "map (\<lambda>(hi, e). (hi, be_self_path e)) edges"
  have scal: "list_all (\<lambda>(i, path). list_all (\<lambda>v. scalar_key (pluck_path v path) \<noteq> None) (?colors ! i))
      (?needed @ map (\<lambda>(hi, e). (be_partner e, be_partner_path e)) edges)"
    and p: "plan = \<lparr>
           jp_roles = map (\<lambda>(i, a).
             let bk = map snd (filter (\<lambda>(hi, _). hi = i) edges) in
             if arc_pinned a then Pinned else if bk \<noteq> [] then Joined bk else Free)
             (List.enumerate 0 arcs),
           jp_colors = ?colors,
           jp_maps = fold (\<lambda>(i, path) m. m((i, path) \<mapsto> build_index (?colors ! i) path))
             ?needed Map.empty\<rparr>"
    using plan by (auto simp: join_plan_build_def Let_def edges_def [symmetric] split: if_splits)
  have role: "jp_roles plan ! level =
      (if arc_pinned (arcs ! level) then Pinned else if bk \<noteq> [] then Joined bk else Free)"
    using level by (simp add: p nth_enumerate_eq bk_def)
  have ok: "edge_ok tr arcs cons level e" "(level, e) \<in> set edges" if "e \<in> set bk" for e
  proof -
    from that show e: "(level, e) \<in> set edges" by (auto simp: bk_def)
    then obtain con where "con \<in> set cons" "join_edge tr arcs con = Some (level, e)"
      unfolding edges_def by (auto dest!: map_filter_mem)
    then show "edge_ok tr arcs cons level e" using join_edge_ok by blast
  qed
  have sc1: "scalar_key (pluck_path (tok_json (ats ! level ! c)) (be_self_path e)) \<noteq> None"
    if "e \<in> set bk" "c < length (ats ! level)" for e c
    using scal ok(2) [OF that(1)] that(2) level len by (force simp: list_all_iff)
  have sc2: "scalar_key (pluck_path (tok_json (ats ! be_partner e ! c)) (be_partner_path e)) \<noteq> None"
    if "e \<in> set bk" "c < length (ats ! be_partner e)" for e c
  proof -
    have "be_partner e < length ats" using ok(1) [OF that(1)] len by (simp add: edge_ok_def)
    then show ?thesis using scal ok(2) [OF that(1)] that(2) by (force simp: list_all_iff)
  qed
  have matches: "edge_matches plan level is e =
      filter (edge_match ats level is e) [0..<length (ats ! level)]" if "e \<in> set bk" for e
  proof -
    have "be_partner e < level" using ok(1) [OF that] by (simp add: edge_ok_def)
    then have part: "be_partner e < length ats" "is ! be_partner e < length (ats ! be_partner e)"
      using fixed level len by auto
    have "jp_maps plan (level, be_self_path e) = Some (build_index (?colors ! level) (be_self_path e))"
      using ok(2) [OF that] fold_map_update [of "\<lambda>(i, path). build_index (?colors ! i) path" ?needed]
      by (force simp: p case_prod_unfold)
    then show ?thesis using level len part
      by (simp add: edge_matches_def Let_def build_index_matches p edge_match_def [abs_def])
        (rule filter_cong, auto)
  qed
  show ?thesis
  proof (cases "arc_pinned (arcs ! level)")
    case True
    then show ?thesis using role by (simp add: join_candidates_def)
  next
    case False
    have "join_candidates plan ats level is =
        filter (\<lambda>c. \<forall>e \<in> set bk. edge_match ats level is e c) [0..<length (ats ! level)]"
      using role False fold_matches_None [of bk "edge_matches plan level is" "edge_match ats level is"]
        matches by (cases "bk = []") (simp_all add: join_candidates_def)
    then show ?thesis using ok(1) sc1 sc2 by blast
  qed
qed

section \<open>Equivalence\<close>

text \<open>The contract of the extraction: an extracted equality is necessary for the guard.\<close>

definition joins_necessary :: "rhai \<Rightarrow> string \<Rightarrow> bool" where
  "joins_necessary rh g \<longleftrightarrow> (\<forall>inputs con va vb x y.
     evaluate_guard rh g inputs = Inr True \<and> con \<in> set (extract_join_constraints g) \<and>
     inputs (jc_port_a con) = Some va \<and> inputs (jc_port_b con) = Some vb \<and>
     scalar_key (pluck_path va (jc_path_a con)) = Some x \<and>
     scalar_key (pluck_path vb (jc_path_b con)) = Some y \<longrightarrow> x = y)"

lemma mismatch_fails:
  assumes nec: "joins_necessary rh g" and guard: "tr_guard tr = Some g"
    and ports: "distinct (map arc_port arcs)" and len: "length arcs = length ats"
    and lis: "length is = length arcs"
    and e: "edge_ok tr arcs (extract_join_constraints g) level e"
    and s1: "scalar_key (pluck_path (tok_json (ats ! level ! (is ! level))) (be_self_path e)) \<noteq> None"
    and s2: "scalar_key (pluck_path (tok_json (ats ! be_partner e ! (is ! be_partner e))) (be_partner_path e)) \<noteq> None"
    and mis: "\<not> edge_match ats level is e (is ! level)"
  shows "try_combination rh tr arcs ats reg is = None"
proof (rule ccontr)
  assume "try_combination rh tr arcs ats reg is \<noteq> None"
  then obtain b where b: "build_binding_for_indices tr arcs ats is reg = Some b"
    and ok: "evaluate_guard rh g (tb_port_inputs b) = Inr True"
    using guard by (auto simp: try_combination_def split: option.splits if_splits)
  have lv: "level < length arcs" "be_partner e < length arcs" using e by (auto simp: edge_ok_def)
  have p1: "tb_port_inputs b (arc_port (arcs ! level)) = Some (tok_json (ats ! level ! (is ! level)))"
    using build_binding_port [OF b ports len lis lv(1)] e by (simp add: edge_ok_def)
  have p2: "tb_port_inputs b (arc_port (arcs ! be_partner e)) =
      Some (tok_json (ats ! be_partner e ! (is ! be_partner e)))"
    using build_binding_port [OF b ports len lis lv(2)] e by (simp add: edge_ok_def)
  obtain x where x: "scalar_key (pluck_path (tok_json (ats ! level ! (is ! level))) (be_self_path e)) = Some x"
    using s1 by blast
  obtain y where y: "scalar_key (pluck_path (tok_json (ats ! be_partner e ! (is ! be_partner e)))
      (be_partner_path e)) = Some y"
    using s2 by blast
  have "x = y"
    using e nec [unfolded joins_necessary_def] ok p1 p2 x y unfolding edge_ok_def by metis
  then show False using mis x y by (simp add: edge_match_def)
qed

lemma join_search_level:
  assumes nec: "joins_necessary rh g" and guard: "tr_guard tr = Some g"
    and ports: "distinct (map arc_port arcs)" and len: "length arcs = length ats"
    and plan: "join_plan_build tr arcs ats (extract_join_constraints g) = Some plan"
    and full: "[] \<notin> set ats"
    and lis: "length is = length arcs" and level: "level \<le> length arcs"
    and fixed: "\<And>i. i < level \<Longrightarrow> is ! i < length (ats ! i)"
  shows "combo_search (join_candidates plan ats) (try_combination rh tr arcs ats reg) (length arcs) level is =
    combo_search (\<lambda>l _. [0..<length (ats ! l)]) (try_combination rh tr arcs ats reg) (length arcs) level is"
  using lis level fixed
proof (induction "length arcs - level" arbitrary: level "is")
  case 0
  then show ?case by (simp add: combo_search_leaf)
next
  case (Suc n)
  let ?leaf = "try_combination rh tr arcs ats reg"
  let ?all = "\<lambda>l _. [0..<length (ats ! l)]"
  let ?rest = "\<lambda>c. combo_search ?all ?leaf (length arcs) (Suc level) (is[level := c])"
  have lv: "level < length arcs" using Suc.hyps(2) by simp
  have pos: "0 < length (ats ! level)" using full lv len by (metis length_greater_0_conv nth_mem)
  have rest: "?rest c = first_some (\<lambda>suf. ?leaf (take level is @ c # suf))
      (product_lists (map (\<lambda>l. [0..<length (ats ! l)]) [Suc level..<length arcs]))" for c
    using combo_search_product [of "is[level := c]" "length arcs" "Suc level" "\<lambda>l. [0..<length (ats ! l)]"]
      Suc.prems(1) lv by (simp add: take_Suc_conv_app_nth)
  have IH: "combo_search (join_candidates plan ats) ?leaf (length arcs) (Suc level) (is[level := c]) = ?rest c"
    if "c < length (ats ! level)" for c
    by (rule Suc.hyps(1)) (use Suc.hyps(2) Suc.prems lv that in \<open>auto simp: nth_list_update less_Suc_eq\<close>)
  have suffix_len: "length suf = length arcs - Suc level"
    if "suf \<in> set (product_lists (map (\<lambda>l. [0..<length (ats ! l)]) [Suc level..<length arcs]))" for suf
    using product_lists_length [OF that] by simp
  consider (pinned) "arc_pinned (arcs ! level)" "join_candidates plan ats level is = [0]"
    | (joined) edges where "\<forall>e \<in> set edges. edge_ok tr arcs (extract_join_constraints g) level e \<and>
        (\<forall>c < length (ats ! level). scalar_key (pluck_path (tok_json (ats ! level ! c)) (be_self_path e)) \<noteq> None) \<and>
        (\<forall>c < length (ats ! be_partner e).
          scalar_key (pluck_path (tok_json (ats ! be_partner e ! c)) (be_partner_path e)) \<noteq> None)"
      "join_candidates plan ats level is =
        filter (\<lambda>c. \<forall>e \<in> set edges. edge_match ats level is e c) [0..<length (ats ! level)]"
    using join_plan_candidates [OF plan len lv Suc.prems(3)] by blast
  then have "first_some ?rest (join_candidates plan ats level is) = first_some ?rest [0..<length (ats ! level)]"
  proof cases
    case pinned
    have eq: "?rest c = ?rest 0" if "c < length (ats ! level)" for c
      unfolding rest
    proof (rule first_some_cong [OF refl])
      fix suf
      assume "suf \<in> set (product_lists (map (\<lambda>l. [0..<length (ats ! l)]) [Suc level..<length arcs]))"
      then show "?leaf (take level is @ c # suf) = ?leaf (take level is @ 0 # suf)"
        using build_binding_pinned [of arcs ats "take level is" suf c 0 tr reg] that pos pinned(1)
          len lv Suc.prems(1) suffix_len by (simp add: try_combination_def)
    qed
    have "first_some ?rest [0..<length (ats ! level)] = ?rest 0"
    proof (rule first_some_const)
      fix c
      assume "c \<in> set [0..<length (ats ! level)]"
      then show "?rest c = ?rest 0" by (intro eq) simp
    qed (use pos in simp)
    then show ?thesis using pinned(2) by (simp split: option.splits)
  next
    case joined
    have "?rest c = None" if c: "c < length (ats ! level)" and e: "e \<in> set edges"
      and mis: "\<not> edge_match ats level is e c" for c e
      unfolding rest first_some_None_iff
    proof
      fix suf
      assume "suf \<in> set (product_lists (map (\<lambda>l. [0..<length (ats ! l)]) [Suc level..<length arcs]))"
      then have l: "length (take level is @ c # suf) = length arcs"
        using suffix_len lv Suc.prems(1) by simp
      have part: "be_partner e < level" using joined(1) e by (auto simp: edge_ok_def)
      have same: "(take level is @ c # suf) ! level = c"
        "(take level is @ c # suf) ! be_partner e = is ! be_partner e"
        using part lv Suc.prems(1) by (simp_all add: nth_append)
      show "?leaf (take level is @ c # suf) = None"
        by (rule mismatch_fails [OF nec guard ports len l, of level e])
          (use joined(1) e c mis part Suc.prems(3) in \<open>auto simp: same edge_match_def\<close>)
    qed
    then show ?thesis unfolding joined(2) by (intro first_some_filter) auto
  qed
  moreover have "first_some (\<lambda>c. combo_search (join_candidates plan ats) ?leaf (length arcs) (Suc level)
      (is[level := c])) (join_candidates plan ats level is) =
      first_some ?rest (join_candidates plan ats level is)"
    by (rule first_some_cong [OF refl], rule IH)
      (use join_plan_candidates [OF plan len lv Suc.prems(3)] pos in auto)
  ultimately show ?case using lv by (simp add: combo_search_step)
qed

lemma search_all_search:
  assumes "length arcs = length ats"
  shows "combo_search (\<lambda>l _. [0..<length (ats ! l)]) (try_combination rh tr arcs ats reg) (length arcs) 0
    (replicate (length arcs) 0) = search_all rh tr arcs ats reg"
proof -
  have "map (\<lambda>l. [0..<length (ats ! l)]) [0..<length arcs] = map (\<lambda>n. [0..<n]) (map length ats)"
    by (rule nth_equalityI) (use assms in auto)
  then show ?thesis
    by (subst combo_search_product) (simp_all add: search_all_def combinations_product)
qed

lemma join_search_eq:
  assumes nec: "joins_necessary rh g" and guard: "tr_guard tr = Some g"
    and ports: "distinct (map arc_port arcs)" and len: "length arcs = length ats"
    and plan: "join_plan_build tr arcs ats (extract_join_constraints g) = Some plan"
  shows "join_search rh tr arcs ats reg plan = search_all rh tr arcs ats reg"
proof (cases "[] \<in> set ats")
  case False
  then show ?thesis
    using join_search_level [OF nec guard ports len plan False, of "replicate (length arcs) 0" 0 reg]
      search_all_search [OF len] by (simp add: join_search_def)
next
  case True
  have "combo_search cands (try_combination rh tr arcs ats reg) (length arcs) level is = None"
    if "length is = length arcs" for cands level "is"
    using that
  proof (induction "length arcs - level" arbitrary: level "is")
    case 0
    then show ?case using build_binding_empty_place [OF len _ True]
      by (simp add: combo_search_leaf try_combination_def)
  next
    case (Suc n)
    then show ?case by (simp add: combo_search_step first_some_None_iff)
  qed
  then show ?thesis using search_all_search [OF len, of rh tr reg] by (simp add: join_search_def)
qed

section \<open>Properties\<close>

text \<open>The search without the join: the last step of \<open>find_valid_binding\<close> alone.\<close>

definition find_valid_binding_ref :: "rhai \<Rightarrow> transition \<Rightarrow> arc list \<Rightarrow> marking \<Rightarrow> schema_registry option \<Rightarrow>
    token_binding option" where
  "find_valid_binding_ref rh tr arcs m reg =
    (let ats = map (\<lambda>a. tokens_at m (arc_place a)) arcs in
     if list_ex (\<lambda>a. arc_count_from a = None \<and> arc_drain_max a = None \<and>
          length (tokens_at m (arc_place a)) < arc_weight a) arcs then None
     else if arcs = [] then Some empty_binding
     else if tr_guard tr = None \<and> reg = None
       then build_binding_for_indices tr arcs ats (replicate (length arcs) 0) reg
     else if tr_guard tr = None \<and> build_binding_for_indices tr arcs ats (replicate (length arcs) 0) reg \<noteq> None
       then build_binding_for_indices tr arcs ats (replicate (length arcs) 0) reg
     else search_all rh tr arcs ats reg)"


lemma demo_joins_necessary: "joins_necessary demo_rhai ''a.k == b.k''"
proof -
  have con: "extract_join_constraints ''a.k == b.k'' =
      [\<lparr>jc_port_a = ''a'', jc_path_a = [''k''], jc_port_b = ''b'', jc_path_b = [''k'']\<rparr>]"
    by code_simp
  have fields: "map_of (json_fields_to_dynamic fs) k = map_option json_to_dynamic (map_of fs k)" for fs k
    by (induction fs) auto
  have str: "json_to_dynamic v = DString s \<longleftrightarrow> v = JString s" for v s
    by (cases v) (auto split: option.splits)
  have "x = y" if "evaluate_guard demo_rhai ''a.k == b.k'' inputs = Inr True"
    and "inputs ''a'' = Some va" and "inputs ''b'' = Some vb"
    and "scalar_key (pluck_path va [''k'']) = Some x" and "scalar_key (pluck_path vb [''k'']) = Some y"
    for inputs va vb x y
    using that
    by (cases va; cases vb)
      (auto simp: evaluate_guard_def demo_rhai_def build_scope_def fields str
        split: option.splits dynamic.splits sum.splits)
  then show ?thesis unfolding joins_necessary_def con by simp blast
qed


end
