(* ===== verification/Capability.thy ===== *)
theory Capability
  imports Rhai_Runtime
begin

text \<open>
  Placement by capability. The engine matches the requirements of a step against the
  capabilities a runner advertises with the script function \<open>satisfies\<close> of
  \<^verbatim>\<open>rhai_runtime.rs\<close>; \<^verbatim>\<open>src/shared/inference-core/src/capability.rs\<close> restates that
  matcher on JSON, and \<^verbatim>\<open>src/service/src/models/capability.rs\<close> checks runners at
  enrolment and steps at publication against the capability types of the workspace. The
  kinds of fields come from \<^verbatim>\<open>models/template/ports.rs\<close> and
  \<^verbatim>\<open>compiler/token_shape/port.rs\<close>. The lemmas show that the two matchers agree on the
  values both hold exactly, what each check accepts, and that what passed both checks is
  never turned down for a type.
\<close>

section \<open>The matcher on JSON\<close>

definition json_as_f64 :: "json \<Rightarrow> f64 option" where
  "json_as_f64 v = (case v of Number n \<Rightarrow> Some (as_f64 n) | _ \<Rightarrow> None)"

definition cap_json_eq :: "json \<Rightarrow> json \<Rightarrow> bool" where
  "cap_json_eq a b = (case (json_as_f64 a, json_as_f64 b) of
      (Some x, Some y) \<Rightarrow> f64_eq x y
    | _ \<Rightarrow> json_eq a b)"

definition cap_eval_op :: "string \<Rightarrow> json \<Rightarrow> json \<Rightarrow> bool" where
  "cap_eval_op op v expected =
    (if op = ''eq'' then cap_json_eq v expected
     else if op = ''neq'' then \<not> cap_json_eq v expected
     else if op \<in> {''gt'', ''gte'', ''lt'', ''lte''} then
       (case (json_as_f64 v, json_as_f64 expected) of
          (Some a, Some b) \<Rightarrow>
            (if op = ''gt'' then f64_lt b a
             else if op = ''gte'' then f64_lt b a \<or> f64_eq a b
             else if op = ''lt'' then f64_lt a b
             else f64_lt a b \<or> f64_eq a b)
        | _ \<Rightarrow> False)
     else if op = ''in'' then
       (case expected of JArray ms \<Rightarrow> list_ex (cap_json_eq v) ms | _ \<Rightarrow> False)
     else False)"

text \<open>\<open>get(k).and_then(as_str)\<close> and \<open>get(k).and_then(as_object)\<close>.\<close>

definition jget_str :: "string \<Rightarrow> fields \<Rightarrow> string option" where
  "jget_str k fs = (case map_of fs k of Some v \<Rightarrow> as_str v | None \<Rightarrow> None)"

definition jget_object :: "string \<Rightarrow> json \<Rightarrow> fields option" where
  "jget_object k v = (case jget k v of Some (JObject fs) \<Rightarrow> Some fs | _ \<Rightarrow> None)"

fun cap_satisfies_loop :: "json list \<Rightarrow> json \<Rightarrow> bool" where
  "cap_satisfies_loop [] caps = True"
| "cap_satisfies_loop (c # cs) caps = (case c of
      JObject constraint \<Rightarrow>
        (case jget_str ''capability'' constraint of
           None \<Rightarrow> False
         | Some capability \<Rightarrow>
             (case jget_str ''field'' constraint of
                None \<Rightarrow> False
              | Some field \<Rightarrow>
                  (case jget_str ''op'' constraint of
                     None \<Rightarrow> False
                   | Some op \<Rightarrow>
                       (case jget_object capability caps of
                          None \<Rightarrow> False
                        | Some cap_map \<Rightarrow>
                            (if op = ''exists'' then
                               (if map_of cap_map field = None then False else cap_satisfies_loop cs caps)
                             else (case map_of cap_map field of
                                 None \<Rightarrow> False
                               | Some v \<Rightarrow>
                                   if cap_eval_op op v (case map_of constraint ''value'' of
                                       Some x \<Rightarrow> x | None \<Rightarrow> Null)
                                   then cap_satisfies_loop cs caps else False))))))
    | _ \<Rightarrow> False)"

definition cap_satisfies :: "json \<Rightarrow> json \<Rightarrow> bool" where
  "cap_satisfies requirements caps = (case jget ''constraints'' requirements of
      Some (JArray cs) \<Rightarrow> if cs = [] then True else cap_satisfies_loop cs caps
    | _ \<Rightarrow> True)"

section \<open>Kinds of fields\<close>

datatype field_kind =
    KText | KTextarea | KNumber | KBool | KSelect | KFile | KSignature | KTimestamp | KJson
  | KObject | KArray

fun is_boolean :: "json \<Rightarrow> bool" where "is_boolean (Bool _) = True" | "is_boolean _ = False"
fun is_number :: "json \<Rightarrow> bool" where "is_number (Number _) = True" | "is_number _ = False"
fun is_string :: "json \<Rightarrow> bool" where "is_string (JString _) = True" | "is_string _ = False"
fun is_object :: "json \<Rightarrow> bool" where "is_object (JObject _) = True" | "is_object _ = False"
fun is_array :: "json \<Rightarrow> bool" where "is_array (JArray _) = True" | "is_array _ = False"

fun accepts :: "field_kind \<Rightarrow> json \<Rightarrow> bool" where
  "accepts KJson v = True"
| "accepts KBool v = is_boolean v"
| "accepts KNumber v = is_number v"
| "accepts KFile v = (is_string v \<or> is_object v)"
| "accepts KObject v = is_object v"
| "accepts KArray v = is_array v"
| "accepts _ v = is_string v"

section \<open>Capability types and enrolment\<close>

record capability_field =
  cf_name :: string
  cf_kind :: field_kind
  cf_required :: bool
  cf_options :: "string list option"

type_synonym known_capabilities = "string \<rightharpoonup> capability_field list"

text \<open>The errors stand for the message texts, by what the texts name.\<close>

datatype caps_error =
    UnknownCapability string
  | CapabilityNotObject string
  | MissingField string string
  | UnknownField string string
  | WrongType string string field_kind
  | NotAnOption string string string "string list"

fun check_required ::
  "string \<Rightarrow> capability_field list \<Rightarrow> fields \<Rightarrow> (caps_error, unit) result" where
  "check_required cap [] fm = Inr ()"
| "check_required cap (f # fs) fm =
    (if cf_required f \<and> map_of fm (cf_name f) = None then Inl (MissingField cap (cf_name f))
     else check_required cap fs fm)"

definition check_advertised ::
  "string \<Rightarrow> capability_field list \<Rightarrow> string \<times> json \<Rightarrow> (caps_error, unit) result" where
  "check_advertised cap specs = (\<lambda>(name, v).
    case List.find (\<lambda>f. cf_name f = name) specs of
      None \<Rightarrow> Inl (UnknownField cap name)
    | Some spec \<Rightarrow>
        if \<not> accepts (cf_kind spec) v then Inl (WrongType cap name (cf_kind spec))
        else if cf_kind spec = KSelect then
          (case (cf_options spec, as_str v) of
             (Some opts, Some s) \<Rightarrow>
               if s \<notin> set opts then Inl (NotAnOption cap name s opts) else Inr ()
           | _ \<Rightarrow> Inr ())
        else Inr ())"

text \<open>A loop that stops at the first error.\<close>

fun each_ok :: "('a \<Rightarrow> ('e, unit) result) \<Rightarrow> 'a list \<Rightarrow> ('e, unit) result" where
  "each_ok f [] = Inr ()"
| "each_ok f (x # xs) = (case f x of Inl e \<Rightarrow> Inl e | Inr _ \<Rightarrow> each_ok f xs)"

definition check_capability ::
  "known_capabilities \<Rightarrow> string \<times> json \<Rightarrow> (caps_error, unit) result" where
  "check_capability types = (\<lambda>(cap, v).
    case types cap of
      None \<Rightarrow> Inl (UnknownCapability cap)
    | Some specs \<Rightarrow>
        (case v of
           JObject fm \<Rightarrow>
             (case check_required cap specs fm of
                Inl e \<Rightarrow> Inl e
              | Inr _ \<Rightarrow> each_ok (check_advertised cap specs) fm)
         | _ \<Rightarrow> Inl (CapabilityNotObject cap)))"

definition validate_caps_against_types ::
  "json \<Rightarrow> known_capabilities \<Rightarrow> (caps_error, unit) result" where
  "validate_caps_against_types caps types = (case caps of
      JObject m \<Rightarrow> if m = [] then Inr () else each_ok (check_capability types) m
    | _ \<Rightarrow> Inr ())"

section \<open>Requirements and publication\<close>

datatype constraint_op = OpEq | OpNeq | OpGt | OpGte | OpLt | OpLte | OpIn | OpExists

record constraint =
  co_capability :: string
  co_field :: string
  co_op :: constraint_op
  co_value :: json

fun op_wire :: "constraint_op \<Rightarrow> string" where
  "op_wire OpEq = ''eq''"
| "op_wire OpNeq = ''neq''"
| "op_wire OpGt = ''gt''"
| "op_wire OpGte = ''gte''"
| "op_wire OpLt = ''lt''"
| "op_wire OpLte = ''lte''"
| "op_wire OpIn = ''in''"
| "op_wire OpExists = ''exists''"

datatype op_mismatch =
    NumericOpOnKind constraint_op field_kind
  | NumericOpOnValue constraint_op json
  | InNotArray
  | InMember json field_kind
  | ValueNotAccepted json field_kind

definition op_value_incompatibility ::
  "field_kind \<Rightarrow> constraint_op \<Rightarrow> json \<Rightarrow> op_mismatch option" where
  "op_value_incompatibility kind op v = (case op of
      OpExists \<Rightarrow> None
    | OpIn \<Rightarrow> (case v of
          JArray ms \<Rightarrow> map_option (\<lambda>m. InMember m kind) (List.find (\<lambda>m. \<not> accepts kind m) ms)
        | _ \<Rightarrow> Some InNotArray)
    | OpEq \<Rightarrow> if accepts kind v then None else Some (ValueNotAccepted v kind)
    | OpNeq \<Rightarrow> if accepts kind v then None else Some (ValueNotAccepted v kind)
    | _ \<Rightarrow> if kind \<noteq> KNumber then Some (NumericOpOnKind op kind)
        else if \<not> is_number v then Some (NumericOpOnValue op v)
        else None)"

datatype requirement_error =
    UndefinedRequirementCapability string string
  | UnknownRequirementField string string string
  | RequirementTypeMismatch string string string op_mismatch

definition validate_one_constraint ::
  "string \<Rightarrow> constraint \<Rightarrow> known_capabilities \<Rightarrow> requirement_error list \<Rightarrow> requirement_error list" where
  "validate_one_constraint node c registry errors = (case registry (co_capability c) of
      None \<Rightarrow> errors @ [UndefinedRequirementCapability node (co_capability c)]
    | Some specs \<Rightarrow>
        (case List.find (\<lambda>f. cf_name f = co_field c) specs of
           None \<Rightarrow> errors @ [UnknownRequirementField node (co_capability c) (co_field c)]
         | Some spec \<Rightarrow>
             if co_op c = OpExists then errors
             else (case op_value_incompatibility (cf_kind spec) (co_op c) (co_value c) of
                 Some m \<Rightarrow> errors @ [RequirementTypeMismatch node (co_capability c) (co_field c) m]
               | None \<Rightarrow> errors)))"

text \<open>A node is known here by its id and, for an automated step, its requirements.\<close>

datatype step_data = AutomatedStep "constraint list option" | OtherNode

definition validate_requirements_against_registry ::
  "(string \<times> step_data) list \<Rightarrow> known_capabilities \<Rightarrow> requirement_error list" where
  "validate_requirements_against_registry nodes registry =
    fold (\<lambda>(node, d) errors. case d of
        AutomatedStep (Some cs) \<Rightarrow> fold (\<lambda>c. validate_one_constraint node c registry) cs errors
      | _ \<Rightarrow> errors) nodes []"

text \<open>The wire form of a constraint, and the matcher on typed constraints.\<close>

definition constraint_json :: "constraint \<Rightarrow> json" where
  "constraint_json c = JObject [(''capability'', JString (co_capability c)),
    (''field'', JString (co_field c)), (''op'', JString (op_wire (co_op c))), (''value'', co_value c)]"

definition caps_satisfy_constraints :: "constraint list \<Rightarrow> json \<Rightarrow> bool" where
  "caps_satisfy_constraints cs caps =
    cap_satisfies (JObject [(''constraints'', JArray (map constraint_json cs))]) caps"


section \<open>Agreement of the two matchers\<close>

lemma to_json_value_roundtrip:
  "json_exact v \<Longrightarrow> dynamic_to_json_value (json_to_dynamic v) = v"
  "json_list_exact vs \<Longrightarrow> dynamic_list_to_json_value (json_list_to_dynamic vs) = vs"
  "json_fields_exact fs \<Longrightarrow> obj_sorted (acc @ fs) \<Longrightarrow>
    dynamic_fields_to_json_value (json_fields_to_dynamic fs) acc = acc @ fs"
proof (induction v and vs and fs arbitrary: and and acc
    rule: json_to_dynamic_json_list_to_dynamic_json_fields_to_dynamic.induct)
  case (3 n)
  then show ?case using unat_small_nonneg by (cases n) (auto simp: number_of_i64_def)
next
  case (10 k x fs)
  have "obj_insert k x acc = acc @ [(k, x)]"
    using "10.prems"(2) by (intro obj_insert_last) (auto simp: sorted_wrt_append)
  then show ?case using 10 by simp
qed simp_all

lemma dynamic_as_f64_conv: "dynamic_as_f64 (json_to_dynamic v) = json_as_f64 v"
proof (cases v)
  case (Number n)
  then show ?thesis
    using unat_small_nonneg by (cases n) (auto simp: json_as_f64_def f64_of_i64_def)
qed (auto simp: json_as_f64_def)

lemma json_list_to_dynamic_map: "json_list_to_dynamic xs = map json_to_dynamic xs"
  by (induction xs) auto

lemma json_fields_to_dynamic_map: "json_fields_to_dynamic fs = map (\<lambda>(k, v). (k, json_to_dynamic v)) fs"
  by (induction fs) auto

lemma map_of_fields_conv:
  "map_of (json_fields_to_dynamic fs) k = map_option json_to_dynamic (map_of fs k)"
  by (simp add: json_fields_to_dynamic_map map_of_map)

lemma json_list_exact_all: "json_list_exact xs \<longleftrightarrow> (\<forall>x \<in> set xs. json_exact x)"
  by (induction xs) auto

lemma json_fields_exact_get: "json_fields_exact fs \<Longrightarrow> map_of fs k = Some v \<Longrightarrow> json_exact v"
  by (induction fs) (auto split: if_splits)

lemma dynamic_eq_conv:
  "json_exact a \<Longrightarrow> json_exact b \<Longrightarrow>
    dynamic_eq (json_to_dynamic a) (json_to_dynamic b) = cap_json_eq a b"
  by (simp add: dynamic_eq_def cap_json_eq_def dynamic_as_f64_conv to_json_value_roundtrip
      split: option.split)

lemma json_to_dynamic_array:
  "(case json_to_dynamic v of DArray ms \<Rightarrow> f ms | _ \<Rightarrow> z) =
    (case v of JArray ms \<Rightarrow> f (map json_to_dynamic ms) | _ \<Rightarrow> z)"
  by (cases v) (auto simp: json_list_to_dynamic_map split: option.splits)

lemma eval_op_conv:
  assumes "json_exact v" and "json_exact e"
  shows "eval_op op (json_to_dynamic v) (json_to_dynamic e) = cap_eval_op op v e"
proof -
  have members: "list_ex (dynamic_eq (json_to_dynamic v)) (map json_to_dynamic ms) =
      list_ex (cap_json_eq v) ms" if "e = JArray ms" for ms
    using assms that by (auto simp: list_ex_iff json_list_exact_all dynamic_eq_conv)
  show ?thesis
    unfolding eval_op_def cap_eval_op_def dynamic_as_f64_conv dynamic_eq_conv [OF assms]
      json_to_dynamic_array
    using members by (auto split: json.splits)
qed

lemma get_string_conv: "get_string k (json_fields_to_dynamic fs) = jget_str k fs"
proof (cases "map_of fs k")
  case (Some v)
  then show ?thesis
    by (cases v) (auto simp: get_string_def jget_str_def map_of_fields_conv split: option.splits)
qed (simp add: get_string_def jget_str_def map_of_fields_conv)

lemma get_map_conv:
  "(case map_of (json_fields_to_dynamic caps) k of Some (DMap m) \<Rightarrow> f m | _ \<Rightarrow> False) =
    (case jget_object k (JObject caps) of
       None \<Rightarrow> False | Some m \<Rightarrow> f (json_fields_to_dynamic m))"
proof (cases "map_of caps k")
  case (Some v)
  then show ?thesis
    by (cases v) (auto simp: jget_object_def map_of_fields_conv split: option.splits)
qed (simp add: jget_object_def map_of_fields_conv)

lemma jget_object_exact:
  "json_fields_exact caps \<Longrightarrow> jget_object k (JObject caps) = Some m \<Longrightarrow> json_fields_exact m"
  by (auto simp: jget_object_def split: option.splits json.splits dest: json_fields_exact_get)

lemma satisfies_loop_conv:
  "json_list_exact cs \<Longrightarrow> json_fields_exact caps \<Longrightarrow>
    satisfies_loop (json_list_to_dynamic cs) (json_fields_to_dynamic caps) =
    cap_satisfies_loop cs (JObject caps)"
proof (induction cs)
  case (Cons c cs)
  then have IH: "satisfies_loop (json_list_to_dynamic cs) (json_fields_to_dynamic caps) =
      cap_satisfies_loop cs (JObject caps)" by simp
  show ?case
  proof (cases c)
    case (JObject fs)
    have value_conv: "(case map_option json_to_dynamic (map_of fs ''value'') of Some x \<Rightarrow> x | None \<Rightarrow> DUnit) =
        json_to_dynamic (case map_of fs ''value'' of Some x \<Rightarrow> x | None \<Rightarrow> Null)"
      by (simp split: option.split)
    have expected: "json_exact (case map_of fs ''value'' of Some x \<Rightarrow> x | None \<Rightarrow> Null)"
      using Cons.prems(1) JObject by (auto split: option.split dest: json_fields_exact_get)
    have body: "(if op = ''exists'' then
          (if map_option json_to_dynamic (map_of m field) = None then False else R)
        else (case map_option json_to_dynamic (map_of m field) of
            None \<Rightarrow> False
          | Some v \<Rightarrow> if eval_op op v (json_to_dynamic
              (case map_of fs ''value'' of Some x \<Rightarrow> x | None \<Rightarrow> Null)) then R else False)) =
        (if op = ''exists'' then (if map_of m field = None then False else R)
        else (case map_of m field of
            None \<Rightarrow> False
          | Some v \<Rightarrow> if cap_eval_op op v
              (case map_of fs ''value'' of Some x \<Rightarrow> x | None \<Rightarrow> Null) then R else False))"
      if "json_fields_exact m" for op m field R
    proof (cases "map_of m field")
      case (Some v)
      then have "json_exact v" using that json_fields_exact_get by blast
      then show ?thesis using Some eval_op_conv expected by simp
    qed simp
    show ?thesis
      unfolding JObject json_list_to_dynamic.simps json_to_dynamic.simps satisfies_loop.simps
        cap_satisfies_loop.simps dynamic.case json.case get_string_conv get_map_conv
      unfolding map_of_fields_conv value_conv IH
      by (intro option.case_cong refl body) (rule jget_object_exact [OF Cons.prems(2)])
  qed (auto split: option.split)
qed simp

lemma satisfies_conv:
  assumes "json_exact (JObject rs)" and "json_exact (JObject caps)"
  shows "cap_satisfies (JObject rs) (JObject caps) =
    satisfies_impl (json_fields_to_dynamic rs) (json_fields_to_dynamic caps)"
proof (cases "map_of rs ''constraints''")
  case (Some v)
  have "json_exact v" using assms(1) Some by (auto dest: json_fields_exact_get)
  then show ?thesis
    using Some assms(2) satisfies_loop_conv
    by (cases v) (auto simp: cap_satisfies_def satisfies_impl_def map_of_fields_conv
        json_list_to_dynamic_map split: option.split)
qed (simp add: cap_satisfies_def satisfies_impl_def map_of_fields_conv)

section \<open>What the checks accept\<close>

lemma each_ok_iff: "each_ok f xs = Inr () \<longleftrightarrow> (\<forall>x \<in> set xs. f x = Inr ())"
  by (induction xs) (auto split: sum.splits)

lemma check_required_iff:
  "check_required cap specs fm = Inr () \<longleftrightarrow>
    (\<forall>f \<in> set specs. cf_required f \<longrightarrow> map_of fm (cf_name f) \<noteq> None)"
  by (induction specs) auto

text \<open>The declaration a field name resolves to, and what it allows.\<close>

definition field_spec :: "known_capabilities \<Rightarrow> string \<Rightarrow> string \<Rightarrow> capability_field option" where
  "field_spec types cap name = (case types cap of
      None \<Rightarrow> None | Some specs \<Rightarrow> List.find (\<lambda>f. cf_name f = name) specs)"

definition allowed_value :: "capability_field \<Rightarrow> json \<Rightarrow> bool" where
  "allowed_value spec v \<longleftrightarrow> accepts (cf_kind spec) v \<and>
    (cf_kind spec = KSelect \<longrightarrow>
      (\<forall>opts s. cf_options spec = Some opts \<longrightarrow> v = JString s \<longrightarrow> s \<in> set opts))"

definition typed_capability :: "known_capabilities \<Rightarrow> string \<Rightarrow> json \<Rightarrow> bool" where
  "typed_capability types cap v \<longleftrightarrow> (\<exists>specs fm. types cap = Some specs \<and> v = JObject fm \<and>
    (\<forall>f \<in> set specs. cf_required f \<longrightarrow> map_of fm (cf_name f) \<noteq> None) \<and>
    (\<forall>(name, x) \<in> set fm. \<exists>spec. field_spec types cap name = Some spec \<and> allowed_value spec x))"

lemma check_advertised_iff:
  "types cap = Some specs \<Longrightarrow> check_advertised cap specs (name, x) = Inr () \<longleftrightarrow>
    (\<exists>spec. field_spec types cap name = Some spec \<and> allowed_value spec x)"
  by (cases x) (auto simp: check_advertised_def field_spec_def allowed_value_def split: option.splits)

lemma check_capability_iff:
  "check_capability types (cap, v) = Inr () \<longleftrightarrow> typed_capability types cap v"
proof (cases "types cap")
  case (Some specs)
  have fields: "each_ok (check_advertised cap specs) fm = Inr () \<longleftrightarrow>
      (\<forall>(name, x) \<in> set fm. \<exists>spec. field_spec types cap name = Some spec \<and> allowed_value spec x)" for fm
    unfolding each_ok_iff by (intro ball_cong refl) (auto simp: check_advertised_iff [of types cap specs, OF Some])
  have seq: "(case r of Inl e \<Rightarrow> Inl e | Inr _ \<Rightarrow> t) = Inr () \<longleftrightarrow> r = Inr () \<and> t = Inr ()"
    for r t :: "(caps_error, unit) result"
    by (cases r) auto
  show ?thesis
  proof (cases v)
    case (JObject fm)
    have "check_capability types (cap, v) = Inr () \<longleftrightarrow>
        check_required cap specs fm = Inr () \<and> each_ok (check_advertised cap specs) fm = Inr ()"
      by (simp add: check_capability_def Some JObject seq)
    also have "\<dots> \<longleftrightarrow> typed_capability types cap v"
      unfolding fields check_required_iff typed_capability_def by (simp add: Some JObject)
    finally show ?thesis .
  qed (simp_all add: check_capability_def typed_capability_def Some)
qed (simp add: check_capability_def typed_capability_def)

lemma validate_caps_iff:
  "validate_caps_against_types caps types = Inr () \<longleftrightarrow>
    (\<forall>m. caps = JObject m \<longrightarrow> (\<forall>(cap, v) \<in> set m. typed_capability types cap v))"
  by (cases caps) (auto simp: validate_caps_against_types_def each_ok_iff check_capability_iff)

text \<open>A constraint the registry can type.\<close>

definition typed_constraint :: "known_capabilities \<Rightarrow> constraint \<Rightarrow> bool" where
  "typed_constraint registry c \<longleftrightarrow>
    (\<exists>spec. field_spec registry (co_capability c) (co_field c) = Some spec \<and>
      op_value_incompatibility (cf_kind spec) (co_op c) (co_value c) = None)"

lemma validate_one_constraint_conv:
  "\<exists>es. validate_one_constraint node c registry errors = errors @ es \<and>
    (es = [] \<longleftrightarrow> typed_constraint registry c)"
  by (auto simp: validate_one_constraint_def typed_constraint_def field_spec_def
      op_value_incompatibility_def split: option.split)

lemma fold_reports:
  assumes "\<And>x errors. x \<in> set xs \<Longrightarrow> \<exists>es. f x errors = errors @ es \<and> (es = [] \<longleftrightarrow> P x)"
  shows "\<exists>es. fold f xs errors = errors @ es \<and> (es = [] \<longleftrightarrow> (\<forall>x \<in> set xs. P x))"
  using assms
proof (induction xs arbitrary: errors)
  case (Cons x xs)
  obtain es where es: "f x errors = errors @ es" "es = [] \<longleftrightarrow> P x"
    using Cons.prems [of x errors] by auto
  obtain es' where es': "fold f xs (errors @ es) = (errors @ es) @ es'" "es' = [] \<longleftrightarrow> (\<forall>x \<in> set xs. P x)"
    using Cons.IH [of "errors @ es"] Cons.prems by auto
  show ?case using es es' by (intro exI [of _ "es @ es'"]) auto
qed simp

lemma validate_requirements_nil_iff:
  "validate_requirements_against_registry nodes registry = [] \<longleftrightarrow>
    (\<forall>node cs. (node, AutomatedStep (Some cs)) \<in> set nodes \<longrightarrow>
      (\<forall>c \<in> set cs. typed_constraint registry c))"
proof -
  let ?f = "\<lambda>(node, d) errors. case d of
      AutomatedStep (Some cs) \<Rightarrow> fold (\<lambda>c. validate_one_constraint node c registry) cs errors
    | _ \<Rightarrow> errors"
  let ?P = "\<lambda>(node :: string, d). case d of
      AutomatedStep (Some cs) \<Rightarrow> \<forall>c \<in> set cs. typed_constraint registry c | _ \<Rightarrow> True"
  have "\<exists>es. ?f x errors = errors @ es \<and> (es = [] \<longleftrightarrow> ?P x)" for x errors
    using fold_reports [OF validate_one_constraint_conv]
    by (auto split: prod.split step_data.split option.split)
  then have "\<exists>es. fold ?f nodes [] = [] @ es \<and> (es = [] \<longleftrightarrow> (\<forall>x \<in> set nodes. ?P x))"
    by (rule fold_reports)
  then show ?thesis
    unfolding validate_requirements_against_registry_def
    by (auto split: step_data.splits option.splits)
qed

text \<open>The relation a comparison operator stands for.\<close>

fun op_relation :: "constraint_op \<Rightarrow> (f64 \<Rightarrow> f64 \<Rightarrow> bool) option" where
  "op_relation OpGt = Some (\<lambda>a b. f64_lt b a)"
| "op_relation OpGte = Some (\<lambda>a b. f64_lt b a \<or> f64_eq a b)"
| "op_relation OpLt = Some (\<lambda>a b. f64_lt a b)"
| "op_relation OpLte = Some (\<lambda>a b. f64_lt a b \<or> f64_eq a b)"
| "op_relation _ = None"

lemma constraint_json_get:
  "jget_str ''capability'' [(''capability'', JString a), (''field'', JString b), (''op'', JString d), (''value'', v)] = Some a"
  "jget_str ''field'' [(''capability'', JString a), (''field'', JString b), (''op'', JString d), (''value'', v)] = Some b"
  "jget_str ''op'' [(''capability'', JString a), (''field'', JString b), (''op'', JString d), (''value'', v)] = Some d"
  by (simp_all add: jget_str_def)

lemma op_wire_exists: "op_wire op = ''exists'' \<longleftrightarrow> op = OpExists"
  by (cases op) simp_all

lemma one_constraint:
  assumes "jget_object (co_capability c) caps = Some fm"
  shows "caps_satisfy_constraints [c] caps \<longleftrightarrow> (\<exists>v. map_of fm (co_field c) = Some v \<and>
    (co_op c = OpExists \<or> cap_eval_op (op_wire (co_op c)) v (co_value c)))"
  using assms
  by (simp add: caps_satisfy_constraints_def cap_satisfies_def constraint_json_def
      constraint_json_get op_wire_exists split: option.split)

lemma cap_satisfies_loop_Cons:
  "cap_satisfies_loop (c # cs) caps \<longleftrightarrow> cap_satisfies_loop [c] caps \<and> cap_satisfies_loop cs caps"
  by (cases c) (auto split: option.splits)

lemma cap_satisfies_loop_all:
  "cap_satisfies_loop cs caps \<longleftrightarrow> (\<forall>c \<in> set cs. cap_satisfies_loop [c] caps)"
proof (induction cs)
  case (Cons c cs)
  then show ?case using cap_satisfies_loop_Cons [of c cs caps] by (simp del: cap_satisfies_loop.simps)
qed simp

lemma each_constraint:
  "caps_satisfy_constraints cs caps \<longleftrightarrow> (\<forall>c \<in> set cs. caps_satisfy_constraints [c] caps)"
proof -
  have "caps_satisfy_constraints cs caps \<longleftrightarrow> cap_satisfies_loop (map constraint_json cs) caps" for cs
    by (simp add: caps_satisfy_constraints_def cap_satisfies_def)
  then show ?thesis using cap_satisfies_loop_all [of "map constraint_json cs"] by simp
qed

lemma typed_field_value:
  assumes "validate_caps_against_types (JObject m) registry = Inr ()"
    and "jget_object cap (JObject m) = Some fm" and "map_of fm name = Some v"
    and "field_spec registry cap name = Some spec"
  shows "accepts (cf_kind spec) v"
proof -
  have "(cap, JObject fm) \<in> set m"
    using assms(2) by (auto simp: jget_object_def split: option.splits json.splits dest: map_of_SomeD)
  then have "typed_capability registry cap (JObject fm)" using assms(1) validate_caps_iff by fastforce
  moreover have "(name, v) \<in> set fm" using assms(3) by (rule map_of_SomeD)
  ultimately show ?thesis using assms(4) by (fastforce simp: typed_capability_def allowed_value_def)
qed

section \<open>Properties\<close>

text \<open>
  C17: the matcher the service runs on JSON and the matcher the engine runs on script values
  decide alike, for requirements and capabilities whose integers fit the script's 64-bit
  integers.
\<close>

theorem matchers_agree:
  assumes "json_exact (JObject requirements)" and "json_exact (JObject caps)"
  shows "cap_satisfies (JObject requirements) (JObject caps) =
    satisfies_impl (json_fields_to_dynamic requirements) (json_fields_to_dynamic caps)"
  using assms by (rule satisfies_conv)

theorem matchers_agree_witness:
  "cap_satisfies (JObject [(''constraints'', JArray [JObject [(''capability'', JString ''xrd''),
      (''field'', JString ''axes''), (''op'', JString ''neq''), (''value'', JArray [Null])]])])
      (JObject [(''xrd'', JObject [(''axes'', JArray [])])]) \<and>
   satisfies_impl (json_fields_to_dynamic [(''constraints'', JArray [JObject [(''capability'', JString ''xrd''),
      (''field'', JString ''axes''), (''op'', JString ''neq''), (''value'', JArray [Null])]])])
      (json_fields_to_dynamic [(''xrd'', JObject [(''axes'', JArray [])])])"
proof
  show "cap_satisfies (JObject [(''constraints'', JArray [JObject [(''capability'', JString ''xrd''),
      (''field'', JString ''axes''), (''op'', JString ''neq''), (''value'', JArray [Null])]])])
      (JObject [(''xrd'', JObject [(''axes'', JArray [])])])"
    by (simp add: cap_satisfies_def jget_str_def jget_object_def cap_eval_op_def cap_json_eq_def
        json_as_f64_def)
  then show "satisfies_impl (json_fields_to_dynamic [(''constraints'', JArray [JObject [(''capability'', JString ''xrd''),
      (''field'', JString ''axes''), (''op'', JString ''neq''), (''value'', JArray [Null])]])])
      (json_fields_to_dynamic [(''xrd'', JObject [(''axes'', JArray [])])])"
    by (subst (asm) matchers_agree) simp_all
qed

text \<open>
  Beyond that range they part: two arrays that hold different integers of 64 bits are
  different JSON, but scripts hold both as the same float.
\<close>

lemma f64_of_nat_2_64:
  "f64_of_nat 18446744073709551615 = 0x43F0000000000000"
  "f64_of_nat 18446744073709551614 = 0x43F0000000000000"
  by (simp_all add: f64_of_nat_def bit_length.simps)

theorem matchers_disagree_on_large_integers:
  "\<not> cap_eval_op ''eq'' (JArray [Number (PosInt 18446744073709551615)])
      (JArray [Number (PosInt 18446744073709551614)]) \<and>
   eval_op ''eq'' (json_to_dynamic (JArray [Number (PosInt 18446744073709551615)]))
      (json_to_dynamic (JArray [Number (PosInt 18446744073709551614)]))"
  by (simp add: cap_eval_op_def cap_json_eq_def json_as_f64_def eval_op_def dynamic_eq_def
      f64_of_nat_2_64 f64_is_finite_def f64_mag_def f64_eq_def f64_is_nan_def)

text \<open>
  A runner is enrolled exactly when each capability it advertises is a type of the
  workspace, given as an object that has every required field, and each field it gives is
  declared, of the declared kind and, for a selection, among the options.
\<close>

theorem enrolment_accepts_typed_caps:
  "validate_caps_against_types caps types = Inr () \<longleftrightarrow>
    (\<forall>m. caps = JObject m \<longrightarrow> (\<forall>(cap, v) \<in> set m. typed_capability types cap v))"
  by (rule validate_caps_iff)

definition demo_types :: known_capabilities where
  "demo_types = [''xrd'' \<mapsto> [\<lparr>cf_name = ''max'', cf_kind = KNumber, cf_required = True, cf_options = None\<rparr>]]"

theorem enrolment_accepts_typed_caps_witness:
  "validate_caps_against_types (JObject [(''xrd'', JObject [(''max'', Number (PosInt 180))])]) demo_types = Inr ()"
  unfolding enrolment_accepts_typed_caps
  by (simp add: typed_capability_def field_spec_def allowed_value_def demo_types_def)

text \<open>
  C18: when a published step meets an enrolled runner, the matcher never turns the runner down
  for a type: on a field the runner advertises a comparison has numbers on both sides and
  decides by their order, membership has a list of alternatives, and existence holds.
\<close>

theorem typed_placement_compares:
  assumes "validate_caps_against_types (JObject m) registry = Inr ()"
    and "validate_requirements_against_registry nodes registry = []"
    and "(node, AutomatedStep (Some cs)) \<in> set nodes" and "c \<in> set cs"
    and "jget_object (co_capability c) (JObject m) = Some fm" and "map_of fm (co_field c) = Some v"
  shows "(\<forall>rel. op_relation (co_op c) = Some rel \<longrightarrow>
      (\<exists>a b. v = Number a \<and> co_value c = Number b \<and>
        (caps_satisfy_constraints [c] (JObject m) \<longleftrightarrow> rel (as_f64 a) (as_f64 b)))) \<and>
    (co_op c = OpIn \<longrightarrow> (\<exists>ms. co_value c = JArray ms \<and>
      (caps_satisfy_constraints [c] (JObject m) \<longleftrightarrow> (\<exists>x \<in> set ms. cap_json_eq v x)))) \<and>
    (co_op c = OpExists \<longrightarrow> caps_satisfy_constraints [c] (JObject m))"
proof -
  obtain spec where spec: "field_spec registry (co_capability c) (co_field c) = Some spec"
    and ok: "op_value_incompatibility (cf_kind spec) (co_op c) (co_value c) = None"
    using assms(2-4) unfolding validate_requirements_nil_iff typed_constraint_def by blast
  have acc: "accepts (cf_kind spec) v" by (rule typed_field_value [OF assms(1,5,6) spec])
  have sat: "caps_satisfy_constraints [c] (JObject m) \<longleftrightarrow>
      co_op c = OpExists \<or> cap_eval_op (op_wire (co_op c)) v (co_value c)"
    using one_constraint [OF assms(5)] assms(6) by simp
  have num: "is_number w \<longleftrightarrow> (\<exists>a. w = Number a)" for w by (cases w) auto
  show ?thesis
    using ok acc unfolding sat
    by (cases "co_op c") (auto simp: op_value_incompatibility_def cap_eval_op_def json_as_f64_def
        list_ex_iff num split: if_splits json.splits)
qed

definition demo_constraint :: constraint where
  "demo_constraint = \<lparr>co_capability = ''xrd'', co_field = ''max'', co_op = OpGte,
    co_value = Number (PosInt 160)\<rparr>"

theorem typed_placement_compares_witness:
  "caps_satisfy_constraints [demo_constraint] (JObject [(''xrd'', JObject [(''max'', Number (PosInt 180))])])"
proof -
  let ?m = "[(''xrd'', JObject [(''max'', Number (PosInt 180))])]"
  have "validate_caps_against_types (JObject ?m) demo_types = Inr ()"
    by (simp add: validate_caps_iff typed_capability_def field_spec_def allowed_value_def demo_types_def)
  moreover have "validate_requirements_against_registry
      [(''s'', AutomatedStep (Some [demo_constraint]))] demo_types = []"
    by (simp add: validate_requirements_nil_iff typed_constraint_def field_spec_def demo_types_def
        demo_constraint_def op_value_incompatibility_def)
  ultimately have "\<forall>rel. op_relation (co_op demo_constraint) = Some rel \<longrightarrow>
      (\<exists>a b. Number (PosInt 180) = Number a \<and> co_value demo_constraint = Number b \<and>
        (caps_satisfy_constraints [demo_constraint] (JObject ?m) \<longleftrightarrow> rel (as_f64 a) (as_f64 b)))"
    using typed_placement_compares [of ?m demo_types "[(''s'', AutomatedStep (Some [demo_constraint]))]"
        "''s''" "[demo_constraint]" demo_constraint "[(''max'', Number (PosInt 180))]" "Number (PosInt 180)"]
    by (simp add: demo_constraint_def jget_object_def)
  then show ?thesis
    by (simp add: demo_constraint_def f64_of_nat_def bit_length.simps f64_lt_def f64_eq_def
        f64_is_nan_def f64_ord_def f64_mag_def)
qed

end
