(* ===== verification/Router_Table.thy ===== *)
theory Router_Table
  imports Join_Index
begin

text \<open>
  The inference router, \<^verbatim>\<open>src/router/src\<close>, and the shapes it shares with its upstreams,
  \<^verbatim>\<open>src/shared/inference-core/src/lib.rs\<close>: the replica table and the choice of a replica
  (\<^verbatim>\<open>routing.rs\<close>, \<^verbatim>\<open>inventory.rs\<close>), permits (\<^verbatim>\<open>admission.rs\<close>), identity
  (\<^verbatim>\<open>auth.rs\<close>), token usage, metering records and counters (\<^verbatim>\<open>metering.rs\<close>,
  \<^verbatim>\<open>metrics.rs\<close>) and the headers of a proxied response. The life of a request is the
  subject of the theory \<open>Router\<close>. The lemmas show which replica is chosen and when none is,
  and that scanning a stream frame by frame finds the usage a whole scan would find, as long
  as no frame cuts a line.
\<close>

section \<open>Configuration and replicas\<close>

record replica_config =
  rc_base_url :: string
  rc_model_ids :: "string list"
  rc_residency_zone :: "string option"
  rc_concurrency_c :: nat
  rc_api_key :: "string option"

text \<open>A replica names its semaphore; the permits live in the router's state.\<close>

record replica =
  rp_id :: string
  rp_base_url :: string
  rp_residency_zone :: "string option"
  rp_model_ids :: "string list"
  rp_concurrency_c :: nat
  rp_api_key :: "string option"
  rp_sem :: nat
  rp_live :: bool

definition serves :: "replica \<Rightarrow> string \<Rightarrow> bool" where
  "serves r model = list_ex (\<lambda>m. m = model) (rp_model_ids r)"

text \<open>Decimal digits, and \<open>trim_end_matches('/')\<close>.\<close>

fun dec_string :: "nat \<Rightarrow> string" where
  "dec_string n = (if n < 10 then [''0123456789'' ! n] else dec_string (n div 10) @ [''0123456789'' ! (n mod 10)])"

declare dec_string.simps [simp del]

definition trim_slashes :: "string \<Rightarrow> string" where
  "trim_slashes s = rev (dropWhile (\<lambda>c. c = CHR ''/'') (rev s))"

text \<open>\<open>Semaphore::new\<close> panics beyond \<open>usize::MAX >> 3\<close> permits.\<close>

definition max_permits :: nat where
  "max_permits = 2 ^ 61 - 1"

definition build_replica :: "nat \<Rightarrow> replica_config \<Rightarrow> nat \<Rightarrow> replica option" where
  "build_replica idx cfg sem = (let c = max (rc_concurrency_c cfg) 1 in
    if max_permits < c then None
    else Some \<lparr>rp_id = ''replica-'' @ dec_string idx, rp_base_url = trim_slashes (rc_base_url cfg),
      rp_residency_zone = rc_residency_zone cfg, rp_model_ids = rc_model_ids cfg,
      rp_concurrency_c = c, rp_api_key = rc_api_key cfg, rp_sem = sem, rp_live = True\<rparr>)"

text \<open>
  Semaphores are numbered in the order of creation; \<open>sems\<close> gives the free permits of each.
  \<open>None\<close> is a panic.
\<close>

type_synonym permits = "nat \<Rightarrow> nat"

fun build_replicas ::
  "nat \<Rightarrow> replica_config list \<Rightarrow> nat \<Rightarrow> permits \<Rightarrow> (replica list \<times> nat \<times> permits) option" where
  "build_replicas idx [] next sems = Some ([], next, sems)"
| "build_replicas idx (cfg # cfgs) next sems = (case build_replica idx cfg next of
      None \<Rightarrow> None
    | Some r \<Rightarrow> map_option (\<lambda>(rs, n, p). (r # rs, n, p))
        (build_replicas (Suc idx) cfgs (Suc next) (sems(next := rp_concurrency_c r))))"

text \<open>The inventory: what a runner serves, and the replica made of it.\<close>

record serving_runner =
  sr_runner_id :: string
  sr_base_url :: string
  sr_residency_zone :: "string option"
  sr_model_ids :: "string list"
  sr_concurrency_c :: nat

definition runner_replica :: "serving_runner \<Rightarrow> nat \<Rightarrow> replica option" where
  "runner_replica s sem = (let c = max (sr_concurrency_c s) 1 in
    if max_permits < c then None
    else Some \<lparr>rp_id = ''runner-'' @ sr_runner_id s, rp_base_url = trim_slashes (sr_base_url s),
      rp_residency_zone = sr_residency_zone s, rp_model_ids = sr_model_ids s,
      rp_concurrency_c = c, rp_api_key = None, rp_sem = sem, rp_live = True\<rparr>)"

fun servers_to_replicas ::
  "serving_runner list \<Rightarrow> nat \<Rightarrow> permits \<Rightarrow> (replica list \<times> nat \<times> permits) option" where
  "servers_to_replicas [] next sems = Some ([], next, sems)"
| "servers_to_replicas (s # ss) next sems = (case runner_replica s next of
      None \<Rightarrow> None
    | Some r \<Rightarrow> map_option (\<lambda>(rs, n, p). (r # rs, n, p))
        (servers_to_replicas ss (Suc next) (sems(next := rp_concurrency_c r))))"

section \<open>Permits\<close>

definition try_admit :: "permits \<Rightarrow> nat \<Rightarrow> permits option" where
  "try_admit sems s = (if sems s = 0 then None else Some (sems(s := sems s - 1)))"

text \<open>Dropping the permit.\<close>

definition release_permit :: "permits \<Rightarrow> nat \<Rightarrow> permits" where
  "release_permit sems s = sems(s := Suc (sems s))"

section \<open>Choosing a replica\<close>

datatype route_error = NoReplica string | ResidencyUnsatisfiable string string

text \<open>\<open>max_by_key\<close> keeps the last of several greatest elements.\<close>

fun max_by_key :: "('a \<Rightarrow> nat) \<Rightarrow> 'a list \<Rightarrow> 'a option" where
  "max_by_key f [] = None"
| "max_by_key f (x # xs) = Some (fold (\<lambda>y best. if f best \<le> f y then y else best) xs x)"

definition select :: "replica list \<Rightarrow> permits \<Rightarrow> string \<Rightarrow> string option \<Rightarrow> (route_error, replica) result" where
  "select replicas sems model required_zone =
    (let serving = filter (\<lambda>r. rp_live r \<and> serves r model) replicas in
     if serving = [] then Inl (NoReplica model)
     else let placeable = (case required_zone of
            Some zone \<Rightarrow> filter (\<lambda>r. rp_residency_zone r = Some zone) serving
          | None \<Rightarrow> serving)
     in (case max_by_key (\<lambda>r. sems (rp_sem r)) placeable of
           Some r \<Rightarrow> Inr r
         | None \<Rightarrow> Inl (ResidencyUnsatisfiable model (case required_zone of Some z \<Rightarrow> z | None \<Rightarrow> []))))"

text \<open>\<open>sort\<close> followed by \<open>dedup\<close>.\<close>

definition live_model_ids :: "replica list \<Rightarrow> string list" where
  "live_model_ids replicas = remdups_adj (sort (concat (map rp_model_ids (filter rp_live replicas))))"

record replica_stat =
  rs_id :: string
  rs_residency_zone :: "string option"
  rs_model_ids :: "string list"
  rs_capacity :: nat
  rs_in_flight :: nat
  rs_live :: bool

definition snapshot :: "replica list \<Rightarrow> permits \<Rightarrow> replica_stat list" where
  "snapshot replicas sems = map (\<lambda>r. \<lparr>rs_id = rp_id r, rs_residency_zone = rp_residency_zone r,
    rs_model_ids = rp_model_ids r, rs_capacity = rp_concurrency_c r,
    rs_in_flight = rp_concurrency_c r - sems (rp_sem r), rs_live = rp_live r\<rparr>) replicas"

text \<open>The per-model gauge of the metrics page: in-flight requests over the live replicas.\<close>

definition inflight_by_model :: "replica_stat list \<Rightarrow> string list \<Rightarrow> string \<Rightarrow> nat option" where
  "inflight_by_model stats starved =
    fold (\<lambda>model m. if m model = None then m(model \<mapsto> 0) else m) starved
      (fold (\<lambda>r m. if rs_live r
          then fold (\<lambda>model m. m(model \<mapsto> (case m model of Some n \<Rightarrow> n | None \<Rightarrow> 0) + rs_in_flight r))
            (rs_model_ids r) m
          else m) stats Map.empty)"

section \<open>Identity\<close>

datatype auth_mode = DevNoop | Bearer

record auth_config =
  au_mode :: auth_mode
  au_default_tenant :: string

definition auth_from_settings :: "string \<Rightarrow> string \<Rightarrow> auth_config" where
  "auth_from_settings mode tenant =
    \<lparr>au_mode = (if mode = ''bearer'' then Bearer else DevNoop), au_default_tenant = tenant\<rparr>"

text \<open>Header values are bytes; \<open>to_str\<close> wants visible ASCII or a tab.\<close>

type_synonym headers = "string \<rightharpoonup> string"

definition header_to_str :: "string \<Rightarrow> string option" where
  "header_to_str v = (if list_all (\<lambda>c. CHR '' '' \<le> c \<and> c \<le> CHR ''~'' \<or> c = CHR 0x09) v then Some v else None)"

definition header_str :: "headers \<Rightarrow> string \<Rightarrow> string option" where
  "header_str hs name = (case hs name of
      None \<Rightarrow> None
    | Some v \<Rightarrow> (case header_to_str v of Some s \<Rightarrow> if s = [] then None else Some s | None \<Rightarrow> None))"

definition extract_bearer :: "headers \<Rightarrow> string option" where
  "extract_bearer hs = (case hs ''authorization'' of
      None \<Rightarrow> None
    | Some v \<Rightarrow> (case header_to_str v of
          None \<Rightarrow> None
        | Some s \<Rightarrow> (case strip_prefix ''Bearer '' s of
              None \<Rightarrow> None
            | Some t \<Rightarrow> if trim t = [] then None else Some (trim t))))"

record request_identity =
  id_tenant :: string
  id_instance_id :: "string option"
  id_step_id :: "string option"
  id_request_id :: "string option"
  id_slo_tier :: "string option"

definition authenticate :: "auth_config \<Rightarrow> headers \<Rightarrow> request_identity option" where
  "authenticate cfg hs =
    (if au_mode cfg = Bearer \<and> extract_bearer hs = None then None
     else Some \<lparr>id_tenant = au_default_tenant cfg, id_instance_id = header_str hs ''x-instance-id'',
       id_step_id = header_str hs ''x-step-id'', id_request_id = header_str hs ''x-request-id'',
       id_slo_tier = header_str hs ''x-slo-tier''\<rparr>)"

section \<open>Requests and usage\<close>

text \<open>
  The slim view of a request body and the usage block, read from JSON as their derived
  deserializers do: absent members with a default may be missing, an array is read by
  position.
\<close>

record peek_chat_request =
  pk_model :: string
  pk_stream :: bool
  pk_include_usage :: "bool option"

definition bool_member :: "string \<Rightarrow> fields \<Rightarrow> bool option" where
  "bool_member k fs = (case map_of fs k of
      None \<Rightarrow> Some False | Some (Bool b) \<Rightarrow> Some b | Some _ \<Rightarrow> None)"

definition stream_options :: "json \<Rightarrow> bool option" where
  "stream_options v = (case v of
      JObject fs \<Rightarrow> bool_member ''include_usage'' fs
    | JArray [] \<Rightarrow> Some False
    | JArray [Bool b] \<Rightarrow> Some b
    | _ \<Rightarrow> None)"

definition optional_options :: "json option \<Rightarrow> bool option option" where
  "optional_options v = (case v of
      None \<Rightarrow> Some None
    | Some Null \<Rightarrow> Some None
    | Some w \<Rightarrow> map_option Some (stream_options w))"

definition peek_request :: "json \<Rightarrow> peek_chat_request option" where
  "peek_request v = (case v of
      JObject fs \<Rightarrow> (case (map_of fs ''model'', bool_member ''stream'' fs,
          optional_options (map_of fs ''stream_options'')) of
        (Some (JString m), Some s, Some o') \<Rightarrow>
          Some \<lparr>pk_model = m, pk_stream = s, pk_include_usage = o'\<rparr>
      | _ \<Rightarrow> None)
    | JArray (JString m # rest) \<Rightarrow>
        (case rest of
           [] \<Rightarrow> Some \<lparr>pk_model = m, pk_stream = False, pk_include_usage = None\<rparr>
         | [Bool s] \<Rightarrow> Some \<lparr>pk_model = m, pk_stream = s, pk_include_usage = None\<rparr>
         | [Bool s, w] \<Rightarrow> map_option (\<lambda>o'. \<lparr>pk_model = m, pk_stream = s, pk_include_usage = o'\<rparr>)
             (optional_options (Some w))
         | _ \<Rightarrow> None)
    | _ \<Rightarrow> None)"

definition include_usage :: "peek_chat_request \<Rightarrow> bool" where
  "include_usage p = (case pk_include_usage p of Some b \<Rightarrow> b | None \<Rightarrow> False)"

record usage =
  us_prompt :: "64 word"
  us_completion :: "64 word"
  us_total :: "64 word"

definition default_usage :: usage where
  "default_usage = \<lparr>us_prompt = 0, us_completion = 0, us_total = 0\<rparr>"

definition u64_member :: "string \<Rightarrow> fields \<Rightarrow> 64 word option" where
  "u64_member k fs = (case map_of fs k of None \<Rightarrow> Some 0 | Some v \<Rightarrow> as_u64 v)"

fun u64_elements :: "json list \<Rightarrow> 64 word list option" where
  "u64_elements [] = Some []"
| "u64_elements (x # xs) = (case (as_u64 x, u64_elements xs) of
      (Some a, Some as) \<Rightarrow> Some (a # as) | _ \<Rightarrow> None)"

definition usage_of_json :: "json \<Rightarrow> usage option" where
  "usage_of_json v = (case v of
      JObject fs \<Rightarrow> (case (u64_member ''prompt_tokens'' fs, u64_member ''completion_tokens'' fs,
          u64_member ''total_tokens'' fs) of
        (Some p, Some c, Some t) \<Rightarrow> Some \<lparr>us_prompt = p, us_completion = c, us_total = t\<rparr>
      | _ \<Rightarrow> None)
    | JArray xs \<Rightarrow> (case u64_elements xs of
        Some [] \<Rightarrow> Some default_usage
      | Some [p] \<Rightarrow> Some (default_usage\<lparr>us_prompt := p\<rparr>)
      | Some [p, c] \<Rightarrow> Some (default_usage\<lparr>us_prompt := p, us_completion := c\<rparr>)
      | Some [p, c, t] \<Rightarrow> Some \<lparr>us_prompt = p, us_completion = c, us_total = t\<rparr>
      | _ \<Rightarrow> None)
    | _ \<Rightarrow> None)"

definition usage_from_value :: "json \<Rightarrow> usage option" where
  "usage_from_value v = (case jget ''usage'' v of
      None \<Rightarrow> None
    | Some u \<Rightarrow> if u = Null then None else usage_of_json u)"

text \<open>
  The library decoders: the text of valid UTF-8 and the JSON value of a text. White space is
  ASCII, as it is around the payload of a server-sent event.
\<close>

record codec =
  cd_utf8 :: "string \<Rightarrow> string option"
  cd_json :: "string \<Rightarrow> json option"

definition usage_from_response_bytes :: "codec \<Rightarrow> string \<Rightarrow> usage option" where
  "usage_from_response_bytes cd bytes = (case cd_json cd bytes of
      None \<Rightarrow> None | Some v \<Rightarrow> usage_from_value v)"

text \<open>\<open>str::lines\<close>: a final line feed ends the last line, a carriage return before it goes too.\<close>

definition strip_cr :: "string \<Rightarrow> string" where
  "strip_cr l = (if l \<noteq> [] \<and> last l = CHR 0x0D then butlast l else l)"

definition text_lines :: "string \<Rightarrow> string list" where
  "text_lines s = (let parts = split_char (CHR 0x0A) s in
    map strip_cr (butlast parts) @ (if last parts = [] then [] else [last parts]))"

definition line_usage :: "codec \<Rightarrow> string \<Rightarrow> usage option" where
  "line_usage cd line = (case strip_prefix ''data:'' line of
      None \<Rightarrow> None
    | Some p \<Rightarrow>
        let payload = trim p in
        if payload = [] \<or> payload = ''[DONE]'' then None
        else (case cd_json cd payload of None \<Rightarrow> None | Some v \<Rightarrow> usage_from_value v))"

definition later :: "'a option \<Rightarrow> 'a option \<Rightarrow> 'a option" where
  "later found new = (case new of Some u \<Rightarrow> Some u | None \<Rightarrow> found)"

definition scan_sse_chunk :: "codec \<Rightarrow> string \<Rightarrow> usage option" where
  "scan_sse_chunk cd chunk = (case cd_utf8 cd chunk of
      None \<Rightarrow> None
    | Some text \<Rightarrow> fold (\<lambda>line found. later found (line_usage cd line)) (text_lines text) None)"

section \<open>Metering\<close>

datatype meter_status = Completed | MCancelled | UpstreamError

fun status_str :: "meter_status \<Rightarrow> string" where
  "status_str Completed = ''completed''"
| "status_str MCancelled = ''cancelled''"
| "status_str UpstreamError = ''upstream_error''"

record meter_context =
  mc_request_id :: string
  mc_tenant :: string
  mc_instance_id :: "string option"
  mc_step_id :: "string option"
  mc_model :: string
  mc_replica_id :: string
  mc_replica_base_url :: string
  mc_residency_zone :: "string option"
  mc_slo_tier :: "string option"
  mc_started_at :: time

record inference_request_log =
  il_request_id :: string
  il_tenant :: string
  il_instance_id :: "string option"
  il_step_id :: "string option"
  il_model :: string
  il_replica_id :: string
  il_replica_base_url :: string
  il_residency_zone :: "string option"
  il_slo_tier :: "string option"
  il_prompt_tokens :: "64 word"
  il_completion_tokens :: "64 word"
  il_total_tokens :: "64 word"
  il_status :: string
  il_started_at :: time
  il_finished_at :: time

definition finish_meter ::
  "meter_context \<Rightarrow> usage option \<Rightarrow> meter_status \<Rightarrow> time \<Rightarrow> inference_request_log" where
  "finish_meter mc us status now = (let u = (case us of Some u \<Rightarrow> u | None \<Rightarrow> default_usage) in
    \<lparr>il_request_id = mc_request_id mc, il_tenant = mc_tenant mc, il_instance_id = mc_instance_id mc,
     il_step_id = mc_step_id mc, il_model = mc_model mc, il_replica_id = mc_replica_id mc,
     il_replica_base_url = mc_replica_base_url mc, il_residency_zone = mc_residency_zone mc,
     il_slo_tier = mc_slo_tier mc, il_prompt_tokens = us_prompt u,
     il_completion_tokens = us_completion u, il_total_tokens = us_total u,
     il_status = (if status = Completed \<and> us = None then ''unmetered'' else status_str status),
     il_started_at = mc_started_at mc, il_finished_at = now\<rparr>)"

section \<open>Counters\<close>

text \<open>
  Counters of 64 bits wrap. Times are milliseconds, so the histogram's bounds are too, and
  the sum of the latencies is kept exactly where the code adds up seconds as floats.
\<close>

definition latency_buckets_ms :: "nat list" where
  "latency_buckets_ms = [50, 100, 250, 500, 1000, 2500, 5000, 10000, 30000, 60000]"

record model_meter =
  mm_completed :: "64 word"
  mm_unmetered :: "64 word"
  mm_cancelled :: "64 word"
  mm_upstream_error :: "64 word"
  mm_prompt_tokens :: "64 word"
  mm_completion_tokens :: "64 word"
  mm_bucket_counts :: "64 word list"
  mm_latency_sum :: nat
  mm_latency_count :: "64 word"

definition default_meter :: model_meter where
  "default_meter = \<lparr>mm_completed = 0, mm_unmetered = 0, mm_cancelled = 0, mm_upstream_error = 0,
    mm_prompt_tokens = 0, mm_completion_tokens = 0, mm_bucket_counts = replicate 10 0,
    mm_latency_sum = 0, mm_latency_count = 0\<rparr>"

record metrics =
  mt_requests_total :: "64 word"
  mt_completed_total :: "64 word"
  mt_rejected_429_total :: "64 word"
  mt_cancelled_total :: "64 word"
  mt_upstream_error_total :: "64 word"
  mt_model_starved :: "string \<rightharpoonup> 64 word"
  mt_models :: "string \<rightharpoonup> model_meter"

definition default_metrics :: metrics where
  "default_metrics = \<lparr>mt_requests_total = 0, mt_completed_total = 0, mt_rejected_429_total = 0,
    mt_cancelled_total = 0, mt_upstream_error_total = 0, mt_model_starved = Map.empty,
    mt_models = Map.empty\<rparr>"

definition inc_starved :: "string \<Rightarrow> metrics \<Rightarrow> metrics" where
  "inc_starved model mt = mt\<lparr>mt_model_starved :=
    (mt_model_starved mt)(model \<mapsto> (case mt_model_starved mt model of Some n \<Rightarrow> n | None \<Rightarrow> 0) + 1)\<rparr>"

definition observe :: "string \<Rightarrow> string \<Rightarrow> 64 word \<Rightarrow> 64 word \<Rightarrow> nat \<Rightarrow> metrics \<Rightarrow> metrics" where
  "observe model status prompt completion latency mt =
    (let m = (case mt_models mt model of Some m \<Rightarrow> m | None \<Rightarrow> default_meter);
         m1 = (if status = ''completed'' then m\<lparr>mm_completed := mm_completed m + 1\<rparr>
           else if status = ''unmetered'' then m\<lparr>mm_unmetered := mm_unmetered m + 1\<rparr>
           else if status = ''cancelled'' then m\<lparr>mm_cancelled := mm_cancelled m + 1\<rparr>
           else if status = ''upstream_error'' then m\<lparr>mm_upstream_error := mm_upstream_error m + 1\<rparr>
           else m);
         m2 = m1\<lparr>mm_prompt_tokens := mm_prompt_tokens m1 + prompt,
           mm_completion_tokens := mm_completion_tokens m1 + completion\<rparr>;
         i = length (takeWhile (\<lambda>b. b < latency) latency_buckets_ms);
         m3 = (if i < length latency_buckets_ms
           then m2\<lparr>mm_bucket_counts := (mm_bucket_counts m2)[i := mm_bucket_counts m2 ! i + 1]\<rparr> else m2);
         m4 = m3\<lparr>mm_latency_sum := mm_latency_sum m3 + latency, mm_latency_count := mm_latency_count m3 + 1\<rparr>
     in mt\<lparr>mt_models := (mt_models mt)(model \<mapsto> m4)\<rparr>)"

definition observe_record :: "inference_request_log \<Rightarrow> metrics \<Rightarrow> metrics" where
  "observe_record rec mt = observe (il_model rec) (il_status rec) (il_prompt_tokens rec)
    (il_completion_tokens rec) (nat (il_finished_at rec - il_started_at rec)) mt"

section \<open>Response headers\<close>

definition ascii_lower :: "char \<Rightarrow> char" where
  "ascii_lower c = (if CHR ''A'' \<le> c \<and> c \<le> CHR ''Z'' then char_of (of_char c + 32 :: nat) else c)"

definition eq_ignore_ascii_case :: "string \<Rightarrow> string \<Rightarrow> bool" where
  "eq_ignore_ascii_case a b = (map ascii_lower a = map ascii_lower b)"

definition is_hop_by_hop :: "string \<Rightarrow> bool" where
  "is_hop_by_hop name = list_ex (eq_ignore_ascii_case name)
    [''connection'', ''keep-alive'', ''proxy-authenticate'', ''proxy-authorization'', ''te'',
     ''trailers'', ''transfer-encoding'', ''upgrade'', ''host'']"

definition request_id_header :: string where
  "request_id_header = ''x-inference-request-id''"

text \<open>\<open>HeaderValue::from_str\<close> takes visible ASCII and tabs; \<open>insert\<close> replaces the old values.\<close>

definition insert_request_id :: "string \<Rightarrow> (string \<times> string) list \<Rightarrow> (string \<times> string) list" where
  "insert_request_id request_id hs = (case header_to_str request_id of
      Some v \<Rightarrow> filter (\<lambda>(k, _). k \<noteq> request_id_header) hs @ [(request_id_header, v)]
    | None \<Rightarrow> hs)"

definition proxied_headers :: "(string \<times> string) list \<Rightarrow> string \<Rightarrow> (string \<times> string) list" where
  "proxied_headers upstream request_id = insert_request_id request_id
    (filter (\<lambda>(k, _). \<not> (is_hop_by_hop k \<or> eq_ignore_ascii_case k ''content-length'')) upstream)"

section \<open>Permits as an interface\<close>

text \<open>
  What the router relies on: taking a permit uses up one of that semaphore and no other,
  fails only when none is left, and dropping it gives it back.
\<close>

locale permit_store =
  fixes avail :: "'s \<Rightarrow> nat \<Rightarrow> nat"
    and acquire :: "'s \<Rightarrow> nat \<Rightarrow> 's option"
    and release :: "'s \<Rightarrow> nat \<Rightarrow> 's"
  assumes acquire_None: "acquire h s = None \<longleftrightarrow> avail h s = 0"
    and acquire_Some: "acquire h s = Some h' \<Longrightarrow>
      avail h s = Suc (avail h' s) \<and> (\<forall>t. t \<noteq> s \<longrightarrow> avail h' t = avail h t)"
    and release_avail: "avail (release h s) t = (if t = s then Suc (avail h t) else avail h t)"
begin

text \<open>Free permits and the ones handed out keep their sum.\<close>

lemma acquire_moves: "acquire h s = Some h' \<Longrightarrow> avail h' t + of_bool (t = s) = avail h t"
  using acquire_Some [of h s h'] by auto

lemma release_moves: "avail (release h s) t = avail h t + of_bool (t = s)"
  by (simp add: release_avail)

lemma acquire_positive: "acquire h s = Some h' \<Longrightarrow> 0 < avail h s"
  using acquire_None [of h s] by force

end

interpretation sem: permit_store "\<lambda>h s. h s" try_admit release_permit
  by unfold_locales (auto simp: try_admit_def release_permit_def split: if_splits)

section \<open>Lemmas on the choice of a replica\<close>

lemma fold_best:
  fixes f :: "'a \<Rightarrow> nat" and x :: 'a
  shows "fold (\<lambda>y best. if f best \<le> f y then y else best) xs x \<in> set (x # xs) \<and>
    (\<forall>y \<in> set (x # xs). f y \<le> f (fold (\<lambda>y best. if f best \<le> f y then y else best) xs x))"
proof (induction xs arbitrary: x)
  case (Cons a xs)
  define b where "b = (if f x \<le> f a then a else x)"
  have "f x \<le> f b" "f a \<le> f b" "b \<in> {x, a}" by (auto simp: b_def)
  with Cons.IH [of b] show ?case by (force simp: b_def [symmetric] dest: order_trans)
qed simp

lemma max_by_key_Some:
  "max_by_key f xs = Some x \<Longrightarrow> x \<in> set xs \<and> (\<forall>y \<in> set xs. f y \<le> f x)"
  using fold_best [where f = f] by (cases xs) auto

lemma max_by_key_None: "max_by_key f xs = None \<longleftrightarrow> xs = []"
  by (cases xs) auto

text \<open>The replicas that may take a request.\<close>

definition live_serving :: "replica list \<Rightarrow> string \<Rightarrow> replica \<Rightarrow> bool" where
  "live_serving rs model r \<longleftrightarrow> r \<in> set rs \<and> rp_live r \<and> model \<in> set (rp_model_ids r)"

definition placeable :: "replica list \<Rightarrow> string \<Rightarrow> string option \<Rightarrow> replica \<Rightarrow> bool" where
  "placeable rs model zone r \<longleftrightarrow>
    live_serving rs model r \<and> (\<forall>z. zone = Some z \<longrightarrow> rp_residency_zone r = Some z)"

lemma serves_iff: "serves r model \<longleftrightarrow> model \<in> set (rp_model_ids r)"
  by (auto simp: serves_def list_ex_iff)

definition candidates :: "replica list \<Rightarrow> string \<Rightarrow> string option \<Rightarrow> replica list" where
  "candidates rs model zone = (case zone of
      Some z \<Rightarrow> filter (\<lambda>r. rp_residency_zone r = Some z) (filter (\<lambda>r. rp_live r \<and> serves r model) rs)
    | None \<Rightarrow> filter (\<lambda>r. rp_live r \<and> serves r model) rs)"

lemma set_candidates: "set (candidates rs model zone) = {r. placeable rs model zone r}"
  by (auto simp: candidates_def placeable_def live_serving_def serves_iff split: option.splits)

lemma candidates_nil: "candidates rs model zone = [] \<longleftrightarrow> (\<forall>r. \<not> placeable rs model zone r)"
  using set_candidates [where rs = rs and model = model and zone = zone] by (metis Collect_empty_eq set_empty)

lemma serving_nil:
  "filter (\<lambda>r. rp_live r \<and> serves r model) rs = [] \<longleftrightarrow> (\<forall>r. \<not> live_serving rs model r)"
  by (auto simp: filter_empty_conv live_serving_def serves_iff)

lemma select_eq:
  "select rs sems model zone =
    (if \<forall>r. \<not> live_serving rs model r then Inl (NoReplica model)
     else (case max_by_key (\<lambda>r. sems (rp_sem r)) (candidates rs model zone) of
         Some r \<Rightarrow> Inr r
       | None \<Rightarrow> Inl (ResidencyUnsatisfiable model (case zone of Some z \<Rightarrow> z | None \<Rightarrow> []))))"
  by (simp only: select_def Let_def serving_nil candidates_def)

lemma select_NoReplica:
  "select rs sems model zone = Inl (NoReplica m) \<longleftrightarrow> m = model \<and> (\<forall>r. \<not> live_serving rs model r)"
  unfolding select_eq by (auto split: option.split)

lemma select_Residency:
  "select rs sems model zone = Inl (ResidencyUnsatisfiable m z) \<longleftrightarrow>
    m = model \<and> zone = Some z \<and> (\<exists>r. live_serving rs model r) \<and> (\<forall>r. \<not> placeable rs model zone r)"
proof (cases "max_by_key (\<lambda>r. sems (rp_sem r)) (candidates rs model zone)")
  case None
  then have "\<forall>r. \<not> placeable rs model zone r" unfolding max_by_key_None candidates_nil .
  then show ?thesis
    unfolding select_eq None by (cases zone) (auto simp: placeable_def)
next
  case (Some r)
  then have "placeable rs model zone r" using max_by_key_Some [OF Some] set_candidates by blast
  then show ?thesis unfolding select_eq Some by auto
qed

lemma select_InrD:
  assumes "select rs sems model zone = Inr r"
  shows "placeable rs model zone r" and "placeable rs model zone q \<Longrightarrow> sems (rp_sem q) \<le> sems (rp_sem r)"
proof -
  have "max_by_key (\<lambda>r. sems (rp_sem r)) (candidates rs model zone) = Some r"
    using assms unfolding select_eq by (auto split: if_splits option.split_asm)
  from max_by_key_Some [OF this] show "placeable rs model zone r"
    and "placeable rs model zone q \<Longrightarrow> sems (rp_sem q) \<le> sems (rp_sem r)"
    unfolding set_candidates by auto
qed

lemma select_Inr_ex:
  assumes "placeable rs model zone r"
  shows "\<exists>r'. select rs sems model zone = Inr r'"
proof (cases "select rs sems model zone")
  case (Inl e)
  have "live_serving rs model r" using assms by (simp add: placeable_def)
  then show ?thesis
    using Inl assms select_NoReplica [of rs sems model zone] select_Residency [of rs sems model zone]
    by (cases e) auto
qed simp

section \<open>Lemmas on streams and headers\<close>

lemma split_char_nonempty: "split_char c s \<noteq> []"
  by (induction s) (auto split: list.splits)

lemma split_char_append: "split_char c (xs @ c # ys) = split_char c xs @ split_char c ys"
proof (induction xs)
  case (Cons x xs)
  then show ?case using split_char_nonempty [of c xs] by (cases "split_char c xs") auto
qed simp

lemma text_lines_append:
  assumes "a = [] \<or> last a = CHR 0x0A"
  shows "text_lines (a @ b) = text_lines a @ text_lines b"
proof (cases "a = []")
  case False
  then obtain x where a: "a = x @ [CHR 0x0A]" using assms by (metis append_butlast_last_id)
  have "last (split_char (CHR 0x0A) x @ split_char (CHR 0x0A) y) = last (split_char (CHR 0x0A) y)"
    and "butlast (split_char (CHR 0x0A) x @ split_char (CHR 0x0A) y) =
      split_char (CHR 0x0A) x @ butlast (split_char (CHR 0x0A) y)" for y
    using split_char_nonempty [of "CHR 0x0A" y] by (simp_all add: butlast_append)
  then show ?thesis
    using split_char_append [of "CHR 0x0A" x b] split_char_append [of "CHR 0x0A" x "[]"]
    by (simp add: text_lines_def a Let_def)
qed (simp add: text_lines_def)

lemma fold_later:
  "fold (\<lambda>l found. later found (f l)) ls start = later start (fold (\<lambda>l found. later found (f l)) ls None)"
proof (induction ls arbitrary: start)
  case (Cons l ls)
  have "later (later start (f l)) r = later start (later (later None (f l)) r)" for r
    by (auto simp: later_def split: option.splits)
  then show ?case using Cons.IH [of "later start (f l)"] Cons.IH [of "later None (f l)"] by simp
qed (simp add: later_def)

lemma scan_frames_text:
  assumes "\<And>f. f \<in> set frames \<Longrightarrow> cd_utf8 cd f = Some f"
    and "\<And>f. f \<in> set (butlast frames) \<Longrightarrow> f = [] \<or> last f = CHR 0x0A"
  shows "fold (\<lambda>f found. later found (scan_sse_chunk cd f)) frames start =
    later start (fold (\<lambda>l found. later found (line_usage cd l)) (text_lines (concat frames)) None)"
  using assms
proof (induction frames arbitrary: start)
  case (Cons f frames)
  let ?lines = "\<lambda>s. fold (\<lambda>l found. later found (line_usage cd l)) (text_lines s)"
  have f: "scan_sse_chunk cd f = ?lines f None" using Cons.prems(1) by (simp add: scan_sse_chunk_def)
  have split: "text_lines (f @ concat frames) = text_lines f @ text_lines (concat frames)"
  proof (cases "frames = []")
    case False
    then show ?thesis using Cons.prems(2) by (intro text_lines_append) simp
  qed (simp add: text_lines_def)
  have "fold (\<lambda>f found. later found (scan_sse_chunk cd f)) frames (later start (?lines f None)) =
      later (later start (?lines f None)) (?lines (concat frames) None)"
  proof (rule Cons.IH)
    show "cd_utf8 cd g = Some g" if "g \<in> set frames" for g using Cons.prems(1) that by simp
    show "g = [] \<or> last g = CHR 0x0A" if "g \<in> set (butlast frames)" for g
      using Cons.prems(2) [of g] that by (cases "frames = []") simp_all
  qed
  also have "\<dots> = later start (?lines (concat frames) (?lines f None))"
    using fold_later [of "line_usage cd" "text_lines (concat frames)" "?lines f None"]
    by (auto simp: later_def split: option.splits)
  finally show ?case using split f by simp
qed (simp add: later_def text_lines_def)

lemma proxied_headers_clean:
  "(k, v) \<in> set (proxied_headers hs rid) \<Longrightarrow> k = request_id_header \<or>
    \<not> is_hop_by_hop k \<and> \<not> eq_ignore_ascii_case k ''content-length'' \<and> (k, v) \<in> set hs"
  by (auto simp: proxied_headers_def insert_request_id_def split: option.splits)

lemma proxied_headers_request_id:
  "header_to_str rid = Some rid \<Longrightarrow>
    filter (\<lambda>(k, _). k = request_id_header) (proxied_headers hs rid) = [(request_id_header, rid)]"
  by (auto simp: proxied_headers_def insert_request_id_def filter_empty_conv)

section \<open>Properties\<close>

text \<open>
  The choice of a replica fails closed. A replica that is chosen is live, serves the model,
  lies in the zone the request requires if it requires one, and has the most free permits of
  all such replicas; some replica is chosen whenever there is one; otherwise the error says
  whether the model is served at all or only not in the required zone.
\<close>

theorem select_fails_closed:
  "(\<forall>r. select rs sems model zone = Inr r \<longrightarrow> placeable rs model zone r \<and>
      (\<forall>q. placeable rs model zone q \<longrightarrow> sems (rp_sem q) \<le> sems (rp_sem r))) \<and>
   ((\<exists>r. select rs sems model zone = Inr r) \<longleftrightarrow> (\<exists>r. placeable rs model zone r)) \<and>
   (\<forall>m. select rs sems model zone = Inl (NoReplica m) \<longleftrightarrow>
      m = model \<and> (\<forall>r. \<not> live_serving rs model r)) \<and>
   (\<forall>m z. select rs sems model zone = Inl (ResidencyUnsatisfiable m z) \<longleftrightarrow>
      m = model \<and> zone = Some z \<and> (\<exists>r. live_serving rs model r) \<and> (\<forall>r. \<not> placeable rs model zone r))"
proof (intro conjI)
  show "\<forall>r. select rs sems model zone = Inr r \<longrightarrow> placeable rs model zone r \<and>
      (\<forall>q. placeable rs model zone q \<longrightarrow> sems (rp_sem q) \<le> sems (rp_sem r))"
    using select_InrD [where rs = rs and sems = sems and model = model and zone = zone] by blast
  show "(\<exists>r. select rs sems model zone = Inr r) \<longleftrightarrow> (\<exists>r. placeable rs model zone r)"
    using select_InrD(1) [of rs sems model zone] select_Inr_ex [of rs model zone _ sems] by blast
qed (simp_all add: select_NoReplica select_Residency)

definition demo_replica :: "string \<Rightarrow> string \<Rightarrow> nat \<Rightarrow> replica" where
  "demo_replica zone model sem = \<lparr>rp_id = ''replica-0'', rp_base_url = ''http://a'',
    rp_residency_zone = Some zone, rp_model_ids = [model], rp_concurrency_c = 1, rp_api_key = None,
    rp_sem = sem, rp_live = True\<rparr>"

theorem select_fails_closed_witness:
  "select [demo_replica ''eu'' ''m'' 0, demo_replica ''us'' ''m'' 1] (\<lambda>_. 1) ''m'' (Some ''ap'') =
    Inl (ResidencyUnsatisfiable ''m'' ''ap'')"
proof -
  have "live_serving [demo_replica ''eu'' ''m'' 0, demo_replica ''us'' ''m'' 1] ''m''
      (demo_replica ''eu'' ''m'' 0)"
    by (simp add: live_serving_def demo_replica_def)
  moreover have "\<not> placeable [demo_replica ''eu'' ''m'' 0, demo_replica ''us'' ''m'' 1] ''m'' (Some ''ap'') r" for r
    by (auto simp: placeable_def live_serving_def demo_replica_def)
  ultimately show ?thesis
    using select_fails_closed [THEN conjunct2, THEN conjunct2, THEN conjunct2, rule_format,
        of "[demo_replica ''eu'' ''m'' 0, demo_replica ''us'' ''m'' 1]" "\<lambda>_. 1"
        "''m''" "Some ''ap''" "''m''" "''ap''"] by auto
qed

text \<open>
  Reading the usage of a stream frame by frame, keeping the last found, gives the usage of
  the whole text, when every frame but the last ends with a line.
\<close>

theorem frame_scan_is_stream_scan:
  assumes "\<And>f. f \<in> set frames \<Longrightarrow> cd_utf8 cd f = Some f"
    and "cd_utf8 cd (concat frames) = Some (concat frames)"
    and "\<And>f. f \<in> set (butlast frames) \<Longrightarrow> f = [] \<or> last f = CHR 0x0A"
  shows "fold (\<lambda>f found. later found (scan_sse_chunk cd f)) frames None =
    scan_sse_chunk cd (concat frames)"
  using scan_frames_text [of frames cd None] assms
  by (simp add: scan_sse_chunk_def later_def split: option.split)

definition demo_codec :: codec where
  "demo_codec = \<lparr>cd_utf8 = Some, cd_json = (\<lambda>s. if s = ''{u}''
    then Some (JObject [(''usage'', JObject [(''total_tokens'', Number (PosInt 7))])]) else None)\<rparr>"

theorem frame_scan_is_stream_scan_witness:
  "fold (\<lambda>f found. later found (scan_sse_chunk demo_codec f)) [''data: {u}'' @ [CHR 0x0A], ''data: [DONE]''] None =
    scan_sse_chunk demo_codec (concat [''data: {u}'' @ [CHR 0x0A], ''data: [DONE]''])"
  by (rule frame_scan_is_stream_scan) (auto simp: demo_codec_def)

text \<open>
  A frame that ends within the line that carries the usage loses it, although the stream as a
  whole has it.
\<close>

theorem split_line_loses_usage:
  "scan_sse_chunk demo_codec (''data: {u}'' @ [CHR 0x0A]) = Some \<lparr>us_prompt = 0, us_completion = 0, us_total = 7\<rparr> \<and>
   fold (\<lambda>f found. later found (scan_sse_chunk demo_codec f)) [''data: {'', ''u}'' @ [CHR 0x0A]] None = None"
  by (simp add: scan_sse_chunk_def demo_codec_def text_lines_def line_usage_def
      strip_cr_def trim_def is_space_def usage_from_value_def usage_of_json_def u64_member_def later_def)

end
