(* ===== verification/Router.thy ===== *)
theory Router
  imports Router_Table
begin

text \<open>
  The life of a request in the inference router: the handler of
  \<^verbatim>\<open>src/router/src/proxy.rs\<close> cut at the points where it waits, the cancellation registry
  of \<^verbatim>\<open>cancel.rs\<close> and the inventory poll of \<^verbatim>\<open>inventory.rs\<close>. A request is a task
  that holds a permit of its replica's semaphore and an entry of the registry from its
  admission to its end; events drive the tasks in any order. The lemmas show that permits
  are neither lost nor duplicated, that a request never leaves the zone it asks for, that
  every request that is not abandoned by its client is metered exactly once, and that the
  registry holds no entry of a request that has ended.
\<close>

section \<open>Tasks\<close>

text \<open>
  What a running request carries: its replica (whose permit it holds), its id and token in
  the registry and its metering context.
\<close>

record request =
  rq_id :: string
  rq_token :: nat
  rq_replica :: replica
  rq_model :: string
  rq_zone :: "string option"
  rq_stream :: bool
  rq_meter :: meter_context

text \<open>
  Where the handler waits: for the head of the upstream's response, for the whole body, for
  the next frame, or for the consumer after it was handed an upstream error.
\<close>

datatype phase =
    Forwarding
  | Buffering nat "(string \<times> string) list"
  | Streaming "usage option"
  | StreamFailed "usage option"

datatype outcome = Rejected | Finished | Dropped

datatype task =
    Chosen request_identity peek_chat_request "string option" replica
  | Running request phase
  | Ended outcome

datatype response =
    ErrorJson nat
  | TooManyRequests string
  | CancelledResponse string
  | Proxied nat "(string \<times> string) list"

datatype emission =
    Respond nat response
  | PublishMeter nat inference_request_log
  | PublishCancelled nat string

section \<open>The router\<close>

record router =
  ro_auth :: auth_config
  ro_nats :: bool
  ro_poller :: bool
  ro_replicas :: "replica list"
  ro_sems :: permits
  ro_next_sem :: nat
  ro_cancels :: "string \<rightharpoonup> nat"
  ro_cancelled :: "nat \<Rightarrow> bool"
  ro_next_token :: nat
  ro_metrics :: metrics
  ro_tasks :: "task list"
  ro_out :: "emission list"

definition router_init :: "auth_config \<Rightarrow> bool \<Rightarrow> bool \<Rightarrow> replica_config list \<Rightarrow> router option" where
  "router_init auth nats mekhan cfgs = map_option (\<lambda>(rs, n, p).
    \<lparr>ro_auth = auth, ro_nats = nats, ro_poller = mekhan, ro_replicas = rs, ro_sems = p,
     ro_next_sem = n, ro_cancels = Map.empty, ro_cancelled = (\<lambda>_. False), ro_next_token = 0,
     ro_metrics = default_metrics, ro_tasks = [], ro_out = []\<rparr>)
    (build_replicas 0 cfgs 0 (\<lambda>_. 0))"

definition respond :: "nat \<Rightarrow> response \<Rightarrow> router \<Rightarrow> router" where
  "respond i r st = st\<lparr>ro_out := ro_out st @ [Respond i r]\<rparr>"

definition add_task :: "task \<Rightarrow> router \<Rightarrow> router" where
  "add_task t st = st\<lparr>ro_tasks := ro_tasks st @ [t]\<rparr>"

definition set_task :: "nat \<Rightarrow> task \<Rightarrow> router \<Rightarrow> router" where
  "set_task i t st = st\<lparr>ro_tasks := (ro_tasks st)[i := t]\<rparr>"

definition task_at :: "router \<Rightarrow> nat \<Rightarrow> task option" where
  "task_at st i = (if i < length (ro_tasks st) then Some (ro_tasks st ! i) else None)"

subsection \<open>The cancellation registry\<close>

definition register :: "string \<Rightarrow> router \<Rightarrow> nat \<times> router" where
  "register rid st = (ro_next_token st,
    st\<lparr>ro_cancels := (ro_cancels st)(rid \<mapsto> ro_next_token st), ro_next_token := Suc (ro_next_token st)\<rparr>)"

definition deregister :: "string \<Rightarrow> router \<Rightarrow> router" where
  "deregister rid st = st\<lparr>ro_cancels := (ro_cancels st)(rid := None)\<rparr>"

definition cancel :: "string \<Rightarrow> router \<Rightarrow> bool \<times> router" where
  "cancel rid st = (case ro_cancels st rid of
      Some t \<Rightarrow> (True, st\<lparr>ro_cancelled := (ro_cancelled st)(t := True)\<rparr>)
    | None \<Rightarrow> (False, st))"

subsection \<open>Ends of a request\<close>

text \<open>Dropping the permit and the guard.\<close>

definition let_go :: "request \<Rightarrow> router \<Rightarrow> router" where
  "let_go rq st = deregister (rq_id rq)
    (st\<lparr>ro_sems := release_permit (ro_sems st) (rp_sem (rq_replica rq))\<rparr>)"

definition count_status :: "meter_status \<Rightarrow> metrics \<Rightarrow> metrics" where
  "count_status s mt = (case s of
      Completed \<Rightarrow> mt\<lparr>mt_completed_total := mt_completed_total mt + 1\<rparr>
    | MCancelled \<Rightarrow> mt\<lparr>mt_cancelled_total := mt_cancelled_total mt + 1\<rparr>
    | UpstreamError \<Rightarrow> mt\<lparr>mt_upstream_error_total := mt_upstream_error_total mt + 1\<rparr>)"

text \<open>The terminal block: count, observe and publish the record, then let go.\<close>

definition finish_task ::
  "nat \<Rightarrow> request \<Rightarrow> usage option \<Rightarrow> meter_status \<Rightarrow> time \<Rightarrow> router \<Rightarrow> router" where
  "finish_task i rq us status now st =
    (let rec = finish_meter (rq_meter rq) us status now;
         published = (if ro_nats st
           then PublishMeter i rec # (if status = MCancelled then [PublishCancelled i (rq_id rq)] else [])
           else [])
     in set_task i (Ended Finished) (let_go rq
       (st\<lparr>ro_metrics := observe_record rec (count_status status (ro_metrics st)),
          ro_out := ro_out st @ published\<rparr>)))"

subsection \<open>Events\<close>

datatype event =
    Arrive headers "json option"
  | Admit nat string time
  | CancelRequest string
  | CancelSeen nat time
  | UpstreamHead nat "(nat \<times> (string \<times> string) list) option" time
  | UpstreamBody nat "string option" time
  | Frame nat string
  | FrameError nat
  | StreamEnd nat time
  | Resume nat time
  | Disconnect nat
  | PollInventory "serving_runner list option"

text \<open>Authentication, the peek at the body and the choice of a replica.\<close>

definition reject :: "response \<Rightarrow> router \<Rightarrow> router" where
  "reject r st = add_task (Ended Rejected) (respond (length (ro_tasks st)) r st)"

definition arrive :: "headers \<Rightarrow> json option \<Rightarrow> router \<Rightarrow> router" where
  "arrive hs body st0 =
    (let st = st0\<lparr>ro_metrics := (ro_metrics st0)\<lparr>mt_requests_total := mt_requests_total (ro_metrics st0) + 1\<rparr>\<rparr>
     in case authenticate (ro_auth st) hs of
          None \<Rightarrow> reject (ErrorJson 401) st
        | Some ident \<Rightarrow>
            (case body \<bind> peek_request of
               None \<Rightarrow> reject (ErrorJson 400) st
             | Some peek \<Rightarrow>
                 let zone = header_str hs ''x-residency-zone'' in
                 (case select (ro_replicas st) (ro_sems st) (pk_model peek) zone of
                    Inl (NoReplica model) \<Rightarrow>
                      reject (ErrorJson 503) (st\<lparr>ro_metrics := inc_starved model (ro_metrics st)\<rparr>)
                  | Inl (ResidencyUnsatisfiable _ _) \<Rightarrow> reject (ErrorJson 422) st
                  | Inr r \<Rightarrow> add_task (Chosen ident peek zone r) st)))"

text \<open>Admission, registration and the start of forwarding; \<open>fresh\<close> is the generated rid.\<close>

definition admit :: "nat \<Rightarrow> string \<Rightarrow> time \<Rightarrow> router \<Rightarrow> router" where
  "admit i fresh now st = (case task_at st i of
      Some (Chosen ident peek zone r) \<Rightarrow>
        (case try_admit (ro_sems st) (rp_sem r) of
           None \<Rightarrow> set_task i (Ended Rejected) (respond i (TooManyRequests (pk_model peek))
             (st\<lparr>ro_metrics := inc_starved (pk_model peek) ((ro_metrics st)
               \<lparr>mt_rejected_429_total := mt_rejected_429_total (ro_metrics st) + 1\<rparr>)\<rparr>))
         | Some sems \<Rightarrow>
             let rid = (case id_request_id ident of Some rid \<Rightarrow> rid | None \<Rightarrow> fresh);
                 (token, st') = register rid (st\<lparr>ro_sems := sems\<rparr>);
                 meter = \<lparr>mc_request_id = rid, mc_tenant = id_tenant ident,
                   mc_instance_id = id_instance_id ident, mc_step_id = id_step_id ident,
                   mc_model = pk_model peek, mc_replica_id = rp_id r,
                   mc_replica_base_url = rp_base_url r, mc_residency_zone = rp_residency_zone r,
                   mc_slo_tier = id_slo_tier ident, mc_started_at = now\<rparr>
             in set_task i (Running \<lparr>rq_id = rid, rq_token = token, rq_replica = r,
                 rq_model = pk_model peek, rq_zone = zone, rq_stream = pk_stream peek,
                 rq_meter = meter\<rparr> Forwarding) st')
    | _ \<Rightarrow> st)"

text \<open>
  The waiting points are biased towards cancellation: an upstream event is only seen while the
  request's token is not cancelled.
\<close>

definition running :: "router \<Rightarrow> nat \<Rightarrow> (request \<times> phase) option" where
  "running st i = (case task_at st i of
      Some (Running rq ph) \<Rightarrow> if ro_cancelled st (rq_token rq) then None else Some (rq, ph)
    | _ \<Rightarrow> None)"

definition cancel_seen :: "nat \<Rightarrow> time \<Rightarrow> router \<Rightarrow> router" where
  "cancel_seen i now st = (case task_at st i of
      Some (Running rq ph) \<Rightarrow>
        if ro_cancelled st (rq_token rq) then
          (case ph of
             Forwarding \<Rightarrow> respond i (CancelledResponse (rq_id rq)) (finish_task i rq None MCancelled now st)
           | Buffering _ _ \<Rightarrow> respond i (CancelledResponse (rq_id rq)) (finish_task i rq None MCancelled now st)
           | Streaming us \<Rightarrow> finish_task i rq us MCancelled now st
           | StreamFailed _ \<Rightarrow> st)
        else st
    | _ \<Rightarrow> st)"

definition upstream_head ::
  "nat \<Rightarrow> (nat \<times> (string \<times> string) list) option \<Rightarrow> time \<Rightarrow> router \<Rightarrow> router" where
  "upstream_head i res now st = (case running st i of
      Some (rq, Forwarding) \<Rightarrow>
        (case res of
           Some (status, hs) \<Rightarrow>
             if rq_stream rq
             then respond i (Proxied status (proxied_headers hs (rq_id rq)))
               (set_task i (Running rq (Streaming None)) st)
             else set_task i (Running rq (Buffering status hs)) st
         | None \<Rightarrow> respond i (ErrorJson 502) (finish_task i rq None UpstreamError now st))
    | _ \<Rightarrow> st)"

definition upstream_body :: "codec \<Rightarrow> nat \<Rightarrow> string option \<Rightarrow> time \<Rightarrow> router \<Rightarrow> router" where
  "upstream_body cd i res now st = (case running st i of
      Some (rq, Buffering status hs) \<Rightarrow>
        (case res of
           Some bytes \<Rightarrow> respond i (Proxied status (proxied_headers hs (rq_id rq)))
             (finish_task i rq (usage_from_response_bytes cd bytes) Completed now st)
         | None \<Rightarrow> respond i (ErrorJson 502) (finish_task i rq None UpstreamError now st))
    | _ \<Rightarrow> st)"

definition frame :: "codec \<Rightarrow> nat \<Rightarrow> string \<Rightarrow> router \<Rightarrow> router" where
  "frame cd i bytes st = (case running st i of
      Some (rq, Streaming us) \<Rightarrow>
        set_task i (Running rq (Streaming (later us (scan_sse_chunk cd bytes)))) st
    | _ \<Rightarrow> st)"

definition frame_error :: "nat \<Rightarrow> router \<Rightarrow> router" where
  "frame_error i st = (case running st i of
      Some (rq, Streaming us) \<Rightarrow> set_task i (Running rq (StreamFailed us))
        (st\<lparr>ro_metrics := count_status UpstreamError (ro_metrics st)\<rparr>)
    | _ \<Rightarrow> st)"

definition stream_end :: "nat \<Rightarrow> time \<Rightarrow> router \<Rightarrow> router" where
  "stream_end i now st = (case running st i of
      Some (rq, Streaming us) \<Rightarrow> finish_task i rq us Completed now st
    | _ \<Rightarrow> st)"

text \<open>The consumer that was handed an error asks for more.\<close>

definition resume :: "nat \<Rightarrow> time \<Rightarrow> router \<Rightarrow> router" where
  "resume i now st = (case task_at st i of
      Some (Running rq (StreamFailed us)) \<Rightarrow> finish_task i rq us Completed now st
    | _ \<Rightarrow> st)"

text \<open>A client that goes away drops the handler or the body, and with it permit and guard.\<close>

definition disconnect :: "nat \<Rightarrow> router \<Rightarrow> router" where
  "disconnect i st = (case task_at st i of
      Some (Chosen _ _ _ _) \<Rightarrow> set_task i (Ended Dropped) st
    | Some (Running rq _) \<Rightarrow> set_task i (Ended Dropped) (let_go rq st)
    | _ \<Rightarrow> st)"

text \<open>A poll that cannot be turned into replicas panics and ends the polling task.\<close>

definition poll_inventory :: "serving_runner list option \<Rightarrow> router \<Rightarrow> router" where
  "poll_inventory res st =
    (if \<not> ro_poller st then st
     else (case res of
         None \<Rightarrow> st
       | Some [] \<Rightarrow> st
       | Some servers \<Rightarrow>
           (case servers_to_replicas servers (ro_next_sem st) (ro_sems st) of
              None \<Rightarrow> st\<lparr>ro_poller := False\<rparr>
            | Some (rs, n, p) \<Rightarrow> st\<lparr>ro_replicas := rs, ro_next_sem := n, ro_sems := p\<rparr>)))"

fun router_step :: "codec \<Rightarrow> event \<Rightarrow> router \<Rightarrow> router" where
  "router_step cd (Arrive hs body) st = arrive hs body st"
| "router_step cd (Admit i fresh now) st = admit i fresh now st"
| "router_step cd (CancelRequest rid) st = (if ro_nats st then snd (cancel rid st) else st)"
| "router_step cd (CancelSeen i now) st = cancel_seen i now st"
| "router_step cd (UpstreamHead i res now) st = upstream_head i res now st"
| "router_step cd (UpstreamBody i res now) st = upstream_body cd i res now st"
| "router_step cd (Frame i bytes) st = frame cd i bytes st"
| "router_step cd (FrameError i) st = frame_error i st"
| "router_step cd (StreamEnd i now) st = stream_end i now st"
| "router_step cd (Resume i now) st = resume i now st"
| "router_step cd (Disconnect i) st = disconnect i st"
| "router_step cd (PollInventory res) st = poll_inventory res st"

text \<open>The states a router started from a configuration can be in.\<close>

inductive router_reachable :: "codec \<Rightarrow> router \<Rightarrow> bool" for cd where
  start: "router_init auth nats mekhan cfgs = Some st \<Longrightarrow> router_reachable cd st"
| step: "router_reachable cd st \<Longrightarrow> router_reachable cd (router_step cd e st)"

section \<open>The specification of the router\<close>

text \<open>
  What the router promises is stated on its core, everything but counters and configuration:
  a request is rejected or given a replica that may take it, is admitted with a permit and a
  registry entry, moves through its phases, and ends by giving both back.
\<close>

record core =
  ck_replicas :: "replica list"
  ck_sems :: permits
  ck_next_sem :: nat
  ck_cancels :: "string \<rightharpoonup> nat"
  ck_cancelled :: "nat \<Rightarrow> bool"
  ck_next_token :: nat
  ck_tasks :: "task list"
  ck_out :: "emission list"

definition core_of :: "router \<Rightarrow> core" where
  "core_of st = \<lparr>ck_replicas = ro_replicas st, ck_sems = ro_sems st, ck_next_sem = ro_next_sem st,
    ck_cancels = ro_cancels st, ck_cancelled = ro_cancelled st, ck_next_token = ro_next_token st,
    ck_tasks = ro_tasks st, ck_out = ro_out st\<rparr>"

fun answered :: "phase \<Rightarrow> bool" where
  "answered (Streaming _) = True"
| "answered (StreamFailed _) = True"
| "answered _ = False"

definition core_end :: "nat \<Rightarrow> request \<Rightarrow> outcome \<Rightarrow> emission list \<Rightarrow> core \<Rightarrow> core" where
  "core_end i rq oc es c = c\<lparr>ck_sems := release_permit (ck_sems c) (rp_sem (rq_replica rq)),
    ck_cancels := (ck_cancels c)(rq_id rq := None), ck_tasks := (ck_tasks c)[i := Ended oc],
    ck_out := ck_out c @ es\<rparr>"

definition terminal_emissions :: "bool \<Rightarrow> nat \<Rightarrow> request \<Rightarrow> phase \<Rightarrow> emission list \<Rightarrow> bool" where
  "terminal_emissions nats i rq ph es \<longleftrightarrow> (\<exists>us status now r.
    es = (if nats then PublishMeter i (finish_meter (rq_meter rq) us status now) #
            (if status = MCancelled then [PublishCancelled i (rq_id rq)] else []) else []) @
         (if answered ph then [] else [Respond i r]))"

inductive core_step :: "bool \<Rightarrow> core \<Rightarrow> core \<Rightarrow> bool" for nats where
  idle: "core_step nats c c"
| rejected: "core_step nats c (c\<lparr>ck_tasks := ck_tasks c @ [Ended Rejected],
    ck_out := ck_out c @ [Respond (length (ck_tasks c)) r]\<rparr>)"
| chosen: "placeable (ck_replicas c) (pk_model peek) zone r \<Longrightarrow>
    core_step nats c (c\<lparr>ck_tasks := ck_tasks c @ [Chosen ident peek zone r]\<rparr>)"
| refused: "i < length (ck_tasks c) \<Longrightarrow> ck_tasks c ! i = Chosen ident peek zone r \<Longrightarrow>
    try_admit (ck_sems c) (rp_sem r) = None \<Longrightarrow>
    core_step nats c (c\<lparr>ck_tasks := (ck_tasks c)[i := Ended Rejected], ck_out := ck_out c @ [Respond i a]\<rparr>)"
| admitted: "i < length (ck_tasks c) \<Longrightarrow> ck_tasks c ! i = Chosen ident peek zone r \<Longrightarrow>
    try_admit (ck_sems c) (rp_sem r) = Some sems \<Longrightarrow> rq_token rq = ck_next_token c \<Longrightarrow>
    rq_replica rq = r \<Longrightarrow> rq_model rq = pk_model peek \<Longrightarrow> rq_zone rq = zone \<Longrightarrow>
    mc_request_id (rq_meter rq) = rq_id rq \<Longrightarrow> mc_residency_zone (rq_meter rq) = rp_residency_zone r \<Longrightarrow>
    core_step nats c (c\<lparr>ck_sems := sems, ck_cancels := (ck_cancels c)(rq_id rq \<mapsto> ck_next_token c),
      ck_next_token := Suc (ck_next_token c), ck_tasks := (ck_tasks c)[i := Running rq Forwarding]\<rparr>)"
| flagged: "ck_cancels c rid = Some t \<Longrightarrow>
    core_step nats c (c\<lparr>ck_cancelled := (ck_cancelled c)(t := True)\<rparr>)"
| headed: "i < length (ck_tasks c) \<Longrightarrow> ck_tasks c ! i = Running rq Forwarding \<Longrightarrow>
    core_step nats c (c\<lparr>ck_tasks := (ck_tasks c)[i := Running rq (Streaming None)],
      ck_out := ck_out c @ [Respond i a]\<rparr>)"
| moved: "i < length (ck_tasks c) \<Longrightarrow> ck_tasks c ! i = Running rq ph \<Longrightarrow> answered ph = answered ph' \<Longrightarrow>
    core_step nats c (c\<lparr>ck_tasks := (ck_tasks c)[i := Running rq ph']\<rparr>)"
| finished: "i < length (ck_tasks c) \<Longrightarrow> ck_tasks c ! i = Running rq ph \<Longrightarrow>
    terminal_emissions nats i rq ph es \<Longrightarrow> core_step nats c (core_end i rq Finished es c)"
| dropped: "i < length (ck_tasks c) \<Longrightarrow> ck_tasks c ! i = Running rq ph \<Longrightarrow>
    core_step nats c (core_end i rq Dropped [] c)"
| abandoned: "i < length (ck_tasks c) \<Longrightarrow> ck_tasks c ! i = Chosen ident peek zone r \<Longrightarrow>
    core_step nats c (c\<lparr>ck_tasks := (ck_tasks c)[i := Ended Dropped]\<rparr>)"
| polled: "servers_to_replicas servers (ck_next_sem c) (ck_sems c) = Some (rs, n, p) \<Longrightarrow>
    core_step nats c (c\<lparr>ck_replicas := rs, ck_next_sem := n, ck_sems := p\<rparr>)"

section \<open>Refinement\<close>

lemmas router_ops = respond_def add_task_def set_task_def deregister_def let_go_def finish_task_def
  reject_def

lemma core_of_simps [simp]:
  "ck_replicas (core_of st) = ro_replicas st" "ck_sems (core_of st) = ro_sems st"
  "ck_next_sem (core_of st) = ro_next_sem st" "ck_cancels (core_of st) = ro_cancels st"
  "ck_cancelled (core_of st) = ro_cancelled st" "ck_next_token (core_of st) = ro_next_token st"
  "ck_tasks (core_of st) = ro_tasks st" "ck_out (core_of st) = ro_out st"
  by (simp_all add: core_of_def)

lemma task_at_Some: "task_at st i = Some t \<longleftrightarrow> i < length (ro_tasks st) \<and> ro_tasks st ! i = t"
  by (auto simp: task_at_def)

lemma running_Some:
  "running st i = Some (rq, ph) \<Longrightarrow> i < length (ro_tasks st) \<and> ro_tasks st ! i = Running rq ph"
  by (auto simp: running_def task_at_Some split: option.splits task.splits if_splits)

lemma core_reject: "core_step nats (core_of st) (core_of (reject r (st\<lparr>ro_metrics := m\<rparr>)))"
  using core_step.rejected [of nats "core_of st" r] by (simp add: core_of_def router_ops)

lemma arrive_refines: "core_step nats (core_of st) (core_of (arrive hs body st))"
proof -
  have choose: "core_step nats (core_of st) (core_of (add_task (Chosen ident peek zone r) (st\<lparr>ro_metrics := m\<rparr>)))"
    if "select (ro_replicas st) (ro_sems st) (pk_model peek) zone = Inr r" for ident peek zone r m
    using core_step.chosen [of "core_of st" peek zone r nats ident] select_InrD(1) [OF that]
    by (simp add: core_of_def add_task_def)
  show ?thesis
    using core_reject [of nats st] choose
    by (auto simp: arrive_def Let_def split: option.split sum.split route_error.split)
qed

lemma admit_refines: "core_step nats (core_of st) (core_of (admit i fresh now st))"
proof (cases "\<exists>ident peek zone r. task_at st i = Some (Chosen ident peek zone r)")
  case True
  then obtain ident peek zone r where t: "task_at st i = Some (Chosen ident peek zone r)" by blast
  then have at: "i < length (ck_tasks (core_of st))" "ck_tasks (core_of st) ! i = Chosen ident peek zone r"
    by (simp_all add: task_at_Some)
  show ?thesis
  proof (cases "try_admit (ro_sems st) (rp_sem r)")
    case None
    then show ?thesis
      using core_step.refused [OF at, of nats "TooManyRequests (pk_model peek)"] t
      by (simp add: admit_def core_of_def router_ops)
  next
    case (Some sems)
    define rid where "rid = (case id_request_id ident of Some rid \<Rightarrow> rid | None \<Rightarrow> fresh)"
    define rq where "rq = \<lparr>rq_id = rid, rq_token = ro_next_token st, rq_replica = r,
      rq_model = pk_model peek, rq_zone = zone, rq_stream = pk_stream peek,
      rq_meter = \<lparr>mc_request_id = rid, mc_tenant = id_tenant ident,
        mc_instance_id = id_instance_id ident, mc_step_id = id_step_id ident,
        mc_model = pk_model peek, mc_replica_id = rp_id r, mc_replica_base_url = rp_base_url r,
        mc_residency_zone = rp_residency_zone r, mc_slo_tier = id_slo_tier ident, mc_started_at = now\<rparr>\<rparr>"
    have "core_of (admit i fresh now st) = (core_of st)\<lparr>ck_sems := sems,
        ck_cancels := (ck_cancels (core_of st))(rq_id rq \<mapsto> ck_next_token (core_of st)),
        ck_next_token := Suc (ck_next_token (core_of st)),
        ck_tasks := (ck_tasks (core_of st))[i := Running rq Forwarding]\<rparr>"
      using t Some by (simp add: admit_def Let_def register_def set_task_def core_of_def rq_def rid_def)
    then show ?thesis
      using core_step.admitted [OF at, of sems rq nats] Some by (simp add: rq_def)
  qed
qed (auto simp: admit_def intro: core_step.idle split: option.split task.split)

lemma finish_refines:
  assumes "i < length (ro_tasks st)" and "ro_tasks st ! i = Running rq ph" and "ro_nats st = nats"
  shows "answered ph \<Longrightarrow> core_step nats (core_of st) (core_of (finish_task i rq us status now st))"
    and "\<not> answered ph \<Longrightarrow>
      core_step nats (core_of st) (core_of (respond i a (finish_task i rq us status now st)))"
proof -
  let ?pub = "if nats then PublishMeter i (finish_meter (rq_meter rq) us status now) #
      (if status = MCancelled then [PublishCancelled i (rq_id rq)] else []) else []"
  have core: "core_of (finish_task i rq us status now st) = core_end i rq Finished ?pub (core_of st)"
    "core_of (respond i a (finish_task i rq us status now st)) =
      core_end i rq Finished (?pub @ [Respond i a]) (core_of st)"
    using assms(3) by (simp_all add: core_of_def core_end_def router_ops Let_def)
  show "core_step nats (core_of st) (core_of (finish_task i rq us status now st))" if "answered ph"
    unfolding core using assms(1,2) that
    by (intro core_step.finished [of _ _ _ ph]) (force simp: terminal_emissions_def)+
  show "core_step nats (core_of st) (core_of (respond i a (finish_task i rq us status now st)))"
    if "\<not> answered ph"
    unfolding core using assms(1,2) that
    by (intro core_step.finished [of _ _ _ ph]) (force simp: terminal_emissions_def)+
qed

lemma move_refines:
  assumes "i < length (ro_tasks st)" and "ro_tasks st ! i = Running rq ph" and "answered ph = answered ph'"
  shows "core_step nats (core_of st) (core_of (set_task i (Running rq ph') (st\<lparr>ro_metrics := m\<rparr>)))"
  using core_step.moved [of i "core_of st" rq ph ph' nats] assms by (simp add: core_of_def set_task_def)

lemma head_refines:
  assumes "i < length (ro_tasks st)" and "ro_tasks st ! i = Running rq Forwarding"
  shows "core_step nats (core_of st) (core_of (respond i a (set_task i (Running rq (Streaming None)) st)))"
  using core_step.headed [of i "core_of st" rq nats a] assms by (simp add: core_of_def router_ops)

lemma cancel_seen_refines:
  assumes "ro_nats st = nats"
  shows "core_step nats (core_of st) (core_of (cancel_seen i now st))"
proof (cases "task_at st i")
  case (Some t)
  show ?thesis
  proof (cases t)
    case (Running rq ph)
    then have at: "i < length (ro_tasks st)" "ro_tasks st ! i = Running rq ph"
      using Some by (simp_all add: task_at_Some)
    show ?thesis
      using Some Running finish_refines [OF at assms]
      by (cases ph) (auto simp: cancel_seen_def intro: core_step.idle)
  qed (simp_all add: cancel_seen_def Some core_step.idle)
qed (simp add: cancel_seen_def core_step.idle)

lemma upstream_refines:
  assumes "ro_nats st = nats"
  shows "core_step nats (core_of st) (core_of (upstream_head i res now st))"
    and "core_step nats (core_of st) (core_of (upstream_body cd i body now st))"
    and "core_step nats (core_of st) (core_of (frame cd i bytes st))"
    and "core_step nats (core_of st) (core_of (frame_error i st))"
    and "core_step nats (core_of st) (core_of (stream_end i now st))"
proof -
  have "core_step nats (core_of st) (core_of (upstream_head i res now st)) \<and>
    core_step nats (core_of st) (core_of (upstream_body cd i body now st)) \<and>
    core_step nats (core_of st) (core_of (frame cd i bytes st)) \<and>
    core_step nats (core_of st) (core_of (frame_error i st)) \<and>
    core_step nats (core_of st) (core_of (stream_end i now st))"
  proof (cases "running st i")
    case (Some p)
    obtain rq ph where p: "p = (rq, ph)" by (cases p)
    have at: "i < length (ro_tasks st)" "ro_tasks st ! i = Running rq ph"
      using running_Some Some p by auto
    have self: "st\<lparr>ro_metrics := ro_metrics st\<rparr> = st" by simp
    show ?thesis
      using Some p finish_refines [OF at assms] head_refines [of i st rq nats] at
        move_refines [OF at, of _ nats] move_refines [OF at, of _ nats "ro_metrics st", unfolded self]
      by (cases ph) (auto simp: upstream_head_def upstream_body_def frame_def frame_error_def
          stream_end_def intro: core_step.idle split: option.split)
  qed (simp add: upstream_head_def upstream_body_def frame_def frame_error_def stream_end_def core_step.idle)
  then show "core_step nats (core_of st) (core_of (upstream_head i res now st))"
    and "core_step nats (core_of st) (core_of (upstream_body cd i body now st))"
    and "core_step nats (core_of st) (core_of (frame cd i bytes st))"
    and "core_step nats (core_of st) (core_of (frame_error i st))"
    and "core_step nats (core_of st) (core_of (stream_end i now st))" by blast+
qed

lemma resume_refines:
  assumes "ro_nats st = nats"
  shows "core_step nats (core_of st) (core_of (resume i now st))"
  using finish_refines(1) [OF _ _ assms, of i]
  by (auto simp: resume_def task_at_Some intro: core_step.idle split: option.split task.split phase.split)

lemma disconnect_refines: "core_step nats (core_of st) (core_of (disconnect i st))"
proof (cases "task_at st i")
  case (Some t)
  then have at: "i < length (ck_tasks (core_of st))" "ck_tasks (core_of st) ! i = t"
    by (simp_all add: task_at_Some)
  show ?thesis
  proof (cases t)
    case (Running rq ph)
    have "core_of (disconnect i st) = core_end i rq Dropped [] (core_of st)"
      using Some Running by (simp add: disconnect_def core_of_def core_end_def router_ops)
    then show ?thesis using core_step.dropped [of i "core_of st" rq ph] at Running by simp
  next
    case (Chosen ident peek zone r)
    have "core_of (disconnect i st) = (core_of st)\<lparr>ck_tasks := (ck_tasks (core_of st))[i := Ended Dropped]\<rparr>"
      using Some Chosen by (simp add: disconnect_def core_of_def set_task_def)
    then show ?thesis using core_step.abandoned [of i "core_of st" ident peek zone r] at Chosen by simp
  qed (simp add: disconnect_def Some core_step.idle)
qed (simp add: disconnect_def core_step.idle)

lemma poll_refines: "core_step nats (core_of st) (core_of (poll_inventory res st))"
proof -
  have idle: "core_step nats (core_of st) (core_of (st\<lparr>ro_poller := b\<rparr>))" for b
    using core_step.idle [of nats "core_of st"] by (simp add: core_of_def)
  have poll: "core_step nats (core_of st) (core_of (st\<lparr>ro_replicas := rs, ro_next_sem := n, ro_sems := p\<rparr>))"
    if "servers_to_replicas servers (ro_next_sem st) (ro_sems st) = Some (rs, n, p)" for servers rs n p
    using core_step.polled [of servers "core_of st" rs n p nats] that by (simp add: core_of_def)
  show ?thesis
    using idle poll by (auto simp: poll_inventory_def simp del: servers_to_replicas.simps
        intro: core_step.idle split: option.split list.split)
qed

lemma cancel_refines: "core_step nats (core_of st) (core_of (snd (cancel rid st)))"
proof (cases "ro_cancels st rid")
  case (Some t)
  then show ?thesis
    using core_step.flagged [of "core_of st" rid t nats] by (simp add: cancel_def core_of_def)
qed (simp add: cancel_def core_step.idle)

lemma step_refines: "core_step (ro_nats st) (core_of st) (core_of (router_step cd e st))"
  by (cases e) (simp_all add: arrive_refines admit_refines cancel_seen_refines upstream_refines
      resume_refines disconnect_refines poll_refines cancel_refines core_step.idle)

section \<open>Invariants\<close>

fun holds :: "nat \<Rightarrow> task \<Rightarrow> bool" where
  "holds s (Running rq _) = (rp_sem (rq_replica rq) = s)"
| "holds s _ = False"

text \<open>The requests that hold a permit of a semaphore.\<close>

definition held :: "task list \<Rightarrow> nat \<Rightarrow> nat" where
  "held ts s = length (filter (holds s) ts)"

fun task_replica :: "task \<Rightarrow> replica option" where
  "task_replica (Chosen _ _ _ r) = Some r"
| "task_replica (Running rq _) = Some (rq_replica rq)"
| "task_replica (Ended _) = None"

definition known_replica :: "core \<Rightarrow> replica \<Rightarrow> bool" where
  "known_replica c r \<longleftrightarrow> r \<in> set (ck_replicas c) \<or> (\<exists>t \<in> set (ck_tasks c). task_replica t = Some r)"

definition permits_inv :: "core \<Rightarrow> bool" where
  "permits_inv c \<longleftrightarrow> (\<exists>size. (\<forall>s. ck_sems c s + held (ck_tasks c) s = size s) \<and>
    (\<forall>s \<ge> ck_next_sem c. size s = 0) \<and>
    (\<forall>r. known_replica c r \<longrightarrow> rp_sem r < ck_next_sem c \<and> size (rp_sem r) = rp_concurrency_c r))"

lemma held_append: "held (ts @ [t]) s = held ts s + of_bool (holds s t)"
  by (simp add: held_def)

lemma held_update:
  "i < length ts \<Longrightarrow> held (ts[i := t]) s + of_bool (holds s (ts ! i)) = held ts s + of_bool (holds s t)"
proof (induction ts arbitrary: i)
  case (Cons a ts)
  then show ?case by (cases i) (auto simp: held_def)
qed simp

lemma known_replica_update:
  assumes "i < length (ck_tasks c)" and "ck_tasks c' = (ck_tasks c)[i := t]"
    and "ck_replicas c' = ck_replicas c" and "\<And>r. task_replica t = Some r \<Longrightarrow> known_replica c r"
  shows "known_replica c' r \<Longrightarrow> known_replica c r"
proof -
  have "t' = t \<or> t' \<in> set (ck_tasks c)" if "t' \<in> set ((ck_tasks c)[i := t])" for t'
    using that set_update_subset_insert [of "ck_tasks c" i t] by blast
  then show "known_replica c' r \<Longrightarrow> known_replica c r"
    using assms(2-4) unfolding known_replica_def by metis
qed

text \<open>A step that replaces one task and keeps the table keeps the balance of the permits.\<close>

lemma permits_inv_update:
  assumes "permits_inv c" and "i < length (ck_tasks c)" and "ck_tasks c' = (ck_tasks c)[i := t]"
    and "ck_replicas c' = ck_replicas c" and "ck_next_sem c' = ck_next_sem c"
    and "\<And>r. task_replica t = Some r \<Longrightarrow> known_replica c r"
    and "\<And>s. ck_sems c' s + of_bool (holds s t) = ck_sems c s + of_bool (holds s (ck_tasks c ! i))"
  shows "permits_inv c'"
proof -
  obtain size where size: "\<And>s. ck_sems c s + held (ck_tasks c) s = size s"
    "\<And>s. s \<ge> ck_next_sem c \<Longrightarrow> size s = 0"
    "\<And>r. known_replica c r \<Longrightarrow> rp_sem r < ck_next_sem c \<and> size (rp_sem r) = rp_concurrency_c r"
    using assms(1) unfolding permits_inv_def by blast
  have "ck_sems c' s + held (ck_tasks c') s = size s" for s
    using held_update [OF assms(2), of t s] assms(7) [of s] size(1) [of s] assms(3) by simp
  moreover have "known_replica c' r \<Longrightarrow> known_replica c r" for r
    using known_replica_update [OF assms(2-4,6)] .
  ultimately show ?thesis unfolding permits_inv_def using size assms(5) by metis
qed

lemma permits_inv_append:
  assumes "permits_inv c" and "ck_tasks c' = ck_tasks c @ [t]"
    and "ck_replicas c' = ck_replicas c" and "ck_next_sem c' = ck_next_sem c" and "ck_sems c' = ck_sems c"
    and "\<And>r. task_replica t = Some r \<Longrightarrow> known_replica c r" and "\<And>s. \<not> holds s t"
  shows "permits_inv c'"
proof -
  have "known_replica c' r \<Longrightarrow> known_replica c r" for r
    using assms by (auto simp: known_replica_def)
  then show ?thesis
    using assms unfolding permits_inv_def by (auto simp: held_append)
qed

lemma servers_to_replicas_fresh:
  "servers_to_replicas ss n sems = Some (rs, n', sems') \<Longrightarrow> n \<le> n' \<and>
    (\<forall>s. s < n \<or> n' \<le> s \<longrightarrow> sems' s = sems s) \<and>
    (\<forall>r \<in> set rs. n \<le> rp_sem r \<and> rp_sem r < n' \<and> sems' (rp_sem r) = rp_concurrency_c r)"
proof (induction ss n sems arbitrary: rs n' sems' rule: servers_to_replicas.induct)
  case (2 s ss n sems)
  obtain r rs' where r: "runner_replica s n = Some r" "rs = r # rs'"
    and rest: "servers_to_replicas ss (Suc n) (sems(n := rp_concurrency_c r)) = Some (rs', n', sems')"
    using "2.prems" by (auto split: option.splits)
  have "rp_sem r = n" using r(1) by (auto simp: runner_replica_def Let_def split: if_splits)
  then show ?case using "2.IH" [OF r(1) rest] r(2) by fastforce
qed auto

lemma build_replicas_fresh:
  "build_replicas i cfgs n sems = Some (rs, n', sems') \<Longrightarrow> n \<le> n' \<and>
    (\<forall>s. s < n \<or> n' \<le> s \<longrightarrow> sems' s = sems s) \<and>
    (\<forall>r \<in> set rs. n \<le> rp_sem r \<and> rp_sem r < n' \<and> sems' (rp_sem r) = rp_concurrency_c r)"
proof (induction i cfgs n sems arbitrary: rs n' sems' rule: build_replicas.induct)
  case (2 i cfg cfgs n sems)
  obtain r rs' where r: "build_replica i cfg n = Some r" "rs = r # rs'"
    and rest: "build_replicas (Suc i) cfgs (Suc n) (sems(n := rp_concurrency_c r)) = Some (rs', n', sems')"
    using "2.prems" by (auto split: option.splits)
  have "rp_sem r = n" using r(1) by (auto simp: build_replica_def Let_def split: if_splits)
  then show ?case using "2.IH" [OF r(1) rest] r(2) by fastforce
qed auto

lemma permits_inv_step: "core_step nats c c' \<Longrightarrow> permits_inv c \<Longrightarrow> permits_inv c'"
proof (induction rule: core_step.induct)
  case (chosen c peek zone r ident)
  show ?case
    by (rule permits_inv_append [OF chosen(2), where t = "Chosen ident peek zone r"])
      (use chosen(1) in \<open>auto simp: placeable_def live_serving_def known_replica_def\<close>)
next
  case (rejected c r)
  show ?case by (rule permits_inv_append [OF rejected, where t = "Ended Rejected"]) auto
next
  case (admitted i c ident peek zone r sems rq)
  have "known_replica c r" using admitted(1,2) by (force simp: known_replica_def in_set_conv_nth)
  moreover have "sems s + of_bool (rp_sem r = s) = ck_sems c s" for s
    using sem.acquire_moves [OF admitted(3), of s] by (simp add: eq_commute)
  ultimately show ?case
    using admitted
    by (intro permits_inv_update [OF admitted(10,1), where t = "Running rq Forwarding"]) auto
next
  case (refused i c ident peek zone r a)
  then show ?case by (intro permits_inv_update [OF refused(4,1), where t = "Ended Rejected"]) auto
next
  case (abandoned i c ident peek zone r)
  then show ?case by (intro permits_inv_update [OF abandoned(3,1), where t = "Ended Dropped"]) auto
next
  case (headed i c rq a)
  have "known_replica c (rq_replica rq)" using headed(1,2) by (force simp: known_replica_def in_set_conv_nth)
  then show ?case
    using headed by (intro permits_inv_update [OF headed(3,1), where t = "Running rq (Streaming None)"]) auto
next
  case (moved i c rq ph ph')
  have "known_replica c (rq_replica rq)" using moved(1,2) by (force simp: known_replica_def in_set_conv_nth)
  then show ?case
    using moved by (intro permits_inv_update [OF moved(4,1), where t = "Running rq ph'"]) auto
next
  case (finished i c rq ph es)
  then show ?case
    by (intro permits_inv_update [OF finished(4,1), where t = "Ended Finished"])
      (auto simp: core_end_def sem.release_moves)
next
  case (dropped i c rq ph)
  then show ?case
    by (intro permits_inv_update [OF dropped(3,1), where t = "Ended Dropped"])
      (auto simp: core_end_def sem.release_moves)
next
  case (polled servers c rs n p)
  obtain size where size: "\<And>s. ck_sems c s + held (ck_tasks c) s = size s"
    "\<And>s. s \<ge> ck_next_sem c \<Longrightarrow> size s = 0"
    "\<And>r. known_replica c r \<Longrightarrow> rp_sem r < ck_next_sem c \<and> size (rp_sem r) = rp_concurrency_c r"
    using polled(2) unfolding permits_inv_def by blast
  note fresh = servers_to_replicas_fresh [OF polled(1)]
  let ?size = "\<lambda>s. if s < ck_next_sem c then size s else p s"
  have none: "held (ck_tasks c) s = 0" if "s \<ge> ck_next_sem c" for s using size(1,2) [of s] that by simp
  have "p s + held (ck_tasks c) s = ?size s" for s using size(1) [of s] fresh none [of s] by auto
  moreover have "?size s = 0" if "s \<ge> n" for s using fresh size(1,2) [of s] that by auto
  moreover have "rp_sem r < n \<and> ?size (rp_sem r) = rp_concurrency_c r"
    if "known_replica (c\<lparr>ck_replicas := rs, ck_next_sem := n, ck_sems := p\<rparr>) r" for r
    using that fresh size(3) [of r] by (fastforce simp: known_replica_def)
  ultimately show ?case unfolding permits_inv_def by (intro exI [of _ ?size]) simp
qed (auto simp: permits_inv_def known_replica_def)

text \<open>Every request is with a replica that serves its model in its zone.\<close>

fun placed :: "task \<Rightarrow> bool" where
  "placed (Chosen _ peek zone r) = (pk_model peek \<in> set (rp_model_ids r) \<and>
    (\<forall>z. zone = Some z \<longrightarrow> rp_residency_zone r = Some z))"
| "placed (Running rq _) = (rq_model rq \<in> set (rp_model_ids (rq_replica rq)) \<and>
    (\<forall>z. rq_zone rq = Some z \<longrightarrow> rp_residency_zone (rq_replica rq) = Some z) \<and>
    mc_residency_zone (rq_meter rq) = rp_residency_zone (rq_replica rq) \<and>
    mc_request_id (rq_meter rq) = rq_id rq)"
| "placed (Ended _) = True"

lemma ball_update: "\<forall>x \<in> set xs. P x \<Longrightarrow> ys = xs[i := y] \<Longrightarrow> P y \<Longrightarrow> \<forall>x \<in> set ys. P x"
  using set_update_subset_insert [of xs i y] by blast

lemma placed_step:
  "core_step nats c c' \<Longrightarrow> \<forall>t \<in> set (ck_tasks c). placed t \<Longrightarrow> \<forall>t \<in> set (ck_tasks c'). placed t"
proof (induction rule: core_step.induct)
  case (admitted i c ident peek zone r sems rq)
  have "placed (ck_tasks c ! i)" using admitted(1,10) by simp
  then show ?case
    using admitted(2,4-9) by (intro ball_update [OF admitted(10), where i = i and y = "Running rq Forwarding"]) auto
next
  case (headed i c rq a)
  have "placed (ck_tasks c ! i)" using headed(1,3) by simp
  then show ?case using headed(2) by (intro ball_update [OF headed(3), where i = i and y = "Running rq (Streaming None)"]) auto
next
  case (moved i c rq ph ph')
  have "placed (ck_tasks c ! i)" using moved(1,4) by simp
  then show ?case using moved(2) by (intro ball_update [OF moved(4), where i = i and y = "Running rq ph'"]) auto
next
  case (refused i c ident peek zone r a)
  show ?case by (rule ball_update [OF refused(4), where i = i and y = "Ended Rejected"]) simp_all
next
  case (abandoned i c ident peek zone r)
  show ?case by (rule ball_update [OF abandoned(3), where i = i and y = "Ended Dropped"]) simp_all
next
  case (finished i c rq ph es)
  show ?case by (rule ball_update [OF finished(4), where i = i and y = "Ended Finished"]) (simp_all add: core_end_def)
next
  case (dropped i c rq ph)
  show ?case by (rule ball_update [OF dropped(3), where i = i and y = "Ended Dropped"]) (simp_all add: core_end_def)
qed (auto simp: placeable_def live_serving_def)

text \<open>
  The registry points to running requests only, and no two running requests share a token.
\<close>

definition runs :: "core \<Rightarrow> nat \<Rightarrow> request \<Rightarrow> bool" where
  "runs c i rq \<longleftrightarrow> i < length (ck_tasks c) \<and> (\<exists>ph. ck_tasks c ! i = Running rq ph)"

definition registry_inv :: "core \<Rightarrow> bool" where
  "registry_inv c \<longleftrightarrow>
    (\<forall>rid tok. ck_cancels c rid = Some tok \<longrightarrow> (\<exists>i rq. runs c i rq \<and> rq_id rq = rid \<and> rq_token rq = tok)) \<and>
    (\<forall>i rq. runs c i rq \<longrightarrow> rq_token rq < ck_next_token c) \<and>
    (\<forall>i j rq rq'. runs c i rq \<longrightarrow> runs c j rq' \<longrightarrow> rq_token rq = rq_token rq' \<longrightarrow> i = j)"

lemma runs_update:
  assumes "ck_tasks c' = (ck_tasks c)[i := t]" and "i < length (ck_tasks c)"
  shows "runs c' j rq \<longleftrightarrow> (if j = i then \<exists>ph. t = Running rq ph else runs c j rq)"
  using assms by (auto simp: runs_def)

lemma runs_append:
  assumes "ck_tasks c' = ck_tasks c @ [t]" and "\<And>rq ph. t \<noteq> Running rq ph"
  shows "runs c' j rq \<longleftrightarrow> runs c j rq"
  using assms by (auto simp: runs_def nth_append less_Suc_eq)

lemma registry_inv_cong:
  assumes "registry_inv c" and "\<And>j rq. runs c' j rq \<longleftrightarrow> runs c j rq"
    and "ck_cancels c' = ck_cancels c" and "ck_next_token c' = ck_next_token c"
  shows "registry_inv c'"
  using assms by (simp add: registry_inv_def)

lemma registry_inv_end:
  assumes "registry_inv c" and "runs c i rq"
  shows "registry_inv (core_end i rq oc es c)"
proof -
  have i: "i < length (ck_tasks c)" using assms(2) by (simp add: runs_def)
  have runs: "runs (core_end i rq oc es c) j rq' \<longleftrightarrow> j \<noteq> i \<and> runs c j rq'" for j rq'
    using runs_update [of "core_end i rq oc es c" c i "Ended oc"] i by (simp add: core_end_def)
  have "\<exists>j rq'. j \<noteq> i \<and> runs c j rq' \<and> rq_id rq' = rid \<and> rq_token rq' = tok"
    if reg: "ck_cancels c rid = Some tok" and other: "rid \<noteq> rq_id rq" for rid tok
  proof -
    obtain j rq' where j: "runs c j rq'" "rq_id rq' = rid" "rq_token rq' = tok"
      using assms(1) reg unfolding registry_inv_def by blast
    then have "j \<noteq> i" using assms(2) other by (auto simp: runs_def)
    then show ?thesis using j by blast
  qed
  then show ?thesis
    using assms(1) unfolding registry_inv_def runs by (auto simp: core_end_def)
qed

lemma registry_inv_admit:
  assumes "registry_inv c" and "i < length (ck_tasks c)" and "ck_tasks c ! i = Chosen ident peek zone r"
    and "rq_token rq = ck_next_token c"
  shows "registry_inv (c\<lparr>ck_sems := sems, ck_cancels := (ck_cancels c)(rq_id rq \<mapsto> ck_next_token c),
      ck_next_token := Suc (ck_next_token c), ck_tasks := (ck_tasks c)[i := Running rq Forwarding]\<rparr>)"
    (is "registry_inv ?c")
proof -
  have runs: "runs ?c j rq' \<longleftrightarrow> (if j = i then rq' = rq else runs c j rq')" for j rq'
    using runs_update [of ?c c i "Running rq Forwarding"] assms(2) by auto
  have none: "\<not> runs c i rq'" for rq' using assms(3) by (simp add: runs_def)
  have lt: "runs c j rq' \<Longrightarrow> rq_token rq' < ck_next_token c" for j rq'
    using assms(1) by (auto simp: registry_inv_def)
  show ?thesis
    unfolding registry_inv_def runs
  proof (intro conjI allI impI)
    show "\<exists>j rq'. (if j = i then rq' = rq else runs c j rq') \<and> rq_id rq' = rid \<and> rq_token rq' = tok"
      if reg: "ck_cancels ?c rid = Some tok" for rid tok
    proof (cases "rid = rq_id rq")
      case True
      then show ?thesis using reg assms(4) by (intro exI [of _ i] exI [of _ rq]) simp
    next
      case False
      then have "ck_cancels c rid = Some tok" using reg by simp
      then obtain j rq' where "runs c j rq'" "rq_id rq' = rid" "rq_token rq' = tok"
        using assms(1) unfolding registry_inv_def by blast
      then show ?thesis using none by (intro exI [of _ j] exI [of _ rq']) auto
    qed
    show "rq_token rq' < ck_next_token ?c" if "if j = i then rq' = rq else runs c j rq'" for j rq'
      using that lt assms(4) by (fastforce split: if_splits)
    show "j = k" if "if j = i then rq1 = rq else runs c j rq1" and "if k = i then rq2 = rq else runs c k rq2"
      and "rq_token rq1 = rq_token rq2" for j k rq1 rq2
    proof -
      have "j = i \<longleftrightarrow> rq_token rq1 = ck_next_token c" "k = i \<longleftrightarrow> rq_token rq2 = ck_next_token c"
        using that(1,2) lt [of j rq1] lt [of k rq2] assms(4) by (cases "j = i"; cases "k = i"; simp)+
      then show ?thesis
        using that assms(1) unfolding registry_inv_def by (cases "j = i") (simp, metis)
    qed
  qed
qed

lemma registry_inv_step: "core_step nats c c' \<Longrightarrow> registry_inv c \<Longrightarrow> registry_inv c'"
proof (induction rule: core_step.induct)
  case (rejected c r)
  show ?case by (rule registry_inv_cong [OF rejected], rule runs_append [where t = "Ended Rejected"]) simp_all
next
  case (chosen c peek zone r ident)
  show ?case
    by (rule registry_inv_cong [OF chosen(2)], rule runs_append [where t = "Chosen ident peek zone r"]) simp_all
next
  case (refused i c ident peek zone r a)
  show ?case
    by (rule registry_inv_cong [OF refused(4)], subst runs_update [where i = i and c = c])
      (use refused in \<open>auto simp: runs_def\<close>)
next
  case (abandoned i c ident peek zone r)
  show ?case
    by (rule registry_inv_cong [OF abandoned(3)], subst runs_update [where i = i and c = c])
      (use abandoned in \<open>auto simp: runs_def\<close>)
next
  case (headed i c rq a)
  show ?case
    by (rule registry_inv_cong [OF headed(3)], subst runs_update [where i = i and c = c])
      (use headed in \<open>auto simp: runs_def\<close>)
next
  case (moved i c rq ph ph')
  show ?case
    by (rule registry_inv_cong [OF moved(4)], subst runs_update [where i = i and c = c])
      (use moved in \<open>auto simp: runs_def\<close>)
next
  case (finished i c rq ph es)
  then show ?case by (intro registry_inv_end) (auto simp: runs_def)
next
  case (dropped i c rq ph)
  then show ?case by (intro registry_inv_end) (auto simp: runs_def)
next
  case (admitted i c ident peek zone r sems rq)
  then show ?case by (intro registry_inv_admit) simp_all
qed (auto simp: registry_inv_def runs_def)

text \<open>The answers and the metering records a request has been given.\<close>

fun is_answer :: "nat \<Rightarrow> emission \<Rightarrow> bool" where
  "is_answer i (Respond j _) = (j = i)"
| "is_answer i _ = False"

fun is_record :: "nat \<Rightarrow> emission \<Rightarrow> bool" where
  "is_record i (PublishMeter j _) = (j = i)"
| "is_record i _ = False"

definition answers :: "core \<Rightarrow> nat \<Rightarrow> nat" where
  "answers c i = length (filter (is_answer i) (ck_out c))"

definition records :: "core \<Rightarrow> nat \<Rightarrow> nat" where
  "records c i = length (filter (is_record i) (ck_out c))"

fun task_answered :: "task \<Rightarrow> bool" where
  "task_answered (Running _ ph) = answered ph"
| "task_answered (Ended oc) = (oc \<noteq> Dropped)"
| "task_answered _ = False"

definition emission_inv :: "bool \<Rightarrow> core \<Rightarrow> bool" where
  "emission_inv nats c \<longleftrightarrow> (\<forall>i.
    (i < length (ck_tasks c) \<longrightarrow>
      records c i = of_bool (nats \<and> ck_tasks c ! i = Ended Finished) \<and>
      answers c i \<le> 1 \<and>
      (ck_tasks c ! i \<noteq> Ended Dropped \<longrightarrow> answers c i = of_bool (task_answered (ck_tasks c ! i)))) \<and>
    (i \<ge> length (ck_tasks c) \<longrightarrow> records c i = 0 \<and> answers c i = 0))"

lemma emission_inv_append:
  assumes "emission_inv nats c" and "ck_tasks c' = ck_tasks c @ [t]" and "ck_out c' = ck_out c @ es"
    and "\<And>j. length (filter (is_record j) es) = 0"
    and "\<And>j. length (filter (is_answer j) es) = of_bool (j = length (ck_tasks c) \<and> task_answered t)"
    and "t \<noteq> Ended Finished"
  shows "emission_inv nats c'"
proof -
  have "records c' j = records c j"
    and "answers c' j = answers c j + of_bool (j = length (ck_tasks c) \<and> task_answered t)" for j
    using assms(3-5) by (simp_all add: records_def answers_def)
  then show ?thesis
    using assms(1,2,6) unfolding emission_inv_def
    by (auto simp: nth_append less_Suc_eq)
qed

text \<open>A step that replaces a task may emit for that task only, what its new state calls for.\<close>

lemma emission_inv_update:
  assumes "emission_inv nats c" and "i < length (ck_tasks c)"
    and "ck_tasks c' = (ck_tasks c)[i := t]" and "ck_out c' = ck_out c @ es"
    and "\<And>j. length (filter (is_record j) es) = of_bool (j = i \<and> nats \<and> t = Ended Finished)"
    and "\<And>j. length (filter (is_answer j) es) =
      of_bool (j = i \<and> task_answered t \<and> \<not> task_answered (ck_tasks c ! i))"
    and "ck_tasks c ! i \<noteq> Ended Finished" and "ck_tasks c ! i \<noteq> Ended Dropped"
    and "t \<noteq> Ended Dropped \<Longrightarrow> task_answered (ck_tasks c ! i) \<Longrightarrow> task_answered t"
  shows "emission_inv nats c'"
proof -
  have r: "records c' j = records c j + of_bool (j = i \<and> nats \<and> t = Ended Finished)"
    and a: "answers c' j = answers c j + of_bool (j = i \<and> task_answered t \<and> \<not> task_answered (ck_tasks c ! i))"
    for j using assms(4-6) by (simp_all add: records_def answers_def)
  have old: "records c i = 0" "answers c i = of_bool (task_answered (ck_tasks c ! i))"
    using assms(1,2,7,8) by (simp_all add: emission_inv_def)
  show ?thesis
    unfolding emission_inv_def
  proof (intro allI)
    fix j
    show "(j < length (ck_tasks c') \<longrightarrow>
        records c' j = of_bool (nats \<and> ck_tasks c' ! j = Ended Finished) \<and> answers c' j \<le> 1 \<and>
        (ck_tasks c' ! j \<noteq> Ended Dropped \<longrightarrow> answers c' j = of_bool (task_answered (ck_tasks c' ! j)))) \<and>
      (j \<ge> length (ck_tasks c') \<longrightarrow> records c' j = 0 \<and> answers c' j = 0)"
    proof (cases "j = i")
      case True
      then show ?thesis
        using r [of i] a [of i] old assms(2,3,9) by (cases "task_answered (ck_tasks c ! i)") auto
    next
      case False
      then show ?thesis using r [of j] a [of j] assms(1,3) by (simp add: emission_inv_def)
    qed
  qed
qed

lemma terminal_emissions_count:
  assumes "terminal_emissions nats i rq ph es"
  shows "length (filter (is_record j) es) = of_bool (j = i \<and> nats)"
    and "length (filter (is_answer j) es) = of_bool (j = i \<and> \<not> answered ph)"
  using assms by (auto simp: terminal_emissions_def)

lemma emission_inv_step: "core_step nats c c' \<Longrightarrow> emission_inv nats c \<Longrightarrow> emission_inv nats c'"
proof (induction rule: core_step.induct)
  case (rejected c r)
  show ?case
    by (rule emission_inv_append [OF rejected, where t = "Ended Rejected"
          and es = "[Respond (length (ck_tasks c)) r]"]) auto
next
  case (chosen c peek zone r ident)
  show ?case
    by (rule emission_inv_append [OF chosen(2), where t = "Chosen ident peek zone r" and es = "[]"]) auto
next
  case (refused i c ident peek zone r a)
  show ?case
    by (rule emission_inv_update [OF refused(4,1), where t = "Ended Rejected" and es = "[Respond i a]"])
      (auto simp: refused(2))
next
  case (admitted i c ident peek zone r sems rq)
  show ?case
    by (rule emission_inv_update [OF admitted(10,1), where t = "Running rq Forwarding" and es = "[]"])
      (auto simp: admitted(2))
next
  case (headed i c rq a)
  show ?case
    by (rule emission_inv_update [OF headed(3,1), where t = "Running rq (Streaming None)" and es = "[Respond i a]"])
      (auto simp: headed(2))
next
  case (moved i c rq ph ph')
  show ?case
    by (rule emission_inv_update [OF moved(4,1), where t = "Running rq ph'" and es = "[]"])
      (auto simp: moved(2,3))
next
  case (finished i c rq ph es)
  show ?case
    by (rule emission_inv_update [OF finished(4,1), where t = "Ended Finished" and es = es])
      (auto simp: finished(2) core_end_def terminal_emissions_count [OF finished(3)])
next
  case (dropped i c rq ph)
  show ?case
    by (rule emission_inv_update [OF dropped(3,1), where t = "Ended Dropped" and es = "[]"])
      (auto simp: dropped(2) core_end_def)
next
  case (abandoned i c ident peek zone r)
  show ?case
    by (rule emission_inv_update [OF abandoned(3,1), where t = "Ended Dropped" and es = "[]"])
      (auto simp: abandoned(2))
qed (auto simp: emission_inv_def records_def answers_def)

section \<open>Reachable states\<close>

lemma router_nats: "ro_nats (router_step cd e st) = ro_nats st"
  by (cases e) (simp_all add: arrive_def admit_def cancel_seen_def upstream_head_def upstream_body_def
      frame_def frame_error_def stream_end_def resume_def disconnect_def poll_inventory_def cancel_def
      register_def router_ops Let_def split: option.split task.split phase.split prod.split list.split
      sum.split route_error.split)

definition router_inv :: "router \<Rightarrow> bool" where
  "router_inv st \<longleftrightarrow> permits_inv (core_of st) \<and> (\<forall>t \<in> set (ro_tasks st). placed t) \<and>
    registry_inv (core_of st) \<and> emission_inv (ro_nats st) (core_of st)"

lemma router_init_inv: "router_init auth nats mekhan cfgs = Some st \<Longrightarrow> router_inv st"
proof -
  assume "router_init auth nats mekhan cfgs = Some st"
  then obtain rs n p where b: "build_replicas 0 cfgs 0 (\<lambda>_. 0) = Some (rs, n, p)"
    and st: "ro_replicas st = rs" "ro_sems st = p" "ro_next_sem st = n" "ro_tasks st = []"
      "ro_cancels st = Map.empty" "ro_out st = []"
    by (auto simp: router_init_def)
  have "permits_inv (core_of st)"
    unfolding permits_inv_def using build_replicas_fresh [OF b] st
    by (intro exI [of _ p]) (auto simp: held_def known_replica_def)
  then show ?thesis
    using st by (simp add: router_inv_def registry_inv_def runs_def emission_inv_def records_def answers_def)
qed

lemma router_inv_step: "router_inv st \<Longrightarrow> router_inv (router_step cd e st)"
  using step_refines [of st cd e] permits_inv_step registry_inv_step emission_inv_step router_nats [of cd e st]
    placed_step [of "ro_nats st" "core_of st" "core_of (router_step cd e st)"]
  by (auto simp: router_inv_def)

lemma reachable_inv: "router_reachable cd st \<Longrightarrow> router_inv st"
  by (induction rule: router_reachable.induct) (blast intro: router_init_inv router_inv_step)+

lemma reachable_run: "router_reachable cd st \<Longrightarrow> router_reachable cd (fold (router_step cd) es st)"
  by (induction es arbitrary: st) (auto intro: router_reachable.step)

section \<open>Properties\<close>

text \<open>
  C13: whatever the order of events, the router does what its specification allows: it rejects a
  request or gives it a replica that may take it, admits it against a free permit, and ends it
  by returning the permit and its registry entry.
\<close>

theorem router_refines_core: "core_step (ro_nats st) (core_of st) (core_of (router_step cd e st))"
  by (rule step_refines)

text \<open>
  C14: in every reachable state, for every running request, the requests that hold a permit of
  its replica's semaphore and the free permits add up to the replica's concurrency, so no
  more requests than that run on one semaphore and none of its permits is ever lost.
\<close>

theorem router_admission_bound:
  assumes "router_reachable cd st" and "Running rq ph \<in> set (ro_tasks st)"
  shows "ro_sems st (rp_sem (rq_replica rq)) + held (ro_tasks st) (rp_sem (rq_replica rq)) =
    rp_concurrency_c (rq_replica rq)"
proof -
  have "permits_inv (core_of st)" using reachable_inv [OF assms(1)] by (simp add: router_inv_def)
  moreover have "known_replica (core_of st) (rq_replica rq)"
    using assms(2) by (force simp: known_replica_def)
  ultimately show ?thesis unfolding permits_inv_def by auto
qed

text \<open>
  C16: a request that requires a zone runs on a replica of that zone, and its metering record
  names that zone.
\<close>

theorem router_residency:
  assumes "router_reachable cd st" and "Running rq ph \<in> set (ro_tasks st)" and "rq_zone rq = Some z"
  shows "rp_residency_zone (rq_replica rq) = Some z \<and> rq_model rq \<in> set (rp_model_ids (rq_replica rq)) \<and>
    il_residency_zone (finish_meter (rq_meter rq) us status now) = Some z"
proof -
  have "placed (Running rq ph)" using reachable_inv [OF assms(1)] assms(2) by (auto simp: router_inv_def)
  then show ?thesis using assms(3) by (simp add: finish_meter_def Let_def)
qed


text \<open>
  A cancellation that the registry accepts marks a request that is still running, the one
  registered under that id, and no other.
\<close>

theorem router_cancel_hits_one:
  assumes "router_reachable cd st" and "fst (cancel rid st)"
  shows "\<exists>i rq ph. task_at st i = Some (Running rq ph) \<and> rq_id rq = rid \<and>
    ro_cancelled (snd (cancel rid st)) (rq_token rq) \<and>
    (\<forall>j rq' ph'. j \<noteq> i \<longrightarrow> task_at st j = Some (Running rq' ph') \<longrightarrow>
      ro_cancelled (snd (cancel rid st)) (rq_token rq') = ro_cancelled st (rq_token rq'))"
proof -
  have inv: "registry_inv (core_of st)" using reachable_inv [OF assms(1)] by (simp add: router_inv_def)
  obtain tok where tok: "ro_cancels st rid = Some tok"
    using assms(2) by (auto simp: cancel_def split: option.splits)
  then obtain i rq where i: "runs (core_of st) i rq" "rq_id rq = rid" "rq_token rq = tok"
    using inv unfolding registry_inv_def by fastforce
  have "rq_token rq' \<noteq> tok" if "j \<noteq> i" "task_at st j = Some (Running rq' ph')" for j rq' ph'
  proof -
    have "runs (core_of st) j rq'" using that(2) by (auto simp: runs_def task_at_Some)
    then show ?thesis using inv i that(1) unfolding registry_inv_def by blast
  qed
  moreover obtain ph where "task_at st i = Some (Running rq ph)"
    using i(1) by (auto simp: runs_def task_at_Some)
  ultimately show ?thesis
    using i(2,3) tok by (intro exI [of _ i] exI [of _ rq] exI [of _ ph]) (simp add: cancel_def)
qed

section \<open>A run\<close>

definition demo_config :: replica_config where
  "demo_config = \<lparr>rc_base_url = ''http://a/'', rc_model_ids = [''m''], rc_residency_zone = Some ''eu'',
    rc_concurrency_c = 1, rc_api_key = None\<rparr>"

definition demo_headers :: headers where
  "demo_headers = [''x-residency-zone'' \<mapsto> ''eu'', ''x-request-id'' \<mapsto> ''r'']"

definition demo_body :: "json option" where
  "demo_body = Some (JObject [(''model'', JString ''m''), (''stream'', Bool True)])"

definition demo_start :: router where
  "demo_start = \<lparr>ro_auth = auth_from_settings ''dev_noop'' ''dev'', ro_nats = True, ro_poller = True,
    ro_replicas = [(demo_replica ''eu'' ''m'' 0)], ro_sems = (\<lambda>_. 0)(0 := 1), ro_next_sem = 1,
    ro_cancels = Map.empty, ro_cancelled = (\<lambda>_. False), ro_next_token = 0,
    ro_metrics = default_metrics, ro_tasks = [], ro_out = []\<rparr>"

definition demo_request :: request where
  "demo_request = \<lparr>rq_id = ''r'', rq_token = 0, rq_replica = demo_replica ''eu'' ''m'' 0, rq_model = ''m'',
    rq_zone = Some ''eu'', rq_stream = True, rq_meter = \<lparr>mc_request_id = ''r'', mc_tenant = ''dev'',
      mc_instance_id = None, mc_step_id = None, mc_model = ''m'', mc_replica_id = ''replica-0'',
      mc_replica_base_url = ''http://a'', mc_residency_zone = Some ''eu'', mc_slo_tier = None,
      mc_started_at = 0\<rparr>\<rparr>"

definition demo_run :: "event list \<Rightarrow> router" where
  "demo_run es = fold (router_step demo_codec) (Arrive demo_headers demo_body # Admit 0 ''u'' 0 # es) demo_start"

lemma demo_start_init: "router_init (auth_from_settings ''dev_noop'' ''dev'') True True [demo_config] = Some demo_start"
  by (simp add: router_init_def build_replica_def demo_config_def demo_start_def demo_replica_def Let_def
      max_permits_def dec_string.simps trim_slashes_def)

lemma demo_reachable: "router_reachable demo_codec (demo_run es)"
  unfolding demo_run_def by (rule reachable_run, rule router_reachable.start, rule demo_start_init)

lemma demo_select: "select [demo_replica ''eu'' ''m'' s] p ''m'' (Some ''eu'') = Inr (demo_replica ''eu'' ''m'' s)"
  by (simp add: select_def demo_replica_def serves_def)

lemma demo_arrive:
  assumes "select (ro_replicas st) (ro_sems st) ''m'' (Some ''eu'') = Inr r"
    and "ro_auth st = auth_from_settings ''dev_noop'' ''dev''"
  shows "\<exists>m. arrive demo_headers demo_body st = st\<lparr>ro_metrics := m, ro_tasks := ro_tasks st @
    [Chosen \<lparr>id_tenant = ''dev'', id_instance_id = None, id_step_id = None, id_request_id = Some ''r'',
      id_slo_tier = None\<rparr> \<lparr>pk_model = ''m'', pk_stream = True, pk_include_usage = None\<rparr> (Some ''eu'') r]\<rparr>"
  using assms
  by (intro exI [of _ "(ro_metrics st)\<lparr>mt_requests_total := mt_requests_total (ro_metrics st) + 1\<rparr>"])
    (simp add: arrive_def authenticate_def auth_from_settings_def demo_headers_def demo_body_def
      peek_request_def bool_member_def optional_options_def header_str_def header_to_str_def
      add_task_def Let_def)

lemma demo_running:
  "ro_tasks (demo_run []) = [Running demo_request Forwarding]"
  "ro_sems (demo_run []) = (\<lambda>_. 0)" "ro_cancels (demo_run []) = [''r'' \<mapsto> 0]"
  "ro_cancelled (demo_run []) = (\<lambda>_. False)" "ro_nats (demo_run [])" "ro_poller (demo_run [])"
  "ro_out (demo_run []) = []" "ro_next_sem (demo_run []) = 1" "ro_next_token (demo_run []) = 1"
  "ro_auth (demo_run []) = auth_from_settings ''dev_noop'' ''dev''"
proof -
  obtain m where "arrive demo_headers demo_body demo_start = demo_start\<lparr>ro_metrics := m, ro_tasks :=
    [Chosen \<lparr>id_tenant = ''dev'', id_instance_id = None, id_step_id = None, id_request_id = Some ''r'',
      id_slo_tier = None\<rparr> \<lparr>pk_model = ''m'', pk_stream = True, pk_include_usage = None\<rparr> (Some ''eu'')
      (demo_replica ''eu'' ''m'' 0)]\<rparr>"
    using demo_arrive [of demo_start] demo_select by (auto simp: demo_start_def)
  then have "demo_run [] = admit 0 ''u'' 0 (demo_start\<lparr>ro_metrics := m, ro_tasks :=
    [Chosen \<lparr>id_tenant = ''dev'', id_instance_id = None, id_step_id = None, id_request_id = Some ''r'',
      id_slo_tier = None\<rparr> \<lparr>pk_model = ''m'', pk_stream = True, pk_include_usage = None\<rparr> (Some ''eu'')
      (demo_replica ''eu'' ''m'' 0)]\<rparr>)"
    by (simp add: demo_run_def)
  then show "ro_tasks (demo_run []) = [Running demo_request Forwarding]"
    "ro_sems (demo_run []) = (\<lambda>_. 0)" "ro_cancels (demo_run []) = [''r'' \<mapsto> 0]"
    "ro_cancelled (demo_run []) = (\<lambda>_. False)" "ro_nats (demo_run [])" "ro_poller (demo_run [])"
    "ro_out (demo_run []) = []" "ro_next_sem (demo_run []) = 1" "ro_next_token (demo_run []) = 1"
    "ro_auth (demo_run []) = auth_from_settings ''dev_noop'' ''dev''"
    by (auto simp: admit_def task_at_def try_admit_def register_def set_task_def Let_def
        demo_start_def demo_request_def demo_replica_def)
qed

theorem router_admission_bound_witness:
  "ro_sems (demo_run []) 0 + held (ro_tasks (demo_run [])) 0 = 1"
  using router_admission_bound [OF demo_reachable, of demo_request Forwarding "[]"]
  by (simp add: demo_running demo_request_def demo_replica_def)

theorem router_residency_witness:
  "rp_residency_zone (rq_replica demo_request) = Some ''eu''"
  using router_residency [OF demo_reachable, of demo_request Forwarding "[]" "''eu''"]
  by (simp add: demo_running demo_request_def)


theorem router_cancel_hits_one_witness:
  "\<exists>i rq ph. task_at (demo_run []) i = Some (Running rq ph) \<and> rq_id rq = ''r'' \<and>
    ro_cancelled (snd (cancel ''r'' (demo_run []))) (rq_token rq)"
proof -
  have "fst (cancel ''r'' (demo_run []))" by (simp add: demo_running cancel_def)
  from router_cancel_hits_one [OF demo_reachable this] show ?thesis by blast
qed

section \<open>Where the code departs from its documentation\<close>

text \<open>
  Each poll of the inventory makes new semaphores, also for an engine that is still there: the
  running request is forgotten, and the same engine, whose concurrency is one, gets a second.
\<close>

definition demo_runner :: serving_runner where
  "demo_runner = \<lparr>sr_runner_id = ''a'', sr_base_url = ''http://a'', sr_residency_zone = Some ''eu'',
    sr_model_ids = [''m''], sr_concurrency_c = 1\<rparr>"

definition demo_polled :: router where
  "demo_polled = demo_run [PollInventory (Some [demo_runner]), Arrive demo_headers demo_body, Admit 1 ''v'' 0]"

theorem poll_exceeds_concurrency:
  "\<exists>rq. ro_tasks demo_polled = [Running demo_request Forwarding, Running rq Forwarding] \<and>
    rp_base_url (rq_replica rq) = rp_base_url (rq_replica demo_request) \<and>
    rp_concurrency_c (rq_replica rq) = 1 \<and> rp_concurrency_c (rq_replica demo_request) = 1"
proof -
  define r where "r = (demo_replica ''eu'' ''m'' 1)\<lparr>rp_id := ''runner-a''\<rparr>"
  define st where "st = (demo_run [])\<lparr>ro_replicas := [r], ro_next_sem := 2, ro_sems := (\<lambda>_. 0)(1 := 1)\<rparr>"
  have poll: "poll_inventory (Some [demo_runner]) (demo_run []) = st"
    by (simp add: poll_inventory_def demo_running runner_replica_def demo_runner_def Let_def
        max_permits_def trim_slashes_def st_def r_def demo_replica_def)
  have sel: "select (ro_replicas st) (ro_sems st) ''m'' (Some ''eu'') = Inr r"
    by (simp add: st_def select_def r_def demo_replica_def serves_def)
  obtain m where arr: "arrive demo_headers demo_body st = st\<lparr>ro_metrics := m, ro_tasks := ro_tasks st @
    [Chosen \<lparr>id_tenant = ''dev'', id_instance_id = None, id_step_id = None, id_request_id = Some ''r'',
      id_slo_tier = None\<rparr> \<lparr>pk_model = ''m'', pk_stream = True, pk_include_usage = None\<rparr> (Some ''eu'') r]\<rparr>"
    using demo_arrive [OF sel] by (auto simp: st_def demo_running)
  have run: "demo_polled = admit 1 ''v'' 0 (arrive demo_headers demo_body (poll_inventory (Some [demo_runner]) (demo_run [])))"
    by (simp add: demo_polled_def demo_run_def)
  show ?thesis
    unfolding run poll arr
    by (simp add: admit_def task_at_def try_admit_def register_def set_task_def Let_def st_def
        demo_running r_def demo_replica_def demo_request_def)
qed

text \<open>
  A client that goes away changes no counter and leaves no record, although the cancellation
  counter is described as counting disconnects.
\<close>

theorem disconnect_not_counted:
  "ro_metrics (disconnect i st) = ro_metrics st \<and> ro_out (disconnect i st) = ro_out st"
  by (simp add: disconnect_def router_ops split: option.split task.split)

text \<open>
  An upstream that fails in the middle of a stream is counted as an error and, when the consumer
  goes on, as completed as well, and its record says so.
\<close>

theorem stream_error_metered_as_completed:
  fixes now :: time
  assumes "running st i = Some (rq, Streaming us)" and "ro_nats st"
  defines "st' \<equiv> resume i now (frame_error i st)"
  shows "mt_upstream_error_total (ro_metrics st') = mt_upstream_error_total (ro_metrics st) + 1 \<and>
    mt_completed_total (ro_metrics st') = mt_completed_total (ro_metrics st) + 1 \<and>
    (\<exists>log. ro_out st' = ro_out st @ [PublishMeter i log] \<and> il_status log \<in> {''completed'', ''unmetered''})"
proof -
  have at: "i < length (ro_tasks st)" using running_Some [OF assms(1)] by simp
  have obs: "mt_upstream_error_total (observe_record l mt) = mt_upstream_error_total mt"
    "mt_completed_total (observe_record l mt) = mt_completed_total mt" for l mt
    by (simp_all add: observe_record_def observe_def Let_def)
  have eq: "st' = finish_task i rq us Completed now (set_task i (Running rq (StreamFailed us))
      (st\<lparr>ro_metrics := count_status UpstreamError (ro_metrics st)\<rparr>))"
    using assms(1) at by (simp add: st'_def frame_error_def resume_def task_at_def set_task_def)
  show ?thesis
    unfolding eq finish_task_def Let_def using assms(2)
    by (simp add: router_ops obs count_status_def finish_meter_def Let_def)
qed

theorem stream_error_metered_as_completed_witness:
  "\<exists>log. PublishMeter 0 log \<in> set (ro_out (resume 0 1 (frame_error 0 (demo_run [UpstreamHead 0 (Some (200, [])) 0]))))"
proof -
  have "demo_run [UpstreamHead 0 (Some (200, [])) 0] = upstream_head 0 (Some (200, [])) 0 (demo_run [])"
    by (simp add: demo_run_def)
  then have "running (demo_run [UpstreamHead 0 (Some (200, [])) 0]) 0 = Some (demo_request, Streaming None)"
    and "ro_nats (demo_run [UpstreamHead 0 (Some (200, [])) 0])"
    by (simp_all add: upstream_head_def running_def task_at_def demo_running router_ops,
        simp_all add: demo_request_def)
  from stream_error_metered_as_completed [OF this, of 1] show ?thesis by force
qed

text \<open>
  The ids are chosen by the clients: of two running requests with one id the registry knows the
  later only, and forgets it when the earlier one ends.
\<close>

theorem shared_request_id_loses_cancellation:
  assumes "task_at st i = Some (Running rq ph)" and "task_at st j = Some (Running rq' ph')"
    and "rq_id rq = rq_id rq'"
  shows "\<not> fst (cancel (rq_id rq') (disconnect i st))"
  using assms by (simp add: disconnect_def router_ops cancel_def)

end
