(* ===== verification/Token_Shape.thy ===== *)
theory Token_Shape
  imports Capability Join_Index
begin

text \<open>
  The compiler's model of what a token looks like, \<^verbatim>\<open>src/service/src/compiler/token_shape\<close>:
  structural shapes and the JSON schemas emitted for them (\<^verbatim>\<open>types.rs\<close>), the shape read
  off an author's schema (\<^verbatim>\<open>schema_parse.rs\<close>), and the contracts of ports
  (\<^verbatim>\<open>port.rs\<close>). The engine checks tokens against the emitted schemas with a library; what a
  schema accepts is a parameter. The lemmas give shapes their meaning as sets of values and
  show that emitted schemas accept exactly that meaning, that resolving a path and merging
  tokens respect it, that the shape read off a schema covers what the schema accepts, and
  how the checks at the boundary compare with the schemas.
\<close>

section \<open>Shapes\<close>

datatype scalar_ty = TyString | TyNumber | TyBool | TyFileRef | TyTimestamp | TyJson

fun from_kind :: "field_kind \<Rightarrow> scalar_ty" where
  "from_kind KText = TyString"
| "from_kind KTextarea = TyString"
| "from_kind KSelect = TyString"
| "from_kind KSignature = TyString"
| "from_kind KNumber = TyNumber"
| "from_kind KBool = TyBool"
| "from_kind KFile = TyFileRef"
| "from_kind KTimestamp = TyTimestamp"
| "from_kind KJson = TyJson"
| "from_kind KObject = TyJson"
| "from_kind KArray = TyJson"

fun scalar_label :: "scalar_ty \<Rightarrow> string" where
  "scalar_label TyString = ''String''"
| "scalar_label TyNumber = ''Number''"
| "scalar_label TyBool = ''Bool''"
| "scalar_label TyFileRef = ''FileRef''"
| "scalar_label TyTimestamp = ''Timestamp''"
| "scalar_label TyJson = ''Json''"

record provenance =
  pv_node_id :: string
  pv_node_label :: string
  pv_note :: string
  pv_anchor :: "scalar_ty option"
  pv_channel :: "string option"

datatype token_shape =
    SObject "(string \<times> token_shape \<times> provenance) list"
  | SArray token_shape
  | SScalar scalar_ty
  | SAny
  | SOpaque string
  | SSchema json token_shape

type_synonym shape_fields = "(string \<times> token_shape \<times> provenance) list"

text \<open>The node that declares a field, by id and label.\<close>

record shape_node =
  sn_id :: string
  sn_label :: string

definition new_provenance :: "shape_node \<Rightarrow> string \<Rightarrow> provenance" where
  "new_provenance n note = \<lparr>pv_node_id = sn_id n, pv_node_label = sn_label n, pv_note = note,
    pv_anchor = None, pv_channel = None\<rparr>"

definition with_anchor :: "provenance \<Rightarrow> scalar_ty \<Rightarrow> provenance" where
  "with_anchor p t = p\<lparr>pv_anchor := Some t\<rparr>"

definition structural_provenance :: provenance where
  "structural_provenance = \<lparr>pv_node_id = [], pv_node_label = [], pv_note = ''JSON Schema field'',
    pv_anchor = None, pv_channel = None\<rparr>"

fun insert_field :: "token_shape \<Rightarrow> string \<Rightarrow> token_shape \<Rightarrow> provenance \<Rightarrow> token_shape" where
  "insert_field (SObject m) k s p = SObject (bt_insert k (s, p) m)"
| "insert_field s _ _ _ = s"

text \<open>Merging, shallow or deep: the later shape wins, objects below a key merge when deep.\<close>

fun merge_from :: "bool \<Rightarrow> token_shape \<Rightarrow> token_shape \<Rightarrow> token_shape"
  and merge_fields :: "bool \<Rightarrow> shape_fields \<Rightarrow> shape_fields \<Rightarrow> shape_fields" where
  "merge_from deep a (SObject b) = (case a of
      SObject m \<Rightarrow> SObject (merge_fields deep m b) | _ \<Rightarrow> SObject b)"
| "merge_from deep a (SArray s) = SArray s"
| "merge_from deep a (SScalar t) = SScalar t"
| "merge_from deep a SAny = SAny"
| "merge_from deep a (SOpaque n) = SOpaque n"
| "merge_from deep a (SSchema r s) = SSchema r s"
| "merge_fields deep m [] = m"
| "merge_fields deep m ((k, s, p) # b) = merge_fields deep
    (case (deep, map_of m k, s) of
       (True, Some (SObject m', p'), SObject b') \<Rightarrow>
         bt_insert k (merge_from True (SObject m') s, p') m
     | _ \<Rightarrow> bt_insert k (s, p) m) b"

fun unschema :: "token_shape \<Rightarrow> token_shape" where
  "unschema (SSchema _ s) = s"
| "unschema s = s"

text \<open>Walking a path; a shape read off a schema is looked through, once per segment.\<close>

fun resolve_from :: "token_shape \<Rightarrow> provenance option \<Rightarrow> string list \<Rightarrow> (token_shape \<times> provenance option) option" where
  "resolve_from cur prov [] = Some (unschema cur, prov)"
| "resolve_from cur prov (seg # segs) = (case unschema cur of
      SObject m \<Rightarrow> (case map_of m seg of
          Some (s, p) \<Rightarrow> resolve_from s (Some p) segs
        | None \<Rightarrow> None)
    | _ \<Rightarrow> None)"

definition resolve :: "token_shape \<Rightarrow> string list \<Rightarrow> (token_shape \<times> provenance option) option" where
  "resolve s segs = resolve_from s None segs"

fun kind_label :: "token_shape \<Rightarrow> string" where
  "kind_label (SObject _) = ''Object''"
| "kind_label (SArray _) = ''Array''"
| "kind_label (SScalar t) = scalar_label t"
| "kind_label SAny = ''Any''"
| "kind_label (SOpaque n) = ''Opaque('' @ n @ '')''"
| "kind_label (SSchema _ s) = kind_label s"

text \<open>Depth-first search for a field of a given name, for suggestions.\<close>

fun find_by_leaf_in :: "token_shape \<Rightarrow> string \<Rightarrow> string \<Rightarrow> (string \<times> string \<times> provenance) option"
  and find_in_fields :: "shape_fields \<Rightarrow> string \<Rightarrow> string \<Rightarrow> (string \<times> string \<times> provenance) option" where
  "find_by_leaf_in (SObject m) prefix name = find_in_fields m prefix name"
| "find_by_leaf_in (SSchema _ s) prefix name = (case s of
      SObject m \<Rightarrow> find_by_leaf_in s prefix name | _ \<Rightarrow> None)"
| "find_by_leaf_in _ _ _ = None"
| "find_in_fields [] prefix name = None"
| "find_in_fields ((k, s, p) # m) prefix name =
    (let path = (if prefix = [] then k else prefix @ ''.'' @ k) in
     if k = name then Some (path, kind_label s, p)
     else (case find_by_leaf_in s path name of
         Some hit \<Rightarrow> Some hit
       | None \<Rightarrow> find_in_fields m prefix name))"

definition find_by_leaf :: "token_shape \<Rightarrow> string \<Rightarrow> (string \<times> string \<times> provenance) option" where
  "find_by_leaf s name = find_by_leaf_in s [] name"

section \<open>Schemas\<close>

definition nullable :: "string \<Rightarrow> json" where
  "nullable ty = JObject [(''type'', JArray [JString ty, JString ''null''])]"

fun to_json_schema :: "token_shape \<Rightarrow> json"
  and fields_schema :: "shape_fields \<Rightarrow> fields" where
  "to_json_schema (SObject m) = JObject [(''additionalProperties'', Bool True),
    (''properties'', JObject (fields_schema m)), (''type'', JString ''object'')]"
| "to_json_schema (SArray s) = JObject [(''items'', to_json_schema s), (''type'', JString ''array'')]"
| "to_json_schema (SScalar t) = (case t of
      TyNumber \<Rightarrow> nullable ''number''
    | TyBool \<Rightarrow> nullable ''boolean''
    | TyString \<Rightarrow> nullable ''string''
    | TyTimestamp \<Rightarrow> nullable ''string''
    | TyFileRef \<Rightarrow> JObject []
    | TyJson \<Rightarrow> JObject [])"
| "to_json_schema SAny = JObject []"
| "to_json_schema (SOpaque _) = JObject []"
| "to_json_schema (SSchema raw _) = raw"
| "fields_schema [] = []"
| "fields_schema ((k, s, p) # m) = (k, to_json_schema s) # fields_schema m"

text \<open>Reading a shape off a schema; definitions are followed to a bounded depth.\<close>

definition DEPTH_CAP :: nat where
  "DEPTH_CAP = 64"

fun enum_scalar :: "json list \<Rightarrow> scalar_ty" where
  "enum_scalar (Number _ # _) = TyNumber"
| "enum_scalar (Bool _ # _) = TyBool"
| "enum_scalar _ = TyString"

text \<open>\<open>str::replace\<close> of a two-character pattern by one character.\<close>

fun replace_pair :: "char \<Rightarrow> char \<Rightarrow> char \<Rightarrow> string \<Rightarrow> string" where
  "replace_pair a b r (x # y # s) =
    (if x = a \<and> y = b then r # replace_pair a b r s else x # replace_pair a b r (y # s))"
| "replace_pair a b r s = s"

definition resolve_ref :: "string \<Rightarrow> (string \<rightharpoonup> json) \<Rightarrow> json option" where
  "resolve_ref pointer defs =
    (case (case strip_prefix ''#/definitions/'' pointer of
             Some n \<Rightarrow> Some n | None \<Rightarrow> strip_prefix ''#/$defs/'' pointer) of
       None \<Rightarrow> None
     | Some n \<Rightarrow>
         if n = [] \<or> CHR ''/'' \<in> set n then None
         else defs (replace_pair (CHR ''~'') (CHR ''0'') (CHR ''~'')
           (replace_pair (CHR ''~'') (CHR ''1'') (CHR ''/'') n)))"

definition enum_shape :: "fields \<Rightarrow> token_shape" where
  "enum_shape obj = (case map_of obj ''enum'' of
      Some (JArray vs) \<Rightarrow> SScalar (enum_scalar vs) | _ \<Rightarrow> SAny)"

definition has_combinator :: "fields \<Rightarrow> bool" where
  "has_combinator obj = list_ex (\<lambda>k. map_of obj k \<noteq> None) [''oneOf'', ''anyOf'', ''allOf'', ''not'']"

function walk :: "json \<Rightarrow> (string \<rightharpoonup> json) \<Rightarrow> nat \<Rightarrow> token_shape" where
  "walk schema defs depth =
    (if depth > DEPTH_CAP then SAny
     else (case schema of
         JObject obj \<Rightarrow>
           (case map_of obj ''$ref'' of
              Some (JString pointer) \<Rightarrow>
                (case resolve_ref pointer defs of
                   Some target \<Rightarrow> walk target defs (depth + 1)
                 | None \<Rightarrow> SAny)
            | _ \<Rightarrow>
                if has_combinator obj then SAny
                else if map_of obj ''type'' = None then enum_shape obj
                else if map_of obj ''type'' = Some (JString ''object'') then
                  (case map_of obj ''properties'' of
                     Some (JObject props) \<Rightarrow>
                       SObject (fold (\<lambda>(name, prop) m.
                         bt_insert name (walk prop defs (depth + 1), structural_provenance) m) props [])
                   | _ \<Rightarrow> SObject [])
                else if map_of obj ''type'' = Some (JString ''array'') then
                  SArray (case map_of obj ''items'' of
                      Some items \<Rightarrow> walk items defs (depth + 1) | None \<Rightarrow> SAny)
                else if map_of obj ''type'' = Some (JString ''string'') then SScalar TyString
                else if map_of obj ''type'' \<in> {Some (JString ''integer''), Some (JString ''number'')}
                  then SScalar TyNumber
                else if map_of obj ''type'' = Some (JString ''boolean'') then SScalar TyBool
                else enum_shape obj)
       | _ \<Rightarrow> SAny))"
  by pat_completeness auto
termination by (relation "measure (\<lambda>(_, _, d). Suc DEPTH_CAP - d)") auto

declare walk.simps [simp del]

definition json_schema_to_token_shape :: "json \<Rightarrow> (string \<rightharpoonup> json) \<Rightarrow> token_shape" where
  "json_schema_to_token_shape schema defs = walk schema defs 0"

section \<open>Ports\<close>

record port_field =
  pf_name :: string
  pf_label :: string
  pf_kind :: field_kind
  pf_required :: bool
  pf_default :: "json option"
  pf_options :: "(string \<times> string) list option"
  pf_description :: "string option"
  pf_accept :: "string option"
  pf_schema :: "json option"

record port =
  pt_id :: string
  pt_label :: string
  pt_fields :: "port_field list"

definition file_shape :: "provenance \<Rightarrow> token_shape" where
  "file_shape p = insert_field (insert_field (insert_field (SObject [])
    ''url'' (SScalar TyString) p) ''filename'' (SScalar TyString) p) ''content_type'' (SScalar TyString) p"

definition field_shape ::
  "(string \<rightharpoonup> json) \<Rightarrow> shape_node \<Rightarrow> string \<Rightarrow> port_field \<Rightarrow> token_shape \<times> provenance" where
  "field_shape defs node note f = (case pf_schema f of
      Some schema \<Rightarrow> (SSchema schema (json_schema_to_token_shape schema defs), new_provenance node note)
    | None \<Rightarrow> (case pf_kind f of
          KFile \<Rightarrow> (file_shape (new_provenance node ''uploaded file (catalogue reference)''),
            with_anchor (new_provenance node note) TyFileRef)
        | KObject \<Rightarrow> (SObject [], new_provenance node note)
        | KArray \<Rightarrow> (SArray SAny, new_provenance node note)
        | k \<Rightarrow> (SScalar (from_kind k), new_provenance node note)))"

definition port_to_shape :: "(string \<rightharpoonup> json) \<Rightarrow> port \<Rightarrow> shape_node \<Rightarrow> string \<Rightarrow> token_shape" where
  "port_to_shape defs port node note =
    fold (\<lambda>f o'. insert_field o' (pf_name f) (fst (field_shape defs node note f))
      (snd (field_shape defs node note f))) (pt_fields port) (SObject [])"

record port_shape_violation =
  sv_field :: string
  sv_expected :: string
  sv_actual :: string

fun json_kind :: "json \<Rightarrow> string" where
  "json_kind Null = ''null''"
| "json_kind (Bool _) = ''boolean''"
| "json_kind (Number _) = ''number''"
| "json_kind (JString _) = ''string''"
| "json_kind (JArray _) = ''array''"
| "json_kind (JObject _) = ''object''"

fun shape_ok :: "token_shape \<Rightarrow> json \<Rightarrow> bool" where
  "shape_ok (SObject _) v = is_object v"
| "shape_ok (SArray _) v = is_array v"
| "shape_ok (SScalar t) v = (case t of
      TyNumber \<Rightarrow> is_number v | TyBool \<Rightarrow> is_boolean v | TyString \<Rightarrow> is_string v
    | TyTimestamp \<Rightarrow> is_string v | TyFileRef \<Rightarrow> True | TyJson \<Rightarrow> True)"
| "shape_ok SAny v = True"
| "shape_ok (SOpaque _) v = True"
| "shape_ok (SSchema _ _) v = True"

text \<open>ASCII case folding of a label, and what a field should have been.\<close>

definition to_ascii_lowercase :: "string \<Rightarrow> string" where
  "to_ascii_lowercase = map (\<lambda>c. if CHR ''A'' \<le> c \<and> c \<le> CHR ''Z'' then char_of (of_char c + 32 :: nat) else c)"

fun expected_label :: "token_shape \<Rightarrow> string" where
  "expected_label (SObject _) = ''file reference object { url, filename, content_type }''"
| "expected_label (SArray _) = ''array''"
| "expected_label (SScalar t) = to_ascii_lowercase (scalar_label t)"
| "expected_label _ = ''any''"

fun validate_fields :: "shape_fields \<Rightarrow> fields \<Rightarrow> (port_shape_violation, unit) result" where
  "validate_fields [] obj = Inr ()"
| "validate_fields ((name, s, p) # m) obj = (case map_of obj name of
      None \<Rightarrow> validate_fields m obj
    | Some v \<Rightarrow>
        if v = Null then validate_fields m obj
        else if shape_ok s v then validate_fields m obj
        else Inl \<lparr>sv_field = name, sv_expected = expected_label s, sv_actual = json_kind v\<rparr>)"

definition validate_token_against_port ::
  "(string \<rightharpoonup> json) \<Rightarrow> port \<Rightarrow> shape_node \<Rightarrow> json \<Rightarrow> (port_shape_violation, unit) result" where
  "validate_token_against_port defs port node token =
    (case port_to_shape defs port node ''declared port field'' of
       SObject fields' \<Rightarrow>
         (case token of
            JObject obj \<Rightarrow> validate_fields fields' obj
          | _ \<Rightarrow> Inl \<lparr>sv_field = pt_id port, sv_expected = ''object'', sv_actual = json_kind token\<rparr>)
     | _ \<Rightarrow> Inr ())"

subsection \<open>The contract of a port\<close>

fun base_schema :: "field_kind \<Rightarrow> json" where
  "base_schema KNumber = JObject [(''type'', JString ''number'')]"
| "base_schema KBool = JObject [(''type'', JString ''boolean'')]"
| "base_schema KTimestamp = JObject [(''format'', JString ''date-time''), (''type'', JString ''string'')]"
| "base_schema KJson = JObject []"
| "base_schema KObject = JObject [(''additionalProperties'', Bool True), (''type'', JString ''object'')]"
| "base_schema KArray = JObject [(''type'', JString ''array'')]"
| "base_schema _ = JObject [(''type'', JString ''string'')]"

definition set_member :: "string \<Rightarrow> json \<Rightarrow> json \<Rightarrow> json" where
  "set_member k v s = (case s of JObject fs \<Rightarrow> JObject (obj_insert k v fs) | _ \<Rightarrow> s)"

definition field_json_schema :: "port_field \<Rightarrow> json" where
  "field_json_schema f = (case pf_schema f of
      Some s \<Rightarrow> s
    | None \<Rightarrow>
        let s0 = base_schema (pf_kind f);
            s1 = (case (pf_kind f, pf_options f) of
                (KSelect, Some opts) \<Rightarrow> set_member ''enum'' (JArray (map (\<lambda>(v, _). JString v) opts)) s0
              | _ \<Rightarrow> s0)
        in (case pf_description f of Some d \<Rightarrow> set_member ''description'' (JString d) s1 | None \<Rightarrow> s1))"

definition port_json_schema :: "port \<Rightarrow> json" where
  "port_json_schema port =
    (if pt_fields port = [] then JObject [(''additionalProperties'', Bool True), (''type'', JString ''object'')]
     else let properties = fold (\<lambda>f m. obj_insert (pf_name f) (field_json_schema f) m) (pt_fields port) [];
              required = map (\<lambda>f. JString (pf_name f)) (filter pf_required (pt_fields port));
              schema = JObject [(''additionalProperties'', Bool False), (''properties'', JObject properties),
                (''type'', JString ''object'')]
          in if required = [] then schema else set_member ''required'' (JArray required) schema)"

datatype port_validation_error =
    NotObject
  | MissingRequiredField string
  | FieldKindMismatch string field_kind

fun validate_token_fields :: "port_field list \<Rightarrow> fields \<Rightarrow> (port_validation_error, unit) result" where
  "validate_token_fields [] obj = Inr ()"
| "validate_token_fields (f # fs) obj = (case map_of obj (pf_name f) of
      None \<Rightarrow> if pf_required f then Inl (MissingRequiredField (pf_name f)) else validate_token_fields fs obj
    | Some v \<Rightarrow>
        if v = Null then
          (if pf_required f then Inl (MissingRequiredField (pf_name f)) else validate_token_fields fs obj)
        else if pf_required f \<and> (case v of JString s \<Rightarrow> trim s = [] | _ \<Rightarrow> False)
          then Inl (MissingRequiredField (pf_name f))
        else if \<not> accepts (pf_kind f) v then Inl (FieldKindMismatch (pf_name f) (pf_kind f))
        else validate_token_fields fs obj)"

definition validate_token :: "port \<Rightarrow> json \<Rightarrow> (port_validation_error, unit) result" where
  "validate_token port token = (case token of
      JObject obj \<Rightarrow> validate_token_fields (pt_fields port) obj
    | _ \<Rightarrow> Inl NotObject)"

section \<open>The meaning of a shape\<close>

text \<open>
  The values a shape stands for, given what schemas accept: known members of an object
  conform when they are present, others are free, and scalars may be null.
\<close>

fun covers :: "(json \<Rightarrow> json \<Rightarrow> bool) \<Rightarrow> token_shape \<Rightarrow> json \<Rightarrow> bool"
  and covers_fields :: "(json \<Rightarrow> json \<Rightarrow> bool) \<Rightarrow> shape_fields \<Rightarrow> fields \<Rightarrow> bool" where
  "covers vd (SObject m) v = (case v of JObject gs \<Rightarrow> covers_fields vd m gs | _ \<Rightarrow> False)"
| "covers vd (SArray s) v = (case v of JArray xs \<Rightarrow> list_all (covers vd s) xs | _ \<Rightarrow> False)"
| "covers vd (SScalar t) v = (v = Null \<or> shape_ok (SScalar t) v)"
| "covers vd SAny v = True"
| "covers vd (SOpaque _) v = True"
| "covers vd (SSchema raw _) v = vd raw v"
| "covers_fields vd [] gs = True"
| "covers_fields vd ((k, s, p) # m) gs =
    ((case map_of gs k of None \<Rightarrow> True | Some w \<Rightarrow> covers vd s w) \<and> covers_fields vd m gs)"

lemma covers_fields_iff:
  "covers_fields vd m gs \<longleftrightarrow> (\<forall>(k, s, p) \<in> set m. \<forall>w. map_of gs k = Some w \<longrightarrow> covers vd s w)"
  by (induction m) (auto split: option.splits)

lemma covers_fields_get:
  "covers_fields vd m gs \<Longrightarrow> map_of m k = Some (s, p) \<Longrightarrow> map_of gs k = Some w \<Longrightarrow> covers vd s w"
  using map_of_SomeD [of m k "(s, p)"] by (fastforce simp: covers_fields_iff)

text \<open>What JSON Schema says of the forms the compiler emits.\<close>

definition emitted_laws :: "(json \<Rightarrow> json \<Rightarrow> bool) \<Rightarrow> bool" where
  "emitted_laws vd \<longleftrightarrow> (\<forall>v. vd (JObject []) v) \<and>
    (\<forall>ps v. vd (JObject [(''additionalProperties'', Bool True), (''properties'', JObject ps),
        (''type'', JString ''object'')]) v \<longleftrightarrow>
      (\<exists>gs. v = JObject gs \<and> (\<forall>(k, s) \<in> set ps. \<forall>w. map_of gs k = Some w \<longrightarrow> vd s w))) \<and>
    (\<forall>s v. vd (JObject [(''items'', s), (''type'', JString ''array'')]) v \<longleftrightarrow>
      (\<exists>xs. v = JArray xs \<and> (\<forall>x \<in> set xs. vd s x))) \<and>
    (\<forall>ty v. ty \<in> {''string'', ''number'', ''boolean''} \<longrightarrow>
      (vd (nullable ty) v \<longleftrightarrow> v = Null \<or> json_kind v = ty))"

lemma json_kind_is:
  "json_kind v = ''string'' \<longleftrightarrow> is_string v" "json_kind v = ''number'' \<longleftrightarrow> is_number v"
  "json_kind v = ''boolean'' \<longleftrightarrow> is_boolean v"
  by (cases v; simp)+

lemma emitted_schema:
  assumes laws: "emitted_laws vd"
  shows "vd (to_json_schema s) v \<longleftrightarrow> covers vd s v"
    and "(\<forall>(k, t) \<in> set (fields_schema m). \<forall>w. map_of gs k = Some w \<longrightarrow> vd t w) \<longleftrightarrow> covers_fields vd m gs"
proof (induction s and m arbitrary: v and gs rule: to_json_schema_fields_schema.induct)
  case (1 m)
  have "vd (to_json_schema (SObject m)) v \<longleftrightarrow> (\<exists>gs. v = JObject gs \<and>
      (\<forall>(k, t) \<in> set (fields_schema m). \<forall>w. map_of gs k = Some w \<longrightarrow> vd t w))"
    using laws unfolding emitted_laws_def by simp
  then show ?case using 1 by (cases v) simp_all
next
  case (2 s)
  have "vd (to_json_schema (SArray s)) v \<longleftrightarrow> (\<exists>xs. v = JArray xs \<and> (\<forall>x \<in> set xs. vd (to_json_schema s) x))"
    using laws unfolding emitted_laws_def by simp
  then show ?case using 2 by (cases v) (simp_all add: list_all_iff)
next
  case (3 t)
  have nul: "vd (nullable ty) v \<longleftrightarrow> v = Null \<or> json_kind v = ty" if "ty \<in> {''string'', ''number'', ''boolean''}" for ty
    using laws that unfolding emitted_laws_def by blast
  have "vd (JObject []) v" using laws unfolding emitted_laws_def by simp
  then show ?case by (cases t) (simp_all add: nul json_kind_is)
next
  case (8 k s p m)
  then show ?case by (auto split: option.split)
qed (use laws in \<open>simp_all add: emitted_laws_def\<close>)

section \<open>Paths and merges\<close>

fun json_path :: "json \<Rightarrow> string list \<Rightarrow> json option" where
  "json_path v [] = Some v"
| "json_path v (seg # segs) = (case jget seg v of Some w \<Rightarrow> json_path w segs | None \<Rightarrow> None)"

text \<open>The shape read off a schema covers what the schema accepts, everywhere inside a shape.\<close>

fun shadows_sound :: "(json \<Rightarrow> json \<Rightarrow> bool) \<Rightarrow> token_shape \<Rightarrow> bool"
  and fields_sound :: "(json \<Rightarrow> json \<Rightarrow> bool) \<Rightarrow> shape_fields \<Rightarrow> bool" where
  "shadows_sound vd (SObject m) = fields_sound vd m"
| "shadows_sound vd (SArray s) = shadows_sound vd s"
| "shadows_sound vd (SSchema raw s) = ((\<forall>v. vd raw v \<longrightarrow> covers vd s v) \<and> shadows_sound vd s)"
| "shadows_sound vd (SScalar _) = True"
| "shadows_sound vd SAny = True"
| "shadows_sound vd (SOpaque _) = True"
| "fields_sound vd [] = True"
| "fields_sound vd ((k, s, p) # m) = (shadows_sound vd s \<and> fields_sound vd m)"

lemma fields_sound_iff: "fields_sound vd m \<longleftrightarrow> (\<forall>(k, s, p) \<in> set m. shadows_sound vd s)"
  by (induction m) auto

lemma covers_unschema:
  "shadows_sound vd s \<Longrightarrow> covers vd s v \<Longrightarrow> covers vd (unschema s) v \<and> shadows_sound vd (unschema s)"
  by (cases s) auto

lemma resolve_from_sound:
  "shadows_sound vd s \<Longrightarrow> covers vd s v \<Longrightarrow> resolve_from s prov segs = Some (t, p) \<Longrightarrow>
    json_path v segs = Some w \<Longrightarrow> covers vd t w"
proof (induction s prov segs arbitrary: v rule: resolve_from.induct)
  case (1 cur prov)
  then show ?case using covers_unschema by auto
next
  case (2 cur prov seg segs)
  have u: "covers vd (unschema cur) v" "shadows_sound vd (unschema cur)"
    using covers_unschema [OF "2.prems"(1,2)] by auto
  obtain m s q where m: "unschema cur = SObject m" "map_of m seg = Some (s, q)"
    and r: "resolve_from s (Some q) segs = Some (t, p)"
    using "2.prems"(3) by (auto split: token_shape.splits option.splits)
  obtain gs x where x: "v = JObject gs" "map_of gs seg = Some x" "json_path x segs = Some w"
    using "2.prems"(4) u(1) m(1) by (auto split: option.splits json.splits)
  have "covers vd s x" using u(1) m x(1,2) covers_fields_get by simp
  moreover have "shadows_sound vd s"
    using u(2) m map_of_SomeD [OF m(2)] by (fastforce simp: fields_sound_iff)
  ultimately show ?case using "2.IH" m r x(3) by blast
qed

text \<open>The merge of two objects at run time: the later members win.\<close>

definition json_merge :: "fields \<Rightarrow> fields \<Rightarrow> fields" where
  "json_merge gs hs = fold (\<lambda>(k, v) m. obj_insert k v m) hs gs"

lemma map_of_fold_insert:
  "distinct (map fst hs) \<Longrightarrow>
    map_of (fold (\<lambda>(k, v) m. obj_insert k v m) hs gs) l = (case map_of hs l of Some v \<Rightarrow> Some v | None \<Rightarrow> map_of gs l)"
proof (induction hs arbitrary: gs)
  case (Cons h hs)
  obtain k v where h: "h = (k, v)" by (cases h)
  have "map_of hs k = None" using Cons.prems h by (simp add: map_of_eq_None_iff)
  then show ?case using Cons h by (auto simp: map_of_obj_insert split: option.splits)
qed simp

lemma map_of_merge_fields:
  "distinct (map fst b) \<Longrightarrow>
    map_of (merge_fields False a b) l = (case map_of b l of Some x \<Rightarrow> Some x | None \<Rightarrow> map_of a l)"
proof (induction b arbitrary: a)
  case (Cons h b)
  obtain k s p where h: "h = (k, s, p)" by (cases h)
  have "map_of b k = None" using Cons.prems h by (simp add: map_of_eq_None_iff)
  then show ?case using Cons h by (auto simp: map_of_bt_insert split: option.splits)
qed simp

definition keys_sorted :: "(string \<times> 'v) list \<Rightarrow> bool" where
  "keys_sorted m = sorted_wrt (<) (map fst m)"

lemma keys_sorted_distinct: "keys_sorted m \<Longrightarrow> distinct (map fst m)"
  by (simp add: keys_sorted_def strict_sorted_iff)

lemma fst_set_bt_insert: "fst ` set (bt_insert k v m) = insert k (fst ` set m)"
  by (induction m rule: bt_insert.induct) auto

lemma keys_sorted_insert: "keys_sorted m \<Longrightarrow> keys_sorted (bt_insert k v m)"
proof (induction k v m rule: bt_insert.induct)
  case (2 k v l w m)
  have "set (map fst (bt_insert k v m)) = insert k (set (map fst m))" by (simp add: fst_set_bt_insert)
  with 2 show ?case by (fastforce simp: keys_sorted_def less_imp_neq)
qed (simp add: keys_sorted_def)

lemma keys_sorted_merge: "keys_sorted a \<Longrightarrow> keys_sorted (merge_fields deep a b)"
proof (induction b arbitrary: a)
  case (Cons h b)
  obtain k s p where "h = (k, s, p)" by (cases h)
  with Cons show ?case
    by (auto simp: keys_sorted_insert split: bool.split option.split token_shape.split)
qed simp

lemma covers_fields_map:
  assumes "keys_sorted m"
  shows "covers_fields vd m gs \<longleftrightarrow>
    (\<forall>k s p w. map_of m k = Some (s, p) \<longrightarrow> map_of gs k = Some w \<longrightarrow> covers vd s w)"
proof -
  have "map_of m k = Some (s, p) \<longleftrightarrow> (k, s, p) \<in> set m" for k s p
    using keys_sorted_distinct [OF assms] by simp
  then show ?thesis unfolding covers_fields_iff by fast
qed

text \<open>
  The shape of a shallow merge covers the merged token, when the later token has the members
  its shape knows, and no others that matter.
\<close>

lemma merge_covers:
  assumes "covers vd (SObject a) (JObject gs)" and "covers vd (SObject b) (JObject hs)"
    and "keys_sorted a" and "keys_sorted b" and "distinct (map fst hs)" and "fst ` set hs = fst ` set b"
  shows "covers vd (merge_from False (SObject a) (SObject b)) (JObject (json_merge gs hs))"
proof -
  have hs: "map_of (json_merge gs hs) k = (case map_of hs k of Some v \<Rightarrow> Some v | None \<Rightarrow> map_of gs k)" for k
    unfolding json_merge_def by (rule map_of_fold_insert [OF assms(5)])
  have b: "map_of (merge_fields False a b) k = (case map_of b k of Some x \<Rightarrow> Some x | None \<Rightarrow> map_of a k)" for k
    by (rule map_of_merge_fields [OF keys_sorted_distinct [OF assms(4)]])
  have dom: "map_of b k = None \<longleftrightarrow> map_of hs k = None" for k
    using assms(6) by (simp add: map_of_eq_None_iff)
  have "covers vd s w" if "map_of (merge_fields False a b) k = Some (s, p)"
    "map_of (json_merge gs hs) k = Some w" for k s p w
  proof (cases "map_of b k")
    case None
    then show ?thesis using that assms(1) covers_fields_get [of vd a gs k s p w] dom [of k] by (simp add: hs b)
  next
    case (Some x)
    then show ?thesis using that assms(2) covers_fields_get [of vd b hs k s p w] dom [of k]
      by (auto simp: hs b split: option.splits)
  qed
  then show ?thesis by (simp add: covers_fields_map [OF keys_sorted_merge [OF assms(3)]])
qed

section \<open>The shape read off a schema\<close>

text \<open>What the keywords say, whatever the others on the same schema say.\<close>

fun type_admits :: "string \<Rightarrow> json \<Rightarrow> bool" where
  "type_admits ty v = (if ty = ''integer'' then json_kind v = ''number'' else
    ty \<in> {''object'', ''array'', ''string'', ''number'', ''boolean''} \<longrightarrow> json_kind v = ty)"

definition keyword_law :: "(json \<Rightarrow> json \<Rightarrow> bool) \<Rightarrow> fields \<Rightarrow> json \<Rightarrow> bool" where
  "keyword_law vd obj v \<longleftrightarrow>
    (\<forall>ty. map_of obj ''type'' = Some (JString ty) \<longrightarrow> type_admits ty v) \<and>
    (\<forall>ps gs. map_of obj ''properties'' = Some (JObject ps) \<longrightarrow> v = JObject gs \<longrightarrow>
      (\<forall>(k, s) \<in> set ps. \<forall>w. map_of gs k = Some w \<longrightarrow> vd s w)) \<and>
    (\<forall>s xs. map_of obj ''items'' = Some s \<longrightarrow> is_object s \<longrightarrow> v = JArray xs \<longrightarrow> (\<forall>x \<in> set xs. vd s x)) \<and>
    (\<forall>vs. map_of obj ''enum'' = Some (JArray vs) \<longrightarrow> (\<exists>x \<in> set vs. json_kind x = json_kind v))"

definition keyword_laws :: "(json \<Rightarrow> json \<Rightarrow> bool) \<Rightarrow> (string \<rightharpoonup> json) \<Rightarrow> bool" where
  "keyword_laws vd defs \<longleftrightarrow> (\<forall>obj v. vd (JObject obj) v \<longrightarrow>
    (case map_of obj ''$ref'' of
       Some (JString p) \<Rightarrow> (case resolve_ref p defs of Some t \<Rightarrow> vd t v | None \<Rightarrow> True)
     | _ \<Rightarrow> keyword_law vd obj v))"

text \<open>The schemas a schema is made of, through references.\<close>

inductive part_of :: "(string \<rightharpoonup> json) \<Rightarrow> json \<Rightarrow> json \<Rightarrow> bool" for ds where
  part_self: "part_of ds s s"
| part_ref: "map_of obj ''$ref'' = Some (JString p) \<Longrightarrow> resolve_ref p ds = Some t \<Longrightarrow> part_of ds t u \<Longrightarrow>
    part_of ds (JObject obj) u"
| part_property: "map_of obj ''properties'' = Some (JObject ps) \<Longrightarrow> (k, s) \<in> set ps \<Longrightarrow> part_of ds s u \<Longrightarrow>
    part_of ds (JObject obj) u"
| part_items: "map_of obj ''items'' = Some s \<Longrightarrow> part_of ds s u \<Longrightarrow> part_of ds (JObject obj) u"

text \<open>The first value of an enumeration tells the type of the others.\<close>

definition uniform_enum :: "json \<Rightarrow> bool" where
  "uniform_enum s = (case jget ''enum'' s of
      Some (JArray vs) \<Rightarrow> list_all (covers (\<lambda>_ _. True) (SScalar (enum_scalar vs))) vs | _ \<Rightarrow> True)"

lemma covers_scalar_kind:
  "json_kind x = json_kind v \<Longrightarrow> covers vd (SScalar t) x \<Longrightarrow> covers vd' (SScalar t) v"
  by (cases t; cases x; cases v) simp_all

lemma enum_shape_covers:
  assumes "uniform_enum (JObject obj)"
    and "\<And>vs. map_of obj ''enum'' = Some (JArray vs) \<Longrightarrow> \<exists>x \<in> set vs. json_kind x = json_kind v"
  shows "covers vd (enum_shape obj) v"
proof (cases "\<exists>vs. map_of obj ''enum'' = Some (JArray vs)")
  case True
  then obtain vs where vs: "map_of obj ''enum'' = Some (JArray vs)" by blast
  then obtain x where "x \<in> set vs" "json_kind x = json_kind v" using assms(2) by blast
  then have "covers vd (SScalar (enum_scalar vs)) v"
    using assms(1) vs covers_scalar_kind [of x v "\<lambda>_ _. True"] by (simp add: uniform_enum_def list_all_iff del: covers.simps)
  then show ?thesis using vs by (simp add: enum_shape_def)
next
  case False
  then show ?thesis by (simp add: enum_shape_def split: option.split json.split)
qed

lemma fold_insert_shapes:
  "(k, s, p) \<in> set (fold (\<lambda>(x, y) m. bt_insert x (f y, q) m) ps m) \<Longrightarrow>
    (k, s, p) \<in> set m \<or> (\<exists>y. (k, y) \<in> set ps \<and> s = f y)"
proof (induction ps arbitrary: m)
  case (Cons h ps)
  obtain x y where h: "h = (x, y)" by (cases h)
  have "(k, s, p) \<in> set (bt_insert x (f y, q) m) \<Longrightarrow> (k, s, p) \<in> set m \<or> k = x \<and> s = f y"
    using set_bt_insert by fastforce
  then show ?case using Cons h by auto
qed simp

definition plain_walk :: "fields \<Rightarrow> (string \<rightharpoonup> json) \<Rightarrow> nat \<Rightarrow> token_shape" where
  "plain_walk obj defs depth =
    (if has_combinator obj then SAny
     else (case map_of obj ''type'' of
         Some (JString ty) \<Rightarrow>
           if ty = ''object'' then SObject (case map_of obj ''properties'' of
               Some (JObject ps) \<Rightarrow> fold (\<lambda>(x, y) m. bt_insert x (walk y defs (Suc depth), structural_provenance) m) ps []
             | _ \<Rightarrow> [])
           else if ty = ''array'' then SArray (case map_of obj ''items'' of
               Some s \<Rightarrow> walk s defs (Suc depth) | None \<Rightarrow> SAny)
           else if ty = ''string'' then SScalar TyString
           else if ty = ''integer'' \<or> ty = ''number'' then SScalar TyNumber
           else if ty = ''boolean'' then SScalar TyBool
           else enum_shape obj
       | _ \<Rightarrow> enum_shape obj))"

lemma walk_no_ref:
  assumes "\<nexists>p. map_of obj ''$ref'' = Some (JString p)" and "\<not> depth > DEPTH_CAP"
  shows "walk (JObject obj) defs depth = plain_walk obj defs depth"
proof -
  have "(case map_of obj ''$ref'' of Some (JString p) \<Rightarrow> g p | _ \<Rightarrow> h) = h" for g and h :: token_shape
    using assms(1) by (simp split: option.split json.split)
  then show ?thesis
    using assms(2) by (subst walk.simps) (simp add: plain_walk_def split: option.split json.split)
qed

lemma plain_walk_covers:
  assumes "uniform_enum (JObject obj)"
    and enum: "\<And>vs. map_of obj ''enum'' = Some (JArray vs) \<Longrightarrow> \<exists>x \<in> set vs. json_kind x = json_kind v"
    and type: "\<And>ty. map_of obj ''type'' = Some (JString ty) \<Longrightarrow> type_admits ty v"
    and props: "\<And>ps k s gs w. map_of obj ''properties'' = Some (JObject ps) \<Longrightarrow> (k, s) \<in> set ps \<Longrightarrow>
      v = JObject gs \<Longrightarrow> map_of gs k = Some w \<Longrightarrow> covers vd (walk s defs (Suc depth)) w"
    and items: "\<And>s xs x. map_of obj ''items'' = Some s \<Longrightarrow> v = JArray xs \<Longrightarrow> x \<in> set xs \<Longrightarrow>
      covers vd (walk s defs (Suc depth)) x"
  shows "covers vd (plain_walk obj defs depth) v"
proof (cases "has_combinator obj \<or> (\<nexists>ty. map_of obj ''type'' = Some (JString ty))")
  case True
  have "(case map_of obj ''type'' of Some (JString ty) \<Rightarrow> g ty | _ \<Rightarrow> h) = h"
    if "\<nexists>ty. map_of obj ''type'' = Some (JString ty)" for g and h :: token_shape
    using that by (simp split: option.split json.split)
  with True have "plain_walk obj defs depth \<in> {SAny, enum_shape obj}"
    unfolding plain_walk_def by (cases "has_combinator obj") simp_all
  then show ?thesis using enum_shape_covers [OF assms(1) enum] by auto
next
  case False
  then obtain ty where ty: "map_of obj ''type'' = Some (JString ty)" "\<not> has_combinator obj" by blast
  have adm: "type_admits ty v" by (rule type [OF ty(1)])
  consider (obj) "ty = ''object''" | (arr) "ty = ''array''" | (other) "ty \<noteq> ''object''" "ty \<noteq> ''array''" by blast
  then show ?thesis
  proof cases
    case obj
    then obtain gs where gs: "v = JObject gs" using adm by (cases v) simp_all
    show ?thesis
    proof (cases "\<exists>ps. map_of obj ''properties'' = Some (JObject ps)")
      case True
      then obtain ps where ps: "map_of obj ''properties'' = Some (JObject ps)" by blast
      let ?m = "fold (\<lambda>(x, y) m. bt_insert x (walk y defs (Suc depth), structural_provenance) m) ps []"
      have "covers_fields vd ?m gs" unfolding covers_fields_iff
        using fold_insert_shapes [of _ _ _ "\<lambda>y. walk y defs (Suc depth)" structural_provenance ps "[]"]
          props [OF ps _ gs] by fastforce
      then show ?thesis using ty obj gs ps by (simp add: plain_walk_def)
    qed (use ty obj gs in \<open>simp add: plain_walk_def split: option.split json.split\<close>)
  next
    case arr
    then obtain xs where "v = JArray xs" using adm by (cases v) simp_all
    then show ?thesis using ty arr items by (simp add: plain_walk_def list_all_iff split: option.split)
  next
    case other
    consider (str) "ty = ''string''" | (int) "ty = ''integer''" | (num) "ty = ''number''" | (bool) "ty = ''boolean''"
      | (none) "ty \<noteq> ''string''" "ty \<noteq> ''integer''" "ty \<noteq> ''number''" "ty \<noteq> ''boolean''" by blast
    then show ?thesis
    proof cases
      case none
      then show ?thesis using ty other enum_shape_covers [OF assms(1) enum] by (simp add: plain_walk_def)
    qed (use ty adm in \<open>cases v; simp add: plain_walk_def\<close>)+
  qed
qed

text \<open>The shape read off a schema covers every value the schema accepts.\<close>

lemma walk_covers:
  assumes laws: "keyword_laws vd defs"
  shows "(\<And>u. part_of defs schema u \<Longrightarrow> uniform_enum u) \<Longrightarrow> vd schema v \<Longrightarrow>
    covers vd' (walk schema defs depth) v"
proof (induction "Suc DEPTH_CAP - depth" arbitrary: schema depth v)
  case 0
  then show ?case by (simp add: walk.simps)
next
  case (Suc n)
  have cap: "\<not> depth > DEPTH_CAP" and n: "n = Suc DEPTH_CAP - Suc depth" using Suc.hyps(2) by simp_all
  have IH: "covers vd' (walk t defs (Suc depth)) w"
    if "\<And>u. part_of defs t u \<Longrightarrow> part_of defs schema u" "vd t w" for t w
    using Suc.hyps(1) [OF n] Suc.prems(1) that by blast
  show ?case
  proof (cases schema)
    case (JObject obj)
    note law = laws [unfolded keyword_laws_def, rule_format, OF Suc.prems(2) [unfolded JObject]]
    show ?thesis
    proof (cases "\<exists>p. map_of obj ''$ref'' = Some (JString p)")
      case True
      then obtain p where p: "map_of obj ''$ref'' = Some (JString p)" by blast
      show ?thesis
      proof (cases "resolve_ref p defs")
        case (Some t)
        then have "covers vd' (walk t defs (Suc depth)) v"
          using IH [of t v] part_ref [OF p Some] law p JObject by simp
        then show ?thesis using cap JObject p Some by (subst walk.simps) simp
      qed (use cap JObject p in \<open>subst walk.simps, simp\<close>)
    next
      case False
      have "(case map_of obj ''$ref'' of Some (JString p) \<Rightarrow> g p | _ \<Rightarrow> h) = h" for g and h :: bool
        using False by (simp split: option.split json.split)
      note law' = law [unfolded this keyword_law_def]
      have "covers vd' (plain_walk obj defs depth) v"
      proof (rule plain_walk_covers)
        show "uniform_enum (JObject obj)" using Suc.prems(1) JObject part_self by blast
        show "\<exists>x \<in> set vs. json_kind x = json_kind v" if "map_of obj ''enum'' = Some (JArray vs)" for vs
          using law' that by blast
        show "type_admits ty v" if "map_of obj ''type'' = Some (JString ty)" for ty
          using law' that by blast
        show "covers vd' (walk s defs (Suc depth)) w"
          if "map_of obj ''properties'' = Some (JObject ps)" "(k, s) \<in> set ps" "v = JObject gs"
            "map_of gs k = Some w" for ps k s gs w
        proof (rule IH)
          show "vd s w" using law' that by fast
        qed (use JObject part_property that(1,2) in blast)
        show "covers vd' (walk s defs (Suc depth)) x"
          if "map_of obj ''items'' = Some s" "v = JArray xs" "x \<in> set xs" for s xs x
        proof (cases "is_object s")
          case True
          show ?thesis
          proof (rule IH)
            show "vd s x" using law' that True by blast
          qed (use JObject part_items that(1) in blast)
        qed (cases s, simp_all add: walk.simps)
      qed
      then show ?thesis using walk_no_ref [OF False cap] JObject by simp
    qed
  qed (simp_all add: walk.simps)
qed

section \<open>A validator of the keywords\<close>

text \<open>The keywords above, checked by recursion on the schema; every other keyword passes.\<close>

fun type_ok :: "json \<Rightarrow> json \<Rightarrow> bool" where
  "type_ok (JString ty) v = (json_kind v = (if ty = ''integer'' then ''number'' else ty))"
| "type_ok (JArray tys) v = list_ex (\<lambda>t. t = JString (json_kind v)) tys"
| "type_ok _ v = True"

fun keywords_valid :: "json \<Rightarrow> json \<Rightarrow> bool"
  and all_keywords :: "fields \<Rightarrow> json \<Rightarrow> bool"
  and all_members :: "fields \<Rightarrow> fields \<Rightarrow> bool" where
  "keywords_valid (JObject obj) v = all_keywords obj v"
| "keywords_valid (Bool b) v = b"
| "keywords_valid _ v = True"
| "all_keywords [] v = True"
| "all_keywords ((k, s) # obj) v =
    ((if k = ''type'' then type_ok s v
      else if k = ''properties'' then (case s of
          JObject ps \<Rightarrow> (case v of JObject gs \<Rightarrow> all_members ps gs | _ \<Rightarrow> True) | _ \<Rightarrow> True)
      else if k = ''items'' then (case v of JArray xs \<Rightarrow> list_all (keywords_valid s) xs | _ \<Rightarrow> True)
      else if k = ''enum'' then (case s of JArray vs \<Rightarrow> v \<in> set vs | _ \<Rightarrow> True)
      else True) \<and> all_keywords obj v)"
| "all_members [] gs = True"
| "all_members ((k, s) # ps) gs =
    ((case map_of gs k of Some w \<Rightarrow> keywords_valid s w | None \<Rightarrow> True) \<and> all_members ps gs)"

lemma all_keywords_Cons: "all_keywords (x # obj) v \<longleftrightarrow> all_keywords [x] v \<and> all_keywords obj v"
  by (cases x) simp

lemma all_keywords_get: "all_keywords obj v \<Longrightarrow> map_of obj k = Some s \<Longrightarrow> all_keywords [(k, s)] v"
proof (induction obj)
  case (Cons x obj)
  have "all_keywords [x] v" "all_keywords obj v" using Cons.prems(1) all_keywords_Cons by blast+
  then show ?case using Cons.IH Cons.prems(2) by (cases x) (simp del: all_keywords.simps split: if_splits)
qed simp

lemma all_members_iff: "all_members ps gs \<longleftrightarrow> (\<forall>(k, s) \<in> set ps. \<forall>w. map_of gs k = Some w \<longrightarrow> keywords_valid s w)"
  by (induction ps) (auto split: option.splits)

lemma keywords_valid_emitted: "emitted_laws keywords_valid"
proof -
  have "keywords_valid (JObject [(''additionalProperties'', Bool True), (''properties'', JObject ps),
        (''type'', JString ''object'')]) v \<longleftrightarrow>
      (\<exists>gs. v = JObject gs \<and> (\<forall>(k, s) \<in> set ps. \<forall>w. map_of gs k = Some w \<longrightarrow> keywords_valid s w))" for ps v
    by (cases v) (simp_all add: all_members_iff)
  moreover have "keywords_valid (JObject [(''items'', s), (''type'', JString ''array'')]) v \<longleftrightarrow>
      (\<exists>xs. v = JArray xs \<and> (\<forall>x \<in> set xs. keywords_valid s x))" for s v
    by (cases v) (simp_all add: list_all_iff)
  moreover have "keywords_valid (nullable ty) v \<longleftrightarrow> v = Null \<or> json_kind v = ty" if "ty \<noteq> ''null''" for ty v
    using that by (cases v) (auto simp: nullable_def)
  ultimately show ?thesis unfolding emitted_laws_def by auto
qed

lemma keywords_valid_law: "all_keywords obj v \<Longrightarrow> keyword_law keywords_valid obj v"
  unfolding keyword_law_def
proof (intro conjI allI impI)
  assume kw: "all_keywords obj v"
  show "type_admits ty v" if "map_of obj ''type'' = Some (JString ty)" for ty
    using all_keywords_get [OF kw that] by (auto split: if_splits)
  show "\<forall>(k, s) \<in> set ps. \<forall>w. map_of gs k = Some w \<longrightarrow> keywords_valid s w"
    if "map_of obj ''properties'' = Some (JObject ps)" "v = JObject gs" for ps gs
    using all_keywords_get [OF kw that(1)] that(2) by (simp add: all_members_iff)
  show "\<forall>x \<in> set xs. keywords_valid s x"
    if "map_of obj ''items'' = Some s" "is_object s" "v = JArray xs" for s xs
    using all_keywords_get [OF kw that(1)] that(3) by (simp add: list_all_iff)
  show "\<exists>x \<in> set vs. json_kind x = json_kind v" if "map_of obj ''enum'' = Some (JArray vs)" for vs
    using all_keywords_get [OF kw that] by auto
qed

lemma keywords_valid_laws: "keyword_laws keywords_valid Map.empty"
proof -
  have "resolve_ref p Map.empty = None" for p
    by (simp add: resolve_ref_def split: option.split)
  then show ?thesis unfolding keyword_laws_def
    by (simp add: keywords_valid_law split: option.split json.split)
qed

section \<open>The shape of a port\<close>

lemma fold_insert_field:
  "\<exists>m'. fold (\<lambda>f s. insert_field s (pf_name f) (fst (g f)) (snd (g f))) fs (SObject m) = SObject m' \<and>
    (keys_sorted m \<longrightarrow> keys_sorted m') \<and>
    (\<forall>(k, x) \<in> set m'. (k, x) \<in> set m \<or> (\<exists>f \<in> set fs. k = pf_name f \<and> x = g f))"
proof (induction fs arbitrary: m)
  case (Cons f fs)
  let ?m = "bt_insert (pf_name f) (g f) m"
  obtain m' where m': "fold (\<lambda>f s. insert_field s (pf_name f) (fst (g f)) (snd (g f))) fs (SObject ?m) = SObject m'"
    "keys_sorted ?m \<longrightarrow> keys_sorted m'"
    "\<forall>(k, x) \<in> set m'. (k, x) \<in> set ?m \<or> (\<exists>f \<in> set fs. k = pf_name f \<and> x = g f)"
    using Cons.IH [of ?m] by blast
  have "\<forall>(k, x) \<in> set m'. (k, x) \<in> set m \<or> (\<exists>h \<in> set (f # fs). k = pf_name h \<and> x = g h)"
    using m'(3) set_bt_insert [of "pf_name f" "g f" m] by fastforce
  then show ?case using m'(1,2) keys_sorted_insert [of m "pf_name f" "g f"] by auto
qed auto

lemma port_to_shape_fields:
  obtains m where "port_to_shape defs port node note = SObject m" "keys_sorted m"
    "\<And>k s p. (k, s, p) \<in> set m \<Longrightarrow> \<exists>f \<in> set (pt_fields port). k = pf_name f \<and> (s, p) = field_shape defs node note f"
  using fold_insert_field [of "field_shape defs node note" "pt_fields port" "[]"]
  by (fastforce simp: port_to_shape_def keys_sorted_def)

lemma shape_ok_if_covers: "covers vd s v \<Longrightarrow> v = Null \<or> shape_ok s v"
  by (cases s; cases v) simp_all

lemma validate_fields_ok:
  "validate_fields m obj = Inr () \<longleftrightarrow> (\<forall>(k, s, p) \<in> set m. \<forall>w. map_of obj k = Some w \<longrightarrow> w = Null \<or> shape_ok s w)"
  by (induction m) (auto split: option.splits if_splits)

text \<open>The schemas of a port's fields have uniform enumerations.\<close>

definition port_uniform :: "(string \<rightharpoonup> json) \<Rightarrow> port \<Rightarrow> bool" where
  "port_uniform defs port \<longleftrightarrow> (\<forall>f \<in> set (pt_fields port). \<forall>schema. pf_schema f = Some schema \<longrightarrow>
    (\<forall>u. part_of defs schema u \<longrightarrow> uniform_enum u))"

text \<open>Shapes without schemas inside are sound, and reading a schema yields only those.\<close>

lemma shadows_sound_fold:
  "(\<And>y. y \<in> snd ` set ps \<Longrightarrow> shadows_sound vd (f y)) \<Longrightarrow>
    shadows_sound vd (SObject (fold (\<lambda>(x, y) m. bt_insert x (f y, q) m) ps []))"
  using fold_insert_shapes [of _ _ _ f q ps "[]"] by (fastforce simp: fields_sound_iff)

lemma shadows_sound_walk: "shadows_sound vd (walk schema defs depth)"
proof (induction "Suc DEPTH_CAP - depth" arbitrary: schema depth)
  case 0
  then show ?case by (simp add: walk.simps)
next
  case (Suc n)
  have cap: "\<not> depth > DEPTH_CAP" and n: "n = Suc DEPTH_CAP - Suc depth" using Suc.hyps(2) by simp_all
  note IH = Suc.hyps(1) [OF n]
  have enum: "shadows_sound vd (enum_shape obj)" for obj
    by (simp add: enum_shape_def split: option.split json.split)
  show ?case
  proof (cases schema)
    case (JObject obj)
    show ?thesis
    proof (cases "\<exists>p. map_of obj ''$ref'' = Some (JString p)")
      case True
      then show ?thesis using cap JObject IH by (subst walk.simps) (auto split: option.split)
    next
      case False
      have "shadows_sound vd (plain_walk obj defs depth)"
        using IH enum shadows_sound_fold [of _ vd "\<lambda>y. walk y defs (Suc depth)" structural_provenance]
        unfolding plain_walk_def by (simp split: option.split json.split)
      then show ?thesis using walk_no_ref [OF False cap] JObject by simp
    qed
  qed (simp_all add: walk.simps)
qed

lemma field_shape_sound:
  assumes "keyword_laws vd defs"
    and "\<And>schema u. pf_schema f = Some schema \<Longrightarrow> part_of defs schema u \<Longrightarrow> uniform_enum u"
  shows "shadows_sound vd (fst (field_shape defs node note f))"
proof (cases "pf_schema f")
  case None
  then show ?thesis by (cases "pf_kind f") (simp_all add: field_shape_def file_shape_def)
next
  case (Some schema)
  then have "vd schema v \<Longrightarrow> covers vd (walk schema defs 0) v" for v
    using walk_covers [OF assms(1)] assms(2) by blast
  then show ?thesis using Some
    by (simp add: field_shape_def json_schema_to_token_shape_def shadows_sound_walk)
qed

lemma port_shape_sound:
  assumes "keyword_laws vd defs" and "port_uniform defs port"
  shows "shadows_sound vd (port_to_shape defs port node note)"
proof -
  obtain m where m: "port_to_shape defs port node note = SObject m"
    "\<And>k s p. (k, s, p) \<in> set m \<Longrightarrow> \<exists>f \<in> set (pt_fields port). k = pf_name f \<and> (s, p) = field_shape defs node note f"
    by (metis port_to_shape_fields)
  have "shadows_sound vd s" if kp: "(k, s, p) \<in> set m" for k s p
  proof -
    obtain f where "f \<in> set (pt_fields port)" "s = fst (field_shape defs node note f)"
      using m(2) [OF kp] by (metis fst_conv)
    then show ?thesis using field_shape_sound [OF assms(1), of f] assms(2) by (simp add: port_uniform_def)
  qed
  then show ?thesis using m(1) by (auto simp: fields_sound_iff)
qed

section \<open>Properties\<close>

text \<open>
  C20: the schema the compiler emits for a shape accepts exactly the tokens of that shape:
  objects whose known members conform, arrays of conforming elements, scalars or null, and
  for an author's schema whatever it accepts verbatim.
\<close>

theorem emitted_schema_means_shape:
  assumes "emitted_laws vd"
  shows "vd (to_json_schema s) v \<longleftrightarrow> covers vd s v"
  by (rule emitted_schema(1) [OF assms])

theorem emitted_schema_means_shape_witness:
  "\<not> keywords_valid (to_json_schema (SObject [(''n'', SArray (SScalar TyNumber), structural_provenance)]))
    (JObject [(''n'', JArray [Null, JString ''x''])])"
  using emitted_schema_means_shape [OF keywords_valid_emitted,
      of "SObject [(''n'', SArray (SScalar TyNumber), structural_provenance)]" "JObject [(''n'', JArray [Null, JString ''x''])]"]
  by simp


definition demo_schema :: json where
  "demo_schema = JObject [(''properties'', JObject [(''unit'', JObject [(''enum'', JArray [JString ''m'', JString ''s''])])]),
    (''type'', JString ''object'')]"

inductive_cases part_ofE: "part_of ds (JObject obj) u"

lemma demo_schema_uniform: "part_of Map.empty demo_schema u \<Longrightarrow> uniform_enum u"
  unfolding demo_schema_def
  by (erule part_ofE; (auto simp: uniform_enum_def elim!: part_ofE)?)



definition demo_port :: port where
  "demo_port = \<lparr>pt_id = ''in'', pt_label = ''In'', pt_fields =
    [\<lparr>pf_name = ''size'', pf_label = ''Size'', pf_kind = KJson, pf_required = True, pf_default = None,
      pf_options = None, pf_description = None, pf_accept = None, pf_schema = Some demo_schema\<rparr>,
     \<lparr>pf_name = ''doc'', pf_label = ''Doc'', pf_kind = KFile, pf_required = False, pf_default = None,
      pf_options = None, pf_description = None, pf_accept = None, pf_schema = None\<rparr>]\<rparr>"

definition demo_node :: shape_node where
  "demo_node = \<lparr>sn_id = ''start'', sn_label = ''Start''\<rparr>"

definition demo_token :: json where
  "demo_token = JObject [(''size'', JObject [(''unit'', JString ''m'')])]"

text \<open>
  C22: a token rejected where tokens enter a net would have been rejected by the engine too: the
  check at the boundary fails no token that the schema emitted for the same port accepts.
\<close>

theorem boundary_rejects_only_invalid:
  assumes "emitted_laws vd" and "vd (to_json_schema (port_to_shape defs port node ''declared port field'')) token"
  shows "validate_token_against_port defs port node token = Inr ()"
proof -
  obtain m where m: "port_to_shape defs port node ''declared port field'' = SObject m"
    by (metis port_to_shape_fields)
  have "covers vd (SObject m) token" using emitted_schema(1) [OF assms(1)] assms(2) m by metis
  then obtain obj where obj: "token = JObject obj" "covers_fields vd m obj" by (cases token) simp_all
  then have "validate_fields m obj = Inr ()"
    unfolding validate_fields_ok covers_fields_iff using shape_ok_if_covers by fast
  then show ?thesis using m obj(1) by (simp add: validate_token_against_port_def)
qed

lemma demo_port_uniform: "port_uniform Map.empty demo_port"
  using demo_schema_uniform by (auto simp: port_uniform_def demo_port_def)

lemma demo_port_accepts:
  "keywords_valid (to_json_schema (port_to_shape Map.empty demo_port demo_node note)) demo_token"
  by (simp add: port_to_shape_def demo_port_def field_shape_def file_shape_def demo_token_def demo_schema_def)


theorem boundary_rejects_only_invalid_witness:
  "validate_token_against_port Map.empty demo_port demo_node demo_token = Inr ()"
  by (rule boundary_rejects_only_invalid [OF keywords_valid_emitted demo_port_accepts])

subsection \<open>Where the checks part ways\<close>

text \<open>
  The first value of a mixed enumeration decides, and the shape rejects what the schema accepts.\<close>

theorem mixed_enum_shadow_too_strict:
  fixes n :: number
  defines "schema \<equiv> JObject [(''enum'', JArray [Number n, JString ''auto''])]"
  shows "keywords_valid schema (JString ''auto'')"
    and "\<not> covers keywords_valid (json_schema_to_token_shape schema Map.empty) (JString ''auto'')"
  by (simp_all add: schema_def json_schema_to_token_shape_def walk.simps DEPTH_CAP_def has_combinator_def enum_shape_def)

text \<open>
  Apart from files, a kind accepts what its schema says.\<close>

theorem accepts_is_base_schema:
  "k \<noteq> KFile \<Longrightarrow> accepts k v \<longleftrightarrow> keywords_valid (base_schema k) v"
  by (cases k; cases v) simp_all

theorem file_checks_disagree:
  "accepts KFile (JString ''a'') \<and> keywords_valid (base_schema KFile) (JString ''a'')"
  "accepts KFile (JObject []) \<and> \<not> keywords_valid (base_schema KFile) (JObject [])"
  "validate_token_against_port Map.empty demo_port demo_node (JObject [(''doc'', JString ''a'')]) \<noteq> Inr ()"
  "validate_token_against_port Map.empty demo_port demo_node (JObject [(''doc'', JObject [])]) = Inr ()"
  by (simp_all add: validate_token_against_port_def port_to_shape_def demo_port_def field_shape_def file_shape_def)

text \<open>
  The boundary passes a null or a malformed file that the emitted schema refuses.\<close>

theorem boundary_weaker_than_schema:
  fixes n :: number
  shows "t \<in> {JObject [(''doc'', Null)], JObject [(''doc'', JObject [(''url'', Number n)])]} \<Longrightarrow>
    validate_token_against_port Map.empty demo_port demo_node t = Inr () \<and>
    \<not> keywords_valid (to_json_schema (port_to_shape Map.empty demo_port demo_node ''declared port field'')) t"
  by (auto simp: validate_token_against_port_def port_to_shape_def demo_port_def field_shape_def
      file_shape_def nullable_def)

text \<open>
  What a token needs to pass the lenient check of a port.\<close>

theorem validate_token_iff:
  "validate_token port token = Inr () \<longleftrightarrow> (\<exists>obj. token = JObject obj \<and> (\<forall>f \<in> set (pt_fields port).
    case map_of obj (pf_name f) of
      None \<Rightarrow> \<not> pf_required f
    | Some v \<Rightarrow> if v = Null then \<not> pf_required f
        else accepts (pf_kind f) v \<and> (pf_required f \<longrightarrow> (\<forall>s. v = JString s \<longrightarrow> trim s \<noteq> []))))"
proof -
  have "validate_token_fields fs obj = Inr () \<longleftrightarrow> (\<forall>f \<in> set fs.
    case map_of obj (pf_name f) of
      None \<Rightarrow> \<not> pf_required f
    | Some v \<Rightarrow> if v = Null then \<not> pf_required f
        else accepts (pf_kind f) v \<and> (pf_required f \<longrightarrow> (\<forall>s. v = JString s \<longrightarrow> trim s \<noteq> [])))" for fs obj
  proof (induction fs)
    case (Cons f fs)
    show ?case
    proof (cases "map_of obj (pf_name f)")
      case (Some v)
      then show ?thesis using Cons.IH by (cases v) simp_all
    qed (use Cons.IH in simp)
  qed simp
  then show ?thesis by (cases token) (simp_all add: validate_token_def)
qed

end
