(* ===== verification/Schema_Refs.thy ===== *)
theory Schema_Refs
  imports Token_Shape Pre_Dispatch
begin

text \<open>
  Inlining of references to workflow definitions, \<^verbatim>\<open>src/service/src/compiler/schema_refs.rs\<close>:
  the pass that replaces every reference before lowering, its companion that only reports the
  first offender, and the pass over the agents of a graph. The set of names in flight is
  restored on the way out, so both pass it down. The lemmas compare them with plain expansion,
  which knows no cycles and no depth, and show that the two passes agree.
\<close>

section \<open>References\<close>

datatype schema_ref_error =
    UnknownDefinition string
  | Cycle string
  | UnsupportedPointer string
  | SiblingKeys
  | DepthExceeded nat

fun ref_error_text :: "schema_ref_error \<Rightarrow> string" where
  "ref_error_text (UnknownDefinition n) = ''ref points to unknown definition: '' @ n"
| "ref_error_text (Cycle n) = ''cycle detected through definition: '' @ n"
| "ref_error_text (UnsupportedPointer p) =
    ''ref shape not supported: '' @ p @ ''; only #/definitions/<name> is allowed''"
| "ref_error_text SiblingKeys = ''ref has sibling keys; JSON-Schema 2020-12 merge semantics not supported''"
| "ref_error_text (DepthExceeded m) = ''ref depth exceeded '' @ show_nat m"

definition REF_PREFIX :: string where
  "REF_PREFIX = ''#/definitions/''"

text \<open>The text of a reference that is not a string, as printed, is a parameter.\<close>

definition ref_target :: "(json \<Rightarrow> string) \<Rightarrow> json \<Rightarrow> (schema_ref_error, string option) result" where
  "ref_target jtext v = (case v of
      JObject m \<Rightarrow>
        (case map_of m ''$ref'' of
           None \<Rightarrow> Inr None
         | Some r \<Rightarrow>
             if length m > 1 then Inl SiblingKeys
             else (case r of
                 JString pointer \<Rightarrow>
                   (case strip_prefix REF_PREFIX pointer of
                      None \<Rightarrow> Inl (UnsupportedPointer pointer)
                    | Some n \<Rightarrow>
                        if n = [] \<or> CHR ''/'' \<in> set n then Inl (UnsupportedPointer pointer)
                        else Inr (Some (replace_pair (CHR ''~'') (CHR ''0'') (CHR ''~'')
                          (replace_pair (CHR ''~'') (CHR ''1'') (CHR ''/'') n))))
               | _ \<Rightarrow> Inl (UnsupportedPointer (jtext r))))
    | _ \<Rightarrow> Inr None)"

text \<open>\<open>str::replace\<close> of one character by a text.\<close>

definition replace_char :: "char \<Rightarrow> string \<Rightarrow> string \<Rightarrow> string" where
  "replace_char c r s = concat (map (\<lambda>x. if x = c then r else [x]) s)"

definition escape_pointer_token :: "string \<Rightarrow> string" where
  "escape_pointer_token s = replace_char (CHR ''/'') ''~1'' (replace_char (CHR ''~'') ''~0'' s)"

section \<open>The passes\<close>

function (sequential) inline_recursive ::
    "(json \<Rightarrow> string) \<Rightarrow> (string \<rightharpoonup> json) \<Rightarrow> string set \<Rightarrow> nat \<Rightarrow> json \<Rightarrow> (schema_ref_error, json) result"
  and inline_members ::
    "(json \<Rightarrow> string) \<Rightarrow> (string \<rightharpoonup> json) \<Rightarrow> string set \<Rightarrow> nat \<Rightarrow> fields \<Rightarrow> (schema_ref_error, fields) result"
  and inline_elements ::
    "(json \<Rightarrow> string) \<Rightarrow> (string \<rightharpoonup> json) \<Rightarrow> string set \<Rightarrow> nat \<Rightarrow> json list \<Rightarrow> (schema_ref_error, json list) result" where
  "inline_recursive jtext defs in_flight depth v =
    (if depth > DEPTH_CAP then Inl (DepthExceeded DEPTH_CAP)
     else (case ref_target jtext v of
         Inl e \<Rightarrow> Inl e
       | Inr (Some n) \<Rightarrow>
           (case defs n of
              None \<Rightarrow> Inl (UnknownDefinition n)
            | Some d \<Rightarrow>
                if n \<in> in_flight then Inl (Cycle n)
                else inline_recursive jtext defs (insert n in_flight) (Suc depth) d)
       | Inr None \<Rightarrow>
           (case v of
              JObject m \<Rightarrow> map_sum id JObject (inline_members jtext defs in_flight (Suc depth) m)
            | JArray xs \<Rightarrow> map_sum id JArray (inline_elements jtext defs in_flight (Suc depth) xs)
            | _ \<Rightarrow> Inr v)))"
| "inline_members jtext defs in_flight depth [] = Inr []"
| "inline_members jtext defs in_flight depth ((k, v) # m) =
    (case inline_recursive jtext defs in_flight depth v of
       Inl e \<Rightarrow> Inl e
     | Inr w \<Rightarrow> map_sum id (Cons (k, w)) (inline_members jtext defs in_flight depth m))"
| "inline_elements jtext defs in_flight depth [] = Inr []"
| "inline_elements jtext defs in_flight depth (v # xs) =
    (case inline_recursive jtext defs in_flight depth v of
       Inl e \<Rightarrow> Inl e
     | Inr w \<Rightarrow> map_sum id (Cons w) (inline_elements jtext defs in_flight depth xs))"
  by pat_completeness auto
termination
  by (relation "inv_image (less_than <*lex*> less_than) (\<lambda>x. case x of
      Inl (_, _, _, d, _) \<Rightarrow> (Suc DEPTH_CAP - d, 0)
    | Inr (Inl (_, _, _, d, m)) \<Rightarrow> (Suc DEPTH_CAP - d, Suc (length m))
    | Inr (Inr (_, _, _, d, xs)) \<Rightarrow> (Suc DEPTH_CAP - d, Suc (length xs)))") auto

declare inline_recursive.simps [simp del]

definition inline_refs :: "(json \<Rightarrow> string) \<Rightarrow> json \<Rightarrow> (string \<rightharpoonup> json) \<Rightarrow> (schema_ref_error, json) result" where
  "inline_refs jtext v defs = inline_recursive jtext defs {} 0 v"

text \<open>The companion threads a pointer for the editor.\<close>

function (sequential) validate_recursive ::
    "(json \<Rightarrow> string) \<Rightarrow> (string \<rightharpoonup> json) \<Rightarrow> string set \<Rightarrow> nat \<Rightarrow> string \<Rightarrow> json \<Rightarrow> (string \<times> schema_ref_error, unit) result"
  and validate_members ::
    "(json \<Rightarrow> string) \<Rightarrow> (string \<rightharpoonup> json) \<Rightarrow> string set \<Rightarrow> nat \<Rightarrow> string \<Rightarrow> fields \<Rightarrow> (string \<times> schema_ref_error, unit) result"
  and validate_elements ::
    "(json \<Rightarrow> string) \<Rightarrow> (string \<rightharpoonup> json) \<Rightarrow> string set \<Rightarrow> nat \<Rightarrow> string \<Rightarrow> nat \<Rightarrow> json list \<Rightarrow> (string \<times> schema_ref_error, unit) result" where
  "validate_recursive jtext defs in_flight depth path v =
    (if depth > DEPTH_CAP then Inl (path, DepthExceeded DEPTH_CAP)
     else (case ref_target jtext v of
         Inl e \<Rightarrow> Inl (path, e)
       | Inr (Some n) \<Rightarrow>
           (case defs n of
              None \<Rightarrow> Inl (path, UnknownDefinition n)
            | Some d \<Rightarrow>
                if n \<in> in_flight then Inl (path, Cycle n)
                else validate_recursive jtext defs (insert n in_flight) (Suc depth) (path @ ''/$ref->'' @ n) d)
       | Inr None \<Rightarrow>
           (case v of
              JObject m \<Rightarrow> validate_members jtext defs in_flight (Suc depth) path m
            | JArray xs \<Rightarrow> validate_elements jtext defs in_flight (Suc depth) path 0 xs
            | _ \<Rightarrow> Inr ())))"
| "validate_members jtext defs in_flight depth path [] = Inr ()"
| "validate_members jtext defs in_flight depth path ((k, v) # m) =
    (case validate_recursive jtext defs in_flight depth (path @ ''/'' @ escape_pointer_token k) v of
       Inl e \<Rightarrow> Inl e
     | Inr _ \<Rightarrow> validate_members jtext defs in_flight depth path m)"
| "validate_elements jtext defs in_flight depth path i [] = Inr ()"
| "validate_elements jtext defs in_flight depth path i (v # xs) =
    (case validate_recursive jtext defs in_flight depth (path @ ''/'' @ show_nat i) v of
       Inl e \<Rightarrow> Inl e
     | Inr _ \<Rightarrow> validate_elements jtext defs in_flight depth path (Suc i) xs)"
  by pat_completeness auto
termination
  by (relation "inv_image (less_than <*lex*> less_than) (\<lambda>x. case x of
      Inl (_, _, _, d, _) \<Rightarrow> (Suc DEPTH_CAP - d, 0)
    | Inr (Inl (_, _, _, d, _, m)) \<Rightarrow> (Suc DEPTH_CAP - d, Suc (length m))
    | Inr (Inr (_, _, _, d, _, _, xs)) \<Rightarrow> (Suc DEPTH_CAP - d, Suc (length xs)))") auto

declare validate_recursive.simps [simp del]

definition validate_refs ::
  "(json \<Rightarrow> string) \<Rightarrow> json \<Rightarrow> (string \<rightharpoonup> json) \<Rightarrow> (string \<times> schema_ref_error, unit) result" where
  "validate_refs jtext v defs = validate_recursive jtext defs {} 0 [] v"

fun contains_ref :: "json \<Rightarrow> bool" and members_contain_ref :: "fields \<Rightarrow> bool" where
  "contains_ref (JObject m) = (map_of m ''$ref'' \<noteq> None \<or> members_contain_ref m)"
| "contains_ref (JArray xs) = list_ex contains_ref xs"
| "contains_ref _ = False"
| "members_contain_ref [] = False"
| "members_contain_ref ((k, v) # m) = (contains_ref v \<or> members_contain_ref m)"

subsection \<open>The agents of a graph\<close>

text \<open>
  A node of the graph as this pass sees it: its response format when it is an agent that has
  one, and the rest of the node.
\<close>

record 'r agent_node =
  an_id :: string
  an_response_format :: "json option"
  an_rest :: 'r

definition needs_inline :: "'r agent_node \<Rightarrow> bool" where
  "needs_inline nd = (case an_response_format nd of Some rf \<Rightarrow> contains_ref rf | None \<Rightarrow> False)"

datatype ref_compile_error = SchemaRefUnresolved (ru_node_id: string) (ru_path: string) (ru_message: string)

fun inline_agent_nodes ::
  "(json \<Rightarrow> string) \<Rightarrow> (string \<rightharpoonup> json) \<Rightarrow> 'r agent_node list \<Rightarrow> (ref_compile_error, 'r agent_node list) result" where
  "inline_agent_nodes jtext defs [] = Inr []"
| "inline_agent_nodes jtext defs (nd # nds) =
    (case an_response_format nd of
       Some rf \<Rightarrow>
         if contains_ref rf then
           (case inline_refs jtext rf defs of
              Inl e \<Rightarrow> Inl (SchemaRefUnresolved (an_id nd) ''response_format'' (ref_error_text e))
            | Inr rf' \<Rightarrow> map_sum id (Cons (nd\<lparr>an_response_format := Some rf'\<rparr>)) (inline_agent_nodes jtext defs nds))
         else map_sum id (Cons nd) (inline_agent_nodes jtext defs nds)
     | None \<Rightarrow> map_sum id (Cons nd) (inline_agent_nodes jtext defs nds))"

definition inline_agent_response_format_refs ::
  "(json \<Rightarrow> string) \<Rightarrow> (string \<rightharpoonup> json) \<Rightarrow> 'r agent_node list \<Rightarrow> (ref_compile_error, 'r agent_node list) result" where
  "inline_agent_response_format_refs jtext defs nds =
    (if \<not> list_ex needs_inline nds then Inr nds else inline_agent_nodes jtext defs nds)"

section \<open>The two passes agree\<close>

definition verdict :: "('e, 'a) result \<Rightarrow> 'e option" where
  "verdict r = (case r of Inl e \<Rightarrow> Some e | Inr _ \<Rightarrow> None)"

lemma verdict_simps [simp]:
  "verdict (Inl e) = Some e" "verdict (Inr x) = None" "verdict (map_sum id f r) = verdict r"
  by (cases r; simp add: verdict_def)+

lemma verdict_None: "verdict r = None \<longleftrightarrow> (\<exists>x. r = Inr x)"
  by (cases r) simp_all

lemma verdict_case: "verdict (case r of Inl e \<Rightarrow> Inl e | Inr x \<Rightarrow> f x) = (case verdict r of Some e \<Rightarrow> Some e | None \<Rightarrow> verdict (f (projr r)))"
  by (cases r) simp_all

lemma validate_is_inline:
  "map_option snd (verdict (validate_recursive jtext defs fl d path v)) = verdict (inline_recursive jtext defs fl d v)"
  "map_option snd (verdict (validate_members jtext defs fl d path m)) = verdict (inline_members jtext defs fl d m)"
  "map_option snd (verdict (validate_elements jtext defs fl d path i xs)) = verdict (inline_elements jtext defs fl d xs)"
proof (induction jtext defs fl d v and jtext defs fl d m and jtext defs fl d xs
    arbitrary: path and path and path i rule: inline_recursive_inline_members_inline_elements.induct)
  case (1 jtext defs fl d v)
  then show ?case
    by (subst validate_recursive.simps, subst inline_recursive.simps)
      (simp split: sum.split option.split json.split)
next
  case (3 jtext defs fl d k v m)
  note v = "3.IH"(1) [of "path @ ''/'' @ escape_pointer_token k"]
  show ?case
  proof (cases "inline_recursive jtext defs fl d v")
    case (Inl e)
    then show ?thesis using v by (auto simp: verdict_case)
  next
    case (Inr w)
    then show ?thesis using v "3.IH"(2) [of w path] by (auto simp: verdict_case)
  qed
next
  case (5 jtext defs fl d v xs)
  note v = "5.IH"(1) [of "path @ ''/'' @ show_nat i"]
  show ?case
  proof (cases "inline_recursive jtext defs fl d v")
    case (Inl e)
    then show ?thesis using v by (auto simp: verdict_case)
  next
    case (Inr w)
    then show ?thesis using v "5.IH"(2) [of w path "Suc i"] by (auto simp: verdict_case)
  qed
qed simp_all

section \<open>Inlining is expansion\<close>

text \<open>Plain expansion: a reference stands for the expansion of its definition.\<close>

inductive expands :: "(json \<Rightarrow> string) \<Rightarrow> (string \<rightharpoonup> json) \<Rightarrow> json \<Rightarrow> json \<Rightarrow> bool" for jt ds where
  expands_ref: "ref_target jt v = Inr (Some n) \<Longrightarrow> ds n = Some d \<Longrightarrow> expands jt ds d w \<Longrightarrow> expands jt ds v w"
| expands_object: "ref_target jt (JObject m) = Inr None \<Longrightarrow> list_all2 (rel_prod (=) (expands jt ds)) m m' \<Longrightarrow>
    expands jt ds (JObject m) (JObject m')"
| expands_array: "list_all2 (expands jt ds) xs ys \<Longrightarrow> expands jt ds (JArray xs) (JArray ys)"
| expands_leaf: "\<not> is_object v \<Longrightarrow> \<not> is_array v \<Longrightarrow> expands jt ds v v"

lemma map_sum_Inr: "map_sum f g r = Inr y \<longleftrightarrow> (\<exists>x. r = Inr x \<and> y = g x)"
  by (cases r) auto

lemma inline_expands:
  "inline_recursive jt ds fl d v = Inr w \<Longrightarrow> expands jt ds v w"
  "inline_members jt ds fl d m = Inr m' \<Longrightarrow> list_all2 (rel_prod (=) (expands jt ds)) m m'"
  "inline_elements jt ds fl d xs = Inr ys \<Longrightarrow> list_all2 (expands jt ds) xs ys"
proof (induction jt ds fl d v and jt ds fl d m and jt ds fl d xs
    arbitrary: w and m' and ys rule: inline_recursive_inline_members_inline_elements.induct)
  case (1 jt ds fl d v)
  have d: "\<not> d > DEPTH_CAP" using "1.prems" by (auto simp: inline_recursive.simps)
  show ?case
  proof (cases "ref_target jt v")
    case (Inr t)
    show ?thesis
    proof (cases t)
      case None
      then show ?thesis using "1.prems" "1.IH"(1,2) [OF d Inr None] d Inr
        by (cases v) (auto simp: inline_recursive.simps [of jt ds fl d] map_sum_Inr intro: expands.intros)
    next
      case (Some n)
      then show ?thesis using "1.prems" "1.IH"(3) [OF d Inr Some] d Inr
        by (auto simp: inline_recursive.simps [of jt ds fl d] intro: expands_ref split: option.splits if_splits)
    qed
  qed (use "1.prems" d in \<open>simp add: inline_recursive.simps\<close>)
qed (auto simp: map_sum_Inr split: sum.splits)

text \<open>Expansion of bounded height, to compare with the names in flight.\<close>

fun expand :: "(json \<Rightarrow> string) \<Rightarrow> (string \<rightharpoonup> json) \<Rightarrow> nat \<Rightarrow> json \<Rightarrow> json option" where
  "expand jt ds 0 v = None"
| "expand jt ds (Suc h) v = (case ref_target jt v of
      Inl _ \<Rightarrow> None
    | Inr (Some n) \<Rightarrow> (case ds n of Some d \<Rightarrow> expand jt ds h d | None \<Rightarrow> None)
    | Inr None \<Rightarrow> (case v of
          JObject m \<Rightarrow> map_option JObject (those (map (\<lambda>(k, x). map_option (Pair k) (expand jt ds h x)) m))
        | JArray xs \<Rightarrow> map_option JArray (those (map (expand jt ds h) xs))
        | _ \<Rightarrow> Some v))"

lemma those_Some: "those xs = Some ys \<longleftrightarrow> list_all2 (\<lambda>x y. x = Some y) xs ys"
  by (induction xs arbitrary: ys) (auto simp: list_all2_Cons1 split: option.splits)

lemma those_map: "those (map f xs) = Some ys \<longleftrightarrow> list_all2 (\<lambda>x y. f x = Some y) xs ys"
  by (simp add: those_Some list_all2_map1)

lemma those_members:
  "those (map (\<lambda>(k, x). map_option (Pair k) (f x)) m) = Some m' \<longleftrightarrow> list_all2 (rel_prod (=) (\<lambda>x y. f x = Some y)) m m'"
proof -
  have "(\<lambda>x y. (case x of (k, x) \<Rightarrow> map_option (Pair k) (f x)) = Some y) = rel_prod (=) (\<lambda>x y. f x = Some y)"
    by (intro ext) (auto simp: rel_prod_sel split: prod.splits)
  then show ?thesis unfolding those_map by (rule arg_cong)
qed

lemma expand_mono: "expand jt ds h v = Some w \<Longrightarrow> h \<le> g \<Longrightarrow> expand jt ds g v = Some w"
proof (induction h arbitrary: g v w)
  case (Suc h)
  obtain g' where g: "g = Suc g'" "h \<le> g'" using Suc.prems(2) by (cases g) auto
  have IH: "expand jt ds h x = Some y \<Longrightarrow> expand jt ds g' x = Some y" for x y using Suc.IH g(2) by blast
  have arr: "those (map (expand jt ds h) xs) = Some ys \<Longrightarrow> those (map (expand jt ds g') xs) = Some ys" for xs ys
    unfolding those_map using IH by (auto elim: list_all2_mono)
  have obj: "those (map (\<lambda>(k, x). map_option (Pair k) (expand jt ds h x)) m) = Some m' \<Longrightarrow>
      those (map (\<lambda>(k, x). map_option (Pair k) (expand jt ds g' x)) m) = Some m'" for m m'
    unfolding those_members using IH by (auto elim!: list_all2_mono simp: rel_prod_sel)
  show ?case using Suc.prems(1) g(1) IH arr obj
    by (auto split: sum.splits option.splits json.splits)
qed simp

lemma list_all2_height:
  assumes mono: "\<And>h g x y. P h x y \<Longrightarrow> h \<le> g \<Longrightarrow> P (g :: nat) x y"
  shows "list_all2 (\<lambda>x y. \<exists>h. P h x y) xs ys \<Longrightarrow> \<exists>h. list_all2 (P h) xs ys"
proof (induction rule: list_all2_induct)
  case (Cons x xs y ys)
  then obtain h g where "P h x y" "list_all2 (P g) xs ys" by blast
  then have "P (max h g) x y" "list_all2 (P (max h g)) xs ys"
    using mono by (auto elim!: list_all2_mono)
  then show ?case by blast
qed simp

lemma expands_height: "expands jt ds v w \<Longrightarrow> \<exists>h. expand jt ds h v = Some w"
proof (induction rule: expands.induct)
  case (expands_ref v n d w)
  then obtain h where "expand jt ds h d = Some w" by blast
  then have "expand jt ds (Suc h) v = Some w" using expands_ref.hyps by simp
  then show ?case ..
next
  case (expands_object m m')
  have "list_all2 (\<lambda>x y. \<exists>h. rel_prod (=) (\<lambda>a b. expand jt ds h a = Some b) x y) m m'"
    using expands_object.IH by (auto elim!: list_all2_mono simp: rel_prod_sel)
  then have "\<exists>h. list_all2 (rel_prod (=) (\<lambda>a b. expand jt ds h a = Some b)) m m'"
    by (rule list_all2_height [rotated]) (auto simp: rel_prod_sel intro: expand_mono)
  then obtain h where "list_all2 (rel_prod (=) (\<lambda>a b. expand jt ds h a = Some b)) m m'" ..
  then have "expand jt ds (Suc h) (JObject m) = Some (JObject m')"
    using expands_object.hyps(1) by (simp add: those_members)
  then show ?case ..
next
  case (expands_array xs ys)
  have "list_all2 (\<lambda>x y. \<exists>h. expand jt ds h x = Some y) xs ys"
    using expands_array.IH by (auto elim!: list_all2_mono)
  then have "\<exists>h. list_all2 (\<lambda>x y. expand jt ds h x = Some y) xs ys"
    by (rule list_all2_height [rotated]) (rule expand_mono)
  then obtain h where "list_all2 (\<lambda>x y. expand jt ds h x = Some y) xs ys" ..
  then have "expand jt ds (Suc h) (JArray xs) = Some (JArray ys)"
    by (simp add: those_map ref_target_def)
  then show ?case ..
next
  case (expands_leaf v)
  then have "expand jt ds (Suc 0) v = Some v" by (cases v) (simp_all add: ref_target_def)
  then show ?case ..
qed

text \<open>A list of parts that inline to their expansion or exceed the depth does so as a whole.\<close>

lemma inline_elements_total:
  "list_all2 (\<lambda>x y. inline_recursive jt ds fl d x \<in> {Inr y, Inl e}) xs ys \<Longrightarrow>
    inline_elements jt ds fl d xs \<in> {Inr ys, Inl e}"
  by (induction rule: list_all2_induct) (auto split: sum.split)

lemma inline_members_total:
  "list_all2 (rel_prod (=) (\<lambda>x y. inline_recursive jt ds fl d x \<in> {Inr y, Inl e})) m m' \<Longrightarrow>
    inline_members jt ds fl d m \<in> {Inr m', Inl e}"
  by (induction rule: list_all2_induct) (auto split: sum.split)

text \<open>
  An expansion of height \<open>h\<close> meets no name in flight, as long as the definitions in flight have
  no expansion lower than \<open>h\<close>: entering a definition at its least height keeps that.
\<close>

lemma inline_total:
  assumes "expand jt ds h v = Some w"
    and "\<And>n d g. n \<in> fl \<Longrightarrow> ds n = Some d \<Longrightarrow> g < h \<Longrightarrow> expand jt ds g d = None"
  shows "inline_recursive jt ds fl depth v \<in> {Inr w, Inl (DepthExceeded DEPTH_CAP)}"
  using assms
proof (induction h arbitrary: v w fl depth rule: less_induct)
  case (less h)
  obtain h' where h: "h = Suc h'" using less.prems(1) by (cases h) auto
  have parts: "inline_recursive jt ds fl (Suc depth) x \<in> {Inr y, Inl (DepthExceeded DEPTH_CAP)}"
    if "expand jt ds h' x = Some y" for x y
    by (rule less.IH [OF _ that]) (use h less.prems(2) in auto)
  show ?case
  proof (cases "depth > DEPTH_CAP")
    case False
    show ?thesis
    proof (cases "ref_target jt v")
      case (Inr t)
      show ?thesis
      proof (cases t)
        case None
        have obj: "map_sum id JObject (inline_members jt ds fl (Suc depth) m) \<in> {Inr (JObject m'), Inl (DepthExceeded DEPTH_CAP)}"
          if "those (map (\<lambda>(k, x). map_option (Pair k) (expand jt ds h' x)) m) = Some m'" for m m'
        proof -
          have "inline_members jt ds fl (Suc depth) m \<in> {Inr m', Inl (DepthExceeded DEPTH_CAP)}"
            by (rule inline_members_total) (use that parts in \<open>auto simp: those_members rel_prod_sel elim!: list_all2_mono\<close>)
          then show ?thesis by auto
        qed
        have arr: "map_sum id JArray (inline_elements jt ds fl (Suc depth) xs) \<in> {Inr (JArray ys), Inl (DepthExceeded DEPTH_CAP)}"
          if "those (map (expand jt ds h') xs) = Some ys" for xs ys
        proof -
          have "inline_elements jt ds fl (Suc depth) xs \<in> {Inr ys, Inl (DepthExceeded DEPTH_CAP)}"
            by (rule inline_elements_total) (use that parts in \<open>auto simp: those_map elim!: list_all2_mono\<close>)
          then show ?thesis by auto
        qed
        show ?thesis using less.prems(1) None Inr False h obj arr
          by (cases v) (auto simp: inline_recursive.simps [of jt ds fl depth] simp del: map_sum.simps)
      next
        case (Some n)
        obtain d where d: "ds n = Some d" "expand jt ds h' d = Some w"
          using less.prems(1) Inr Some h by (auto split: option.splits)
        define k where "k = (LEAST k. expand jt ds k d \<noteq> None)"
        have k: "expand jt ds k d \<noteq> None" "k \<le> h'"
          unfolding k_def using d(2) LeastI [of "\<lambda>k. expand jt ds k d \<noteq> None" h']
            Least_le [of "\<lambda>k. expand jt ds k d \<noteq> None" h'] by auto
        have low: "g < k \<Longrightarrow> expand jt ds g d = None" for g
          unfolding k_def using not_less_Least [of g "\<lambda>k. expand jt ds k d \<noteq> None"] by blast
        have kw: "expand jt ds k d = Some w" using k expand_mono [of jt ds k d] d(2) by fastforce
        have "n \<notin> fl" using less.prems(2) d h by fastforce
        moreover have "inline_recursive jt ds (insert n fl) (Suc depth) d \<in> {Inr w, Inl (DepthExceeded DEPTH_CAP)}"
          by (rule less.IH [OF _ kw]) (use k(2) low h d(1) less.prems(2) in auto)
        ultimately show ?thesis using Inr Some False d(1) by (simp add: inline_recursive.simps [of jt ds fl depth])
      qed
    qed (use less.prems(1) h in simp)
  qed (simp add: inline_recursive.simps)
qed

section \<open>No reference is left\<close>

lemma members_contain_ref_iff: "members_contain_ref m \<longleftrightarrow> (\<exists>(k, v) \<in> set m. contains_ref v)"
  by (induction m) auto

lemma rel_prod_map_of: "list_all2 (rel_prod (=) R) m m' \<Longrightarrow> map_of m k = None \<longleftrightarrow> map_of m' k = None"
  by (induction rule: list_all2_induct) (auto simp: rel_prod_sel)

lemma expands_no_ref: "expands jt ds v w \<Longrightarrow> \<not> contains_ref w"
proof (induction rule: expands.induct)
  case (expands_object m m')
  have "map_of m ''$ref'' = None"
    using expands_object.hyps(1) by (auto simp: ref_target_def split: option.splits if_splits json.splits)
  moreover have "list_all2 (rel_prod (=) (\<lambda>v w. expands jt ds v w \<and> \<not> contains_ref w)) m m'" by (rule expands_object.IH)
  ultimately have "map_of m' ''$ref'' = None" "\<not> members_contain_ref m'"
    using rel_prod_map_of [of _ m m'] by (blast, fastforce simp: members_contain_ref_iff list_all2_conv_all_nth in_set_conv_nth rel_prod_sel)
  then show ?case by simp
next
  case (expands_array xs ys)
  then show ?case by (auto simp: list_ex_iff list_all2_conv_all_nth in_set_conv_nth)
next
  case (expands_leaf v)
  then show ?case by (cases v) simp_all
qed

lemma inline_refs_no_ref: "inline_refs jt v ds = Inr w \<Longrightarrow> \<not> contains_ref w"
  unfolding inline_refs_def using inline_expands(1) expands_no_ref by blast

text \<open>The agents of a graph, before and after: identities stay and references are gone.\<close>

definition agent_resolved :: "(json \<Rightarrow> string) \<Rightarrow> (string \<rightharpoonup> json) \<Rightarrow> 'r agent_node \<Rightarrow> 'r agent_node \<Rightarrow> bool" where
  "agent_resolved jt ds nd nd' \<longleftrightarrow> \<not> needs_inline nd' \<and>
    (if needs_inline nd then \<exists>rf'. expands jt ds (the (an_response_format nd)) rf' \<and>
       nd' = nd\<lparr>an_response_format := Some rf'\<rparr>
     else nd' = nd)"

lemma inline_agent_nodes_resolved:
  "inline_agent_nodes jt ds nds = Inr nds' \<Longrightarrow> list_all2 (agent_resolved jt ds) nds nds'"
proof (induction nds arbitrary: nds')
  case (Cons nd nds)
  show ?case
  proof (cases "needs_inline nd")
    case True
    then obtain rf where rf: "an_response_format nd = Some rf" "contains_ref rf"
      by (auto simp: needs_inline_def split: option.splits)
    obtain rf' ys where inl: "inline_refs jt rf ds = Inr rf'" "inline_agent_nodes jt ds nds = Inr ys"
        "nds' = nd\<lparr>an_response_format := Some rf'\<rparr> # ys"
      using Cons.prems rf by (auto simp: map_sum_Inr split: sum.splits)
    have "agent_resolved jt ds nd (nd\<lparr>an_response_format := Some rf'\<rparr>)"
      using rf True inline_refs_no_ref [OF inl(1)] inline_expands(1) [OF inl(1) [unfolded inline_refs_def]]
      unfolding agent_resolved_def by (auto simp: needs_inline_def)
    then show ?thesis using Cons.IH [OF inl(2)] inl(3) by simp
  next
    case False
    then obtain ys where "inline_agent_nodes jt ds nds = Inr ys" "nds' = nd # ys"
      using Cons.prems by (auto simp: needs_inline_def map_sum_Inr split: option.splits)
    then show ?thesis using Cons.IH False by (simp add: agent_resolved_def)
  qed
qed simp

section \<open>Properties\<close>

text \<open>
  C28: inlining computes plain expansion. When it does not stop at the depth bound, it succeeds
  exactly when the value has a finite expansion, and returns it; in particular a cycle is reported
  only when there is one, also for definitions used many times.
\<close>

theorem inline_refs_exact:
  assumes "inline_refs jt v ds \<noteq> Inl (DepthExceeded DEPTH_CAP)"
  shows "inline_refs jt v ds = Inr w \<longleftrightarrow> expands jt ds v w"
proof
  assume "inline_refs jt v ds = Inr w"
  then show "expands jt ds v w" unfolding inline_refs_def by (rule inline_expands(1))
next
  assume "expands jt ds v w"
  then obtain h where "expand jt ds h v = Some w" using expands_height by blast
  then show "inline_refs jt v ds = Inr w"
    using assms inline_total [of jt ds h v w "{}" 0] unfolding inline_refs_def by auto
qed

definition demo_defs :: "string \<rightharpoonup> json" where
  "demo_defs = [''Leaf'' \<mapsto> JObject [(''type'', JString ''integer'')],
    ''Pair'' \<mapsto> JArray [JObject [(''$ref'', JString ''#/definitions/Leaf'')], JObject [(''$ref'', JString ''#/definitions/Leaf'')]]]"

theorem inline_refs_exact_witness:
  "expands (\<lambda>_. []) demo_defs (JObject [(''$ref'', JString ''#/definitions/Pair'')])
    (JArray [JObject [(''type'', JString ''integer'')], JObject [(''type'', JString ''integer'')]])"
proof -
  have "inline_refs (\<lambda>_. []) (JObject [(''$ref'', JString ''#/definitions/Pair'')]) demo_defs =
      Inr (JArray [JObject [(''type'', JString ''integer'')], JObject [(''type'', JString ''integer'')]])"
    by (simp add: inline_refs_def inline_recursive.simps DEPTH_CAP_def ref_target_def REF_PREFIX_def demo_defs_def)
  then show ?thesis
    by (subst inline_refs_exact [of "\<lambda>_. []" "JObject [(''$ref'', JString ''#/definitions/Pair'')]" demo_defs, symmetric]) simp_all
qed

text \<open>
  C29: the check in the editor and the pass before lowering give the same verdict: the check
  passes exactly when inlining succeeds, and otherwise both report the same error.
\<close>

theorem validate_refs_is_inline_refs:
  "map_option snd (verdict (validate_refs jt v ds)) = verdict (inline_refs jt v ds)"
  unfolding validate_refs_def inline_refs_def by (rule validate_is_inline(1))

text \<open>
  After the pass over a graph no agent has a reference left, and nothing else changed.\<close>

theorem agents_resolved:
  assumes "inline_agent_response_format_refs jt ds nds = Inr nds'"
  shows "list_all2 (agent_resolved jt ds) nds nds'"
proof (cases "list_ex needs_inline nds")
  case True
  then show ?thesis using assms inline_agent_nodes_resolved
    by (auto simp: inline_agent_response_format_refs_def)
next
  case False
  then show ?thesis using assms
    by (auto simp: inline_agent_response_format_refs_def list_ex_iff agent_resolved_def list_all2_same)
qed

end
