(* ===== verification/Pool_Net.thy ===== *)
theory Pool_Net
  imports Capability Pre_Dispatch "HOL-Library.Multiset"
begin

text \<open>
  Admission to shared capacity: the pool nets of \<^verbatim>\<open>src/service/src/petri/pool_net.rs\<close>, seeded
  with units or fed by the presence of runners, and the handshake of the steps that use them,
  \<^verbatim>\<open>src/service/src/compiler/lower/lease_bridge.rs\<close> and \<^verbatim>\<open>automated_step.rs\<close>. A place is a
  multiset of tokens and a transition a partial function of its binding, so that the engine's
  choice of bindings is left open; messages between nets arrive in any order. The lemmas show that
  units are neither lost nor doubled, that a unit serves one holder at a time when grant
  identifiers are not shared, that all capacity returns, and what happens when they are shared or
  a claim is withdrawn while its grant is under way.
\<close>

section \<open>Tokens and places\<close>

record claim =
  cl_grant_id :: string
  cl_request :: json
  cl_requirements :: json

text \<open>A unit of a presence pool; a unit of a seeded pool is its \<open>unit_id\<close>.\<close>

record presence_unit =
  pu_unit_id :: string
  pu_runner_id :: string
  pu_executor_namespace :: string
  pu_caps :: json

datatype outcome = Released | Reaped | Withdrawn | ReapedFree | ReapedHeld

text \<open>
  A grant, a registration and a hold carry a grant identifier and the unit. The terminal record
  names the grant, where there is one, and the unit, where there is one.
\<close>

type_synonym 'u lease = "string \<times> 'u"
type_synonym 'u done_record = "string option \<times> 'u option \<times> outcome"

record 'u pool_net =
  pn_pool :: "'u multiset"
  pn_in_use :: "'u lease multiset"
  pn_done :: "'u done_record multiset"
  pn_claim_inbox :: "claim multiset"
  pn_register_inbox :: "'u lease multiset"
  pn_release_inbox :: "string multiset"
  pn_withdraw_inbox :: "string multiset"
  pn_grant_outbox :: "'u lease multiset"
  pn_lease_expired :: "string multiset"
  pn_presence_acquire :: "'u multiset"
  pn_presence_expired :: "string multiset"
  pn_fail_outbox :: "'u lease multiset"
  pn_offers :: "claim multiset"
  pn_presence_claim :: "(string \<times> string) multiset"

datatype acceptance = Auto | Consent

datatype capacity_source = Seeded nat | Presence acceptance

definition empty_net :: "'u pool_net" where
  "empty_net = \<lparr>pn_pool = {#}, pn_in_use = {#}, pn_done = {#}, pn_claim_inbox = {#}, pn_register_inbox = {#},
    pn_release_inbox = {#}, pn_withdraw_inbox = {#}, pn_grant_outbox = {#}, pn_lease_expired = {#},
    pn_presence_acquire = {#}, pn_presence_expired = {#}, pn_fail_outbox = {#}, pn_offers = {#},
    pn_presence_claim = {#}\<rparr>"

section \<open>Transitions\<close>

text \<open>Shared by both kinds: withdrawal of a queued claim, and registration of a hold.\<close>

definition t_withdraw :: "string \<Rightarrow> claim \<Rightarrow> 'u pool_net \<Rightarrow> 'u pool_net option" where
  "t_withdraw wd c s =
    (if wd \<in># pn_withdraw_inbox s \<and> c \<in># pn_claim_inbox s \<and> wd = cl_grant_id c
     then Some (s\<lparr>pn_withdraw_inbox := pn_withdraw_inbox s - {#wd#},
       pn_claim_inbox := pn_claim_inbox s - {#c#},
       pn_done := add_mset (Some (cl_grant_id c), None, Withdrawn) (pn_done s)\<rparr>)
     else None)"

definition t_register :: "'u lease \<Rightarrow> 'u pool_net \<Rightarrow> 'u pool_net option" where
  "t_register reg s =
    (if reg \<in># pn_register_inbox s
     then Some (s\<lparr>pn_register_inbox := pn_register_inbox s - {#reg#},
       pn_in_use := add_mset reg (pn_in_use s)\<rparr>)
     else None)"

text \<open>A grant binds a claim and a free unit; the seeded pool has no guard.\<close>

definition t_grant :: "(claim \<Rightarrow> 'u \<Rightarrow> bool) \<Rightarrow> claim \<Rightarrow> 'u \<Rightarrow> 'u pool_net \<Rightarrow> 'u pool_net option" where
  "t_grant guard c u s =
    (if c \<in># pn_claim_inbox s \<and> u \<in># pn_pool s \<and> guard c u
     then Some (s\<lparr>pn_claim_inbox := pn_claim_inbox s - {#c#}, pn_pool := pn_pool s - {#u#},
       pn_grant_outbox := add_mset (cl_grant_id c, u) (pn_grant_outbox s)\<rparr>)
     else None)"

definition presence_guard :: "claim \<Rightarrow> presence_unit \<Rightarrow> bool" where
  "presence_guard c u = (case (cl_requirements c, pu_caps u) of
      (JObject req, JObject caps) \<Rightarrow> satisfies_impl (json_fields_to_dynamic req) (json_fields_to_dynamic caps)
    | _ \<Rightarrow> False)"

text \<open>A release returns the unit of the hold it matches.\<close>

definition t_release :: "string \<Rightarrow> 'u lease \<Rightarrow> 'u pool_net \<Rightarrow> 'u pool_net option" where
  "t_release req held s =
    (if req \<in># pn_release_inbox s \<and> held \<in># pn_in_use s \<and> req = fst held
     then Some (s\<lparr>pn_release_inbox := pn_release_inbox s - {#req#}, pn_in_use := pn_in_use s - {#held#},
       pn_pool := add_mset (snd held) (pn_pool s),
       pn_done := add_mset (Some (fst held), Some (snd held), Released) (pn_done s)\<rparr>)
     else None)"

text \<open>The seeded pool: a lease that expired returns its unit.\<close>

definition t_reap :: "string \<Rightarrow> 'u lease \<Rightarrow> 'u pool_net \<Rightarrow> 'u pool_net option" where
  "t_reap e held s =
    (if e \<in># pn_lease_expired s \<and> held \<in># pn_in_use s \<and> e = fst held
     then Some (s\<lparr>pn_lease_expired := pn_lease_expired s - {#e#}, pn_in_use := pn_in_use s - {#held#},
       pn_pool := add_mset (snd held) (pn_pool s),
       pn_done := add_mset (Some (fst held), Some (snd held), Reaped) (pn_done s)\<rparr>)
     else None)"

text \<open>The presence pool: admission of a unit, and the reaping of one unit per expiry signal.\<close>

definition t_presence_acquire :: "'u \<Rightarrow> 'u pool_net \<Rightarrow> 'u pool_net option" where
  "t_presence_acquire u s =
    (if u \<in># pn_presence_acquire s
     then Some (s\<lparr>pn_presence_acquire := pn_presence_acquire s - {#u#}, pn_pool := add_mset u (pn_pool s)\<rparr>)
     else None)"

definition t_reap_free :: "('u \<Rightarrow> string) \<Rightarrow> string \<Rightarrow> 'u \<Rightarrow> 'u pool_net \<Rightarrow> 'u pool_net option" where
  "t_reap_free runner_of e u s =
    (if e \<in># pn_presence_expired s \<and> u \<in># pn_pool s \<and> e = runner_of u
     then Some (s\<lparr>pn_presence_expired := pn_presence_expired s - {#e#}, pn_pool := pn_pool s - {#u#},
       pn_done := add_mset (None, Some u, ReapedFree) (pn_done s)\<rparr>)
     else None)"

definition t_reap_held :: "('u \<Rightarrow> string) \<Rightarrow> string \<Rightarrow> 'u lease \<Rightarrow> 'u pool_net \<Rightarrow> 'u pool_net option" where
  "t_reap_held runner_of e held s =
    (if e \<in># pn_presence_expired s \<and> held \<in># pn_in_use s \<and> e = runner_of (snd held)
     then Some (s\<lparr>pn_presence_expired := pn_presence_expired s - {#e#}, pn_in_use := pn_in_use s - {#held#},
       pn_fail_outbox := add_mset held (pn_fail_outbox s),
       pn_done := add_mset (Some (fst held), Some (snd held), ReapedHeld) (pn_done s)\<rparr>)
     else None)"

text \<open>Consent: a claim is parked as an offer, and bound when a member claims it.\<close>

definition t_post_offer :: "claim \<Rightarrow> 'u pool_net \<Rightarrow> 'u pool_net option" where
  "t_post_offer c s =
    (if c \<in># pn_claim_inbox s
     then Some (s\<lparr>pn_claim_inbox := pn_claim_inbox s - {#c#}, pn_offers := add_mset c (pn_offers s)\<rparr>)
     else None)"

definition t_claim :: "(claim \<Rightarrow> 'u \<Rightarrow> bool) \<Rightarrow> ('u \<Rightarrow> string) \<Rightarrow> claim \<Rightarrow> string \<times> string \<Rightarrow> 'u \<Rightarrow>
    'u pool_net \<Rightarrow> 'u pool_net option" where
  "t_claim guard runner_of offer cl u s =
    (if offer \<in># pn_offers s \<and> cl \<in># pn_presence_claim s \<and> u \<in># pn_pool s \<and>
        fst cl = cl_grant_id offer \<and> snd cl = runner_of u \<and> guard offer u
     then Some (s\<lparr>pn_offers := pn_offers s - {#offer#}, pn_presence_claim := pn_presence_claim s - {#cl#},
       pn_pool := pn_pool s - {#u#}, pn_grant_outbox := add_mset (cl_grant_id offer, u) (pn_grant_outbox s)\<rparr>)
     else None)"

section \<open>Holders\<close>

text \<open>
  The steps and scopes that use the pool, over all instances: claims that wait for their grant
  and leases that are held. A claim parks its grant identifier; an acquire needs the parked
  identifier and a grant for it, registers the hold and parks the lease; a release, normal or as a
  finalizer, consumes the parked lease, and the withdrawing finalizer the parked identifier. A
  holder that is told its unit is gone aborts without a release.
\<close>

record 'u pool_system =
  ps_net :: "'u pool_net"
  ps_pending :: "string multiset"
  ps_held :: "'u lease multiset"

definition h_claim :: "claim \<Rightarrow> 'u pool_system \<Rightarrow> 'u pool_system option" where
  "h_claim c s = Some (s\<lparr>ps_pending := add_mset (cl_grant_id c) (ps_pending s),
    ps_net := (ps_net s)\<lparr>pn_claim_inbox := add_mset c (pn_claim_inbox (ps_net s))\<rparr>\<rparr>)"

definition h_acquire :: "'u lease \<Rightarrow> 'u pool_system \<Rightarrow> 'u pool_system option" where
  "h_acquire grant s =
    (if fst grant \<in># ps_pending s \<and> grant \<in># pn_grant_outbox (ps_net s)
     then Some (s\<lparr>ps_pending := ps_pending s - {#fst grant#}, ps_held := add_mset grant (ps_held s),
       ps_net := (ps_net s)\<lparr>pn_grant_outbox := pn_grant_outbox (ps_net s) - {#grant#},
         pn_register_inbox := add_mset grant (pn_register_inbox (ps_net s))\<rparr>\<rparr>)
     else None)"

definition h_release :: "'u lease \<Rightarrow> 'u pool_system \<Rightarrow> 'u pool_system option" where
  "h_release held s =
    (if held \<in># ps_held s
     then Some (s\<lparr>ps_held := ps_held s - {#held#},
       ps_net := (ps_net s)\<lparr>pn_release_inbox := add_mset (fst held) (pn_release_inbox (ps_net s))\<rparr>\<rparr>)
     else None)"

definition h_withdraw :: "string \<Rightarrow> 'u pool_system \<Rightarrow> 'u pool_system option" where
  "h_withdraw g s =
    (if g \<in># ps_pending s
     then Some (s\<lparr>ps_pending := ps_pending s - {#g#},
       ps_net := (ps_net s)\<lparr>pn_withdraw_inbox := add_mset g (pn_withdraw_inbox (ps_net s))\<rparr>\<rparr>)
     else None)"

definition h_abort :: "'u lease \<Rightarrow> 'u pool_system \<Rightarrow> 'u pool_system option" where
  "h_abort held s =
    (if held \<in># ps_held s \<and> held \<in># pn_fail_outbox (ps_net s)
     then Some (s\<lparr>ps_held := ps_held s - {#held#},
       ps_net := (ps_net s)\<lparr>pn_fail_outbox := pn_fail_outbox (ps_net s) - {#held#}\<rparr>\<rparr>)
     else None)"

section \<open>Runs\<close>

text \<open>
  What can happen: the moves of holders, messages from outside (expiry of a lease, admission and
  expiry by the presence controller, the claim of a member), and the firing of a transition with a
  binding.
\<close>

datatype 'u pool_event =
    Claim claim | Acquire "'u lease" | Release "'u lease" | Withdraw string | Abort "'u lease"
  | LeaseExpired string | Admit 'u | RunnerExpired string | MemberClaim "string \<times> string"
  | FireWithdraw string claim | FireRegister "'u lease" | FireRelease string "'u lease" | FireGrant claim 'u
  | FireReap string "'u lease"
  | FirePresenceAcquire 'u | FireReapFree string 'u | FireReapHeld string "'u lease"
  | FirePostOffer claim | FireClaim claim "string \<times> string" 'u

text \<open>The transitions and inboxes a net has, by the source of its capacity.\<close>

fun present_in :: "capacity_source \<Rightarrow> 'u pool_event \<Rightarrow> bool" where
  "present_in src (LeaseExpired _) = (case src of Seeded _ \<Rightarrow> True | Presence _ \<Rightarrow> False)"
| "present_in src (FireReap _ _) = (case src of Seeded _ \<Rightarrow> True | Presence _ \<Rightarrow> False)"
| "present_in src (Abort _) = (case src of Seeded _ \<Rightarrow> False | Presence _ \<Rightarrow> True)"
| "present_in src (Admit _) = (case src of Seeded _ \<Rightarrow> False | Presence _ \<Rightarrow> True)"
| "present_in src (RunnerExpired _) = (case src of Seeded _ \<Rightarrow> False | Presence _ \<Rightarrow> True)"
| "present_in src (FirePresenceAcquire _) = (case src of Seeded _ \<Rightarrow> False | Presence _ \<Rightarrow> True)"
| "present_in src (FireReapFree _ _) = (case src of Seeded _ \<Rightarrow> False | Presence _ \<Rightarrow> True)"
| "present_in src (FireReapHeld _ _) = (case src of Seeded _ \<Rightarrow> False | Presence _ \<Rightarrow> True)"
| "present_in src (FireGrant _ _) = (src \<noteq> Presence Consent)"
| "present_in src (MemberClaim _) = (src = Presence Consent)"
| "present_in src (FirePostOffer _) = (src = Presence Consent)"
| "present_in src (FireClaim _ _ _) = (src = Presence Consent)"
| "present_in src _ = True"

definition in_net :: "('u pool_net \<Rightarrow> 'u pool_net option) \<Rightarrow> 'u pool_system \<Rightarrow> 'u pool_system option" where
  "in_net t s = map_option (\<lambda>n. s\<lparr>ps_net := n\<rparr>) (t (ps_net s))"

fun pool_move ::
  "(claim \<Rightarrow> 'u \<Rightarrow> bool) \<Rightarrow> ('u \<Rightarrow> string) \<Rightarrow> 'u pool_event \<Rightarrow> 'u pool_system \<Rightarrow> 'u pool_system option" where
  "pool_move guard runner_of (Claim c) s = h_claim c s"
| "pool_move guard runner_of (Acquire l) s = h_acquire l s"
| "pool_move guard runner_of (Release l) s = h_release l s"
| "pool_move guard runner_of (Withdraw g) s = h_withdraw g s"
| "pool_move guard runner_of (Abort l) s = h_abort l s"
| "pool_move guard runner_of (LeaseExpired g) s =
    in_net (\<lambda>n. Some (n\<lparr>pn_lease_expired := add_mset g (pn_lease_expired n)\<rparr>)) s"
| "pool_move guard runner_of (Admit u) s =
    in_net (\<lambda>n. Some (n\<lparr>pn_presence_acquire := add_mset u (pn_presence_acquire n)\<rparr>)) s"
| "pool_move guard runner_of (RunnerExpired r) s =
    in_net (\<lambda>n. Some (n\<lparr>pn_presence_expired := add_mset r (pn_presence_expired n)\<rparr>)) s"
| "pool_move guard runner_of (MemberClaim cl) s =
    in_net (\<lambda>n. Some (n\<lparr>pn_presence_claim := add_mset cl (pn_presence_claim n)\<rparr>)) s"
| "pool_move guard runner_of (FireWithdraw w c) s = in_net (t_withdraw w c) s"
| "pool_move guard runner_of (FireRegister l) s = in_net (t_register l) s"
| "pool_move guard runner_of (FireRelease r l) s = in_net (t_release r l) s"
| "pool_move guard runner_of (FireGrant c u) s = in_net (t_grant guard c u) s"
| "pool_move guard runner_of (FireReap e l) s = in_net (t_reap e l) s"
| "pool_move guard runner_of (FirePresenceAcquire u) s = in_net (t_presence_acquire u) s"
| "pool_move guard runner_of (FireReapFree e u) s = in_net (t_reap_free runner_of e u) s"
| "pool_move guard runner_of (FireReapHeld e l) s = in_net (t_reap_held runner_of e l) s"
| "pool_move guard runner_of (FirePostOffer c) s = in_net (t_post_offer c) s"
| "pool_move guard runner_of (FireClaim c cl u) s = in_net (t_claim guard runner_of c cl u) s"

definition pool_step :: "capacity_source \<Rightarrow> (claim \<Rightarrow> 'u \<Rightarrow> bool) \<Rightarrow> ('u \<Rightarrow> string) \<Rightarrow> 'u pool_event \<Rightarrow>
    'u pool_system \<Rightarrow> 'u pool_system option" where
  "pool_step src guard runner_of e s = (if present_in src e then pool_move guard runner_of e s else None)"

fun run_pool :: "capacity_source \<Rightarrow> (claim \<Rightarrow> 'u \<Rightarrow> bool) \<Rightarrow> ('u \<Rightarrow> string) \<Rightarrow> 'u pool_event list \<Rightarrow>
    'u pool_system \<Rightarrow> 'u pool_system option" where
  "run_pool src guard runner_of [] s = Some s"
| "run_pool src guard runner_of (e # es) s = (case pool_step src guard runner_of e s of
      Some s' \<Rightarrow> run_pool src guard runner_of es s' | None \<Rightarrow> None)"

definition seed_units :: "nat \<Rightarrow> string list" where
  "seed_units n = map (\<lambda>i. ''unit-'' @ show_nat i) [0..<n]"

definition build_token_pool_net :: "nat \<Rightarrow> string pool_net" where
  "build_token_pool_net n = empty_net\<lparr>pn_pool := mset (seed_units n)\<rparr>"

definition with_net :: "'u pool_net \<Rightarrow> 'u pool_system" where
  "with_net n = \<lparr>ps_net = n, ps_pending = {#}, ps_held = {#}\<rparr>"

definition run_token_pool :: "nat \<Rightarrow> string pool_event list \<Rightarrow> string pool_system option" where
  "run_token_pool n es = run_pool (Seeded n) (\<lambda>_ _. True) (\<lambda>_. []) es (with_net (build_token_pool_net n))"

definition run_presence_pool :: "acceptance \<Rightarrow> presence_unit pool_event list \<Rightarrow> presence_unit pool_system option" where
  "run_presence_pool a es = run_pool (Presence a) presence_guard pu_runner_id es (with_net empty_net)"

section \<open>Accounts\<close>

definition units :: "'u pool_system \<Rightarrow> 'u multiset" where
  "units s = pn_pool (ps_net s) + image_mset snd (pn_grant_outbox (ps_net s)) +
    image_mset snd (pn_register_inbox (ps_net s)) + image_mset snd (pn_in_use (ps_net s))"

text \<open>Units that left the pool, by the records of the reaping transitions.\<close>

fun reaped_unit :: "'u done_record \<Rightarrow> 'u multiset" where
  "reaped_unit (_, Some u, ReapedFree) = {#u#}"
| "reaped_unit (_, Some u, ReapedHeld) = {#u#}"
| "reaped_unit _ = {#}"

definition reaped :: "'u pool_system \<Rightarrow> 'u multiset" where
  "reaped s = \<Sum>\<^sub># (image_mset reaped_unit (pn_done (ps_net s)))"

fun admitted :: "'u pool_event \<Rightarrow> 'u list" where
  "admitted (Admit u) = [u]"
| "admitted _ = []"

fun claimed :: "'u pool_event \<Rightarrow> claim list" where
  "claimed (Claim c) = [c]"
| "claimed _ = []"

fun signalled :: "'u pool_event \<Rightarrow> string list" where
  "signalled (RunnerExpired r) = [r]"
| "signalled _ = []"

text \<open>All units that were ever admitted: on their way in, in circulation, or reaped.\<close>

definition balance :: "'u pool_system \<Rightarrow> 'u multiset" where
  "balance s = pn_presence_acquire (ps_net s) + units s + reaped s"

lemmas transition_defs = t_withdraw_def t_register_def t_grant_def t_release_def t_reap_def
  t_presence_acquire_def t_reap_free_def t_reap_held_def t_post_offer_def t_claim_def

lemmas holder_defs = h_claim_def h_acquire_def h_release_def h_withdraw_def h_abort_def in_net_def

lemma balance_move:
  "pool_move guard runner_of e s = Some s' \<Longrightarrow> balance s' = balance s + mset (admitted e)"
  by (cases e) (auto simp: holder_defs transition_defs balance_def units_def reaped_def
      dest!: multi_member_split split: if_splits)

text \<open>Grant identifiers that are under way: claimed, offered, granted, registered, held or lost.\<close>

definition alive :: "'u pool_system \<Rightarrow> string multiset" where
  "alive s = image_mset cl_grant_id (pn_claim_inbox (ps_net s) + pn_offers (ps_net s)) +
    image_mset fst (pn_grant_outbox (ps_net s) + pn_register_inbox (ps_net s) + pn_in_use (ps_net s) +
      pn_fail_outbox (ps_net s))"

lemma alive_move:
  "pool_move guard runner_of e s = Some s' \<Longrightarrow> alive s' \<subseteq># alive s + mset (map cl_grant_id (claimed e))"
  by (cases e) (auto simp: holder_defs transition_defs alive_def
      dest!: multi_member_split split: if_splits)

text \<open>One expiry signal reaps one unit of its runner.\<close>

definition expiries :: "('u \<Rightarrow> string) \<Rightarrow> 'u pool_system \<Rightarrow> string multiset" where
  "expiries runner_of s = image_mset runner_of (reaped s) + pn_presence_expired (ps_net s)"

lemma expiries_move:
  "pool_move guard runner_of e s = Some s' \<Longrightarrow> expiries runner_of s' = expiries runner_of s + mset (signalled e)"
  by (cases e) (auto simp: holder_defs transition_defs expiries_def reaped_def
      dest!: multi_member_split split: if_splits)

text \<open>Every lease answers a claim whose guard its unit passed.\<close>

definition claims :: "'u pool_system \<Rightarrow> claim multiset" where
  "claims s = pn_claim_inbox (ps_net s) + pn_offers (ps_net s)"

definition leases :: "'u pool_system \<Rightarrow> 'u lease multiset" where
  "leases s = pn_grant_outbox (ps_net s) + pn_register_inbox (ps_net s) + pn_in_use (ps_net s) + ps_held s"

fun granted :: "'u pool_event \<Rightarrow> (claim \<times> 'u) list" where
  "granted (FireGrant c u) = [(c, u)]"
| "granted (FireClaim c cl u) = [(c, u)]"
| "granted _ = []"

lemma claims_move:
  "pool_move guard runner_of e s = Some s' \<Longrightarrow> set_mset (claims s') \<subseteq> set_mset (claims s) \<union> set (claimed e)"
  by (cases e) (auto simp: holder_defs transition_defs claims_def dest: in_diffD split: if_splits)

lemma leases_move:
  "pool_move guard runner_of e s = Some s' \<Longrightarrow>
    set_mset (leases s') \<subseteq> set_mset (leases s) \<union> (\<lambda>(c, u). (cl_grant_id c, u)) ` set (granted e)"
  by (cases e) (auto simp: holder_defs transition_defs leases_def dest: in_diffD split: if_splits)

lemma granted_move:
  "pool_move guard runner_of e s = Some s' \<Longrightarrow> (c, u) \<in> set (granted e) \<Longrightarrow> c \<in># claims s \<and> guard c u"
  by (cases e) (auto simp: in_net_def transition_defs claims_def split: if_splits)

definition placed :: "(claim \<Rightarrow> 'u \<Rightarrow> bool) \<Rightarrow> claim set \<Rightarrow> 'u pool_system \<Rightarrow> bool" where
  "placed guard C s \<longleftrightarrow> set_mset (claims s) \<subseteq> C \<and>
    (\<forall>(g, u) \<in># leases s. \<exists>c \<in> C. cl_grant_id c = g \<and> guard c u)"

lemma placed_move:
  assumes move: "pool_move guard runner_of e s = Some s'" and placed: "placed guard C s"
  shows "placed guard (C \<union> set (claimed e)) s'"
proof -
  have "\<exists>c \<in> C. cl_grant_id c = fst l \<and> guard c (snd l)" if l: "l \<in># leases s'" for l
  proof (cases "l \<in># leases s")
    case True
    then show ?thesis using placed unfolding placed_def by (cases l) fastforce
  next
    case False
    then obtain c u where "(c, u) \<in> set (granted e)" "l = (cl_grant_id c, u)"
      using leases_move [OF move] l by fastforce
    then show ?thesis using granted_move [OF move] placed unfolding placed_def by auto
  qed
  then show ?thesis using claims_move [OF move] placed unfolding placed_def by (fastforce split: prod.splits)
qed

text \<open>
  The leases a net knows, in use, on their way in or lost with their runner, are those that are
  held and those whose release is on its way.
\<close>

definition handshake :: "'u pool_system \<Rightarrow> bool" where
  "handshake s \<longleftrightarrow> pn_lease_expired (ps_net s) = {#} \<and>
    (\<exists>R. pn_register_inbox (ps_net s) + pn_in_use (ps_net s) + pn_fail_outbox (ps_net s) = ps_held s + R \<and>
      image_mset fst R = pn_release_inbox (ps_net s))"

lemma handshake_release:
  assumes eq: "L = H + R" and ids: "\<And>g. count (image_mset fst L) g \<le> 1"
    and l: "l \<in># L" and r: "fst l \<in># image_mset fst R"
  shows "l \<in># R"
proof -
  obtain k where k: "k \<in># R" "fst k = fst l" using r by auto
  then have "k \<in># L" using eq by auto
  have "k = l"
  proof (rule ccontr)
    assume "k \<noteq> l"
    then have "{#k, l#} \<subseteq># L" using \<open>k \<in># L\<close> l by (simp add: insert_subset_eq_iff in_diff_count)
    then have "image_mset fst {#k, l#} \<subseteq># image_mset fst L" by (rule image_mset_subseteq_mono)
    then have "count (image_mset fst {#k, l#}) (fst l) \<le> count (image_mset fst L) (fst l)"
      by (rule mset_subset_eq_count)
    then have "2 \<le> count (image_mset fst L) (fst l)" using k(2) by simp
    then show False using ids [of "fst l"] by simp
  qed
  then show ?thesis using k(1) by simp
qed

lemma handshake_move:
  assumes move: "pool_move guard runner_of e s = Some s'" and hs: "handshake s"
    and ids: "\<And>g. count (alive s) g \<le> 1" and "\<And>g. e \<noteq> LeaseExpired g"
  shows "handshake s'"
proof -
  let ?L = "\<lambda>s. pn_register_inbox (ps_net s) + pn_in_use (ps_net s) + pn_fail_outbox (ps_net s)"
  obtain R where R: "?L s = ps_held s + R" "image_mset fst R = pn_release_inbox (ps_net s)"
    and ne: "pn_lease_expired (ps_net s) = {#}" using hs unfolding handshake_def by blast
  have L: "count (image_mset fst (?L s)) g \<le> 1" for g
    using ids [of g] unfolding alive_def by simp
  have rel: "l \<in># R" if "l \<in># pn_in_use (ps_net s)" "fst l \<in># pn_release_inbox (ps_net s)" for l
    by (rule handshake_release [OF R(1) L]) (use that R(2) in auto)
  consider (release) r l where "e = FireRelease r l" | (finish) l where "e = Release l"
    | (other) "\<And>r l. e \<noteq> FireRelease r l" "\<And>l. e \<noteq> Release l" by blast
  then show ?thesis
  proof cases
    case release
    then have l: "l \<in># pn_in_use (ps_net s)" "fst l \<in># pn_release_inbox (ps_net s)" "r = fst l"
      and s': "ps_net s' = (ps_net s)\<lparr>pn_release_inbox := pn_release_inbox (ps_net s) - {#fst l#},
        pn_in_use := pn_in_use (ps_net s) - {#l#}, pn_pool := add_mset (snd l) (pn_pool (ps_net s)),
        pn_done := add_mset (Some (fst l), Some (snd l), Released) (pn_done (ps_net s))\<rparr>" "ps_held s' = ps_held s"
      using move by (auto simp: in_net_def t_release_def split: if_splits)
    obtain R' where R': "R = add_mset l R'" using rel [OF l(1,2)] by (blast dest: multi_member_split)
    obtain U where U: "pn_in_use (ps_net s) = add_mset l U" using l(1) by (blast dest: multi_member_split)
    have "?L s' = ps_held s' + R'" using R(1) R' U s' by simp
    moreover have "image_mset fst R' = pn_release_inbox (ps_net s')" using R(2) [symmetric] R' s' by simp
    ultimately show ?thesis unfolding handshake_def using ne s' by auto
  next
    case finish
    then obtain H where H: "ps_held s = add_mset l H" and s': "ps_held s' = H"
      "ps_net s' = (ps_net s)\<lparr>pn_release_inbox := add_mset (fst l) (pn_release_inbox (ps_net s))\<rparr>"
      using move by (auto simp: h_release_def dest!: multi_member_split split: if_splits)
    have "?L s' = ps_held s' + add_mset l R" using R(1) H s' by simp
    moreover have "image_mset fst (add_mset l R) = pn_release_inbox (ps_net s')" using R(2) s' by simp
    ultimately show ?thesis unfolding handshake_def using ne s' by auto
  next
    case other
    have "?L s' = ps_held s' + R \<and> image_mset fst R = pn_release_inbox (ps_net s') \<and> pn_lease_expired (ps_net s') = {#}"
      using move other assms(4) R ne
      by (cases e) (auto simp: holder_defs transition_defs dest!: multi_member_split split: if_splits)
    then show ?thesis unfolding handshake_def by blast
  qed
qed

section \<open>Whole runs\<close>

definition claims_of :: "'u pool_event list \<Rightarrow> claim list" where
  "claims_of es = concat (map claimed es)"

text \<open>No grant identifier is claimed twice; no lease is expired from outside.\<close>

definition fresh_claims :: "'u pool_event list \<Rightarrow> bool" where
  "fresh_claims es = distinct (map cl_grant_id (claims_of es))"

definition no_expiry :: "'u pool_event list \<Rightarrow> bool" where
  "no_expiry es = list_all (\<lambda>e. case e of LeaseExpired _ \<Rightarrow> False | _ \<Rightarrow> True) es"

lemma run_pool_Cons:
  "run_pool src guard ro (e # es) s = Some s'' \<longleftrightarrow>
    (\<exists>s'. present_in src e \<and> pool_move guard ro e s = Some s' \<and> run_pool src guard ro es s' = Some s'')"
  by (auto simp: pool_step_def split: option.split)

lemma run_balance:
  "run_pool src guard ro es s = Some s' \<Longrightarrow> balance s' = balance s + mset (concat (map admitted es))"
  by (induction es arbitrary: s) (auto simp: run_pool_Cons balance_move simp del: run_pool.simps(2))

lemma run_expiries:
  "run_pool src guard ro es s = Some s' \<Longrightarrow> expiries ro s' = expiries ro s + mset (concat (map signalled es))"
  by (induction es arbitrary: s) (auto simp: run_pool_Cons expiries_move simp del: run_pool.simps(2))

lemma run_placed:
  "run_pool src guard ro es s = Some s' \<Longrightarrow> placed guard C s \<Longrightarrow> placed guard (C \<union> set (claims_of es)) s'"
proof (induction es arbitrary: s C)
  case (Cons e es)
  then obtain s1 where "pool_move guard ro e s = Some s1" "run_pool src guard ro es s1 = Some s'"
    unfolding run_pool_Cons by blast
  then have "placed guard ((C \<union> set (claimed e)) \<union> set (claims_of es)) s'"
    using Cons.IH Cons.prems(2) placed_move by blast
  then show ?case by (simp add: claims_of_def Un_assoc)
qed (simp add: claims_of_def)

lemma run_handshake:
  "run_pool src guard ro es s = Some s' \<Longrightarrow> handshake s \<Longrightarrow> no_expiry es \<Longrightarrow>
    (\<And>g. count (alive s + mset (map cl_grant_id (claims_of es))) g \<le> 1) \<Longrightarrow> handshake s'"
proof (induction es arbitrary: s)
  case (Cons e es)
  then obtain s1 where s1: "pool_move guard ro e s = Some s1" "run_pool src guard ro es s1 = Some s'"
    unfolding run_pool_Cons by blast
  have ids: "count (alive s) g \<le> 1" for g using Cons.prems(4) [of g] by simp
  have "handshake s1"
    by (rule handshake_move [OF s1(1) Cons.prems(2) ids]) (use Cons.prems(3) in \<open>auto simp: no_expiry_def\<close>)
  moreover have "count (alive s1 + mset (map cl_grant_id (claims_of es))) g \<le> 1" for g
  proof -
    have "count (alive s1) g \<le> count (alive s + mset (map cl_grant_id (claimed e))) g"
      by (rule mset_subset_eq_count [OF alive_move [OF s1(1)]])
    then show ?thesis using Cons.prems(4) [of g] by (simp add: claims_of_def)
  qed
  ultimately show ?case using Cons.IH [OF s1(2)] Cons.prems(3) by (simp add: no_expiry_def)
qed simp

lemma count_distinct_le: "distinct xs \<Longrightarrow> count (mset xs) x \<le> 1"
  using distinct_count_atmost_1 [of xs] by (metis le_numeral_extra(4) zero_le)

text \<open>In a seeded net nothing is admitted and nothing leaves.\<close>

lemma units_move_seeded:
  "present_in (Seeded n) e \<Longrightarrow> pool_move guard ro e s = Some s' \<Longrightarrow> units s' = units s"
  by (cases e) (auto simp: holder_defs transition_defs units_def dest!: multi_member_split split: if_splits)

lemma run_units_seeded: "run_pool (Seeded n) guard ro es s = Some s' \<Longrightarrow> units s' = units s"
  by (induction es arbitrary: s) (auto simp: run_pool_Cons units_move_seeded simp del: run_pool.simps(2))

lemma handshake_held:
  assumes "handshake s"
  shows "image_mset snd (ps_held s) \<subseteq># image_mset snd (pn_register_inbox (ps_net s)) +
    image_mset snd (pn_in_use (ps_net s)) + image_mset snd (pn_fail_outbox (ps_net s))"
proof -
  obtain R where "pn_register_inbox (ps_net s) + pn_in_use (ps_net s) + pn_fail_outbox (ps_net s) = ps_held s + R"
    using assms unfolding handshake_def by blast
  then have "ps_held s \<subseteq># pn_register_inbox (ps_net s) + pn_in_use (ps_net s) + pn_fail_outbox (ps_net s)" by simp
  then show ?thesis using image_mset_subseteq_mono by fastforce
qed

lemma with_net_start:
  "handshake (with_net (empty_net\<lparr>pn_pool := P\<rparr>))" "alive (with_net (empty_net\<lparr>pn_pool := P\<rparr>)) = {#}"
  "units (with_net (empty_net\<lparr>pn_pool := P\<rparr>)) = P" "placed guard {} (with_net (empty_net\<lparr>pn_pool := P\<rparr>))"
  "balance (with_net (empty_net\<lparr>pn_pool := P\<rparr>)) = P" "expiries ro (with_net (empty_net\<lparr>pn_pool := P\<rparr>)) = {#}"
  by (simp_all add: handshake_def alive_def units_def placed_def claims_def leases_def balance_def
      expiries_def reaped_def with_net_def empty_net_def)

lemma empty_net_pool: "empty_net\<lparr>pn_pool := {#}\<rparr> = empty_net"
  by (simp add: empty_net_def)

lemma run_fail_seeded:
  "run_pool (Seeded n) guard ro es s = Some s' \<Longrightarrow> pn_fail_outbox (ps_net s) = {#} \<Longrightarrow> pn_fail_outbox (ps_net s') = {#}"
proof (induction es arbitrary: s)
  case (Cons e es)
  then obtain s1 where s1: "present_in (Seeded n) e" "pool_move guard ro e s = Some s1"
      "run_pool (Seeded n) guard ro es s1 = Some s'" unfolding run_pool_Cons by blast
  then have "pn_fail_outbox (ps_net s1) = {#}" using Cons.prems(2)
    by (cases e) (auto simp: holder_defs transition_defs split: if_splits)
  then show ?case using Cons.IH s1(3) by blast
qed simp

text \<open>Holders that were told of their loss lost a reaped unit.\<close>

definition lost_reaped :: "'u pool_system \<Rightarrow> bool" where
  "lost_reaped s \<longleftrightarrow> image_mset snd (pn_fail_outbox (ps_net s)) \<subseteq># reaped s"

lemma subseteq_drop: "add_mset x A \<subseteq># B \<Longrightarrow> A \<subseteq># B"
  by (meson mset_subset_eq_insertD subset_mset.less_imp_le)

lemma subseteq_grow: "A \<subseteq># B \<Longrightarrow> A \<subseteq># add_mset x B"
  by (metis add_mset_add_single mset_subset_eq_add_left subset_mset.order_trans)

lemma subseteq_sum:
  fixes P :: "'a multiset"
  assumes "H \<subseteq># A + B" and "P + Q + A + B = U"
  shows "P + Q + H \<subseteq># U"
proof -
  have "P + Q + H \<subseteq># P + Q + (A + B)" by (rule subset_mset.add_left_mono [OF assms(1)])
  also have "P + Q + (A + B) = U" using assms(2) by (simp only: add.assoc)
  finally show ?thesis .
qed

lemma lost_reaped_move: "pool_move guard ro e s = Some s' \<Longrightarrow> lost_reaped s \<Longrightarrow> lost_reaped s'"
  by (cases e) (auto simp: holder_defs transition_defs lost_reaped_def reaped_def
      intro: subseteq_drop subseteq_grow dest!: multi_member_split split: if_splits)

lemma run_lost_reaped: "run_pool src guard ro es s = Some s' \<Longrightarrow> lost_reaped s \<Longrightarrow> lost_reaped s'"
  by (induction es arbitrary: s) (auto simp: run_pool_Cons simp del: run_pool.simps(2) dest: lost_reaped_move)

text \<open>The names of seeded units are different.\<close>

lemma digits_rev_inj: "digits_rev m = digits_rev n \<Longrightarrow> m = n"
proof (induction m arbitrary: n rule: digits_rev.induct)
  case (1 m)
  have char: "a = b" if "char_of (48 + a) = (char_of (48 + b) :: char)" "a < 10" "b < 10" for a b :: nat
    using arg_cong [OF that(1), of "of_char :: char \<Rightarrow> nat"] that(2,3) by simp
  have m: "digits_rev m = (if m < 10 then [char_of (48 + m)] else char_of (48 + m mod 10) # digits_rev (m div 10))"
    and n: "digits_rev n = (if n < 10 then [char_of (48 + n)] else char_of (48 + n mod 10) # digits_rev (n div 10))"
    by (subst digits_rev.simps, simp)+
  have ne: "digits_rev k \<noteq> []" for k by (subst digits_rev.simps) simp
  show ?case
  proof (cases "m < 10 \<or> n < 10")
    case True
    then show ?thesis using "1.prems" m n ne [of "m div 10"] ne [of "n div 10"] char [of m n] by (auto split: if_splits)
  next
    case False
    then have "m mod 10 = n mod 10" "m div 10 = n div 10"
      using "1.prems" m n char [of "m mod 10" "n mod 10"] "1.IH" by simp_all
    then show ?thesis by (metis div_mult_mod_eq)
  qed
qed

lemma distinct_seed_units: "distinct (seed_units n)"
  unfolding seed_units_def by (auto simp: distinct_map inj_on_def show_nat_def dest: digits_rev_inj)

section \<open>Properties\<close>

text \<open>A net that can fire nothing on its own.\<close>

fun is_fire :: "'u pool_event \<Rightarrow> bool" where
  "is_fire (FireWithdraw _ _) = True"
| "is_fire (FireRegister _) = True"
| "is_fire (FireRelease _ _) = True"
| "is_fire (FireGrant _ _) = True"
| "is_fire (FireReap _ _) = True"
| "is_fire (FirePresenceAcquire _) = True"
| "is_fire (FireReapFree _ _) = True"
| "is_fire (FireReapHeld _ _) = True"
| "is_fire (FirePostOffer _) = True"
| "is_fire (FireClaim _ _ _) = True"
| "is_fire _ = False"

definition quiescent :: "capacity_source \<Rightarrow> (claim \<Rightarrow> 'u \<Rightarrow> bool) \<Rightarrow> ('u \<Rightarrow> string) \<Rightarrow> 'u pool_system \<Rightarrow> bool" where
  "quiescent src guard ro s \<longleftrightarrow> (\<forall>e. is_fire e \<longrightarrow> pool_step src guard ro e s = None)"

lemma quiescent_empty:
  assumes "quiescent src guard ro s"
  shows "pn_register_inbox (ps_net s) = {#}"
    and "l \<in># pn_in_use (ps_net s) \<Longrightarrow> fst l \<notin># pn_release_inbox (ps_net s)"
proof -
  have "l \<notin># pn_register_inbox (ps_net s)" for l
  proof -
    have "pool_step src guard ro (FireRegister l) s = None" using assms unfolding quiescent_def by (metis is_fire.simps(2))
    then show ?thesis by (simp add: pool_step_def in_net_def t_register_def split: if_splits)
  qed
  then show "pn_register_inbox (ps_net s) = {#}" by (metis multiset_nonemptyE)
  have "pool_step src guard ro (FireRelease (fst l) l) s = None" using assms unfolding quiescent_def by (metis is_fire.simps(3))
  then show "l \<in># pn_in_use (ps_net s) \<Longrightarrow> fst l \<notin># pn_release_inbox (ps_net s)"
    by (simp add: pool_step_def in_net_def t_release_def split: if_splits)
qed

lemma token_pool_handshake:
  assumes "run_token_pool n es = Some s" and "fresh_claims es" and "no_expiry es"
  shows "handshake s" and "pn_fail_outbox (ps_net s) = {#}"
proof -
  have run: "run_pool (Seeded n) (\<lambda>_ _. True) (\<lambda>_. []) es (with_net (empty_net\<lparr>pn_pool := mset (seed_units n)\<rparr>)) = Some s"
    using assms(1) by (simp add: run_token_pool_def build_token_pool_net_def)
  have "count (alive (with_net (empty_net\<lparr>pn_pool := mset (seed_units n)\<rparr>)) + mset (map cl_grant_id (claims_of es))) g \<le> 1" for g
    using count_distinct_le [of "map cl_grant_id (claims_of es)"] assms(2) with_net_start(2) [of "mset (seed_units n)"]
    by (simp add: fresh_claims_def)
  then show "handshake s" using run_handshake [OF run with_net_start(1) assms(3)] by blast
  show "pn_fail_outbox (ps_net s) = {#}"
    by (rule run_fail_seeded [OF run]) (simp add: with_net_def empty_net_def)
qed

text \<open>
  A seeded pool keeps its units: whatever claims, grants, registrations, releases,
  withdrawals and expiries happen in whatever order, every unit is free, granted, registered or in
  use, exactly once.
\<close>

theorem token_pool_conserves:
  assumes "run_token_pool n es = Some s"
  shows "pn_pool (ps_net s) + image_mset snd (pn_grant_outbox (ps_net s)) +
    image_mset snd (pn_register_inbox (ps_net s)) + image_mset snd (pn_in_use (ps_net s)) = mset (seed_units n)"
  using run_units_seeded [of n "\<lambda>_ _. True" "\<lambda>_. []" es] with_net_start(3) [of "mset (seed_units n)"] assms
  by (simp add: run_token_pool_def build_token_pool_net_def units_def)



lemma run_presence_no_expiry: "run_pool (Presence a) guard ro es s = Some s' \<Longrightarrow> no_expiry es"
proof (induction es arbitrary: s)
  case (Cons e es)
  then show ?case unfolding run_pool_Cons by (cases e) (auto simp: no_expiry_def)
qed (simp add: no_expiry_def)

lemma presence_pool_bound:
  assumes "run_presence_pool a es = Some s" and "fresh_claims es"
  shows "pn_pool (ps_net s) + image_mset snd (pn_grant_outbox (ps_net s)) + image_mset snd (ps_held s) \<subseteq>#
    mset (concat (map admitted es))"
proof -
  let ?n = "ps_net s"
  have run: "run_pool (Presence a) presence_guard pu_runner_id es (with_net (empty_net\<lparr>pn_pool := {#}\<rparr>)) = Some s"
    using assms(1) by (simp add: run_presence_pool_def empty_net_pool)
  have "count (alive (with_net (empty_net\<lparr>pn_pool := ({#} :: presence_unit multiset)\<rparr>)) + mset (map cl_grant_id (claims_of es))) g \<le> 1" for g
    using count_distinct_le [of "map cl_grant_id (claims_of es)"] assms(2) with_net_start(2) [of "{#} :: presence_unit multiset"]
    by (simp add: fresh_claims_def)
  then have "handshake s"
    using run_handshake [OF run with_net_start(1) run_presence_no_expiry [OF run]] by blast
  then have held: "image_mset snd (ps_held s) \<subseteq># image_mset snd (pn_register_inbox ?n) + image_mset snd (pn_in_use ?n) +
      image_mset snd (pn_fail_outbox ?n)" by (rule handshake_held)
  have "lost_reaped s" by (rule run_lost_reaped [OF run]) (simp add: lost_reaped_def with_net_def empty_net_def)
  then have "image_mset snd (pn_register_inbox ?n) + image_mset snd (pn_in_use ?n) + image_mset snd (pn_fail_outbox ?n) \<subseteq>#
      image_mset snd (pn_register_inbox ?n) + image_mset snd (pn_in_use ?n) + reaped s"
    unfolding lost_reaped_def by (rule subset_mset.add_left_mono)
  with held have "image_mset snd (ps_held s) \<subseteq># (image_mset snd (pn_register_inbox ?n) + image_mset snd (pn_in_use ?n)) + reaped s"
    by (rule subset_mset.order_trans)
  then have "pn_pool ?n + image_mset snd (pn_grant_outbox ?n) + image_mset snd (ps_held s) \<subseteq># units s + reaped s"
    by (rule subseteq_sum) (simp add: units_def add.assoc)
  also have "units s + reaped s \<subseteq># balance s" unfolding balance_def by (simp add: add.assoc)
  also have "balance s = mset (concat (map admitted es))"
    using run_balance [OF run] with_net_start(5) [of "{#} :: presence_unit multiset"] by simp
  finally show ?thesis .
qed


subsection \<open>Instances\<close>

definition demo_claim :: "string \<Rightarrow> claim" where
  "demo_claim g = \<lparr>cl_grant_id = g, cl_request = Null, cl_requirements = JObject []\<rparr>"

definition demo_unit :: presence_unit where
  "demo_unit = \<lparr>pu_unit_id = ''r#0@7'', pu_runner_id = ''r'', pu_executor_namespace = ''runner-jobs/r'', pu_caps = JObject []\<rparr>"

lemma seed_one: "seed_units (Suc 0) = [''unit-0'']" "seed_units 2 = [''unit-0'', ''unit-1'']"
  by code_simp+

lemmas pool_eval = run_token_pool_def run_presence_pool_def build_token_pool_net_def seed_one with_net_def empty_net_def
  pool_step_def holder_defs transition_defs demo_claim_def

definition demo_round :: "string pool_event list" where
  "demo_round = [Claim (demo_claim ''i:n''), FireGrant (demo_claim ''i:n'') ''unit-0'', Acquire (''i:n'', ''unit-0''),
    FireRegister (''i:n'', ''unit-0''), Release (''i:n'', ''unit-0''), FireRelease ''i:n'' (''i:n'', ''unit-0'')]"

definition demo_rest :: "string pool_system" where
  "demo_rest = with_net (empty_net\<lparr>pn_pool := {#''unit-0''#},
    pn_done := {#(Some ''i:n'', Some ''unit-0'', Released)#}\<rparr>)"

lemma demo_round_runs: "run_token_pool 1 demo_round = Some demo_rest"
  by (simp add: demo_round_def demo_rest_def pool_eval)

lemma demo_round_fresh: "fresh_claims demo_round" "no_expiry demo_round"
  by (simp_all add: fresh_claims_def claims_of_def no_expiry_def demo_round_def)

lemma demo_rest_quiescent: "quiescent (Seeded 1) (\<lambda>_ _. True) (\<lambda>_. []) demo_rest"
  unfolding quiescent_def
proof (intro allI impI)
  fix e :: "string pool_event" assume "is_fire e"
  then show "pool_step (Seeded 1) (\<lambda>_ _. True) (\<lambda>_. []) e demo_rest = None"
    by (cases e) (simp_all add: demo_rest_def pool_eval)
qed

theorem token_pool_conserves_witness:
  "pn_pool (ps_net demo_rest) + image_mset snd (pn_grant_outbox (ps_net demo_rest)) +
    image_mset snd (pn_register_inbox (ps_net demo_rest)) + image_mset snd (pn_in_use (ps_net demo_rest)) = mset (seed_units 1)"
  by (rule token_pool_conserves [OF demo_round_runs])



definition demo_reap :: "presence_unit pool_event list" where
  "demo_reap = [Admit demo_unit, FirePresenceAcquire demo_unit, Claim (demo_claim ''i:n''),
    FireGrant (demo_claim ''i:n'') demo_unit, Acquire (''i:n'', demo_unit), FireRegister (''i:n'', demo_unit),
    RunnerExpired ''r'', FireReapHeld ''r'' (''i:n'', demo_unit)]"

definition demo_lost :: "presence_unit pool_system" where
  "demo_lost = (with_net (empty_net\<lparr>pn_fail_outbox := {#(''i:n'', demo_unit)#},
    pn_done := {#(Some ''i:n'', Some demo_unit, ReapedHeld)#}\<rparr>))\<lparr>ps_held := {#(''i:n'', demo_unit)#}\<rparr>"

lemma demo_reap_runs: "run_presence_pool Auto demo_reap = Some demo_lost"
  by (simp add: demo_reap_def demo_lost_def pool_eval presence_guard_def demo_unit_def satisfies_impl_def)


subsection \<open>Shared identifiers and withdrawn claims\<close>

text \<open>
  Two runs of one step in the same instance share their grant identifier, as the items of a map
  do: the release of one then returns the unit the other still works with, which is granted again.
\<close>

theorem shared_grant_id_doubles_unit:
  "\<exists>es s. run_token_pool 2 es = Some s \<and> no_expiry es \<and>
    ''unit-1'' \<in># image_mset snd (ps_held s) \<and> (''j:n'', ''unit-1'') \<in># pn_grant_outbox (ps_net s)"
proof (intro exI conjI)
  let ?c = "demo_claim ''i:n''"
  let ?es = "[Claim ?c, Claim ?c, FireGrant ?c ''unit-0'', FireGrant ?c ''unit-1'',
    Acquire (''i:n'', ''unit-0''), Acquire (''i:n'', ''unit-1''),
    FireRegister (''i:n'', ''unit-0''), FireRegister (''i:n'', ''unit-1''),
    Release (''i:n'', ''unit-0''), FireRelease ''i:n'' (''i:n'', ''unit-1''),
    Claim (demo_claim ''j:n''), FireGrant (demo_claim ''j:n'') ''unit-1'']"
  let ?s = "(with_net (empty_net\<lparr>pn_grant_outbox := {#(''j:n'', ''unit-1'')#}, pn_in_use := {#(''i:n'', ''unit-0'')#},
    pn_done := {#(Some ''i:n'', Some ''unit-1'', Released)#}\<rparr>))\<lparr>ps_held := {#(''i:n'', ''unit-1'')#}, ps_pending := {#''j:n''#}\<rparr>"
  show "run_token_pool 2 ?es = Some ?s" by (simp add: pool_eval)
  show "no_expiry ?es" by (simp add: no_expiry_def)
  show "''unit-1'' \<in># image_mset snd (ps_held ?s)" "(''j:n'', ''unit-1'') \<in># pn_grant_outbox (ps_net ?s)"
    by (simp_all add: with_net_def)
qed

text \<open>
  A claim withdrawn while its grant is under way takes the unit with it: nobody waits for the
  grant or holds the unit, the net is at rest, and the pool is empty.
\<close>

theorem withdraw_race_strands_unit:
  "\<exists>es s. run_token_pool 1 es = Some s \<and> fresh_claims es \<and> no_expiry es \<and>
    quiescent (Seeded 1) (\<lambda>_ _. True) (\<lambda>_. []) s \<and> ps_pending s = {#} \<and> ps_held s = {#} \<and> pn_pool (ps_net s) = {#}"
proof (intro exI conjI)
  let ?c = "demo_claim ''i:n''"
  let ?es = "[Claim ?c, FireGrant ?c ''unit-0'', Withdraw ''i:n'']"
  let ?s = "with_net (empty_net\<lparr>pn_grant_outbox := {#(''i:n'', ''unit-0'')#}, pn_withdraw_inbox := {#''i:n''#}\<rparr>) :: string pool_system"
  show "run_token_pool 1 ?es = Some ?s" by (simp add: pool_eval)
  show "fresh_claims ?es" "no_expiry ?es" by (simp_all add: fresh_claims_def claims_of_def no_expiry_def)
  show "quiescent (Seeded 1) (\<lambda>_ _. True) (\<lambda>_. []) ?s" unfolding quiescent_def
  proof (intro allI impI)
    fix e :: "string pool_event" assume "is_fire e"
    then show "pool_step (Seeded 1) (\<lambda>_ _. True) (\<lambda>_. []) e ?s = None"
      by (cases e) (simp_all add: pool_eval)
  qed
qed (simp_all add: with_net_def empty_net_def)

text \<open>
  Where members choose, a claim is parked as an offer at once, and a withdrawal does not find it
  there: the offer of a claimant that is gone stays, and a member who takes it loses a unit.
\<close>

theorem withdraw_misses_offer:
  "\<exists>es s. run_presence_pool Consent es = Some s \<and> fresh_claims es \<and> ps_pending s = {#} \<and> ps_held s = {#} \<and>
    (''i:n'', demo_unit) \<in># pn_grant_outbox (ps_net s) \<and> pn_pool (ps_net s) = {#}"
proof (intro exI conjI)
  let ?c = "demo_claim ''i:n''"
  let ?es = "[Claim ?c, FirePostOffer ?c, Withdraw ''i:n'', Admit demo_unit, FirePresenceAcquire demo_unit,
    MemberClaim (''i:n'', ''r''), FireClaim ?c (''i:n'', ''r'') demo_unit]"
  let ?s = "with_net (empty_net\<lparr>pn_grant_outbox := {#(''i:n'', demo_unit)#}, pn_withdraw_inbox := {#''i:n''#}\<rparr>) :: presence_unit pool_system"
  show "run_presence_pool Consent ?es = Some ?s"
    by (simp add: pool_eval demo_unit_def presence_guard_def satisfies_impl_def)
  show "fresh_claims ?es" by (simp add: fresh_claims_def claims_of_def)
qed (simp_all add: with_net_def empty_net_def)

end
