(* ===== verification/Presence.thy ===== *)
theory Presence
  imports Pool_Net
begin

text \<open>
  The presence controller, \<^verbatim>\<open>src/service/src/presence\<close>: the substrate shared by its adapters
  (\<^verbatim>\<open>core.rs\<close>) and the adapter for runners (\<^verbatim>\<open>runners.rs\<close>), which admits the slots of a runner to
  its pool while it sends heartbeats and expires them when it falls silent. The handler of a
  heartbeat is cut where it waits for the engine. The lemmas state what each step injects, and
  the composition with the pool net shows when a runner gets the slots it asked for and when it
  gets too many, keeps them after it is gone, or loses them while it is there.
\<close>

section \<open>The shared substrate\<close>

text \<open>Seconds from the environment: not set, or a text and the number it parses to.\<close>

definition env_ttl_secs :: "(string \<times> nat option) option \<Rightarrow> nat \<Rightarrow> nat" where
  "env_ttl_secs var default_secs = (case var of
      Some (_, Some n) \<Rightarrow> if n > 0 then n else default_secs
    | _ \<Rightarrow> default_secs)"

fun split_dots :: "string \<Rightarrow> string list" where
  "split_dots [] = [[]]"
| "split_dots (c # s) = (if c = CHR ''.'' then [] # split_dots s
    else (case split_dots s of p # ps \<Rightarrow> (c # p) # ps | [] \<Rightarrow> [[c]]))"

definition uuid_from_subject :: "(string \<Rightarrow> 'i option) \<Rightarrow> string \<Rightarrow> string \<Rightarrow> string \<Rightarrow> 'i option" where
  "uuid_from_subject parse_uuid subject prefix suffix = (case split_dots subject of
      [p, i, x] \<Rightarrow> if p \<noteq> prefix \<or> x \<noteq> suffix then None else parse_uuid i
    | _ \<Rightarrow> None)"

record pool_injection =
  pi_source_net_id :: string
  pi_source_place_name :: string
  pi_token_color :: json
  pi_signal_key :: string
  pi_dedup_id :: string

definition bridge_envelope :: "pool_injection \<Rightarrow> string \<Rightarrow> json" where
  "bridge_envelope pinj timestamp = JObject [(''dedup_id'', JString (pi_dedup_id pinj)),
    (''signal_key'', JString (pi_signal_key pinj)), (''source_net_id'', JString (pi_source_net_id pinj)),
    (''source_place_name'', JString (pi_source_place_name pinj)), (''timestamp'', JString timestamp),
    (''token_color'', pi_token_color pinj)]"

record pool_signal =
  sg_source :: string
  sg_signal_key :: string
  sg_payload :: json

definition signal_envelope :: "pool_signal \<Rightarrow> string \<Rightarrow> json" where
  "signal_envelope sig timestamp = JObject [(''payload'', sg_payload sig), (''signal_key'', JString (sg_signal_key sig)),
    (''source'', JString (sg_source sig)), (''timestamp'', JString timestamp)]"

definition bridge_subject :: "string \<Rightarrow> string \<Rightarrow> string \<Rightarrow> string" where
  "bridge_subject workspace net inbox = ''petri.'' @ workspace @ ''.'' @ net @ ''.bridge.'' @ inbox"

definition signal_subject :: "string \<Rightarrow> string \<Rightarrow> string \<Rightarrow> string" where
  "signal_subject workspace net signal = ''petri.'' @ workspace @ ''.'' @ net @ ''.signal.'' @ signal"

definition claim_injection :: "string \<Rightarrow> string \<Rightarrow> pool_injection" where
  "claim_injection grant_id runner_id = \<lparr>pi_source_net_id = ''mekhan-presence-controller'',
    pi_source_place_name = ''presence_claim'',
    pi_token_color = JObject [(''grant_id'', JString grant_id), (''runner_id'', JString runner_id)],
    pi_signal_key = ''presence-claim-'' @ grant_id @ ''-'' @ runner_id,
    pi_dedup_id = ''presence-claim:'' @ grant_id\<rparr>"

text \<open>The new slots of an entry that grows, as a half-open range.\<close>

definition grow_slots :: "bool \<Rightarrow> nat \<Rightarrow> nat \<Rightarrow> (nat \<times> nat) option" where
  "grow_slots pool_less applied wire = (if pool_less \<or> wire \<le> applied then None else Some (applied, wire))"

record expired_slots =
  ex_reap_key :: string
  ex_workspace :: string
  ex_pool_net_id :: string
  ex_slots :: nat

text \<open>One round of the sweep: the critical section that flips and collects what is due.\<close>

fun sweep_round :: "('e \<Rightarrow> nat \<Rightarrow> bool) \<Rightarrow> ('k \<Rightarrow> 'e \<Rightarrow> 'e \<times> expired_slots) \<Rightarrow> nat \<Rightarrow> ('k, 'e) hashmap \<Rightarrow>
    ('k, 'e) hashmap \<times> expired_slots list" where
  "sweep_round should_sweep expire_entry now [] = ([], [])"
| "sweep_round should_sweep expire_entry now ((k, e) # m) =
    (let (m', out) = sweep_round should_sweep expire_entry now m in
     if should_sweep e now then ((k, fst (expire_entry k e)) # m', snd (expire_entry k e) # out)
     else ((k, e) # m', out))"

section \<open>Runners\<close>

definition DEFAULT_PRESENCE_TTL_SECS :: nat where "DEFAULT_PRESENCE_TTL_SECS = 30"
definition MAX_RUNNER_CONCURRENCY :: nat where "MAX_RUNNER_CONCURRENCY = 256"

record 'h presence_entry =
  pe_last_seen :: nat
  pe_concurrency :: nat
  pe_pool_net_id :: string
  pe_pool_workspace :: string
  pe_pool_alias :: "string option"
  pe_backends :: "string list"
  pe_host :: "'h option"
  pe_present :: bool

type_synonym 'h presence_map = "(string, 'h presence_entry) hashmap"

record 'h runner_snapshot =
  sn_runner_id :: string
  sn_present :: bool
  sn_last_seen_ms_ago :: nat
  sn_backends :: "string list"
  sn_host :: "'h option"

definition presence_snapshot :: "nat \<Rightarrow> 'h presence_map \<Rightarrow> 'h runner_snapshot list" where
  "presence_snapshot now m = map (\<lambda>(k, e). \<lparr>sn_runner_id = k, sn_present = pe_present e,
    sn_last_seen_ms_ago = now - pe_last_seen e, sn_backends = pe_backends e, sn_host = pe_host e\<rparr>) m"

definition pool_covers :: "string \<Rightarrow> string \<Rightarrow> 'h presence_map \<Rightarrow> bool" where
  "pool_covers alias wire m = list_ex (\<lambda>(k, e). pe_present e \<and> pe_pool_alias e = Some alias \<and> wire \<in> set (pe_backends e)) m"

definition pool_membership :: "'h presence_map \<Rightarrow> (string \<times> string) list" where
  "pool_membership m = concat (map (\<lambda>(k, e). if \<not> pe_present e then []
    else (case pe_pool_alias e of Some a \<Rightarrow> [(k, a)] | None \<Rightarrow> [])) m)"

definition rearm_pool :: "string \<Rightarrow> 'h presence_map \<Rightarrow> 'h presence_map \<times> nat" where
  "rearm_pool net m =
    (map (\<lambda>(k, e). (k, if pe_present e \<and> pe_pool_net_id e = net then e\<lparr>pe_present := False\<rparr> else e)) m,
     length (filter (\<lambda>(k, e). pe_present e \<and> pe_pool_net_id e = net) m))"

text \<open>The database: rows of runners and pools by workspace and alias.\<close>

record runner_row =
  rr_workspace_id :: string
  rr_group :: "string option"
  rr_capabilities :: json
  rr_revoked :: bool

record runner_db =
  db_runner :: "string \<Rightarrow> runner_row option"
  db_capacity :: "string \<Rightarrow> string \<Rightarrow> string option"

definition load_live_runner :: "runner_db \<Rightarrow> string \<Rightarrow> runner_row option" where
  "load_live_runner db rid = (case db_runner db rid of
      Some row \<Rightarrow> if rr_revoked row then None else Some row | None \<Rightarrow> None)"

definition pool_net_id :: "string \<Rightarrow> string" where
  "pool_net_id resource_id = ''pool-'' @ resource_id"

definition resolve_pool_net_id :: "runner_db \<Rightarrow> runner_row \<Rightarrow> string option" where
  "resolve_pool_net_id db row = (case rr_group row of
      None \<Rightarrow> None
    | Some alias \<Rightarrow> map_option pool_net_id (db_capacity db (rr_workspace_id row) alias))"

text \<open>The heartbeat's payload, when it parses; the concurrency is clamped.\<close>

record 'h presence_payload =
  pp_backends :: "string list"
  pp_concurrency :: "nat option"
  pp_host :: "'h option"

definition parse_presence :: "'h presence_payload option \<Rightarrow> string list \<times> nat \<times> 'h option" where
  "parse_presence p = (case p of
      Some p \<Rightarrow> (pp_backends p, min (case pp_concurrency p of Some c \<Rightarrow> if c > 0 then c else 1 | None \<Rightarrow> 1)
        MAX_RUNNER_CONCURRENCY, pp_host p)
    | None \<Rightarrow> ([], 1, None))"

definition show_int :: "int \<Rightarrow> string" where
  "show_int i = (if i < 0 then ''-'' @ show_nat (nat (- i)) else show_nat (nat i))"

definition unit_id_of :: "string \<Rightarrow> nat \<Rightarrow> int \<Rightarrow> string" where
  "unit_id_of runner_id slot epoch = runner_id @ ''#'' @ show_nat slot @ ''@'' @ show_int epoch"

definition acquire_injection :: "string \<Rightarrow> nat \<Rightarrow> int \<Rightarrow> string \<Rightarrow> json \<Rightarrow> pool_injection" where
  "acquire_injection runner_id slot epoch executor_namespace caps =
    (let unit_id = unit_id_of runner_id slot epoch in
     \<lparr>pi_source_net_id = ''mekhan-presence-controller'', pi_source_place_name = ''presence'',
      pi_token_color = JObject [(''caps'', caps), (''executor_namespace'', JString executor_namespace),
        (''runner_id'', JString runner_id), (''unit_id'', JString unit_id)],
      pi_signal_key = ''presence-acquire-'' @ unit_id, pi_dedup_id = ''presence-acquire:'' @ unit_id\<rparr>)"

definition expire_signal :: "string \<Rightarrow> int \<Rightarrow> pool_signal" where
  "expire_signal runner_id now_ms = \<lparr>sg_source = ''presence'',
    sg_signal_key = ''presence-expire-'' @ runner_id @ ''-'' @ show_int now_ms,
    sg_payload = JObject [(''runner_id'', JString runner_id)]\<rparr>"

text \<open>Units of a runner in a marking, as JSON; indexing what is not there gives null.\<close>

definition jindex :: "string \<Rightarrow> json \<Rightarrow> json" where
  "jindex k v = (case jget k v of Some w \<Rightarrow> w | None \<Rightarrow> Null)"

definition count_units_in_marking :: "json \<Rightarrow> string \<Rightarrow> nat" where
  "count_units_in_marking marking runner_id =
    sum_list (map (\<lambda>place. (case jindex place (jindex ''tokens'' marking) of
        JArray ts \<Rightarrow> length (filter (\<lambda>t. jindex ''runner_id'' (jindex ''value'' (jindex ''color'' t)) =
          JString runner_id) ts)
      | _ \<Rightarrow> 0)) [''pool'', ''in_use''])"

definition slots_to_reconcile :: "nat \<Rightarrow> nat \<Rightarrow> nat" where
  "slots_to_reconcile existing target_c = (case grow_slots False existing target_c of
      Some (a, b) \<Rightarrow> b - a | None \<Rightarrow> 0)"

subsection \<open>The controller\<close>

text \<open>
  The handler of a heartbeat waits for the engine in two places, to top up an entry that is
  present and to admit one that is not. Until the answer is there, the task holds what it copied.
\<close>

datatype 'h presence_task =
    Reconcile (tk_runner: string) (tk_net: string) (tk_workspace: string) (tk_concurrency: nat)
  | Admitting (tk_runner: string) (tk_net: string) (tk_row: runner_row) (tk_backends: "string list")
      (tk_concurrency: nat) (tk_host: "'h option")

record 'h controller =
  ct_map :: "'h presence_map"
  ct_fleet :: "(string, string list \<times> nat \<times> nat) hashmap"
  ct_task :: "'h presence_task option"

text \<open>What leaves the controller: a token for a pool's inbox, or an expiry signal.\<close>

datatype emission =
    Inject (em_workspace: string) (em_net: string) (em_injection: pool_injection)
  | Expired (em_workspace: string) (em_net: string) (em_runner: string)

definition upsert_runner :: "nat \<Rightarrow> string \<Rightarrow> string list \<Rightarrow> nat \<Rightarrow> 'h controller \<Rightarrow> 'h controller" where
  "upsert_runner now rid backends c ct = ct\<lparr>ct_fleet := hm_insert rid (backends, c, now) (ct_fleet ct)\<rparr>"

definition drop_runner :: "string \<Rightarrow> 'h controller \<Rightarrow> 'h controller" where
  "drop_runner rid ct = ct\<lparr>ct_fleet := AList.delete rid (ct_fleet ct)\<rparr>"

text \<open>The edge from absent to present, up to the question to the engine.\<close>

definition admit_edge :: "runner_db \<Rightarrow> nat \<Rightarrow> string \<Rightarrow> string list \<Rightarrow> nat \<Rightarrow> 'h option \<Rightarrow> 'h controller \<Rightarrow> 'h controller" where
  "admit_edge db now rid backends c host ct = (case load_live_runner db rid of
      None \<Rightarrow> ct
    | Some row \<Rightarrow>
        (case resolve_pool_net_id db row of
           None \<Rightarrow> ct\<lparr>ct_map := hm_insert rid \<lparr>pe_last_seen = now, pe_concurrency = 0, pe_pool_net_id = [],
             pe_pool_workspace = [], pe_pool_alias = rr_group row, pe_backends = backends, pe_host = host,
             pe_present = True\<rparr> (ct_map ct)\<rparr>
         | Some net \<Rightarrow> ct\<lparr>ct_task := Some (Admitting rid net row backends c host)\<rparr>))"

definition handle_presence :: "runner_db \<Rightarrow> nat \<Rightarrow> string \<Rightarrow> string list \<Rightarrow> nat \<Rightarrow> 'h option \<Rightarrow> 'h controller \<Rightarrow> 'h controller" where
  "handle_presence db now rid backends c host ct =
    (let ct = upsert_runner now rid backends c ct in
     case hm_get (ct_map ct) rid of
       None \<Rightarrow> admit_edge db now rid backends c host ct
     | Some e \<Rightarrow>
         let e = e\<lparr>pe_last_seen := now, pe_backends := backends, pe_host := host\<rparr> in
         if pe_present e then
           ct\<lparr>ct_map := hm_insert rid (e\<lparr>pe_concurrency := c\<rparr>) (ct_map ct),
             ct_task := (if pe_pool_net_id e = [] then None
               else Some (Reconcile rid (pe_pool_net_id e) (pe_pool_workspace e) c))\<rparr>
         else admit_edge db now rid backends c host (ct\<lparr>ct_map := hm_insert rid e (ct_map ct)\<rparr>))"

definition executor_namespace_of :: "string \<Rightarrow> string" where
  "executor_namespace_of rid = ''runner-jobs/'' @ rid"

definition acquire_slots :: "string \<Rightarrow> string \<Rightarrow> string \<Rightarrow> nat \<Rightarrow> int \<Rightarrow> json \<Rightarrow> emission list" where
  "acquire_slots ws net rid need epoch caps =
    map (\<lambda>slot. Inject ws net (acquire_injection rid slot epoch (executor_namespace_of rid) caps)) [0..<need]"

text \<open>The engine answered with a count of units, or failed.\<close>

definition engine_counted ::
  "runner_db \<Rightarrow> nat \<Rightarrow> int \<Rightarrow> nat option \<Rightarrow> 'h controller \<Rightarrow> 'h controller \<times> emission list" where
  "engine_counted db now epoch counted ct = (case ct_task ct of
      None \<Rightarrow> (ct, [])
    | Some (Reconcile rid net ws c) \<Rightarrow>
        let need = slots_to_reconcile (case counted of Some n \<Rightarrow> n | None \<Rightarrow> c) c in
        (ct\<lparr>ct_task := None\<rparr>,
         if need > 0 then
           (case load_live_runner db rid of
              Some row \<Rightarrow> acquire_slots ws net rid need epoch (rr_capabilities row)
            | None \<Rightarrow> [])
         else [])
    | Some (Admitting rid net row backends c host) \<Rightarrow>
        let need = slots_to_reconcile (case counted of Some n \<Rightarrow> n | None \<Rightarrow> c) c in
        (ct\<lparr>ct_task := None, ct_map := hm_insert rid \<lparr>pe_last_seen = now, pe_concurrency = c, pe_pool_net_id = net,
           pe_pool_workspace = rr_workspace_id row, pe_pool_alias = rr_group row, pe_backends = backends,
           pe_host = host, pe_present = True\<rparr> (ct_map ct)\<rparr>,
         acquire_slots (rr_workspace_id row) net rid need epoch (rr_capabilities row)))"

text \<open>The sweep of runners: silence longer than the time to live.\<close>

definition runner_due :: "nat \<Rightarrow> 'h presence_entry \<Rightarrow> nat \<Rightarrow> bool" where
  "runner_due ttl e now = (pe_present e \<and> now - pe_last_seen e > ttl)"

definition expire_runner :: "string \<Rightarrow> 'h presence_entry \<Rightarrow> 'h presence_entry \<times> expired_slots" where
  "expire_runner rid e = (e\<lparr>pe_present := False, pe_concurrency := 0\<rparr>,
    \<lparr>ex_reap_key = rid, ex_workspace = pe_pool_workspace e, ex_pool_net_id = pe_pool_net_id e,
     ex_slots = pe_concurrency e\<rparr>)"

definition on_expire :: "expired_slots \<Rightarrow> emission list" where
  "on_expire x = (if ex_pool_net_id x = [] then []
    else replicate (ex_slots x) (Expired (ex_workspace x) (ex_pool_net_id x) (ex_reap_key x)))"

definition presence_sweep :: "nat \<Rightarrow> nat \<Rightarrow> 'h controller \<Rightarrow> 'h controller \<times> emission list" where
  "presence_sweep ttl now ct =
    (let (m, out) = sweep_round (runner_due ttl) expire_runner now (ct_map ct) in
     (fold (\<lambda>x. drop_runner (ex_reap_key x)) out (ct\<lparr>ct_map := m\<rparr>), concat (map on_expire out)))"

section \<open>What the sweep does\<close>

text \<open>
  A sweep over entries of any kind: expiring an entry takes it out of the sweep's reach, so an
  entry is expired once per episode of presence.
\<close>

locale sweeper =
  fixes should_sweep :: "'e \<Rightarrow> nat \<Rightarrow> bool"
    and expire_entry :: "string \<Rightarrow> 'e \<Rightarrow> 'e \<times> expired_slots"
  assumes expired_not_due: "\<not> should_sweep (fst (expire_entry k e)) now"
begin

abbreviation sweep :: "nat \<Rightarrow> (string, 'e) hashmap \<Rightarrow> (string, 'e) hashmap \<times> expired_slots list" where
  "sweep \<equiv> sweep_round should_sweep expire_entry"

lemma sweep_map:
  "fst (sweep now m) = map (\<lambda>(k, e). (k, if should_sweep e now then fst (expire_entry k e) else e)) m"
  by (induction m) (auto split: prod.split)

lemma sweep_out:
  "snd (sweep now m) = map (\<lambda>(k, e). snd (expire_entry k e)) (filter (\<lambda>(k, e). should_sweep e now) m)"
  by (induction m) (auto split: prod.split)

lemma sweep_keys: "map fst (fst (sweep now m)) = map fst m"
  unfolding sweep_map by (induction m) auto

lemma sweep_get:
  "hm_get (fst (sweep now m)) k =
    map_option (\<lambda>e. if should_sweep e now then fst (expire_entry k e) else e) (hm_get m k)"
  unfolding sweep_map by (induction m) auto

lemma sweep_idle: "(\<forall>(k, e) \<in> set m. \<not> should_sweep e now) \<Longrightarrow> sweep now m = (m, [])"
  by (induction m) auto

text \<open>What one round expired, the next leaves alone, as long as nothing else became due.\<close>

lemma sweep_twice: "snd (sweep now (fst (sweep now m))) = []"
  unfolding sweep_out sweep_map using expired_not_due by (induction m) (auto split: if_splits)

end

interpretation rs: sweeper "runner_due ttl" expire_runner
  by unfold_locales (simp add: runner_due_def expire_runner_def)

lemma fold_drop_simps [simp]:
  "ct_map (fold (\<lambda>x. drop_runner (ex_reap_key x)) out c) = ct_map c"
  "ct_task (fold (\<lambda>x. drop_runner (ex_reap_key x)) out c) = ct_task c"
  by (induction out arbitrary: c) (simp_all add: drop_runner_def)

lemma presence_sweep_simps:
  "ct_map (fst (presence_sweep ttl now ct)) = fst (rs.sweep ttl now (ct_map ct))"
  "snd (presence_sweep ttl now ct) = concat (map on_expire (snd (rs.sweep ttl now (ct_map ct))))"
  "ct_task (fst (presence_sweep ttl now ct)) = ct_task ct"
  by (simp_all add: presence_sweep_def split: prod.split)

text \<open>Expiry signals for a runner, counted.\<close>

definition signals_for :: "string \<Rightarrow> emission list \<Rightarrow> nat" where
  "signals_for rid ems = length (filter (\<lambda>e. case e of Expired _ _ r \<Rightarrow> r = rid | Inject _ _ _ \<Rightarrow> False) ems)"

lemma signals_for_append: "signals_for rid (xs @ ys) = signals_for rid xs + signals_for rid ys"
  by (simp add: signals_for_def)

lemma signals_for_concat: "signals_for rid (concat xss) = sum_list (map (signals_for rid) xss)"
  by (induction xss) (simp_all add: signals_for_append, simp add: signals_for_def)

lemma signals_on_expire:
  "signals_for rid (on_expire (snd (expire_runner k e))) =
    (if k = rid \<and> pe_pool_net_id e \<noteq> [] then pe_concurrency e else 0)"
  by (simp add: on_expire_def expire_runner_def signals_for_def)

lemma signals_of_sweep:
  assumes "distinct (map fst m)"
  shows "sum_list (map (\<lambda>(k, e). signals_for rid (on_expire (snd (expire_runner k e)))) (filter (\<lambda>(k, e). due e) m)) =
    (case hm_get m rid of Some e \<Rightarrow> if due e \<and> pe_pool_net_id e \<noteq> [] then pe_concurrency e else 0 | None \<Rightarrow> 0)"
  using assms
proof (induction m)
  case (Cons x m)
  obtain k e where x: "x = (k, e)" by (cases x)
  have "hm_get m rid = None" if "k = rid" using Cons.prems x that by (simp add: map_of_eq_None_iff)
  then show ?case using Cons x by (auto simp: signals_on_expire)
qed simp

text \<open>Identifiers of units: slot and epoch can be read off.\<close>

lemma set_show_nat: "c \<in> set (show_nat n) \<Longrightarrow> 48 \<le> (of_char c :: nat) \<and> (of_char c :: nat) \<le> 57"
proof -
  have "\<forall>c \<in> set (digits_rev n). 48 \<le> (of_char c :: nat) \<and> (of_char c :: nat) \<le> 57"
  proof (induction n rule: digits_rev.induct)
    case (1 n)
    then show ?case by (subst digits_rev.simps) auto
  qed
  then show "c \<in> set (show_nat n) \<Longrightarrow> 48 \<le> (of_char c :: nat) \<and> (of_char c :: nat) \<le> 57"
    by (simp add: show_nat_def)
qed

lemma show_nat_inj: "show_nat m = show_nat n \<Longrightarrow> m = n"
  by (simp add: show_nat_def digits_rev_inj)

lemma show_int_inj: "show_int i = show_int j \<Longrightarrow> i = j"
proof -
  have "CHR ''-'' \<notin> set (show_nat n)" for n using set_show_nat [of _ n] by fastforce
  then have "show_nat m \<noteq> CHR ''-'' # xs" for m xs by (metis list.set_intros(1))
  moreover assume "show_int i = show_int j"
  ultimately show ?thesis by (auto simp: show_int_def dest!: show_nat_inj split: if_splits) (metis)+
qed

lemma unit_id_inj: "unit_id_of rid s i = unit_id_of rid t j \<longleftrightarrow> s = t \<and> i = j"
proof
  assume "unit_id_of rid s i = unit_id_of rid t j"
  then have eq: "show_nat s @ CHR ''@'' # show_int i = show_nat t @ CHR ''@'' # show_int j" by (simp add: unit_id_of_def)
  have at: "CHR ''@'' \<notin> set (show_nat n)" for n using set_show_nat [of _ n] by fastforce
  have "takeWhile (\<lambda>c. c \<noteq> CHR ''@'') (show_nat n @ CHR ''@'' # xs) = show_nat n" for n xs
    using at [of n] by (auto simp: takeWhile_append)
  then have "show_nat s = show_nat t" using eq by metis
  then show "s = t \<and> i = j" using eq show_nat_inj show_int_inj by auto
qed simp

section \<open>Controller and pool\<close>

text \<open>
  A token of the controller becomes a unit of the pool, and a signal an expiry; the count the
  engine answers with is that of free units and holds.
\<close>

definition unit_of_color :: "json \<Rightarrow> presence_unit" where
  "unit_of_color v = \<lparr>pu_unit_id = (case jindex ''unit_id'' v of JString x \<Rightarrow> x | _ \<Rightarrow> []),
    pu_runner_id = (case jindex ''runner_id'' v of JString x \<Rightarrow> x | _ \<Rightarrow> []),
    pu_executor_namespace = (case jindex ''executor_namespace'' v of JString x \<Rightarrow> x | _ \<Rightarrow> []),
    pu_caps = jindex ''caps'' v\<rparr>"

fun delivered :: "emission \<Rightarrow> presence_unit pool_event list" where
  "delivered (Inject ws net i) = [Admit (unit_of_color (pi_token_color i)),
    FirePresenceAcquire (unit_of_color (pi_token_color i))]"
| "delivered (Expired ws net r) = [RunnerExpired r]"

definition runner_units :: "string \<Rightarrow> presence_unit pool_system \<Rightarrow> nat" where
  "runner_units rid s = size (filter_mset (\<lambda>u. pu_runner_id u = rid) (pn_pool (ps_net s))) +
    size (filter_mset (\<lambda>l. pu_runner_id (snd l) = rid) (pn_in_use (ps_net s)))"

lemma unit_of_acquire [simp]:
  "unit_of_color (pi_token_color (acquire_injection rid slot epoch ns caps)) =
    \<lparr>pu_unit_id = unit_id_of rid slot epoch, pu_runner_id = rid, pu_executor_namespace = ns, pu_caps = caps\<rparr>"
  by (simp add: acquire_injection_def unit_of_color_def jindex_def Let_def)

lemma slots_to_reconcile_eq: "slots_to_reconcile existing c = c - existing"
  by (simp add: slots_to_reconcile_def grow_slots_def)

abbreviation run_presence :: "acceptance \<Rightarrow> presence_unit pool_event list \<Rightarrow> presence_unit pool_system \<Rightarrow> presence_unit pool_system option" where
  "run_presence a \<equiv> run_pool (Presence a) presence_guard pu_runner_id"

lemma run_pool_append:
  "run_pool src guard ro (xs @ ys) s = Option.bind (run_pool src guard ro xs s) (run_pool src guard ro ys)"
  by (induction xs arbitrary: s) (auto split: option.split)

text \<open>Delivering the tokens of one round adds that many free units of the runner.\<close>

lemma deliver_slots:
  "\<exists>s'. run_presence a (concat (map delivered (acquire_slots ws net rid n epoch caps))) s = Some s' \<and>
    runner_units rid s' = runner_units rid s + n"
proof (induction n)
  case 0
  then show ?case by (simp add: acquire_slots_def)
next
  case (Suc n)
  then obtain s1 where s1: "run_presence a (concat (map delivered (acquire_slots ws net rid n epoch caps))) s = Some s1"
    "runner_units rid s1 = runner_units rid s + n" by blast
  let ?u = "\<lparr>pu_unit_id = unit_id_of rid n epoch, pu_runner_id = rid, pu_executor_namespace = executor_namespace_of rid, pu_caps = caps\<rparr>"
  let ?s2 = "s1\<lparr>ps_net := (ps_net s1)\<lparr>pn_pool := add_mset ?u (pn_pool (ps_net s1))\<rparr>\<rparr>"
  have "run_presence a [Admit ?u, FirePresenceAcquire ?u] s1 = Some ?s2"
    by (simp add: pool_step_def in_net_def t_presence_acquire_def)
  then have "run_presence a (concat (map delivered (acquire_slots ws net rid (Suc n) epoch caps))) s = Some ?s2"
    using s1(1) by (simp add: acquire_slots_def run_pool_append)
  moreover have "runner_units rid ?s2 = Suc (runner_units rid s1)" by (simp add: runner_units_def)
  ultimately show ?case using s1(2) by (intro exI [of _ ?s2]) simp
qed

text \<open>The tokens of one round name different units.\<close>

lemma acquire_slots_distinct:
  "distinct (map (\<lambda>em. pi_dedup_id (em_injection em)) (acquire_slots ws net rid n epoch caps))"
  by (auto simp: acquire_slots_def distinct_map inj_on_def acquire_injection_def Let_def unit_id_inj)

text \<open>What the controller emits when the engine answers.\<close>

lemma engine_counted_emits:
  assumes "ct_task ct = Some task" and "load_live_runner db (tk_runner task) \<noteq> None"
  shows "\<exists>ws caps. snd (engine_counted db now epoch counted ct) =
    acquire_slots ws (tk_net task) (tk_runner task)
      (slots_to_reconcile (case counted of Some n \<Rightarrow> n | None \<Rightarrow> tk_concurrency task) (tk_concurrency task)) epoch caps"
proof (cases task)
  case (Reconcile rid net ws c)
  obtain row where "load_live_runner db rid = Some row" using assms(2) Reconcile by auto
  then show ?thesis using assms(1) Reconcile
    by (intro exI [of _ ws] exI [of _ "rr_capabilities row"])
      (cases counted; simp add: engine_counted_def Let_def acquire_slots_def)
next
  case (Admitting rid net row backends c host)
  then show ?thesis using assms(1)
    by (intro exI [of _ "rr_workspace_id row"] exI [of _ "rr_capabilities row"])
      (cases counted; simp add: engine_counted_def Let_def)
qed

section \<open>Properties\<close>


definition demo_db :: runner_db where
  "demo_db = \<lparr>db_runner = (\<lambda>i. if i = ''r'' then Some \<lparr>rr_workspace_id = ''w'', rr_group = Some ''lab'',
      rr_capabilities = JObject [], rr_revoked = False\<rparr> else None),
    db_capacity = (\<lambda>ws a. if ws = ''w'' \<and> a = ''lab'' then Some ''7'' else None)\<rparr>"

definition demo_start :: "unit controller" where
  "demo_start = \<lparr>ct_map = [], ct_fleet = [], ct_task = None\<rparr>"

lemma demo_live: "load_live_runner demo_db ''r'' \<noteq> None"
  by (simp add: load_live_runner_def demo_db_def)

lemmas controller_eval = handle_presence_def admit_edge_def engine_counted_def load_live_runner_def resolve_pool_net_id_def
  pool_net_id_def upsert_runner_def demo_db_def demo_start_def slots_to_reconcile_eq acquire_slots_def Let_def


text \<open>
  C27: a sweep expires exactly the runners that were silent for longer than the time to live: their
  entries turn absent and one signal goes out for each slot on record, while a runner heard of in
  time, or absent already, is left as it is; a second sweep at once finds nothing.
\<close>

theorem sweep_expires_silent:
  assumes "distinct (map fst (ct_map ct))"
  shows "hm_get (ct_map (fst (presence_sweep ttl now ct))) rid = map_option (\<lambda>e.
      if pe_present e \<and> now - pe_last_seen e > ttl then e\<lparr>pe_present := False, pe_concurrency := 0\<rparr> else e)
      (hm_get (ct_map ct) rid) \<and>
    signals_for rid (snd (presence_sweep ttl now ct)) = (case hm_get (ct_map ct) rid of
      Some e \<Rightarrow> if pe_present e \<and> now - pe_last_seen e > ttl \<and> pe_pool_net_id e \<noteq> [] then pe_concurrency e else 0
    | None \<Rightarrow> 0) \<and>
    snd (presence_sweep ttl now (fst (presence_sweep ttl now ct))) = []"
proof (intro conjI)
  show "hm_get (ct_map (fst (presence_sweep ttl now ct))) rid = map_option (\<lambda>e.
      if pe_present e \<and> now - pe_last_seen e > ttl then e\<lparr>pe_present := False, pe_concurrency := 0\<rparr> else e)
      (hm_get (ct_map ct) rid)"
    by (cases "hm_get (ct_map ct) rid")
      (simp_all add: presence_sweep_simps rs.sweep_get runner_due_def expire_runner_def)
  have "signals_for rid (snd (presence_sweep ttl now ct)) = sum_list (map (\<lambda>(k, e). signals_for rid
      (on_expire (snd (expire_runner k e)))) (filter (\<lambda>(k, e). runner_due ttl e now) (ct_map ct)))"
    by (simp add: presence_sweep_simps signals_for_concat rs.sweep_out comp_def case_prod_unfold)
  then show "signals_for rid (snd (presence_sweep ttl now ct)) = (case hm_get (ct_map ct) rid of
      Some e \<Rightarrow> if pe_present e \<and> now - pe_last_seen e > ttl \<and> pe_pool_net_id e \<noteq> [] then pe_concurrency e else 0
    | None \<Rightarrow> 0)"
    using signals_of_sweep [OF assms, of rid "\<lambda>e. runner_due ttl e now"]
    by (simp add: runner_due_def split: option.split)
  show "snd (presence_sweep ttl now (fst (presence_sweep ttl now ct))) = []"
    by (simp add: presence_sweep_simps rs.sweep_twice)
qed

definition demo_admitted :: "unit controller" where
  "demo_admitted = fst (engine_counted demo_db 5 7 (Some 0) (handle_presence demo_db 5 ''r'' [''python''] 2 None demo_start))"

theorem sweep_expires_silent_witness:
  "signals_for ''r'' (snd (presence_sweep 30 40 demo_admitted)) = 2"
proof -
  have "distinct (map fst (ct_map demo_admitted))" by (simp add: demo_admitted_def controller_eval)
  from sweep_expires_silent [OF this, of 30 40 "''r''"] show ?thesis
    by (simp add: demo_admitted_def controller_eval)
qed

text \<open>
  Whatever a heartbeat's payload says, one round injects at most 256 tokens.\<close>

theorem heartbeat_bounded:
  assumes "parse_presence payload = (backends, c, host)" and "ct_task ct = None"
  shows "1 \<le> c \<and> c \<le> MAX_RUNNER_CONCURRENCY \<and>
    length (snd (engine_counted db now epoch counted (handle_presence db' now' rid backends c host ct))) \<le> MAX_RUNNER_CONCURRENCY"
proof -
  have c: "1 \<le> c \<and> c \<le> MAX_RUNNER_CONCURRENCY"
    using assms(1) by (auto simp: parse_presence_def MAX_RUNNER_CONCURRENCY_def split: option.splits if_splits)
  let ?ct = "handle_presence db' now' rid backends c host ct"
  have task: "ct_task ?ct = Some task \<Longrightarrow> tk_concurrency task = c" for task
    using assms(2) by (auto simp: handle_presence_def admit_edge_def upsert_runner_def Let_def split: option.splits if_splits)
  have "length (snd (engine_counted db now epoch counted ?ct)) \<le> c"
  proof (cases "ct_task ?ct")
    case (Some task)
    then show ?thesis using task [OF Some]
      by (cases task) (auto simp: engine_counted_def acquire_slots_def slots_to_reconcile_eq Let_def split: option.split)
  qed (simp add: engine_counted_def)
  then show ?thesis using c by simp
qed

section \<open>Where the count and the record fall short\<close>

definition demo_slot :: "nat \<Rightarrow> int \<Rightarrow> presence_unit" where
  "demo_slot slot epoch = \<lparr>pu_unit_id = unit_id_of ''r'' slot epoch, pu_runner_id = ''r'',
    pu_executor_namespace = executor_namespace_of ''r'', pu_caps = JObject []\<rparr>"

text \<open>A heartbeat of the demonstration runner and the engine's answer to it.\<close>

definition heartbeat :: "nat \<Rightarrow> nat \<Rightarrow> nat option \<Rightarrow> unit controller \<Rightarrow> unit controller \<times> emission list" where
  "heartbeat now c counted ct = engine_counted demo_db now (int now) counted (handle_presence demo_db now ''r'' [''python''] c None ct)"

lemma presence_guard_trivial: "presence_guard (demo_claim g) (demo_slot slot epoch)"
  by (simp add: presence_guard_def demo_claim_def demo_slot_def satisfies_impl_def)

lemma demo_slot_inj [simp]: "demo_slot i e = demo_slot j f \<longleftrightarrow> i = j \<and> e = f"
  by (simp add: demo_slot_def unit_id_inj)

lemma demo_slot_runner [simp]: "pu_runner_id (demo_slot i e) = ''r''"
  by (simp add: demo_slot_def)

lemma heartbeat_admits:
  "heartbeat now c (Some n) demo_start =
    (fst (heartbeat now c (Some n) demo_start), acquire_slots ''w'' ''pool-7'' ''r'' (c - n) (int now) (JObject []))"
  "ct_map (fst (heartbeat now c counted demo_start)) = [(''r'', \<lparr>pe_last_seen = now, pe_concurrency = c,
    pe_pool_net_id = ''pool-7'', pe_pool_workspace = ''w'', pe_pool_alias = Some ''lab'', pe_backends = [''python''],
    pe_host = None, pe_present = True\<rparr>)]"
  by (simp_all add: heartbeat_def controller_eval)

lemma heartbeat_again:
  assumes "ct_map ct = [(''r'', \<lparr>pe_last_seen = t, pe_concurrency = c, pe_pool_net_id = ''pool-7'', pe_pool_workspace = ''w'',
    pe_pool_alias = Some ''lab'', pe_backends = [''python''], pe_host = None, pe_present = True\<rparr>)]"
  shows "snd (heartbeat now c' (Some n) ct) = acquire_slots ''w'' ''pool-7'' ''r'' (c' - n) (int now) (JObject [])"
    "ct_map (fst (heartbeat now c' (Some n) ct)) = [(''r'', \<lparr>pe_last_seen = now, pe_concurrency = c', pe_pool_net_id = ''pool-7'',
      pe_pool_workspace = ''w'', pe_pool_alias = Some ''lab'', pe_backends = [''python''], pe_host = None, pe_present = True\<rparr>)]"
  using assms by (simp_all add: heartbeat_def controller_eval)

lemma delivered_slots:
  "concat (map delivered (acquire_slots ws net ''r'' n epoch (JObject []))) =
    concat (map (\<lambda>i. [Admit (demo_slot i epoch), FirePresenceAcquire (demo_slot i epoch)]) [0..<n])"
  by (simp add: acquire_slots_def comp_def demo_slot_def)

text \<open>
  A unit that was granted and is not registered yet is in neither place that is counted, so a
  heartbeat that comes in between admits another: a runner that only ever asked for one slot
  ends up with two leases at once.
\<close>

theorem grant_window_overadmits:
  "\<exists>s1 s2. run_presence Auto (concat (map delivered (snd (heartbeat 5 1 (Some 0) demo_start))) @
      [Claim (demo_claim ''i:n''), FireGrant (demo_claim ''i:n'') (demo_slot 0 5), Acquire (''i:n'', demo_slot 0 5)])
      (with_net empty_net) = Some s1 \<and>
    run_presence Auto (concat (map delivered (snd (heartbeat 10 1 (Some (runner_units ''r'' s1))
        (fst (heartbeat 5 1 (Some 0) demo_start))))) @
      [FireRegister (''i:n'', demo_slot 0 5), Claim (demo_claim ''j:n''), FireGrant (demo_claim ''j:n'') (demo_slot 0 10),
       Acquire (''j:n'', demo_slot 0 10), FireRegister (''j:n'', demo_slot 0 10)]) s1 = Some s2 \<and>
    size (filter_mset (\<lambda>l. pu_runner_id (snd l) = ''r'') (ps_held s2)) = 2"
proof -
  let ?h0 = "(''i:n'', demo_slot 0 5)" and ?h1 = "(''j:n'', demo_slot 0 10)"
  let ?s1 = "(with_net (empty_net\<lparr>pn_register_inbox := {#?h0#}\<rparr>))\<lparr>ps_held := {#?h0#}\<rparr>"
  let ?s2 = "(with_net (empty_net\<lparr>pn_in_use := {#?h0, ?h1#}\<rparr>))\<lparr>ps_held := {#?h0, ?h1#}\<rparr>"
  have g: "presence_guard \<lparr>cl_grant_id = x, cl_request = Null, cl_requirements = JObject []\<rparr> (demo_slot i e)" for x i e
    using presence_guard_trivial [of x i e] by (simp add: demo_claim_def)
  have one: "concat (map delivered (snd (heartbeat 5 1 (Some 0) demo_start))) =
      [Admit (demo_slot 0 5), FirePresenceAcquire (demo_slot 0 5)]"
    using delivered_slots [of "''w''" "''pool-7''" 1 5] by (subst heartbeat_admits(1)) simp
  have zero: "runner_units ''r'' ?s1 = 0" by (simp add: runner_units_def with_net_def empty_net_def)
  have two: "concat (map delivered (snd (heartbeat 10 1 (Some 0) (fst (heartbeat 5 1 (Some 0) demo_start))))) =
      [Admit (demo_slot 0 10), FirePresenceAcquire (demo_slot 0 10)]"
    using delivered_slots [of "''w''" "''pool-7''" 1 10] heartbeat_again(1) [OF heartbeat_admits(2) [of 5 1 "Some 0"], of 10 1 0] by simp
  have r1: "run_presence Auto (concat (map delivered (snd (heartbeat 5 1 (Some 0) demo_start))) @
      [Claim (demo_claim ''i:n''), FireGrant (demo_claim ''i:n'') (demo_slot 0 5), Acquire ?h0]) (with_net empty_net) = Some ?s1"
    unfolding one by (simp add: pool_eval g)
  have r2: "run_presence Auto ([Admit (demo_slot 0 10), FirePresenceAcquire (demo_slot 0 10)] @
      [FireRegister ?h0, Claim (demo_claim ''j:n''), FireGrant (demo_claim ''j:n'') (demo_slot 0 10),
       Acquire ?h1, FireRegister ?h1]) ?s1 = Some ?s2"
    by (simp add: pool_eval g)
  show ?thesis using r1 r2 zero two by (intro exI [of _ ?s1] exI [of _ ?s2]) simp
qed

text \<open>
  A heartbeat that lowers the concurrency overwrites the number of slots on record, though the
  units stay: the sweep then signals too few expiries, and a unit of the absent runner stays free.
\<close>

theorem shrink_leaves_ghost_units:
  "let ct0 = fst (heartbeat 5 2 (Some 0) demo_start); ct1 = fst (heartbeat 10 1 (Some 2) ct0);
       swept = presence_sweep 30 50 ct1 in
    \<exists>s1 s2. run_presence Auto (concat (map delivered (snd (heartbeat 5 2 (Some 0) demo_start)))) (with_net empty_net) = Some s1 \<and>
      runner_units ''r'' s1 = 2 \<and>
      run_presence Auto (concat (map delivered (snd swept)) @ [FireReapFree ''r'' (demo_slot 0 5)]) s1 = Some s2 \<and>
      map_option pe_present (hm_get (ct_map (fst swept)) ''r'') = Some False \<and>
      pn_pool (ps_net s2) = {#demo_slot 1 5#} \<and> pn_presence_expired (ps_net s2) = {#}"
proof -
  let ?ct0 = "fst (heartbeat 5 2 (Some 0) demo_start)"
  let ?ct1 = "fst (heartbeat 10 1 (Some 2) ?ct0)"
  let ?s1 = "with_net (empty_net\<lparr>pn_pool := {#demo_slot 0 5, demo_slot 1 5#}\<rparr>)"
  let ?s2 = "with_net (empty_net\<lparr>pn_pool := {#demo_slot 1 5#}, pn_done := {#(None, Some (demo_slot 0 5), ReapedFree)#}\<rparr>)"
  have slots: "concat (map delivered (snd (heartbeat 5 2 (Some 0) demo_start))) =
      [Admit (demo_slot 0 5), FirePresenceAcquire (demo_slot 0 5), Admit (demo_slot 1 5), FirePresenceAcquire (demo_slot 1 5)]"
    using delivered_slots [of "''w''" "''pool-7''" 2 5] by (subst heartbeat_admits(1)) (simp add: numeral_2_eq_2)
  have r1: "run_presence Auto (concat (map delivered (snd (heartbeat 5 2 (Some 0) demo_start)))) (with_net empty_net) = Some ?s1"
    unfolding slots by (simp add: pool_eval add_mset_commute)
  have one: "snd (presence_sweep 30 50 ?ct1) = [Expired ''w'' ''pool-7'' ''r'']"
    and gone: "map_option pe_present (hm_get (ct_map (fst (presence_sweep 30 50 ?ct1))) ''r'') = Some False"
    using heartbeat_again(2) [OF heartbeat_admits(2) [of 5 2 "Some 0"], of 10 1 2]
    by (simp_all add: presence_sweep_simps rs.sweep_out rs.sweep_get runner_due_def expire_runner_def on_expire_def)
  have r2: "run_presence Auto ([RunnerExpired ''r''] @ [FireReapFree ''r'' (demo_slot 0 5)]) ?s1 = Some ?s2"
    by (simp add: pool_eval)
  have "runner_units ''r'' ?s1 = 2" by (simp add: runner_units_def with_net_def empty_net_def)
  with r1 r2 one gone show ?thesis unfolding Let_def
    by (intro exI [of _ ?s1] exI [of _ ?s2]) (simp add: with_net_def empty_net_def)
qed

text \<open>
  When the engine cannot be read at admission, slots are recorded that were never admitted. Their
  expiry signals find no unit and stay in the net, where they take the units of the runner's next
  presence: it is there, its entry says so, and its pool is empty.
\<close>

theorem stale_expiry_reaps_fresh_unit:
  "let ct0 = fst (heartbeat 5 1 None demo_start); swept = presence_sweep 30 50 ct0;
       later = heartbeat 60 1 (Some 0) (fst swept) in
    snd (heartbeat 5 1 None demo_start) = [] \<and>
    (\<exists>s. run_presence Auto (concat (map delivered (snd swept)) @ concat (map delivered (snd later)) @
        [FireReapFree ''r'' (demo_slot 0 60)]) (with_net empty_net) = Some s \<and>
      map_option pe_present (hm_get (ct_map (fst later)) ''r'') = Some True \<and> runner_units ''r'' s = 0)"
proof -
  let ?ct0 = "fst (heartbeat 5 1 None demo_start)"
  let ?swept = "presence_sweep 30 50 ?ct0"
  let ?later = "heartbeat 60 1 (Some 0) (fst ?swept)"
  let ?s = "with_net (empty_net\<lparr>pn_done := {#(None, Some (demo_slot 0 60), ReapedFree)#}\<rparr>)"
  have none: "snd (heartbeat 5 1 None demo_start) = []" by (simp add: heartbeat_def controller_eval)
  have one: "snd ?swept = [Expired ''w'' ''pool-7'' ''r'']"
    and off: "ct_map (fst ?swept) = [(''r'', \<lparr>pe_last_seen = 5, pe_concurrency = 0, pe_pool_net_id = ''pool-7'',
      pe_pool_workspace = ''w'', pe_pool_alias = Some ''lab'', pe_backends = [''python''], pe_host = None, pe_present = False\<rparr>)]"
    using heartbeat_admits(2) [of 5 1 None]
    by (simp_all add: presence_sweep_simps rs.sweep_out rs.sweep_map runner_due_def expire_runner_def on_expire_def)
  have fresh: "snd ?later = acquire_slots ''w'' ''pool-7'' ''r'' 1 60 (JObject [])"
    and on: "map_option pe_present (hm_get (ct_map (fst ?later)) ''r'') = Some True"
    using off by (simp_all add: heartbeat_def controller_eval)
  have "concat (map delivered (snd ?later)) = [Admit (demo_slot 0 60), FirePresenceAcquire (demo_slot 0 60)]"
    using delivered_slots [of "''w''" "''pool-7''" 1 60] fresh by simp
  then have "run_presence Auto (concat (map delivered (snd ?swept)) @ concat (map delivered (snd ?later)) @
        [FireReapFree ''r'' (demo_slot 0 60)]) (with_net empty_net) = Some ?s"
    unfolding one by (simp add: pool_eval)
  moreover have "runner_units ''r'' ?s = 0" by (simp add: runner_units_def with_net_def empty_net_def)
  ultimately show ?thesis using none on unfolding Let_def by blast
qed

end
