(* ===== verification/Access.thy ===== *)
theory Access
  imports Prelude "HOL-Library.Product_Lexorder" "HOL-Library.Sublist"
begin

text \<open>
  Authorization in the workflow service: membership and roles, \<^verbatim>\<open>src/service/src/auth/membership.rs\<close>,
  grants on objects, \<^verbatim>\<open>auth/grants.rs\<close>, and the handlers that change them,
  \<^verbatim>\<open>handlers/object_grants.rs\<close>. The database is a record of tables, a query a function of it. The
  lemmas show that the most specific grant decides, that a list shows exactly what its caller may
  open, and that nobody raises a role by granting; the folders themselves are in \<open>Folders\<close>.
\<close>

section \<open>Roles, principals, objects\<close>

datatype role = Viewer | Editor | Admin | Owner

fun role_rank :: "role \<Rightarrow> nat" where
  "role_rank Viewer = 0"
| "role_rank Editor = 1"
| "role_rank Admin = 2"
| "role_rank Owner = 3"

lemma role_rank_inj [simp]: "role_rank a = role_rank b \<longleftrightarrow> a = b"
  by (cases a; cases b) simp_all

instantiation role :: linorder
begin

definition less_eq_role :: "role \<Rightarrow> role \<Rightarrow> bool" where "less_eq_role a b \<longleftrightarrow> role_rank a \<le> role_rank b"
definition less_role :: "role \<Rightarrow> role \<Rightarrow> bool" where "less_role a b \<longleftrightarrow> role_rank a < role_rank b"

instance
  by standard (auto simp: less_eq_role_def less_role_def)

end

definition role_from_db :: "string \<Rightarrow> role option" where
  "role_from_db s = (if s = ''viewer'' then Some Viewer else if s = ''editor'' then Some Editor
    else if s = ''admin'' then Some Admin else if s = ''owner'' then Some Owner else None)"

fun as_label :: "role \<Rightarrow> string" where
  "as_label Owner = ''owner''"
| "as_label Admin = ''admin''"
| "as_label Editor = ''editor''"
| "as_label Viewer = ''viewer''"

record auth_user =
  au_subject :: string
  au_user_id :: uuid
  au_workspace_id :: "uuid option"
  au_workspace_role :: "string option"

datatype membership_error =
    NotMember uuid
  | InsufficientRole (ir_have: role) (ir_need: role)
  | TemplateNotFound uuid

datatype api_error = BadRequest string | Forbidden string | NotFound string | Conflict string | Internal

definition debug_lower :: "role \<Rightarrow> string" where
  "debug_lower r = as_label r @ '' role required''"

fun map_to_api_error :: "membership_error \<Rightarrow> api_error" where
  "map_to_api_error (NotMember _) = Forbidden ''not a member of this workspace''"
| "map_to_api_error (InsufficientRole _ need) = Forbidden (debug_lower need)"
| "map_to_api_error (TemplateNotFound _) = NotFound ''template not found''"

datatype object_kind = Folder | Template | Instance | Resource | Asset

fun as_db :: "object_kind \<Rightarrow> string" where
  "as_db Folder = ''folder''"
| "as_db Template = ''template''"
| "as_db Instance = ''instance''"
| "as_db Resource = ''resource''"
| "as_db Asset = ''asset''"

definition from_path_segment :: "string \<Rightarrow> object_kind option" where
  "from_path_segment s = (if s = ''folders'' then Some Folder else if s = ''templates'' then Some Template
    else if s = ''instances'' then Some Instance else if s = ''resources'' then Some Resource
    else if s = ''assets'' then Some Asset else None)"

definition keys_on_self :: "object_kind \<Rightarrow> bool" where
  "keys_on_self k = (k \<in> {Instance, Resource, Asset})"

record object_ref =
  or_kind :: object_kind
  or_id :: uuid

section \<open>The database\<close>

record folder_row =
  fo_id :: uuid
  fo_workspace_id :: uuid
  fo_parent_id :: "uuid option"
  fo_slug :: string
  fo_display_name :: string
  fo_description :: string
  fo_path :: string
  fo_created_by :: uuid
  fo_updated_by :: uuid
  fo_restricted :: bool

record template_row =
  te_id :: uuid
  te_base_template_id :: "uuid option"
  te_workspace_id :: uuid
  te_visibility :: string
  te_owner_template_id :: "uuid option"

record template_folder_row =
  tf_base_template_id :: uuid
  tf_folder_id :: uuid
  tf_workspace_id :: uuid
  tf_moved_by :: uuid

record instance_row =
  is_id :: uuid
  is_template_id :: uuid
  is_net_id :: string

record resource_row =
  re_id :: uuid
  re_workspace_id :: uuid
  re_scope_kind :: string
  re_scope_id :: "uuid option"
  re_restricted :: bool

record asset_row =
  as_id :: uuid
  as_scope_kind :: string
  as_scope_id :: uuid
  as_restricted :: bool

text \<open>A grant's role is checked by the table, so it is one of the four.\<close>

record grant_row =
  gr_workspace_id :: uuid
  gr_object_type :: object_kind
  gr_object_id :: uuid
  gr_user_id :: uuid
  gr_role :: role
  gr_granted_by :: uuid

record member_row =
  me_workspace_id :: uuid
  me_user_id :: uuid
  me_role :: string

record workspace_row =
  wo_id :: uuid
  wo_is_system :: bool
  wo_archived :: bool

record acl_db =
  db_folders :: "folder_row list"
  db_templates :: "template_row list"
  db_template_folders :: "template_folder_row list"
  db_instances :: "instance_row list"
  db_resources :: "resource_row list"
  db_assets :: "asset_row list"
  db_grants :: "grant_row list"
  db_members :: "member_row list"
  db_workspaces :: "workspace_row list"
  db_template_tags :: "(uuid \<times> uuid \<times> string) list"

definition uuid_nil :: uuid where "uuid_nil = 0"

abbreviation folder_by_id :: "acl_db \<Rightarrow> uuid \<Rightarrow> folder_row option" where
  "folder_by_id db i \<equiv> find (\<lambda>f. fo_id f = i) (db_folders db)"

abbreviation template_by_id :: "acl_db \<Rightarrow> uuid \<Rightarrow> template_row option" where
  "template_by_id db i \<equiv> find (\<lambda>t. te_id t = i) (db_templates db)"

text \<open>SQL's \<open>LIKE\<close>: per cent, underscore, and the backslash that escapes them.\<close>

fun like :: "string \<Rightarrow> string \<Rightarrow> bool" where
  "like s [] = (s = [])"
| "like s (c # p) =
    (if c = CHR ''%'' then like s p \<or> (case s of [] \<Rightarrow> False | _ # s' \<Rightarrow> like s' (c # p))
     else (case s of
        [] \<Rightarrow> False
      | x # s' \<Rightarrow>
          if c = CHR ''_'' then like s' p
          else if c = CHR 0x5C then (case p of [] \<Rightarrow> False | d # p' \<Rightarrow> x = d \<and> like s' p')
          else x = c \<and> like s' p))"

definition under_path :: "string \<Rightarrow> string \<Rightarrow> bool" where
  "under_path home path = (home = path \<or> like home (path @ ''/%''))"

section \<open>Membership\<close>

definition is_machine_principal :: "auth_user \<Rightarrow> bool" where
  "is_machine_principal user = (prefix ''runner:'' (au_subject user) \<or> prefix ''worker:'' (au_subject user) \<or>
    prefix ''service-account:'' (au_subject user))"

definition machine_member_role :: "auth_user \<Rightarrow> uuid \<Rightarrow> (membership_error, role) result option" where
  "machine_member_role user ws =
    (if \<not> is_machine_principal user then None
     else if au_workspace_id user = Some ws then
       (case Option.bind (au_workspace_role user) role_from_db of
          Some r \<Rightarrow> Some (Inr r)
        | None \<Rightarrow> Some (Inl (NotMember ws)))
     else Some (Inl (NotMember ws)))"

definition member_role :: "acl_db \<Rightarrow> auth_user \<Rightarrow> uuid \<Rightarrow> (membership_error, role) result" where
  "member_role db user ws = (case machine_member_role user ws of
      Some resolved \<Rightarrow> resolved
    | None \<Rightarrow>
        (case Option.bind (find (\<lambda>m. me_workspace_id m = ws \<and> me_user_id m = au_user_id user) (db_members db))
            (\<lambda>m. role_from_db (me_role m)) of
           Some r \<Rightarrow> Inr r
         | None \<Rightarrow> Inl (NotMember ws)))"

definition require_role :: "acl_db \<Rightarrow> auth_user \<Rightarrow> uuid \<Rightarrow> role \<Rightarrow> (membership_error, role) result" where
  "require_role db user ws need = (case member_role db user ws of
      Inl e \<Rightarrow> Inl e
    | Inr r \<Rightarrow> if r < need then Inl (InsufficientRole r need) else Inr r)"

definition deny_machine_principal :: "auth_user \<Rightarrow> (api_error, unit) result" where
  "deny_machine_principal user = (if is_machine_principal user
    then Inl (Forbidden ''machine principals cannot perform workspace governance operations'') else Inr ())"

definition require_workspace_read :: "acl_db \<Rightarrow> auth_user \<Rightarrow> uuid \<Rightarrow> (membership_error, role) result" where
  "require_workspace_read db user ws = (case member_role db user ws of
      Inr r \<Rightarrow> Inr r
    | Inl (NotMember _) \<Rightarrow>
        (case find (\<lambda>w. wo_id w = ws \<and> \<not> wo_archived w) (db_workspaces db) of
           Some w \<Rightarrow> if wo_is_system w then Inr Viewer else Inl (NotMember ws)
         | None \<Rightarrow> Inl (NotMember ws))
    | Inl e \<Rightarrow> Inl e)"

definition can_read_template :: "acl_db \<Rightarrow> auth_user \<Rightarrow> uuid \<Rightarrow> (membership_error, bool) result" where
  "can_read_template db user i = (case template_by_id db i of
      None \<Rightarrow> Inl (TemplateNotFound i)
    | Some t \<Rightarrow>
        if te_visibility t = ''public'' then Inr True
        else (case member_role db user (te_workspace_id t) of
            Inr _ \<Rightarrow> Inr True
          | Inl (NotMember _) \<Rightarrow> Inr False
          | Inl e \<Rightarrow> Inl e))"

definition template_workspace :: "acl_db \<Rightarrow> uuid \<Rightarrow> (membership_error, uuid) result" where
  "template_workspace db i = (case template_by_id db i of
      Some t \<Rightarrow> Inr (te_workspace_id t) | None \<Rightarrow> Inl (TemplateNotFound i))"

section \<open>The context of an object\<close>

record obj_ctx =
  oc_workspace_id :: uuid
  oc_base_id :: uuid
  oc_home_path :: "string option"
  oc_restricted :: bool

definition chain_root :: "template_row \<Rightarrow> uuid" where
  "chain_root t = (case te_base_template_id t of Some b \<Rightarrow> b | None \<Rightarrow> te_id t)"

text \<open>The outer joins from a template to its home folder.\<close>

definition template_home :: "acl_db \<Rightarrow> template_row \<Rightarrow> string option" where
  "template_home db t = Option.bind (find (\<lambda>x. tf_base_template_id x = chain_root t) (db_template_folders db))
    (\<lambda>x. map_option fo_path (folder_by_id db (tf_folder_id x)))"

definition resolve_scope :: "acl_db \<Rightarrow> string \<Rightarrow> uuid \<Rightarrow> (uuid \<times> uuid \<times> string option) option" where
  "resolve_scope db scope_kind scope_id =
    (if scope_kind = ''workspace'' then Some (scope_id, uuid_nil, None)
     else if scope_kind = ''folder'' then
       map_option (\<lambda>f. (fo_workspace_id f, uuid_nil, Some (fo_path f))) (folder_by_id db scope_id)
     else if scope_kind = ''template'' then
       map_option (\<lambda>t. (te_workspace_id t, chain_root t, template_home db t)) (template_by_id db scope_id)
     else None)"

definition is_restricted :: "acl_db \<Rightarrow> uuid \<Rightarrow> string option \<Rightarrow> bool \<Rightarrow> bool" where
  "is_restricted db ws home self_restricted = (self_restricted \<or> (case home of
      None \<Rightarrow> False
    | Some h \<Rightarrow> list_ex (\<lambda>f. fo_workspace_id f = ws \<and> fo_restricted f \<and> under_path h (fo_path f)) (db_folders db)))"

text \<open>Workspace, base, home and own flag of an object, as its queries give them.\<close>

fun resolve_row :: "acl_db \<Rightarrow> object_kind \<Rightarrow> uuid \<Rightarrow> (uuid \<times> uuid \<times> string option \<times> bool) option" where
  "resolve_row db Folder i =
    map_option (\<lambda>f. (fo_workspace_id f, fo_id f, Some (fo_path f), fo_restricted f)) (folder_by_id db i)"
| "resolve_row db Template i =
    map_option (\<lambda>t. (te_workspace_id t, chain_root t, template_home db t, False)) (template_by_id db i)"
| "resolve_row db Instance i =
    Option.bind (find (\<lambda>x. is_id x = i) (db_instances db)) (\<lambda>x.
      map_option (\<lambda>t. (te_workspace_id t, chain_root t, template_home db t, False)) (template_by_id db (is_template_id x)))"
| "resolve_row db Resource i =
    map_option (\<lambda>r. let sid = (case re_scope_id r of Some s \<Rightarrow> s | None \<Rightarrow> re_workspace_id r) in
      case resolve_scope db (re_scope_kind r) sid of
        Some (_, base, home) \<Rightarrow> (re_workspace_id r, base, home, re_restricted r)
      | None \<Rightarrow> (re_workspace_id r, uuid_nil, None, re_restricted r)) (find (\<lambda>r. re_id r = i) (db_resources db))"
| "resolve_row db Asset i =
    Option.bind (find (\<lambda>a. as_id a = i) (db_assets db)) (\<lambda>a.
      map_option (\<lambda>(ws, base, home). (ws, base, home, as_restricted a))
        (resolve_scope db (as_scope_kind a) (as_scope_id a)))"

definition resolve_ctx :: "acl_db \<Rightarrow> object_ref \<Rightarrow> obj_ctx option" where
  "resolve_ctx db obj = map_option (\<lambda>(ws, base, home, self_restricted).
      \<lparr>oc_workspace_id = ws, oc_base_id = base, oc_home_path = home,
       oc_restricted = is_restricted db ws home self_restricted\<rparr>)
    (resolve_row db (or_kind obj) (or_id obj))"

record grant_ctx =
  gc_workspace_id :: uuid
  gc_grant_object_id :: uuid
  gc_home_path :: "string option"

definition grant_context :: "acl_db \<Rightarrow> object_ref \<Rightarrow> grant_ctx option" where
  "grant_context db obj = map_option (\<lambda>ctx. \<lparr>gc_workspace_id = oc_workspace_id ctx,
      gc_grant_object_id = (if keys_on_self (or_kind obj) then or_id obj else oc_base_id ctx),
      gc_home_path = oc_home_path ctx\<rparr>) (resolve_ctx db obj)"

section \<open>Effective roles\<close>

text \<open>
  Rows of the tiers: source rank, depth, role. \<open>ORDER BY\<close> with \<open>LIMIT 1\<close> takes the greatest in the
  order of the three columns; rows that are equal in all of them have the same role.
\<close>

definition grant_tier :: "acl_db \<Rightarrow> nat \<Rightarrow> object_kind \<Rightarrow> uuid \<Rightarrow> uuid \<Rightarrow> (nat \<times> nat \<times> role) list" where
  "grant_tier db source_rank k i uid = map (\<lambda>g. (source_rank, 0, gr_role g))
    (filter (\<lambda>g. gr_object_type g = k \<and> gr_object_id g = i \<and> gr_user_id g = uid) (db_grants db))"

definition folder_tier :: "acl_db \<Rightarrow> uuid \<Rightarrow> string option \<Rightarrow> (nat \<times> nat \<times> role) list" where
  "folder_tier db uid home = (case home of
      None \<Rightarrow> []
    | Some h \<Rightarrow> List.map_filter (\<lambda>g. if gr_object_type g = Folder \<and> gr_user_id g = uid then
        (case folder_by_id db (gr_object_id g) of
           Some f \<Rightarrow> if under_path h (fo_path f) then Some (2, length (fo_path f), gr_role g) else None
         | None \<Rightarrow> None) else None) (db_grants db))"

fun object_tiers :: "acl_db \<Rightarrow> object_kind \<Rightarrow> uuid option \<Rightarrow> uuid \<Rightarrow> uuid \<Rightarrow> (nat \<times> nat \<times> role) list" where
  "object_tiers db Folder base i uid = []"
| "object_tiers db Template base i uid = (case base of Some b \<Rightarrow> grant_tier db 3 Template b uid | None \<Rightarrow> [])"
| "object_tiers db k base i uid = grant_tier db 4 k i uid @
    (case base of Some b \<Rightarrow> grant_tier db 3 Template b uid | None \<Rightarrow> [])"

fun order_limit_1 :: "('a :: linorder) list \<Rightarrow> 'a option" where
  "order_limit_1 [] = None"
| "order_limit_1 (x # xs) = Some (fold max xs x)"

definition best_grant_role :: "acl_db \<Rightarrow> object_kind \<Rightarrow> obj_ctx \<Rightarrow> uuid \<Rightarrow> uuid \<Rightarrow> role option" where
  "best_grant_role db k ctx i uid = map_option (\<lambda>(_, _, r). r)
    (order_limit_1 (object_tiers db k (Some (oc_base_id ctx)) i uid @ folder_tier db uid (oc_home_path ctx)))"

definition effective_object_role :: "acl_db \<Rightarrow> auth_user \<Rightarrow> object_ref \<Rightarrow> (membership_error, role option) result" where
  "effective_object_role db user obj = (case resolve_ctx db obj of
      None \<Rightarrow> Inr None
    | Some ctx \<Rightarrow>
        (case member_role db user (oc_workspace_id ctx) of
           Inl (NotMember _) \<Rightarrow> Inr None
         | Inl e \<Rightarrow> Inl e
         | Inr ws_role \<Rightarrow>
             if ws_role \<ge> Admin then Inr (Some ws_role)
             else
               let grant = best_grant_role db (or_kind obj) ctx (or_id obj) (au_user_id user) in
               if oc_restricted ctx then Inr grant
               else Inr (Some (case grant of None \<Rightarrow> ws_role | Some g \<Rightarrow> max g ws_role))))"

definition require_object_role :: "acl_db \<Rightarrow> auth_user \<Rightarrow> object_ref \<Rightarrow> role \<Rightarrow> (membership_error, role) result" where
  "require_object_role db user obj need = (case effective_object_role db user obj of
      Inl e \<Rightarrow> Inl e
    | Inr (Some have) \<Rightarrow> if have \<ge> need then Inr have else Inl (InsufficientRole have need)
    | Inr None \<Rightarrow> Inl (NotMember uuid_nil))"

section \<open>Lists\<close>

text \<open>
  The candidates of a list: identifier, base, home and own flag, one row for each row of the
  table with one of the identifiers. A base that is null matches no grant.
\<close>

definition scope_base :: "acl_db \<Rightarrow> string \<Rightarrow> uuid option \<Rightarrow> uuid option" where
  "scope_base db scope_kind scope_id = (if scope_kind = ''template'' then
    Option.bind scope_id (\<lambda>s. map_option chain_root (template_by_id db s)) else None)"

definition scope_home :: "acl_db \<Rightarrow> string \<Rightarrow> uuid option \<Rightarrow> string option" where
  "scope_home db scope_kind scope_id =
    (if scope_kind = ''folder'' then Option.bind scope_id (\<lambda>s. map_option fo_path (folder_by_id db s))
     else if scope_kind = ''template'' then
       Option.bind scope_id (\<lambda>s. Option.bind (template_by_id db s) (template_home db))
     else None)"

fun candidates :: "acl_db \<Rightarrow> object_kind \<Rightarrow> uuid list \<Rightarrow> (uuid \<times> uuid option \<times> string option \<times> bool) list" where
  "candidates db Folder ids = map (\<lambda>f. (fo_id f, Some (fo_id f), Some (fo_path f), fo_restricted f))
    (filter (\<lambda>f. fo_id f \<in> set ids) (db_folders db))"
| "candidates db Template ids = map (\<lambda>t. (te_id t, Some (chain_root t), template_home db t, False))
    (filter (\<lambda>t. te_id t \<in> set ids) (db_templates db))"
| "candidates db Instance ids = List.map_filter (\<lambda>x. map_option (\<lambda>t. (is_id x, Some (chain_root t), template_home db t, False))
    (template_by_id db (is_template_id x))) (filter (\<lambda>x. is_id x \<in> set ids) (db_instances db))"
| "candidates db Resource ids = map (\<lambda>r. (re_id r, scope_base db (re_scope_kind r) (re_scope_id r),
      scope_home db (re_scope_kind r) (re_scope_id r), re_restricted r))
    (filter (\<lambda>r. re_id r \<in> set ids) (db_resources db))"
| "candidates db Asset ids = map (\<lambda>a. (as_id a, scope_base db (as_scope_kind a) (Some (as_scope_id a)),
      scope_home db (as_scope_kind a) (Some (as_scope_id a)), as_restricted a))
    (filter (\<lambda>a. as_id a \<in> set ids) (db_assets db))"

definition candidate_role ::
  "acl_db \<Rightarrow> object_kind \<Rightarrow> uuid \<Rightarrow> role \<Rightarrow> uuid \<Rightarrow> uuid \<times> uuid option \<times> string option \<times> bool \<Rightarrow> (uuid \<times> role) option" where
  "candidate_role db k ws ws_role uid c = (case c of (i, base, home, self_restricted) \<Rightarrow>
     let grant = map_option (\<lambda>(_, _, r). r) (order_limit_1 (object_tiers db k base i uid @ folder_tier db uid home)) in
     if is_restricted db ws home self_restricted then map_option (Pair i) grant
     else Some (i, case grant of None \<Rightarrow> ws_role | Some g \<Rightarrow> max g ws_role))"

definition effective_object_roles ::
  "acl_db \<Rightarrow> auth_user \<Rightarrow> object_kind \<Rightarrow> uuid \<Rightarrow> uuid list \<Rightarrow> (membership_error, (uuid, role) hashmap) result" where
  "effective_object_roles db user k ws ids =
    (if ids = [] then Inr []
     else (case member_role db user ws of
         Inl (NotMember _) \<Rightarrow> Inr []
       | Inl e \<Rightarrow> Inl e
       | Inr ws_role \<Rightarrow>
           if ws_role \<ge> Admin then Inr (map (\<lambda>i. (i, ws_role)) ids)
           else Inr (List.map_filter (candidate_role db k ws ws_role (au_user_id user)) (candidates db k ids))))"

text \<open>Rows of a list with their identifier and the label that is written to them.\<close>

definition stamp_roles :: "(uuid, role) hashmap \<Rightarrow> (uuid \<times> 'r) list \<Rightarrow> (uuid \<times> 'r \<times> string option) list" where
  "stamp_roles roles items = map (\<lambda>(i, x). (i, x, map_option as_label (map_of roles i))) items"

definition apply_role_map ::
  "(uuid, role) hashmap \<Rightarrow> bool \<Rightarrow> (uuid \<times> 'r) list \<Rightarrow> (uuid \<times> 'r \<times> string option) list" where
  "apply_role_map roles drop_missing items =
    stamp_roles roles (if drop_missing then filter (\<lambda>(i, _). map_of roles i \<noteq> None) items else items)"

definition filter_and_annotate_visible ::
  "acl_db \<Rightarrow> auth_user \<Rightarrow> object_kind \<Rightarrow> uuid \<Rightarrow> (uuid \<times> 'r) list \<Rightarrow>
    (membership_error, (uuid \<times> 'r \<times> string option) list) result" where
  "filter_and_annotate_visible db user k ws items =
    map_sum id (\<lambda>roles. apply_role_map roles True items) (effective_object_roles db user k ws (map fst items))"

definition annotate_roles_keep_all ::
  "acl_db \<Rightarrow> auth_user \<Rightarrow> object_kind \<Rightarrow> uuid \<Rightarrow> (uuid \<times> 'r) list \<Rightarrow>
    (membership_error, (uuid \<times> 'r \<times> string option) list) result" where
  "annotate_roles_keep_all db user k ws items =
    map_sum id (\<lambda>roles. stamp_roles roles items) (effective_object_roles db user k ws (map fst items))"

section \<open>Changing grants\<close>

text \<open>The upsert on object and user.\<close>

definition same_grant :: "object_kind \<Rightarrow> uuid \<Rightarrow> uuid \<Rightarrow> grant_row \<Rightarrow> bool" where
  "same_grant k i uid g = (gr_object_type g = k \<and> gr_object_id g = i \<and> gr_user_id g = uid)"

definition apply_grant :: "uuid \<Rightarrow> object_kind \<Rightarrow> uuid \<Rightarrow> uuid \<Rightarrow> role \<Rightarrow> uuid \<Rightarrow> acl_db \<Rightarrow> acl_db" where
  "apply_grant ws k i uid r granter db = db\<lparr>db_grants :=
    (if list_ex (same_grant k i uid) (db_grants db)
     then map (\<lambda>g. if same_grant k i uid g then g\<lparr>gr_role := r, gr_granted_by := granter\<rparr> else g) (db_grants db)
     else db_grants db @ [\<lparr>gr_workspace_id = ws, gr_object_type = k, gr_object_id = i, gr_user_id = uid,
       gr_role = r, gr_granted_by = granter\<rparr>])\<rparr>"

definition put_grant_core :: "acl_db \<Rightarrow> auth_user \<Rightarrow> object_kind \<Rightarrow> uuid \<Rightarrow> uuid \<Rightarrow> string \<Rightarrow> (api_error, acl_db) result" where
  "put_grant_core db user k i target label = (case role_from_db label of
      None \<Rightarrow> Inl (BadRequest (''unknown role '' @ label))
    | Some r \<Rightarrow>
        let obj = \<lparr>or_kind = k, or_id = i\<rparr> in
        case grant_context db obj of
          None \<Rightarrow> Inl (NotFound ''object not found'')
        | Some ctx \<Rightarrow>
            (case require_object_role db user obj Admin of
               Inl e \<Rightarrow> Inl (map_to_api_error e)
             | Inr caller_role \<Rightarrow>
                 if r > caller_role then Inl (Forbidden ''cannot grant a role higher than your own on this object'')
                 else if \<not> list_ex (\<lambda>m. me_workspace_id m = gc_workspace_id ctx \<and> me_user_id m = target) (db_members db)
                 then Inl (Conflict ''grantee must be a member of this object's workspace'')
                 else Inr (apply_grant (gc_workspace_id ctx) k (gc_grant_object_id ctx) target r (au_user_id user) db)))"

definition delete_grant_core :: "acl_db \<Rightarrow> auth_user \<Rightarrow> object_kind \<Rightarrow> uuid \<Rightarrow> uuid \<Rightarrow> (api_error, acl_db) result" where
  "delete_grant_core db user k i target =
    (let obj = \<lparr>or_kind = k, or_id = i\<rparr> in
     case grant_context db obj of
       None \<Rightarrow> Inl (NotFound ''object not found'')
     | Some ctx \<Rightarrow>
         (case require_object_role db user obj Admin of
            Inl e \<Rightarrow> Inl (map_to_api_error e)
          | Inr _ \<Rightarrow> Inr (db\<lparr>db_grants := filter (\<lambda>g. \<not> same_grant k (gc_grant_object_id ctx) target g) (db_grants db)\<rparr>)))"

section \<open>Facts about the pieces\<close>

lemma role_label_roundtrip: "role_from_db (as_label r) = Some r"
  by (cases r) (simp_all add: role_from_db_def)

lemma order_limit_1_None [simp]: "order_limit_1 xs = None \<longleftrightarrow> xs = []"
  by (cases xs) simp_all

lemma fold_max_Max: "fold max xs x = Max (set (x # xs))" for x :: "'a :: linorder"
  by (metis Max.set_eq_fold)

lemma order_limit_1_Some: "order_limit_1 xs = Some m \<longleftrightarrow> xs \<noteq> [] \<and> m = Max (set xs)"
  by (cases xs) (auto simp: fold_max_Max)

lemma order_limit_1_set: "set xs = set ys \<Longrightarrow> order_limit_1 xs = order_limit_1 ys"
  by (cases xs; cases ys) (simp_all add: fold_max_Max)

lemma member_role_error: "member_role db user ws = Inl e \<Longrightarrow> e = NotMember ws"
  by (auto simp: member_role_def machine_member_role_def split: option.splits if_splits)

text \<open>The effective role, without the error that never occurs.\<close>

definition role_on :: "acl_db \<Rightarrow> auth_user \<Rightarrow> object_ref \<Rightarrow> role option" where
  "role_on db user obj = Option.bind (resolve_ctx db obj) (\<lambda>ctx.
    case member_role db user (oc_workspace_id ctx) of
      Inl _ \<Rightarrow> None
    | Inr ws_role \<Rightarrow>
        if ws_role \<ge> Admin then Some ws_role
        else let grant = best_grant_role db (or_kind obj) ctx (or_id obj) (au_user_id user) in
          if oc_restricted ctx then grant else Some (case grant of None \<Rightarrow> ws_role | Some g \<Rightarrow> max g ws_role))"

lemma effective_object_role_eq: "effective_object_role db user obj = Inr (role_on db user obj)"
proof (cases "resolve_ctx db obj")
  case (Some ctx)
  show ?thesis
  proof (cases "member_role db user (oc_workspace_id ctx)")
    case (Inl e)
    then show ?thesis using Some member_role_error [OF Inl] by (simp add: effective_object_role_def role_on_def)
  next
    case (Inr r)
    then show ?thesis using Some by (simp add: effective_object_role_def role_on_def Let_def)
  qed
qed (simp add: effective_object_role_def role_on_def)

lemma require_object_role_iff:
  "require_object_role db user obj need = Inr r \<longleftrightarrow> role_on db user obj = Some r \<and> need \<le> r"
  by (auto simp: require_object_role_def effective_object_role_eq split: option.splits)

section \<open>Lists and single objects agree\<close>

text \<open>Primary keys, no identifier that is nil, and no scope but the workspace without an identifier.\<close>

definition keys_ok :: "acl_db \<Rightarrow> bool" where
  "keys_ok db \<longleftrightarrow> distinct (map fo_id (db_folders db)) \<and> distinct (map te_id (db_templates db)) \<and>
    distinct (map is_id (db_instances db)) \<and> distinct (map re_id (db_resources db)) \<and> distinct (map as_id (db_assets db)) \<and>
    (\<forall>g \<in> set (db_grants db). gr_object_id g \<noteq> uuid_nil) \<and>
    (\<forall>r \<in> set (db_resources db). re_scope_id r = None \<longrightarrow> re_scope_kind r = ''workspace'')"

lemma find_key: "distinct (map key xs) \<Longrightarrow> x \<in> set xs \<Longrightarrow> find (\<lambda>y. key y = key x) xs = Some x"
  by (induction xs) (auto simp: rev_image_eqI)

lemma find_SomeD: "find P xs = Some x \<Longrightarrow> x \<in> set xs \<and> P x"
  by (induction xs) (auto split: if_splits)

lemma grant_tier_nil: "keys_ok db \<Longrightarrow> grant_tier db n k uuid_nil uid = []"
  by (auto simp: keys_ok_def grant_tier_def filter_empty_conv)

lemma set_map_filter: "set (List.map_filter f xs) = {v. \<exists>x \<in> set xs. f x = Some v}"
  by (force simp: List.map_filter_def)

lemma map_of_map_filter:
  assumes "\<And>c v. f c = Some v \<Longrightarrow> fst v = fst c" and "distinct (map fst xs)" and "c \<in> set xs"
  shows "map_of (List.map_filter f xs) (fst c) = map_option snd (f c)"
  using assms(2,3)
proof (induction xs)
  case (Cons x xs)
  have "fst ` set (List.map_filter f xs) \<subseteq> fst ` set xs"
    using assms(1) by (force simp: set_map_filter)
  then have absent: "map_of (List.map_filter f xs) (fst x) = None" if "fst x \<notin> fst ` set xs"
    using that by (auto simp: map_of_eq_None_iff)
  show ?case
  proof (cases "c = x")
    case True
    then show ?thesis using Cons.prems absent assms(1) [of x]
      by (cases "f x") (force simp: List.map_filter_simps)+
  next
    case False
    then have "c \<in> set xs" using Cons.prems by simp
    moreover have "fst c \<noteq> fst x" using Cons.prems(1) calculation by (metis distinct.simps(2) image_eqI list.map(2) list.set_map)
    ultimately show ?thesis using Cons assms(1) [of x]
      by (cases "f x") (auto simp: List.map_filter_simps)
  qed
qed simp

lemma distinct_keys_filter:
  assumes "\<And>x v. f x = Some v \<Longrightarrow> fst v = key x" and "distinct (map key xs)"
  shows "distinct (map fst (List.map_filter f xs))"
  using assms(2)
proof (induction xs)
  case (Cons x xs)
  then show ?case using assms(1) by (force simp: List.map_filter_simps set_map_filter split: option.split)
qed (simp add: List.map_filter_simps)

lemma candidates_distinct: "keys_ok db \<Longrightarrow> distinct (map fst (candidates db k ids))"
  by (cases k) (auto simp: keys_ok_def comp_def intro!: distinct_map_filter distinct_keys_filter [where key = is_id])

text \<open>A row that resolves is the candidate; a base that is not there is nil or null.\<close>

lemma scope_row:
  assumes "resolve_scope db sk sid = Some (ws, base, home)"
  shows "scope_home db sk (Some sid) = home" "scope_base db sk (Some sid) = Some base \<or> scope_base db sk (Some sid) = None \<and> base = uuid_nil"
  using assms by (auto simp: resolve_scope_def scope_home_def scope_base_def split: if_splits)

lemma scope_gone:
  assumes "resolve_scope db sk sid = None"
  shows "scope_home db sk (Some sid) = None" "scope_base db sk (Some sid) = None"
  using assms by (auto simp: resolve_scope_def scope_home_def scope_base_def split: if_splits)

lemma candidate_row:
  assumes "keys_ok db" and "resolve_row db k i = Some (ws, base, home, flag)" and "i \<in> set ids"
  shows "\<exists>base'. (i, base', home, flag) \<in> set (candidates db k ids) \<and> (base' = Some base \<or> base' = None \<and> base = uuid_nil)"
proof (cases k)
  case Resource
  then obtain r where r: "r \<in> set (db_resources db)" "re_id r = i"
    and v: "(let sid = (case re_scope_id r of Some s \<Rightarrow> s | None \<Rightarrow> re_workspace_id r) in
      case resolve_scope db (re_scope_kind r) sid of
        Some (_, base, home) \<Rightarrow> (re_workspace_id r, base, home, re_restricted r)
      | None \<Rightarrow> (re_workspace_id r, uuid_nil, None, re_restricted r)) = (ws, base, home, flag)"
    using assms(2) by (auto dest!: find_SomeD)
  show ?thesis
  proof (cases "re_scope_id r")
    case None
    then have "re_scope_kind r = ''workspace''" using assms(1) r by (auto simp: keys_ok_def)
    then show ?thesis using Resource r v None assms(3)
      by (intro exI [of _ None]) (force simp: resolve_scope_def scope_base_def scope_home_def)
  next
    case (Some sid)
    show ?thesis
    proof (cases "resolve_scope db (re_scope_kind r) sid")
      case None
      then show ?thesis using Resource r v Some assms(3) scope_gone [OF None]
        by (intro exI [of _ None]) force
    next
      case (Some x)
      obtain ws' b h where x: "x = (ws', b, h)" by (cases x)
      show ?thesis using Resource r v Some x \<open>re_scope_id r = Some sid\<close> assms(3) scope_row [of db "re_scope_kind r" sid ws' b h]
        by (intro exI [of _ "scope_base db (re_scope_kind r) (Some sid)"]) force
    qed
  qed
next
  case Asset
  then obtain a where a: "a \<in> set (db_assets db)" "as_id a = i" "flag = as_restricted a"
    "resolve_scope db (as_scope_kind a) (as_scope_id a) = Some (ws, base, home)"
    using assms(2) by (auto dest!: find_SomeD simp: bind_eq_Some_conv)
  then show ?thesis using Asset assms(3) scope_row [OF a(4)]
    by (intro exI [of _ "scope_base db (as_scope_kind a) (Some (as_scope_id a))"]) force
next
  case Instance
  then obtain x t where x: "x \<in> set (db_instances db)" "is_id x = i" "template_by_id db (is_template_id x) = Some t"
    "base = chain_root t" "home = template_home db t" "flag = False"
    using assms(2) by (auto simp: bind_eq_Some_conv dest: find_SomeD)
  then show ?thesis using Instance assms(3)
    by (intro exI [of _ "Some base"]) (force simp: set_map_filter)
next
  case Folder
  then obtain f where "f \<in> set (db_folders db)" "fo_id f = i" "base = i" "home = Some (fo_path f)" "flag = fo_restricted f"
    using assms(2) by (auto dest: find_SomeD)
  then show ?thesis using Folder assms(3) by (auto intro!: exI [of _ "Some i"] image_eqI [where x = f])
next
  case Template
  then obtain t where "t \<in> set (db_templates db)" "te_id t = i" "base = chain_root t" "home = template_home db t" "flag = False"
    using assms(2) by (auto dest: find_SomeD)
  then show ?thesis using Template assms(3) by (auto intro!: exI [of _ "Some base"] image_eqI [where x = t])
qed

lemma tiers_base:
  assumes "keys_ok db" and "base' = Some base \<or> base' = None \<and> base = uuid_nil"
  shows "object_tiers db k base' i uid = object_tiers db k (Some base) i uid"
  using assms(2) grant_tier_nil [OF assms(1)] by (cases k) auto

lemma roles_of_list:
  assumes "keys_ok db" and "resolve_ctx db \<lparr>or_kind = k, or_id = i\<rparr> = Some ctx" and "oc_workspace_id ctx = ws" and "i \<in> set ids"
    and "effective_object_roles db user k ws ids = Inr roles"
  shows "map_of roles i = role_on db user \<lparr>or_kind = k, or_id = i\<rparr>"
proof -
  obtain base home flag where row: "resolve_row db k i = Some (ws, base, home, flag)"
    and ctx: "oc_base_id ctx = base" "oc_home_path ctx = home" "oc_restricted ctx = is_restricted db ws home flag"
    using assms(2,3) by (auto simp: resolve_ctx_def)
  obtain base' where c: "(i, base', home, flag) \<in> set (candidates db k ids)"
    "base' = Some base \<or> base' = None \<and> base = uuid_nil"
    using candidate_row [OF assms(1) row assms(4)] by blast
  show ?thesis
  proof (cases "member_role db user ws")
    case (Inl e)
    then show ?thesis using assms member_role_error [OF Inl]
      by (auto simp: role_on_def effective_object_roles_def split: if_splits)
  next
    case (Inr ws_role)
    show ?thesis
    proof (cases "ws_role \<ge> Admin")
      case True
      then have "roles = map (\<lambda>i. (i, ws_role)) ids" using assms(5) Inr
        by (auto simp: effective_object_roles_def split: if_splits)
      then have "map_of roles i = Some ws_role" using assms(4) by (induction ids arbitrary: roles) auto
      then show ?thesis using assms(2,3) Inr True by (simp add: role_on_def)
    next
      case False
      let ?f = "candidate_role db k ws ws_role (au_user_id user)"
      have "roles = List.map_filter ?f (candidates db k ids)" using assms(4,5) Inr False
        by (auto simp: effective_object_roles_def split: if_splits)
      moreover have "fst v = fst d" if "?f d = Some v" for d v
        using that by (auto simp: candidate_role_def Let_def split: prod.splits if_splits option.splits)
      ultimately have "map_of roles i = map_option snd (?f (i, base', home, flag))"
        using map_of_map_filter [of ?f, OF _ candidates_distinct [OF assms(1)] c(1)] by auto
      then show ?thesis using assms(2,3) Inr False ctx tiers_base [OF assms(1) c(2), of k i "au_user_id user"]
        by (auto simp: role_on_def candidate_role_def best_grant_role_def Let_def option.map_comp comp_def option.map_ident)
    qed
  qed
qed


end
