(* ===== verification/Folders.thy ===== *)
theory Folders
  imports Access
begin

text \<open>
  The tree of folders of a workspace, \<^verbatim>\<open>src/service/src/handlers/folders.rs\<close>: folders carry their
  path next to the reference to their parent, and the handlers that create, move and delete
  folders rewrite the paths of whole subtrees. The invariant says that paths and parents describe
  the same tree; with it, ancestry by prefix is ancestry by parents, and the rules of \<open>Access\<close> say
  what they are meant to say. A handler runs as one transaction: an error leaves the database as
  it was. What happens when two moves run at the same time is shown on the parts of the handler.
\<close>

section \<open>Handlers\<close>

definition slug_char :: "char \<Rightarrow> bool" where
  "slug_char c = (let n = of_char c :: nat in 97 \<le> n \<and> n \<le> 122 \<or> 48 \<le> n \<and> n \<le> 57 \<or> c = CHR ''-'')"

definition validate_slug :: "string \<Rightarrow> (api_error, unit) result" where
  "validate_slug slug = (if slug = [] \<or> \<not> list_all slug_char slug
    then Inl (BadRequest (''invalid folder slug '' @ slug)) else Inr ())"

text \<open>
  The constraints of the table: no two rows of a workspace with the same path, the same parent
  and slug, or the same slug at the root.
\<close>

definition folder_conflict :: "folder_row list \<Rightarrow> folder_row \<Rightarrow> bool" where
  "folder_conflict fs f = list_ex (\<lambda>g. fo_id g \<noteq> fo_id f \<and> fo_workspace_id g = fo_workspace_id f \<and>
    (fo_path g = fo_path f \<or> fo_parent_id g = fo_parent_id f \<and> fo_slug g = fo_slug f)) fs"

definition conflict_error :: "string \<Rightarrow> api_error" where
  "conflict_error slug = Conflict (''a sibling folder with slug already exists: '' @ slug)"

definition create_folder ::
  "acl_db \<Rightarrow> auth_user \<Rightarrow> uuid \<Rightarrow> uuid option \<Rightarrow> string \<Rightarrow> string \<Rightarrow> string \<Rightarrow> uuid \<Rightarrow> (api_error, acl_db) result" where
  "create_folder db user ws parent slug display_name description new_id =
    (case (case parent of
        Some p \<Rightarrow> require_object_role db user \<lparr>or_kind = Folder, or_id = p\<rparr> Editor
      | None \<Rightarrow> require_role db user ws Editor) of
      Inl e \<Rightarrow> Inl (map_to_api_error e)
    | Inr _ \<Rightarrow>
        (case validate_slug slug of
           Inl e \<Rightarrow> Inl e
         | Inr _ \<Rightarrow>
             (case (case parent of
                 Some p \<Rightarrow> map_option fo_path (find (\<lambda>f. fo_id f = p \<and> fo_workspace_id f = ws) (db_folders db))
               | None \<Rightarrow> Some []) of
                None \<Rightarrow> Inl (BadRequest ''parent folder not in this workspace'')
              | Some parent_path \<Rightarrow>
                  let f = \<lparr>fo_id = new_id, fo_workspace_id = ws, fo_parent_id = parent, fo_slug = slug,
                    fo_display_name = display_name, fo_description = description, fo_path = parent_path @ ''/'' @ slug,
                    fo_created_by = au_user_id user, fo_updated_by = au_user_id user, fo_restricted = False\<rparr> in
                  if folder_conflict (db_folders db) f then Inl (conflict_error slug)
                  else Inr (db\<lparr>db_folders := db_folders db @ [f]\<rparr>))))"

text \<open>Replacing the prefix in the paths below a folder.\<close>

definition rewrite_row :: "uuid \<Rightarrow> string \<Rightarrow> string \<Rightarrow> uuid \<Rightarrow> folder_row \<Rightarrow> folder_row" where
  "rewrite_row ws old_path new_path who f =
    (if fo_workspace_id f = ws \<and> like (fo_path f) (old_path @ ''/%'')
     then f\<lparr>fo_path := new_path @ drop (length old_path) (fo_path f), fo_updated_by := who\<rparr> else f)"

text \<open>
  The statement fails when a new path is taken. The database looks at the rows one by one, so a
  path that any row had before the statement counts as taken.
\<close>

definition rewrite_paths :: "uuid \<Rightarrow> string \<Rightarrow> string \<Rightarrow> uuid \<Rightarrow> folder_row list \<Rightarrow> folder_row list option" where
  "rewrite_paths ws old_path new_path who fs =
    (if list_ex (\<lambda>f. fo_path (rewrite_row ws old_path new_path who f) \<noteq> fo_path f \<and>
        list_ex (\<lambda>g. fo_workspace_id g = ws \<and> fo_path g = fo_path (rewrite_row ws old_path new_path who f)) fs) fs
     then None else Some (map (rewrite_row ws old_path new_path who) fs))"

definition update_row :: "uuid \<Rightarrow> (folder_row \<Rightarrow> folder_row) \<Rightarrow> folder_row list \<Rightarrow> folder_row list" where
  "update_row i u fs = map (\<lambda>f. if fo_id f = i then u f else f) fs"

definition coalesce :: "'a option \<Rightarrow> 'a \<Rightarrow> 'a" where
  "coalesce x d = (case x of Some y \<Rightarrow> y | None \<Rightarrow> d)"

text \<open>The path of the new parent, with the guard against cycles.\<close>

definition move_parent_path :: "acl_db \<Rightarrow> folder_row \<Rightarrow> uuid option \<Rightarrow> (api_error, string) result" where
  "move_parent_path db current new_parent = (case new_parent of
      None \<Rightarrow> Inr []
    | Some p \<Rightarrow>
        if p = fo_id current then Inl (BadRequest ''a folder cannot be its own parent'')
        else (case find (\<lambda>f. fo_id f = p \<and> fo_workspace_id f = fo_workspace_id current) (db_folders db) of
            None \<Rightarrow> Inl (BadRequest ''parent folder not in this workspace'')
          | Some f \<Rightarrow>
              if fo_path f = fo_path current \<or> prefix (fo_path current @ ''/'') (fo_path f)
              then Inl (BadRequest ''cannot move a folder into itself or a descendant'')
              else Inr (fo_path f)))"

text \<open>The writes of a move, after the reads.\<close>

definition move_write ::
  "acl_db \<Rightarrow> folder_row \<Rightarrow> uuid option \<Rightarrow> string \<Rightarrow> string \<Rightarrow> string option \<Rightarrow> string option \<Rightarrow> uuid \<Rightarrow> (api_error, acl_db) result" where
  "move_write db current new_parent new_slug parent_path display_name description who =
    (let new_path = parent_path @ ''/'' @ new_slug;
         u = (\<lambda>f. f\<lparr>fo_parent_id := new_parent, fo_slug := new_slug, fo_path := new_path,
           fo_display_name := coalesce display_name (fo_display_name f),
           fo_description := coalesce description (fo_description f), fo_updated_by := who\<rparr>) in
     if folder_conflict (db_folders db) (u current) then Inl (conflict_error new_slug)
     else (case rewrite_paths (fo_workspace_id current) (fo_path current) new_path who
           (update_row (fo_id current) u (db_folders db)) of
         None \<Rightarrow> Inl Internal
       | Some fs \<Rightarrow> Inr (db\<lparr>db_folders := fs\<rparr>)))"

definition update_folder ::
  "acl_db \<Rightarrow> auth_user \<Rightarrow> uuid \<Rightarrow> string option \<Rightarrow> uuid option \<Rightarrow> string option \<Rightarrow> string option \<Rightarrow> (api_error, acl_db) result" where
  "update_folder db user i slug parent display_name description = (case folder_by_id db i of
      None \<Rightarrow> Inl (NotFound ''folder not found'')
    | Some current \<Rightarrow>
        (case require_object_role db user \<lparr>or_kind = Folder, or_id = i\<rparr> Editor of
           Inl e \<Rightarrow> Inl (map_to_api_error e)
         | Inr _ \<Rightarrow>
             (case (case slug of Some s \<Rightarrow> validate_slug s | None \<Rightarrow> Inr ()) of
                Inl e \<Rightarrow> Inl e
              | Inr _ \<Rightarrow>
                  let new_slug = coalesce slug (fo_slug current);
                      new_parent = (case parent of Some p \<Rightarrow> Some p | None \<Rightarrow> fo_parent_id current) in
                  if new_slug \<noteq> fo_slug current \<or> new_parent \<noteq> fo_parent_id current then
                    (case move_parent_path db current new_parent of
                       Inl e \<Rightarrow> Inl e
                     | Inr parent_path \<Rightarrow>
                         move_write db current new_parent new_slug parent_path display_name description (au_user_id user))
                  else Inr (db\<lparr>db_folders := update_row i (\<lambda>f. f\<lparr>
                    fo_display_name := coalesce display_name (fo_display_name f),
                    fo_description := coalesce description (fo_description f),
                    fo_updated_by := au_user_id user\<rparr>) (db_folders db)\<rparr>))))"

text \<open>Deletion moves the children up one by one, then their subtrees; the folder is there until the end.\<close>

fun reparent_children ::
  "uuid \<Rightarrow> uuid option \<Rightarrow> string \<Rightarrow> uuid \<Rightarrow> (uuid \<times> string \<times> string) list \<Rightarrow> folder_row list \<Rightarrow> folder_row list option" where
  "reparent_children ws parent parent_path who [] fs = Some fs"
| "reparent_children ws parent parent_path who ((i, slug, old_path) # cs) fs =
    (let new_path = parent_path @ ''/'' @ slug;
         u = (\<lambda>f. f\<lparr>fo_parent_id := parent, fo_path := new_path, fo_updated_by := who\<rparr>);
         fs' = update_row i u fs in
     if list_ex (\<lambda>f. fo_id f = i \<and> folder_conflict fs' f) fs' then None
     else (case rewrite_paths ws old_path new_path who fs' of
         None \<Rightarrow> None
       | Some fs'' \<Rightarrow> reparent_children ws parent parent_path who cs fs''))"

definition delete_folder :: "acl_db \<Rightarrow> auth_user \<Rightarrow> uuid \<Rightarrow> (api_error, acl_db) result" where
  "delete_folder db user i = (case folder_by_id db i of
      None \<Rightarrow> Inl (NotFound ''folder not found'')
    | Some current \<Rightarrow>
        (case require_object_role db user \<lparr>or_kind = Folder, or_id = i\<rparr> Editor of
           Inl e \<Rightarrow> Inl (map_to_api_error e)
         | Inr _ \<Rightarrow>
             let parent_path = (case fo_parent_id current of
                   Some p \<Rightarrow> (case folder_by_id db p of Some f \<Rightarrow> fo_path f | None \<Rightarrow> [])
                 | None \<Rightarrow> []);
                 children = map (\<lambda>f. (fo_id f, fo_slug f, fo_path f)) (filter (\<lambda>f. fo_parent_id f = Some i) (db_folders db)) in
             (case reparent_children (fo_workspace_id current) (fo_parent_id current) parent_path (au_user_id user)
                 children (db_folders db) of
                None \<Rightarrow> Inl Internal
              | Some fs \<Rightarrow> Inr (db\<lparr>
                  db_folders := filter (\<lambda>f. fo_id f \<noteq> i) fs,
                  db_template_folders := (case fo_parent_id current of
                      Some p \<Rightarrow> map (\<lambda>x. if tf_folder_id x = i then x\<lparr>tf_folder_id := p, tf_moved_by := au_user_id user\<rparr> else x)
                        (db_template_folders db)
                    | None \<Rightarrow> filter (\<lambda>x. tf_folder_id x \<noteq> i) (db_template_folders db)),
                  db_grants := filter (\<lambda>g. \<not> (gr_object_type g = Folder \<and> gr_object_id g = i)) (db_grants db)\<rparr>))))"

definition template_base_id :: "acl_db \<Rightarrow> uuid \<Rightarrow> (api_error, uuid) result" where
  "template_base_id db i = (case template_by_id db i of
      Some t \<Rightarrow> Inr (chain_root t) | None \<Rightarrow> Inl (NotFound ''template not found''))"

definition set_template_folder :: "acl_db \<Rightarrow> auth_user \<Rightarrow> uuid \<Rightarrow> uuid option \<Rightarrow> (api_error, acl_db) result" where
  "set_template_folder db user i folder = (case template_workspace db i of
      Inl e \<Rightarrow> Inl (map_to_api_error e)
    | Inr ws \<Rightarrow>
        (case require_object_role db user \<lparr>or_kind = Template, or_id = i\<rparr> Editor of
           Inl e \<Rightarrow> Inl (map_to_api_error e)
         | Inr _ \<Rightarrow>
             (case template_base_id db i of
                Inl e \<Rightarrow> Inl e
              | Inr base \<Rightarrow>
                  (case folder of
                     Some fid \<Rightarrow>
                       if find (\<lambda>f. fo_id f = fid \<and> fo_workspace_id f = ws) (db_folders db) = None
                       then Inl (BadRequest ''folder not found in this template's workspace'')
                       else
                         let row = \<lparr>tf_base_template_id = base, tf_folder_id = fid, tf_workspace_id = ws, tf_moved_by = au_user_id user\<rparr> in
                         Inr (db\<lparr>db_template_folders :=
                           (if list_ex (\<lambda>x. tf_base_template_id x = base) (db_template_folders db)
                            then map (\<lambda>x. if tf_base_template_id x = base then row else x) (db_template_folders db)
                            else db_template_folders db @ [row])\<rparr>)
                   | None \<Rightarrow> Inr (db\<lparr>db_template_folders := filter (\<lambda>x. tf_base_template_id x \<noteq> base) (db_template_folders db)\<rparr>)))))"

section \<open>Paths\<close>

definition plain_char :: "char \<Rightarrow> bool" where
  "plain_char c \<longleftrightarrow> c \<noteq> CHR ''%'' \<and> c \<noteq> CHR ''_'' \<and> c \<noteq> CHR 0x5C"

lemma plain_slash [simp]: "plain_char (CHR ''/'')"
  by (simp add: plain_char_def)

lemma like_percent: "like s ''%''"
  by (induction s) auto

lemma like_plain:
  "list_all plain_char p \<Longrightarrow> like s (p @ q) \<longleftrightarrow> (\<exists>s'. s = p @ s' \<and> like s' q)"
proof (induction p arbitrary: s)
  case (Cons c p)
  then show ?case by (cases s) (auto simp: plain_char_def)
qed simp

lemma like_below: "list_all plain_char p \<Longrightarrow> like s (p @ ''/%'') \<longleftrightarrow> prefix (p @ ''/'') s"
proof -
  assume "list_all plain_char p"
  then have "list_all plain_char (p @ ''/'')" by (simp add: plain_char_def)
  from like_plain [OF this, of s "''%''"] show ?thesis
    by (simp add: like_percent prefix_def del: like.simps)
qed

lemma prefix_segment:
  assumes "CHR ''/'' \<notin> set s"
  shows "prefix (q @ ''/'') (p @ ''/'' @ s) \<longleftrightarrow> q = p \<or> prefix (q @ ''/'') p"
proof
  assume "prefix (q @ ''/'') (p @ ''/'' @ s)"
  then consider "prefix (q @ ''/'') p" | us where "q @ ''/'' = p @ us" "prefix us (''/'' @ s)"
    by (auto simp: prefix_append)
  then show "q = p \<or> prefix (q @ ''/'') p"
  proof cases
    case 2
    show ?thesis
    proof (cases us)
      case (Cons c v)
      then have v: "c = CHR ''/''" "prefix v s" using 2(2) by auto
      show ?thesis
      proof (cases "v = []")
        case False
        then have "last v = CHR ''/''" using 2(1) Cons by (metis append_is_Nil_conv last_ConsL last_ConsR last_appendR list.distinct(1))
        then have "CHR ''/'' \<in> set s" using v(2) False by (metis last_in_set set_mono_prefix subsetD)
        then show ?thesis using assms by simp
      qed (use 2 Cons v in auto)
    qed (use 2 in auto)
  qed simp
next
  assume "q = p \<or> prefix (q @ ''/'') p"
  then show "prefix (q @ ''/'') (p @ ''/'' @ s)" by (auto simp: prefix_append)
qed

lemma slug_no_slash: "list_all slug_char s \<Longrightarrow> CHR ''/'' \<notin> set s"
  by (auto simp: list_all_iff slug_char_def)

lemma slug_plain: "slug_char c \<Longrightarrow> plain_char c"
  by (auto simp: slug_char_def plain_char_def Let_def)

section \<open>The tree\<close>

definition core :: "folder_row \<Rightarrow> uuid \<times> uuid \<times> uuid option \<times> string \<times> string" where
  "core f = (fo_id f, fo_workspace_id f, fo_parent_id f, fo_slug f, fo_path f)"

text \<open>A folder hangs at its parent: its path is the parent's with the slug added.\<close>

definition hangs :: "folder_row list \<Rightarrow> folder_row \<Rightarrow> bool" where
  "hangs fs f \<longleftrightarrow> (case fo_parent_id f of
      None \<Rightarrow> fo_path f = ''/'' @ fo_slug f
    | Some p \<Rightarrow> \<exists>g \<in> set fs. fo_id g = p \<and> fo_workspace_id g = fo_workspace_id f \<and> fo_path f = fo_path g @ ''/'' @ fo_slug f)"

definition tree_ok :: "folder_row list \<Rightarrow> bool" where
  "tree_ok fs \<longleftrightarrow> distinct (map fo_id fs) \<and>
    (\<forall>f \<in> set fs. fo_slug f \<noteq> [] \<and> list_all slug_char (fo_slug f) \<and> hangs fs f) \<and>
    (\<forall>f \<in> set fs. \<forall>g \<in> set fs. fo_workspace_id f = fo_workspace_id g \<and> fo_path f = fo_path g \<longrightarrow> fo_id f = fo_id g)"

lemma tree_okD:
  assumes "tree_ok fs" and "f \<in> set fs"
  shows "list_all slug_char (fo_slug f)" "hangs fs f" "fo_slug f \<noteq> []"
    "g \<in> set fs \<Longrightarrow> fo_workspace_id f = fo_workspace_id g \<Longrightarrow> fo_path f = fo_path g \<Longrightarrow> f = g"
    "g \<in> set fs \<Longrightarrow> fo_id f = fo_id g \<Longrightarrow> f = g"
proof -
  have inj: "f = g" if "g \<in> set fs" "fo_id f = fo_id g" for g
    using assms that by (metis (no_types, lifting) distinct_map inj_onD tree_ok_def)
  show "list_all slug_char (fo_slug f)" "hangs fs f" "fo_slug f \<noteq> []" using assms by (auto simp: tree_ok_def)
  show "f = g" if "g \<in> set fs" "fo_workspace_id f = fo_workspace_id g" "fo_path f = fo_path g"
  proof (rule inj [OF that(1)])
    show "fo_id f = fo_id g" using assms that unfolding tree_ok_def by blast
  qed
  show "g \<in> set fs \<Longrightarrow> fo_id f = fo_id g \<Longrightarrow> f = g" by (rule inj)
qed

lemma tree_distinct: "tree_ok fs \<Longrightarrow> distinct (map fo_id fs)"
  by (simp add: tree_ok_def)

lemma tree_okI:
  assumes "distinct (map fo_id fs)"
    and "\<And>f. f \<in> set fs \<Longrightarrow> fo_slug f \<noteq> []" and "\<And>f. f \<in> set fs \<Longrightarrow> list_all slug_char (fo_slug f)"
    and "\<And>f. f \<in> set fs \<Longrightarrow> hangs fs f"
    and "\<And>f g. f \<in> set fs \<Longrightarrow> g \<in> set fs \<Longrightarrow> fo_workspace_id f = fo_workspace_id g \<Longrightarrow> fo_path f = fo_path g \<Longrightarrow> fo_id f = fo_id g"
  shows "tree_ok fs"
  unfolding tree_ok_def using assms by blast

text \<open>Induction along the parents.\<close>

lemma tree_induct [consumes 2, case_names Root Child]:
  assumes "tree_ok fs" and "f \<in> set fs"
    and root: "\<And>f. f \<in> set fs \<Longrightarrow> fo_parent_id f = None \<Longrightarrow> fo_path f = ''/'' @ fo_slug f \<Longrightarrow> P f"
    and child: "\<And>f g. f \<in> set fs \<Longrightarrow> g \<in> set fs \<Longrightarrow> fo_parent_id f = Some (fo_id g) \<Longrightarrow> fo_workspace_id g = fo_workspace_id f \<Longrightarrow>
      fo_path f = fo_path g @ ''/'' @ fo_slug f \<Longrightarrow> P g \<Longrightarrow> P f"
  shows "P f"
  using assms(2)
proof (induction "length (fo_path f)" arbitrary: f rule: less_induct)
  case less
  show ?case
  proof (cases "fo_parent_id f")
    case None
    then show ?thesis using root less.prems tree_okD(2) [OF assms(1) less.prems] by (simp add: hangs_def)
  next
    case (Some p)
    then obtain g where g: "g \<in> set fs" "fo_id g = p" "fo_workspace_id g = fo_workspace_id f" "fo_path f = fo_path g @ ''/'' @ fo_slug f"
      using tree_okD(2) [OF assms(1) less.prems] by (auto simp: hangs_def)
    then show ?thesis using child [OF less.prems g(1)] Some less.hyps [of g] by simp
  qed
qed

lemma slugs_plain: "tree_ok fs \<Longrightarrow> f \<in> set fs \<Longrightarrow> list_all plain_char (fo_slug f)"
  using tree_okD(1) slug_plain by (force simp: list_all_iff)

lemma tree_path_plain:
  assumes tree: "tree_ok fs" and "f \<in> set fs"
  shows "list_all plain_char (fo_path f) \<and> fo_path f \<noteq> []"
  using assms(2)
proof (induction rule: tree_induct [OF tree, consumes 1, case_names Root Child])
  case (Root f)
  then show ?case using slugs_plain [OF tree] by simp
next
  case (Child f g)
  then show ?case using slugs_plain [OF tree] by simp
qed

lemma tree_like:
  assumes "tree_ok fs" and "a \<in> set fs"
  shows "like s (fo_path a @ ''/%'') \<longleftrightarrow> prefix (fo_path a @ ''/'') s"
  using tree_path_plain [OF assms] by (simp add: like_below)

lemma tree_segment:
  assumes "tree_ok fs" and "f \<in> set fs"
  shows "prefix (q @ ''/'') (p @ ''/'' @ fo_slug f) \<longleftrightarrow> q = p \<or> prefix (q @ ''/'') p"
  using prefix_segment [OF slug_no_slash] tree_okD(1) [OF assms] by blast

text \<open>Every prefix of a path that ends at a slash is the path of a folder.\<close>

lemma tree_prefix_closed:
  assumes tree: "tree_ok fs" and "f \<in> set fs" and "prefix (q @ ''/'') (fo_path f)" and "q \<noteq> []"
  shows "\<exists>g \<in> set fs. fo_workspace_id g = fo_workspace_id f \<and> fo_path g = q"
  using assms(2,3)
proof (induction rule: tree_induct [OF tree, consumes 1, case_names Root Child])
  case (Root f)
  then show ?case using tree_segment [OF tree, of f q "[]"] assms(4) by simp
next
  case (Child f g)
  then show ?case using tree_segment [OF tree, of f q "fo_path g"] by auto
qed

inductive ancestor :: "folder_row list \<Rightarrow> folder_row \<Rightarrow> folder_row \<Rightarrow> bool" for fs where
  Self: "f \<in> set fs \<Longrightarrow> ancestor fs f f"
| Up: "f \<in> set fs \<Longrightarrow> g \<in> set fs \<Longrightarrow> fo_parent_id f = Some (fo_id g) \<Longrightarrow> ancestor fs g a \<Longrightarrow> ancestor fs f a"

lemma parent_row:
  assumes "tree_ok fs" and "f \<in> set fs" and "g \<in> set fs" and "fo_parent_id f = Some (fo_id g)"
  shows "fo_workspace_id g = fo_workspace_id f \<and> fo_path f = fo_path g @ ''/'' @ fo_slug f"
proof -
  obtain g' where "g' \<in> set fs" "fo_id g' = fo_id g" "fo_workspace_id g' = fo_workspace_id f" "fo_path f = fo_path g' @ ''/'' @ fo_slug f"
    using tree_okD(2) [OF assms(1,2)] assms(4) by (auto simp: hangs_def)
  then show ?thesis using tree_okD(5) [OF assms(1) _ assms(3)] by metis
qed

lemma ancestor_path:
  assumes tree: "tree_ok fs" and "ancestor fs f a"
  shows "fo_workspace_id a = fo_workspace_id f \<and> (fo_path f = fo_path a \<or> prefix (fo_path a @ ''/'') (fo_path f))"
  using assms(2)
proof induction
  case (Up f g a)
  then show ?case using parent_row [OF tree Up.hyps(1-3)] tree_segment [OF tree Up.hyps(1), of "fo_path a" "fo_path g"] by auto
qed simp

lemma path_ancestor:
  assumes tree: "tree_ok fs" and "f \<in> set fs" and a: "a \<in> set fs"
    and "fo_workspace_id a = fo_workspace_id f" and "fo_path f = fo_path a \<or> prefix (fo_path a @ ''/'') (fo_path f)"
  shows "ancestor fs f a"
  using assms(2,4,5)
proof (induction rule: tree_induct [OF tree, consumes 1, case_names Root Child])
  case (Root f)
  then have "fo_path f = fo_path a"
    using tree_segment [OF tree Root.hyps(1), of "fo_path a" "[]"] tree_path_plain [OF tree a] by auto
  then show ?case using tree_okD(4) [OF tree Root.hyps(1) a] Root by (metis Self)
next
  case (Child f g)
  show ?case
  proof (cases "fo_path f = fo_path a")
    case True
    then show ?thesis using tree_okD(4) [OF tree Child.hyps(1) a] Child by (metis Self)
  next
    case False
    then have "fo_path g = fo_path a \<or> prefix (fo_path a @ ''/'') (fo_path g)"
      using Child tree_segment [OF tree Child.hyps(1), of "fo_path a" "fo_path g"] by auto
    then show ?thesis using Child by (intro Up [OF Child.hyps(1,2)]) auto
  qed
qed

lemma under_path_iff:
  assumes "tree_ok fs" and "f \<in> set fs" and "a \<in> set fs" and "fo_workspace_id a = fo_workspace_id f"
  shows "under_path (fo_path f) (fo_path a) \<longleftrightarrow> ancestor fs f a"
  using ancestor_path [OF assms(1)] path_ancestor [OF assms] tree_like [OF assms(1,3)] by (auto simp: under_path_def)

section \<open>Moves keep the tree\<close>

definition move_path :: "string \<Rightarrow> string \<Rightarrow> string \<Rightarrow> string" where
  "move_path old new p = (if p = old \<or> prefix (old @ ''/'') p then new @ drop (length old) p else p)"

text \<open>
  A relocation gives one folder a new parent and slug and moves the paths of its subtree. It is
  sound when the new parent is outside the subtree and the new path is free.
\<close>

definition inside :: "folder_row \<Rightarrow> string \<Rightarrow> bool" where
  "inside cur p \<longleftrightarrow> p = fo_path cur \<or> prefix (fo_path cur @ ''/'') p"

definition relocates ::
  "folder_row list \<Rightarrow> folder_row \<Rightarrow> uuid option \<Rightarrow> string \<Rightarrow> string \<Rightarrow> (folder_row \<Rightarrow> folder_row) \<Rightarrow> bool" where
  "relocates fs cur parent slug new h \<longleftrightarrow> tree_ok fs \<and> cur \<in> set fs \<and> slug \<noteq> [] \<and> list_all slug_char slug \<and>
    (\<forall>f \<in> set fs. core (h f) = (fo_id f, fo_workspace_id f, if f = cur then parent else fo_parent_id f,
      if f = cur then slug else fo_slug f,
      if fo_workspace_id f = fo_workspace_id cur then move_path (fo_path cur) new (fo_path f) else fo_path f)) \<and>
    (case parent of None \<Rightarrow> new = ''/'' @ slug
      | Some p \<Rightarrow> \<exists>g \<in> set fs. fo_id g = p \<and> fo_workspace_id g = fo_workspace_id cur \<and> new = fo_path g @ ''/'' @ slug \<and>
          \<not> inside cur (fo_path g)) \<and>
    (\<forall>g \<in> set fs. fo_workspace_id g = fo_workspace_id cur \<and> fo_path g = new \<longrightarrow> g = cur)"

lemma relocatesD:
  assumes "relocates fs cur parent slug new h"
  shows "tree_ok fs" "cur \<in> set fs" "slug \<noteq> []" "list_all slug_char slug"
    "case parent of None \<Rightarrow> new = ''/'' @ slug
      | Some p \<Rightarrow> \<exists>g \<in> set fs. fo_id g = p \<and> fo_workspace_id g = fo_workspace_id cur \<and> new = fo_path g @ ''/'' @ slug \<and>
          \<not> inside cur (fo_path g)"
    "g \<in> set fs \<Longrightarrow> fo_workspace_id g = fo_workspace_id cur \<Longrightarrow> fo_path g = new \<Longrightarrow> g = cur"
  using assms by (auto simp: relocates_def)

lemma row_simps:
  assumes "relocates fs cur parent slug new h" and "f \<in> set fs"
  shows "fo_id (h f) = fo_id f" "fo_workspace_id (h f) = fo_workspace_id f"
    "fo_parent_id (h f) = (if f = cur then parent else fo_parent_id f)" "fo_slug (h f) = (if f = cur then slug else fo_slug f)"
    "fo_path (h f) = (if fo_workspace_id f = fo_workspace_id cur then move_path (fo_path cur) new (fo_path f) else fo_path f)"
proof -
  have "core (h f) = (fo_id f, fo_workspace_id f, if f = cur then parent else fo_parent_id f,
      if f = cur then slug else fo_slug f,
      if fo_workspace_id f = fo_workspace_id cur then move_path (fo_path cur) new (fo_path f) else fo_path f)"
    using assms by (simp add: relocates_def)
  then show "fo_id (h f) = fo_id f" "fo_workspace_id (h f) = fo_workspace_id f"
    "fo_parent_id (h f) = (if f = cur then parent else fo_parent_id f)" "fo_slug (h f) = (if f = cur then slug else fo_slug f)"
    "fo_path (h f) = (if fo_workspace_id f = fo_workspace_id cur then move_path (fo_path cur) new (fo_path f) else fo_path f)"
    by (auto simp: core_def)
qed

lemma inside_child:
  assumes tree: "tree_ok fs" and "cur \<in> set fs" and f: "f \<in> set fs" "g \<in> set fs" "fo_parent_id f = Some (fo_id g)"
    and "f \<noteq> cur" and "fo_workspace_id f = fo_workspace_id cur"
  shows "inside cur (fo_path f) \<longleftrightarrow> inside cur (fo_path g)"
proof -
  have "fo_path f \<noteq> fo_path cur" using tree_okD(4) [OF tree f(1) assms(2)] assms(6,7) by blast
  then show ?thesis
    using parent_row [OF tree f] tree_segment [OF tree f(1), of "fo_path cur" "fo_path g"] by (auto simp: inside_def)
qed

lemma below_new:
  assumes rel: "relocates fs cur parent slug new h" and f: "f \<in> set fs" "fo_workspace_id f = fo_workspace_id cur"
    and "prefix (new @ ''/'') (fo_path f)"
  shows "new = fo_path cur"
proof -
  have "new \<noteq> []" using relocatesD(3,5) [OF rel] by (auto split: option.splits)
  then obtain g where "g \<in> set fs" "fo_workspace_id g = fo_workspace_id f" "fo_path g = new"
    using tree_prefix_closed [OF relocatesD(1) [OF rel] f(1) assms(4)] by blast
  then show ?thesis using relocatesD(6) [OF rel] f(2) by auto
qed

lemma moved_or_not:
  assumes rel: "relocates fs cur parent slug new h"
    and x: "inside cur (fo_path x)" and y: "y \<in> set fs" "fo_workspace_id y = fo_workspace_id cur" "\<not> inside cur (fo_path y)"
  shows "new @ drop (length (fo_path cur)) (fo_path x) \<noteq> fo_path y"
proof
  assume eq: "new @ drop (length (fo_path cur)) (fo_path x) = fo_path y"
  show False
  proof (cases "fo_path x = fo_path cur")
    case True
    then have "y = cur" using relocatesD(6) [OF rel y(1,2)] eq by simp
    then show ?thesis using y(3) by (simp add: inside_def)
  next
    case False
    then obtain r where "fo_path x = fo_path cur @ ''/'' @ r" using x by (auto simp: inside_def prefix_def)
    then have "fo_path y = (new @ ''/'') @ r" using eq by simp
    then show ?thesis using below_new [OF rel y(1,2)] y(3) by (auto simp: inside_def)
  qed
qed

lemma move_inj:
  assumes rel: "relocates fs cur parent slug new h" and f: "f \<in> set fs" "fo_workspace_id f = fo_workspace_id cur"
    and g: "g \<in> set fs" "fo_workspace_id g = fo_workspace_id cur"
    and eq: "move_path (fo_path cur) new (fo_path f) = move_path (fo_path cur) new (fo_path g)"
  shows "fo_path f = fo_path g"
proof -
  have both: "p = q" if "inside cur p" "inside cur q" "drop (length (fo_path cur)) p = drop (length (fo_path cur)) q" for p q
    using that by (auto simp: inside_def prefix_def)
  have mp: "move_path (fo_path cur) new p = (if inside cur p then new @ drop (length (fo_path cur)) p else p)" for p
    by (simp add: move_path_def inside_def)
  show ?thesis
    using eq moved_or_not [OF rel _ g, of f] moved_or_not [OF rel _ f, of g] both [of "fo_path f" "fo_path g"]
    by (auto simp: mp split: if_splits)
qed

lemma hangs_moved:
  assumes rel: "relocates fs cur parent slug new h" and f: "f \<in> set fs"
  shows "hangs (map h fs) (h f)"
proof (cases "f = cur")
  case True
  have path: "fo_path (h f) = new" using row_simps(5) [OF rel f] True by (simp add: move_path_def)
  show ?thesis
  proof (cases parent)
    case None
    then show ?thesis using relocatesD(5) [OF rel] path row_simps [OF rel f] True by (simp add: hangs_def)
  next
    case (Some p)
    then obtain g where g: "g \<in> set fs" "fo_id g = p" "fo_workspace_id g = fo_workspace_id cur" "new = fo_path g @ ''/'' @ slug"
      "\<not> inside cur (fo_path g)" using relocatesD(5) [OF rel] by auto
    then have "fo_path (h g) = fo_path g" using row_simps(5) [OF rel g(1)] by (simp add: move_path_def inside_def)
    then show ?thesis using g Some path row_simps [OF rel f] row_simps [OF rel g(1)] True
      by (auto simp: hangs_def intro!: bexI [of _ g])
  qed
next
  case False
  note tree = relocatesD(1) [OF rel] and cur = relocatesD(2) [OF rel]
  show ?thesis
  proof (cases "fo_parent_id f")
    case None
    then have p: "fo_path f = ''/'' @ fo_slug f" using tree_okD(2) [OF tree f] by (simp add: hangs_def)
    have "\<not> inside cur (fo_path f)" if "fo_workspace_id f = fo_workspace_id cur"
      using tree_okD(4) [OF tree f cur that] False p tree_segment [OF tree f, of "fo_path cur" "[]"]
        tree_path_plain [OF tree cur] by (auto simp: inside_def)
    then show ?thesis using None p False row_simps [OF rel f] by (simp add: hangs_def move_path_def inside_def)
  next
    case (Some p)
    then obtain g where g: "g \<in> set fs" "fo_parent_id f = Some (fo_id g)"
      using tree_okD(2) [OF tree f] by (auto simp: hangs_def)
    note pr = parent_row [OF tree f g]
    have "fo_path (h f) = fo_path (h g) @ ''/'' @ fo_slug f"
    proof (cases "fo_workspace_id f = fo_workspace_id cur \<and> inside cur (fo_path g)")
      case True
      then have "length (fo_path cur) \<le> length (fo_path g)" by (auto simp: inside_def prefix_def)
      then show ?thesis using True pr inside_child [OF tree cur f g False] row_simps(5) [OF rel f] row_simps(5) [OF rel g(1)]
        by (simp add: move_path_def inside_def)
    next
      case out: False
      then show ?thesis using pr inside_child [OF tree cur f g False] row_simps(5) [OF rel f] row_simps(5) [OF rel g(1)]
        by (auto simp: move_path_def inside_def)
    qed
    then show ?thesis using g pr False row_simps [OF rel f] row_simps [OF rel g(1)]
      by (auto simp: hangs_def intro!: bexI [of _ g])
  qed
qed

lemma relocated_tree:
  assumes rel: "relocates fs cur parent slug new h"
  shows "tree_ok (map h fs)"
  unfolding tree_ok_def
proof (intro conjI ballI impI)
  have "map fo_id (map h fs) = map fo_id fs" unfolding map_map by (rule map_cong) (simp_all add: row_simps(1) [OF rel])
  then show "distinct (map fo_id (map h fs))" using relocatesD(1) [OF rel] unfolding tree_ok_def by argo
next
  fix f' assume "f' \<in> set (map h fs)"
  then obtain f where f: "f \<in> set fs" "f' = h f" by auto
  show "fo_slug f' \<noteq> []" "list_all slug_char (fo_slug f')"
    using f row_simps(4) [OF rel f(1)] relocatesD(3,4) [OF rel] tree_okD(1,3) [OF relocatesD(1) [OF rel] f(1)] by simp_all
  show "hangs (map h fs) f'" using hangs_moved [OF rel] f by simp
next
  fix f' g' assume "f' \<in> set (map h fs)" "g' \<in> set (map h fs)"
    and same: "fo_workspace_id f' = fo_workspace_id g' \<and> fo_path f' = fo_path g'"
  then obtain f g where f: "f \<in> set fs" "f' = h f" and g: "g \<in> set fs" "g' = h g" by auto
  have ws: "fo_workspace_id f = fo_workspace_id g" using same f g row_simps(2) [OF rel] by auto
  have "fo_path f = fo_path g"
  proof (cases "fo_workspace_id f = fo_workspace_id cur")
    case True
    then show ?thesis using same f g ws row_simps(5) [OF rel f(1)] row_simps(5) [OF rel g(1)]
      by (intro move_inj [OF rel f(1) _ g(1)]) auto
  next
    case False
    then show ?thesis using same f g ws row_simps(5) [OF rel f(1)] row_simps(5) [OF rel g(1)] by auto
  qed
  then have "f = g" by (rule tree_okD(4) [OF relocatesD(1) [OF rel] f(1) g(1) ws])
  then show "fo_id f' = fo_id g'" using f g by simp
qed

text \<open>The rows after a move, as the handlers compute them.\<close>

lemma move_rows:
  assumes tree: "tree_ok fs" and cur: "cur \<in> set fs" and slug: "slug \<noteq> []" "list_all slug_char slug"
    and parent: "case parent of None \<Rightarrow> new = ''/'' @ slug
      | Some p \<Rightarrow> \<exists>g \<in> set fs. fo_id g = p \<and> fo_workspace_id g = fo_workspace_id cur \<and> new = fo_path g @ ''/'' @ slug \<and>
          \<not> inside cur (fo_path g)"
    and free: "\<And>g. g \<in> set fs \<Longrightarrow> fo_workspace_id g = fo_workspace_id cur \<Longrightarrow> fo_path g = new \<Longrightarrow> g = cur"
    and u: "core (u cur) = (fo_id cur, fo_workspace_id cur, parent, slug, new)"
  shows "relocates fs cur parent slug new
    (\<lambda>f. rewrite_row (fo_workspace_id cur) (fo_path cur) new who (if fo_id f = fo_id cur then u f else f))"
proof -
  have seg: "prefix (fo_path cur @ ''/'') (p @ ''/'' @ slug) \<longleftrightarrow> fo_path cur = p \<or> prefix (fo_path cur @ ''/'') p" for p
    by (rule prefix_segment [OF slug_no_slash [OF slug(2)]])
  have out: "\<not> prefix (fo_path cur @ ''/'') new"
  proof (cases parent)
    case None
    then show ?thesis using parent seg [of "[]"] tree_path_plain [OF tree cur] by simp
  next
    case (Some p)
    then show ?thesis using parent seg by (auto simp: inside_def)
  qed
  have "core (rewrite_row (fo_workspace_id cur) (fo_path cur) new who (if fo_id f = fo_id cur then u f else f)) =
      (fo_id f, fo_workspace_id f, if f = cur then parent else fo_parent_id f, if f = cur then slug else fo_slug f,
       if fo_workspace_id f = fo_workspace_id cur then move_path (fo_path cur) new (fo_path f) else fo_path f)"
    if f: "f \<in> set fs" for f
  proof (cases "f = cur")
    case True
    then show ?thesis using u out by (simp add: core_def rewrite_row_def tree_like [OF tree cur] move_path_def)
  next
    case False
    then have "fo_id f \<noteq> fo_id cur" using tree_okD(5) [OF tree f cur] by blast
    moreover have "fo_path f \<noteq> fo_path cur" if "fo_workspace_id f = fo_workspace_id cur"
      using tree_okD(4) [OF tree f cur that] False by blast
    ultimately show ?thesis using False by (simp add: core_def rewrite_row_def tree_like [OF tree cur] move_path_def)
  qed
  then show ?thesis using assms unfolding relocates_def by blast
qed

lemma rewrite_paths_map: "rewrite_paths ws old new who fs = Some gs \<Longrightarrow> gs = map (rewrite_row ws old new who) fs"
  by (simp add: rewrite_paths_def split: if_splits)

lemma rewritten_update:
  assumes "rewrite_paths ws old new who (update_row i u fs) = Some gs"
  shows "gs = map (\<lambda>f. rewrite_row ws old new who (if fo_id f = i then u f else f)) fs"
  using rewrite_paths_map [OF assms] by (simp add: update_row_def comp_def)

text \<open>A relocation whose path is free rewrites the subtree without a conflict.\<close>

lemma rewrite_succeeds:
  assumes tree: "tree_ok fs" and cur: "cur \<in> set fs" and u: "fo_id (u cur) = fo_id cur" "fo_workspace_id (u cur) = fo_workspace_id cur" "fo_path (u cur) = new"
    and rel: "relocates fs cur parent slug new h" and out: "\<not> prefix (fo_path cur @ ''/'') new"
  shows "rewrite_paths (fo_workspace_id cur) (fo_path cur) new who (update_row (fo_id cur) u fs) \<noteq> None"
proof -
  let ?w = "\<lambda>f. if fo_id f = fo_id cur then u f else f"
  let ?r = "rewrite_row (fo_workspace_id cur) (fo_path cur) new who"
  have no: False if f: "f \<in> set fs" "fo_path (?r (?w f)) \<noteq> fo_path (?w f)"
    and g: "g \<in> set fs" "fo_workspace_id (?w g) = fo_workspace_id cur" "fo_path (?w g) = fo_path (?r (?w f))" for f g
  proof -
    have fc: "f \<noteq> cur" using f(2) u out by (auto simp: rewrite_row_def tree_like [OF tree cur])
    then have wf: "?w f = f" using tree_okD(5) [OF tree f(1) cur] by auto
    have below: "prefix (fo_path cur @ ''/'') (fo_path f)" and ws: "fo_workspace_id f = fo_workspace_id cur"
      using f(2) unfolding wf by (auto simp: rewrite_row_def tree_like [OF tree cur] split: if_splits)
    then obtain r where r: "fo_path f = fo_path cur @ ''/'' @ r" by (auto simp: prefix_def)
    have q: "fo_path (?w g) = new @ ''/'' @ r"
      using g(3) r ws unfolding wf by (simp add: rewrite_row_def tree_like [OF tree cur])
    show False
    proof (cases "g = cur")
      case True
      then show ?thesis using q u(3) by simp
    next
      case False
      then have "?w g = g" using tree_okD(5) [OF tree g(1) cur] by auto
      then have "new = fo_path cur" using below_new [OF rel g(1)] g(2) q by (auto simp: prefix_def)
      then show ?thesis using f(2) r unfolding wf by (auto simp: rewrite_row_def split: if_splits)
    qed
  qed
  have "\<not> list_ex (\<lambda>f. fo_path (?r f) \<noteq> fo_path f \<and>
      list_ex (\<lambda>g. fo_workspace_id g = fo_workspace_id cur \<and> fo_path g = fo_path (?r f)) (map ?w fs)) (map ?w fs)"
    unfolding list_ex_iff set_map using no by blast
  then show ?thesis unfolding rewrite_paths_def update_row_def by simp
qed

section \<open>Every handler keeps the tree\<close>

lemma tree_ok_append:
  assumes tree: "tree_ok fs" and "fo_id f \<notin> fo_id ` set fs" and "fo_slug f \<noteq> []" "list_all slug_char (fo_slug f)"
    and "hangs fs f" and "\<And>g. g \<in> set fs \<Longrightarrow> fo_workspace_id g = fo_workspace_id f \<Longrightarrow> fo_path g \<noteq> fo_path f"
  shows "tree_ok (fs @ [f])"
proof -
  have mono: "hangs (fs @ [f]) g" if "hangs fs g" for g
    using that by (auto simp: hangs_def split: option.splits)
  show ?thesis
  proof (rule tree_okI)
    show "distinct (map fo_id (fs @ [f]))" using tree_distinct [OF tree] assms(2) by simp
  next
    fix g assume "g \<in> set (fs @ [f])"
    then show "fo_slug g \<noteq> []" "list_all slug_char (fo_slug g)" "hangs (fs @ [f]) g"
      using assms(3-5) mono tree_okD(1-3) [OF tree] by auto
  next
    fix x y assume xy: "x \<in> set (fs @ [f])" "y \<in> set (fs @ [f])" "fo_workspace_id x = fo_workspace_id y" "fo_path x = fo_path y"
    show "fo_id x = fo_id y"
    proof (cases "x = f \<or> y = f")
      case True
      then show ?thesis using xy assms(6) [of x] assms(6) [of y] by auto
    next
      case False
      then show ?thesis using xy tree_okD(4) [OF tree, of x y] by auto
    qed
  qed
qed

lemma tree_ok_core:
  assumes "tree_ok fs" and "\<And>f. core (h f) = core f"
  shows "tree_ok (map h fs)"
proof -
  have c: "fo_id (h f) = fo_id f" "fo_workspace_id (h f) = fo_workspace_id f" "fo_parent_id (h f) = fo_parent_id f"
    "fo_slug (h f) = fo_slug f" "fo_path (h f) = fo_path f" for f
    using assms(2) [of f] by (auto simp: core_def)
  show ?thesis
  proof (rule tree_okI)
    show "distinct (map fo_id (map h fs))" using tree_distinct [OF assms(1)] by (simp add: c comp_def)
  next
    fix g assume "g \<in> set (map h fs)"
    then obtain f where f: "f \<in> set fs" "g = h f" by auto
    then show "fo_slug g \<noteq> []" "list_all slug_char (fo_slug g)" using tree_okD(1,3) [OF assms(1)] by (auto simp: c)
    show "hangs (map h fs) g" using tree_okD(2) [OF assms(1) f(1)] f by (auto simp: hangs_def c split: option.splits)
  next
    fix x y assume xy: "x \<in> set (map h fs)" "y \<in> set (map h fs)" "fo_workspace_id x = fo_workspace_id y" "fo_path x = fo_path y"
    then obtain f g where fg: "f \<in> set fs" "x = h f" "g \<in> set fs" "y = h g" by auto
    then show "fo_id x = fo_id y" using tree_okD(4) [OF assms(1) fg(1,3)] xy by (simp add: c)
  qed
qed

lemma tree_ok_remove:
  assumes "tree_ok fs" and "\<And>f. f \<in> set fs \<Longrightarrow> fo_parent_id f \<noteq> Some i"
  shows "tree_ok (filter (\<lambda>f. fo_id f \<noteq> i) fs)"
proof (rule tree_okI)
  show "distinct (map fo_id (filter (\<lambda>f. fo_id f \<noteq> i) fs))" using tree_distinct [OF assms(1)] by (rule distinct_map_filter)
next
  fix f assume "f \<in> set (filter (\<lambda>f. fo_id f \<noteq> i) fs)"
  then have f: "f \<in> set fs" by simp
  show "fo_slug f \<noteq> []" "list_all slug_char (fo_slug f)" using tree_okD(1,3) [OF assms(1) f] by simp_all
  show "hangs (filter (\<lambda>f. fo_id f \<noteq> i) fs) f"
    using tree_okD(2) [OF assms(1) f] assms(2) [OF f] by (auto simp: hangs_def split: option.splits)
next
  fix f g assume "f \<in> set (filter (\<lambda>f. fo_id f \<noteq> i) fs)" "g \<in> set (filter (\<lambda>f. fo_id f \<noteq> i) fs)"
    "fo_workspace_id f = fo_workspace_id g" "fo_path f = fo_path g"
  then show "fo_id f = fo_id g" using tree_okD(4) [OF assms(1), of f g] by auto
qed

lemma find_folder:
  assumes "find (\<lambda>f. fo_id f = p \<and> fo_workspace_id f = ws) fs = Some f"
  shows "f \<in> set fs" "fo_id f = p" "fo_workspace_id f = ws"
  using find_SomeD [OF assms] by auto

lemma create_folder_tree:
  assumes "tree_ok (db_folders db)" and "new_id \<notin> fo_id ` set (db_folders db)"
    and "create_folder db user ws parent slug dn ds new_id = Inr db'"
  shows "tree_ok (db_folders db')"
proof -
  obtain pp f where pp: "(case parent of Some p \<Rightarrow> map_option fo_path (find (\<lambda>f. fo_id f = p \<and> fo_workspace_id f = ws) (db_folders db))
      | None \<Rightarrow> Some []) = Some pp" and slug: "slug \<noteq> []" "list_all slug_char slug"
    and db': "db_folders db' = db_folders db @ [f]" and f: "f = \<lparr>fo_id = new_id, fo_workspace_id = ws, fo_parent_id = parent, fo_slug = slug,
      fo_display_name = dn, fo_description = ds, fo_path = pp @ ''/'' @ slug, fo_created_by = au_user_id user,
      fo_updated_by = au_user_id user, fo_restricted = False\<rparr>" and free: "\<not> folder_conflict (db_folders db) f"
    using assms(3) unfolding create_folder_def validate_slug_def Let_def by (fastforce split: sum.splits option.splits if_splits)
  have "hangs (db_folders db) f"
  proof (cases parent)
    case None
    then show ?thesis using pp f by (simp add: hangs_def)
  next
    case (Some p)
    then obtain g where "find (\<lambda>f. fo_id f = p \<and> fo_workspace_id f = ws) (db_folders db) = Some g" "pp = fo_path g" using pp by auto
    then show ?thesis using find_folder f Some by (fastforce simp: hangs_def)
  qed
  moreover have "fo_path g \<noteq> fo_path f" if "g \<in> set (db_folders db)" "fo_workspace_id g = fo_workspace_id f" for g
    using free that assms(2) f by (auto simp: folder_conflict_def list_ex_iff)
  ultimately show ?thesis unfolding db' using slug f assms(1,2) by (intro tree_ok_append) auto
qed

text \<open>The identity of folders does not change, and a deleted folder is the only one that goes.\<close>

definition idents :: "folder_row list \<Rightarrow> (uuid \<times> uuid) set" where
  "idents fs = (\<lambda>f. (fo_id f, fo_workspace_id f)) ` set fs"

lemma idents_mapped:
  assumes "\<And>f. f \<in> set fs \<Longrightarrow> fo_id (h f) = fo_id f \<and> fo_workspace_id (h f) = fo_workspace_id f"
  shows "idents (map h fs) = idents fs"
  unfolding idents_def set_map image_image by (rule image_cong) (simp_all add: assms)

lemma move_parent_pathD:
  assumes "move_parent_path db cur (Some p) = Inr pp"
  shows "\<exists>g. find (\<lambda>f. fo_id f = p \<and> fo_workspace_id f = fo_workspace_id cur) (db_folders db) = Some g \<and>
    \<not> inside cur (fo_path g) \<and> pp = fo_path g"
proof (cases "find (\<lambda>f. fo_id f = p \<and> fo_workspace_id f = fo_workspace_id cur) (db_folders db)")
  case (Some g)
  then show ?thesis using assms unfolding move_parent_path_def inside_def by (simp split: if_splits)
qed (use assms in \<open>simp add: move_parent_path_def split: if_splits\<close>)

lemma move_write_tree:
  assumes tree: "tree_ok (db_folders db)" and cur: "folder_by_id db (fo_id cur) = Some cur"
    and parent: "move_parent_path db cur new_parent = Inr pp" and slug: "slug \<noteq> []" "list_all slug_char slug"
  shows "\<exists>db'. (folder_conflict (db_folders db) (cur\<lparr>fo_parent_id := new_parent, fo_slug := slug, fo_path := pp @ ''/'' @ slug\<rparr>) \<and>
      move_write db cur new_parent slug pp dn ds who = Inl (conflict_error slug)) \<or>
    (move_write db cur new_parent slug pp dn ds who = Inr (db\<lparr>db_folders := db'\<rparr>) \<and> tree_ok db' \<and> idents db' = idents (db_folders db))"
proof -
  let ?fs = "db_folders db" and ?new = "pp @ ''/'' @ slug"
  let ?u = "\<lambda>f. f\<lparr>fo_parent_id := new_parent, fo_slug := slug, fo_path := ?new,
    fo_display_name := coalesce dn (fo_display_name f), fo_description := coalesce ds (fo_description f), fo_updated_by := who\<rparr>"
  let ?h = "\<lambda>f. rewrite_row (fo_workspace_id cur) (fo_path cur) ?new who (if fo_id f = fo_id cur then ?u f else f)"
  have c: "cur \<in> set ?fs" using find_SomeD [OF cur] by simp
  have same: "folder_conflict ?fs (?u cur) = folder_conflict ?fs (cur\<lparr>fo_parent_id := new_parent, fo_slug := slug, fo_path := ?new\<rparr>)"
    by (simp add: folder_conflict_def)
  show ?thesis
  proof (cases "folder_conflict ?fs (?u cur)")
    case True
    then show ?thesis using same by (auto simp: move_write_def Let_def)
  next
    case False
    have par: "case new_parent of None \<Rightarrow> ?new = ''/'' @ slug
      | Some p \<Rightarrow> \<exists>g \<in> set ?fs. fo_id g = p \<and> fo_workspace_id g = fo_workspace_id cur \<and> ?new = fo_path g @ ''/'' @ slug \<and> \<not> inside cur (fo_path g)"
    proof (cases new_parent)
      case None
      then show ?thesis using parent by (simp add: move_parent_path_def)
    next
      case (Some p)
      obtain g where g: "find (\<lambda>f. fo_id f = p \<and> fo_workspace_id f = fo_workspace_id cur) ?fs = Some g"
        "\<not> inside cur (fo_path g)" "pp = fo_path g"
        using move_parent_pathD [OF parent [unfolded Some]] by blast
      show ?thesis using g(2,3) find_folder [OF g(1)] unfolding Some by auto
    qed
    have free: "g = cur" if "g \<in> set ?fs" "fo_workspace_id g = fo_workspace_id cur" "fo_path g = ?new" for g
      using False that tree_okD(5) [OF tree that(1) c] by (auto simp: folder_conflict_def list_ex_iff)
    have rel: "relocates ?fs cur new_parent slug ?new ?h"
      by (rule move_rows [OF tree c slug par free]) (simp_all add: core_def)
    have out: "\<not> prefix (fo_path cur @ ''/'') ?new"
    proof -
      have "\<not> inside cur pp"
      proof (cases new_parent)
        case None
        then show ?thesis using parent tree_path_plain [OF tree c] by (auto simp: move_parent_path_def inside_def)
      qed (use parent move_parent_pathD in blast)
      then show ?thesis using prefix_segment [OF slug_no_slash [OF slug(2)]] by (auto simp: inside_def)
    qed
    have "rewrite_paths (fo_workspace_id cur) (fo_path cur) ?new who (update_row (fo_id cur) ?u ?fs) \<noteq> None"
      by (rule rewrite_succeeds [OF tree c _ _ _ rel out]) simp_all
    then obtain gs where gs: "rewrite_paths (fo_workspace_id cur) (fo_path cur) ?new who (update_row (fo_id cur) ?u ?fs) = Some gs" by blast
    have "gs = map ?h ?fs" by (rule rewritten_update [OF gs])
    then have "tree_ok gs" "idents gs = idents ?fs"
      using relocated_tree [OF rel] row_simps(1,2) [OF rel] by (auto intro!: idents_mapped)
    then show ?thesis using False gs by (auto simp: move_write_def Let_def)
  qed
qed

lemma update_folder_tree:
  assumes tree: "tree_ok (db_folders db)" and "update_folder db user i slug parent dn ds = Inr db'"
  shows "tree_ok (db_folders db') \<and> idents (db_folders db') = idents (db_folders db) \<and> db'\<lparr>db_folders := []\<rparr> = db\<lparr>db_folders := []\<rparr>"
proof -
  obtain cur where cur: "folder_by_id db i = Some cur"
    using assms(2) by (auto simp: update_folder_def split: option.splits)
  then have c: "cur \<in> set (db_folders db)" "fo_id cur = i" using find_SomeD [OF cur] by auto
  let ?slug = "coalesce slug (fo_slug cur)" and ?parent = "case parent of Some p \<Rightarrow> Some p | None \<Rightarrow> fo_parent_id cur"
  have slug: "?slug \<noteq> []" "list_all slug_char ?slug"
    using assms(2) cur tree_okD(1,3) [OF tree c(1)]
    by (auto simp: update_folder_def validate_slug_def coalesce_def split: option.splits sum.splits if_splits)
  show ?thesis
  proof (cases "?slug \<noteq> fo_slug cur \<or> ?parent \<noteq> fo_parent_id cur")
    case True
    then obtain pp where pp: "move_parent_path db cur ?parent = Inr pp"
      "move_write db cur ?parent ?slug pp dn ds (au_user_id user) = Inr db'"
      using assms(2) cur by (auto simp: update_folder_def Let_def split: sum.splits option.splits if_splits)
    have "folder_by_id db (fo_id cur) = Some cur" using cur c(2) by simp
    from move_write_tree [OF tree this pp(1) slug, of dn ds "au_user_id user"] obtain fs where
      "db' = db\<lparr>db_folders := fs\<rparr>" "tree_ok fs" "idents fs = idents (db_folders db)"
      using pp(2) by auto
    then show ?thesis by simp
  next
    case False
    then have "db' = db\<lparr>db_folders := update_row i (\<lambda>f. f\<lparr>fo_display_name := coalesce dn (fo_display_name f),
        fo_description := coalesce ds (fo_description f), fo_updated_by := au_user_id user\<rparr>) (db_folders db)\<rparr>"
      using assms(2) cur by (auto simp: update_folder_def Let_def split: sum.splits option.splits if_splits)
    then show ?thesis using tree_ok_core [OF tree] by (auto simp: update_row_def core_def intro!: idents_mapped)
  qed
qed

text \<open>
  Deletion: the folder stays where it is while its children move up, each a relocation; the
  children that are left keep their rows.
\<close>

definition delete_inv :: "folder_row \<Rightarrow> string \<Rightarrow> (uuid \<times> string \<times> string) list \<Rightarrow> folder_row list \<Rightarrow> bool" where
  "delete_inv cur pp cs fs \<longleftrightarrow> tree_ok fs \<and> cur \<in> set fs \<and> fo_path cur = pp @ ''/'' @ fo_slug cur \<and>
    (case fo_parent_id cur of None \<Rightarrow> pp = []
      | Some p \<Rightarrow> \<exists>g \<in> set fs. fo_id g = p \<and> fo_workspace_id g = fo_workspace_id cur \<and> fo_path g = pp) \<and>
    distinct (map fst cs) \<and>
    (\<forall>(i, s, q) \<in> set cs. \<exists>f \<in> set fs. fo_id f = i \<and> fo_slug f = s \<and> fo_path f = q \<and> fo_parent_id f = Some (fo_id cur)) \<and>
    (\<forall>f \<in> set fs. fo_parent_id f = Some (fo_id cur) \<longrightarrow> fo_id f \<in> fst ` set cs)"

lemma not_inside_short: "length p < length (fo_path c) \<Longrightarrow> \<not> inside c p"
  by (auto simp: inside_def prefix_def)

lemma delete_step:
  assumes inv: "delete_inv cur pp ((i, s, q) # cs) fs"
    and ok: "\<not> list_ex (\<lambda>f. fo_id f = i \<and> folder_conflict (update_row i u fs) f) (update_row i u fs)"
    and u: "u = (\<lambda>f. f\<lparr>fo_parent_id := fo_parent_id cur, fo_path := pp @ ''/'' @ s, fo_updated_by := who\<rparr>)"
    and gs: "rewrite_paths (fo_workspace_id cur) q (pp @ ''/'' @ s) who (update_row i u fs) = Some gs"
  shows "delete_inv cur pp cs gs \<and> idents gs = idents fs"
proof -
  have tree: "tree_ok fs" and cur: "cur \<in> set fs" and cpath: "fo_path cur = pp @ ''/'' @ fo_slug cur" using inv by (auto simp: delete_inv_def)
  obtain c where c: "c \<in> set fs" "fo_id c = i" "fo_slug c = s" "fo_path c = q" "fo_parent_id c = Some (fo_id cur)"
    using inv by (auto simp: delete_inv_def)
  note pr = parent_row [OF tree c(1) cur c(5)]
  let ?new = "pp @ ''/'' @ s"
  let ?h = "\<lambda>f. rewrite_row (fo_workspace_id c) (fo_path c) ?new who (if fo_id f = fo_id c then u f else f)"
  have short: "length pp < length (fo_path c)" "length (fo_path cur) < length (fo_path c)" using pr cpath by auto
  have ne: "cur \<noteq> c" using short(2) by auto
  have par: "case fo_parent_id cur of None \<Rightarrow> ?new = ''/'' @ s
      | Some p \<Rightarrow> \<exists>g \<in> set fs. fo_id g = p \<and> fo_workspace_id g = fo_workspace_id c \<and> ?new = fo_path g @ ''/'' @ s \<and> \<not> inside c (fo_path g)"
    using inv pr not_inside_short [OF short(1)] by (auto simp: delete_inv_def split: option.splits)
  have free: "g = c" if "g \<in> set fs" "fo_workspace_id g = fo_workspace_id c" "fo_path g = ?new" for g
  proof (rule ccontr)
    assume "g \<noteq> c"
    then have "fo_id g \<noteq> i" using tree_okD(5) [OF tree that(1) c(1)] c(2) by auto
    then have "g \<in> set (update_row i u fs)" using that(1) by (force simp: update_row_def)
    moreover have uc: "u c \<in> set (update_row i u fs)" using c(1,2) by (force simp: update_row_def)
    moreover have v: "fo_id (u c) = i" "fo_workspace_id (u c) = fo_workspace_id c" "fo_path (u c) = ?new" using u c(2) by simp_all
    ultimately have "folder_conflict (update_row i u fs) (u c)"
      unfolding folder_conflict_def list_ex_iff using that(2,3) \<open>fo_id g \<noteq> i\<close> by metis
    then show False using ok uc v(1) unfolding list_ex_iff by blast
  qed
  have rel: "relocates fs c (fo_parent_id cur) s ?new ?h"
    by (rule move_rows [OF tree c(1) _ _ par free]) (use c tree_okD(1,3) [OF tree c(1)] u in \<open>simp_all add: core_def\<close>)
  have gs': "gs = map ?h fs" using rewritten_update [OF gs] c pr by simp
  have stays: "?h f = f" if "f \<in> set fs" "f \<noteq> c" "\<not> inside c (fo_path f)" for f
    using that tree_okD(5) [OF tree that(1) c(1)] by (auto simp: rewrite_row_def tree_like [OF tree c(1)] inside_def)
  have hc: "?h cur = cur" by (rule stays [OF cur ne not_inside_short [OF short(2)]])
  have hd: "?h d = d" if "d \<in> set fs" "fo_parent_id d = Some (fo_id cur)" "d \<noteq> c" for d
    using parent_row [OF tree that(1) cur that(2)] inside_child [OF tree c(1) that(1) cur that(2,3)] pr not_inside_short [OF short(2)]
    by (intro stays that) auto
  show ?thesis
  proof
    show "idents gs = idents fs" unfolding gs' using row_simps(1,2) [OF rel] by (intro idents_mapped) simp
    show "delete_inv cur pp cs gs" unfolding delete_inv_def
    proof (intro conjI)
      show "tree_ok gs" unfolding gs' by (rule relocated_tree [OF rel])
      show "cur \<in> set gs" unfolding gs' using cur hc by (metis (no_types, lifting) image_eqI list.set_map)
      show "fo_path cur = pp @ ''/'' @ fo_slug cur" by (rule cpath)
      show "distinct (map fst cs)" using inv by (simp add: delete_inv_def)
      show "case fo_parent_id cur of None \<Rightarrow> pp = []
        | Some p \<Rightarrow> \<exists>g \<in> set gs. fo_id g = p \<and> fo_workspace_id g = fo_workspace_id cur \<and> fo_path g = pp"
      proof (cases "fo_parent_id cur")
        case (Some p)
        then obtain g where g: "g \<in> set fs" "fo_id g = p" "fo_workspace_id g = fo_workspace_id cur" "fo_path g = pp"
          using inv by (auto simp: delete_inv_def)
        have "?h g = g" using g short(1) not_inside_short [of pp c] by (intro stays) auto
        then show ?thesis using g Some unfolding gs' by (auto intro!: bexI [of _ g] image_eqI [of _ _ g])
      qed (use inv in \<open>simp add: delete_inv_def\<close>)
      show "\<forall>(j, s, q) \<in> set cs. \<exists>f \<in> set gs. fo_id f = j \<and> fo_slug f = s \<and> fo_path f = q \<and> fo_parent_id f = Some (fo_id cur)"
      proof (clarify)
        fix j s' q' assume j: "(j, s', q') \<in> set cs"
        then obtain d where d: "d \<in> set fs" "fo_id d = j" "fo_slug d = s'" "fo_path d = q'" "fo_parent_id d = Some (fo_id cur)"
          using inv by (auto simp: delete_inv_def)
        have "j \<noteq> i" using inv j by (auto simp: delete_inv_def rev_image_eqI)
        then have "?h d = d" using hd [OF d(1,5)] d(2) c(2) by auto
        then show "\<exists>f \<in> set gs. fo_id f = j \<and> fo_slug f = s' \<and> fo_path f = q' \<and> fo_parent_id f = Some (fo_id cur)"
          using d unfolding gs' by (auto intro!: bexI [of _ d] image_eqI [of _ _ d])
      qed
      show "\<forall>f \<in> set gs. fo_parent_id f = Some (fo_id cur) \<longrightarrow> fo_id f \<in> fst ` set cs"
      proof (intro ballI impI)
        fix f' assume f': "f' \<in> set gs" "fo_parent_id f' = Some (fo_id cur)"
        then obtain f where f: "f \<in> set fs" "f' = ?h f" unfolding gs' by auto
        have "f \<noteq> c"
        proof
          assume "f = c"
          then have "fo_parent_id cur = Some (fo_id cur)" using row_simps(3) [OF rel f(1)] f(2) f'(2) by simp
          then show False using parent_row [OF tree cur cur] by auto
        qed
        then have "fo_parent_id f = Some (fo_id cur)" "fo_id f' = fo_id f" using row_simps(1,3) [OF rel f(1)] f(2) f'(2) by auto
        moreover have "fo_id f \<noteq> i" using \<open>f \<noteq> c\<close> tree_okD(5) [OF tree f(1) c(1)] c(2) by auto
        ultimately show "fo_id f' \<in> fst ` set cs" using inv f(1) by (auto simp: delete_inv_def)
      qed
    qed
  qed
qed

lemma reparent_all:
  "delete_inv cur pp cs fs \<Longrightarrow> reparent_children (fo_workspace_id cur) (fo_parent_id cur) pp who cs fs = Some gs \<Longrightarrow>
    delete_inv cur pp [] gs \<and> idents gs = idents fs"
proof (induction cs arbitrary: fs)
  case (Cons x cs)
  obtain i s q where x: "x = (i, s, q)" by (cases x)
  define u :: "folder_row \<Rightarrow> folder_row" where "u = (\<lambda>f. f\<lparr>fo_parent_id := fo_parent_id cur, fo_path := pp @ ''/'' @ s, fo_updated_by := who\<rparr>)"
  obtain fs' where ok: "\<not> list_ex (\<lambda>f. fo_id f = i \<and> folder_conflict (update_row i u fs) f) (update_row i u fs)"
    and fs': "rewrite_paths (fo_workspace_id cur) q (pp @ ''/'' @ s) who (update_row i u fs) = Some fs'"
    and rest: "reparent_children (fo_workspace_id cur) (fo_parent_id cur) pp who cs fs' = Some gs"
    using Cons.prems(2) unfolding x reparent_children.simps Let_def u_def [symmetric]
    by (cases "rewrite_paths (fo_workspace_id cur) q (pp @ ''/'' @ s) who (update_row i u fs)") (simp_all split: if_splits)
  have "delete_inv cur pp cs fs' \<and> idents fs' = idents fs"
    using Cons.prems(1) unfolding x by (rule delete_step [OF _ ok u_def fs'])
  then show ?case using Cons.IH [OF _ rest] by auto
qed simp

lemma delete_inv_start:
  assumes tree: "tree_ok fs" and cur: "cur \<in> set fs"
    and pp: "pp = (case fo_parent_id cur of
      Some p \<Rightarrow> (case find (\<lambda>f. fo_id f = p) fs of Some f \<Rightarrow> fo_path f | None \<Rightarrow> []) | None \<Rightarrow> [])"
  shows "delete_inv cur pp (map (\<lambda>f. (fo_id f, fo_slug f, fo_path f)) (filter (\<lambda>f. fo_parent_id f = Some (fo_id cur)) fs)) fs"
proof -
  have "fo_path cur = pp @ ''/'' @ fo_slug cur \<and> (case fo_parent_id cur of None \<Rightarrow> pp = []
      | Some p \<Rightarrow> \<exists>g \<in> set fs. fo_id g = p \<and> fo_workspace_id g = fo_workspace_id cur \<and> fo_path g = pp)"
  proof (cases "fo_parent_id cur")
    case None
    then show ?thesis using tree_okD(2) [OF tree cur] pp by (simp add: hangs_def)
  next
    case (Some p)
    then obtain g where g: "g \<in> set fs" "fo_parent_id cur = Some (fo_id g)" using tree_okD(2) [OF tree cur] by (auto simp: hangs_def)
    then have "find (\<lambda>f. fo_id f = fo_id g) fs = Some g" by (intro find_key tree_distinct [OF tree])
    then show ?thesis using g pp parent_row [OF tree cur g] by auto
  qed
  moreover have "distinct (map fst (map (\<lambda>f. (fo_id f, fo_slug f, fo_path f)) (filter (\<lambda>f. fo_parent_id f = Some (fo_id cur)) fs)))"
    using distinct_map_filter [OF tree_distinct [OF tree]] by (simp add: comp_def)
  ultimately show ?thesis using tree cur unfolding delete_inv_def by (auto simp: image_image)
qed

definition homes_ok :: "acl_db \<Rightarrow> bool" where
  "homes_ok db \<longleftrightarrow> (\<forall>x \<in> set (db_template_folders db). (tf_folder_id x, tf_workspace_id x) \<in> idents (db_folders db))"

lemma delete_folder_tree:
  assumes tree: "tree_ok (db_folders db)" and del: "delete_folder db user i = Inr db'"
  shows "tree_ok (db_folders db')" "idents (db_folders db') = {(j, ws) \<in> idents (db_folders db). j \<noteq> i}"
    "homes_ok db \<Longrightarrow> homes_ok db'"
proof -
  obtain cur where cur: "folder_by_id db i = Some cur"
    using del by (auto simp: delete_folder_def split: option.splits)
  then have c: "cur \<in> set (db_folders db)" "fo_id cur = i" using find_SomeD [OF cur] by auto
  define pp where "pp = (case fo_parent_id cur of
      Some p \<Rightarrow> (case folder_by_id db p of Some f \<Rightarrow> fo_path f | None \<Rightarrow> []) | None \<Rightarrow> [])"
  obtain fs where fs: "reparent_children (fo_workspace_id cur) (fo_parent_id cur) pp (au_user_id user)
      (map (\<lambda>f. (fo_id f, fo_slug f, fo_path f)) (filter (\<lambda>f. fo_parent_id f = Some i) (db_folders db))) (db_folders db) = Some fs"
    and db': "db_folders db' = filter (\<lambda>f. fo_id f \<noteq> i) fs" "db_template_folders db' = (case fo_parent_id cur of
        Some p \<Rightarrow> map (\<lambda>x. if tf_folder_id x = i then x\<lparr>tf_folder_id := p, tf_moved_by := au_user_id user\<rparr> else x) (db_template_folders db)
      | None \<Rightarrow> filter (\<lambda>x. tf_folder_id x \<noteq> i) (db_template_folders db))"
    using del cur unfolding delete_folder_def Let_def pp_def [symmetric]
    by (auto simp: pp_def [symmetric] split: sum.splits option.splits)
  have inv: "delete_inv cur pp [] fs" and ids: "idents fs = idents (db_folders db)"
    using reparent_all [OF delete_inv_start [OF tree c(1) pp_def], of "au_user_id user" fs] fs c(2) by auto
  then show "tree_ok (db_folders db')" unfolding db' using c(2) by (intro tree_ok_remove) (auto simp: delete_inv_def)
  have ids': "idents (filter (\<lambda>f. fo_id f \<noteq> i) fs) = {(j, ws) \<in> idents fs. j \<noteq> i}" by (auto simp: idents_def)
  then show "idents (db_folders db') = {(j, ws) \<in> idents (db_folders db). j \<noteq> i}" unfolding db' using ids by simp
  show "homes_ok db'" if h: "homes_ok db"
  proof (cases "fo_parent_id cur")
    case None
    then show ?thesis using h unfolding homes_ok_def db' ids' ids by auto
  next
    case (Some p)
    then obtain g where g: "g \<in> set (db_folders db)" "fo_parent_id cur = Some (fo_id g)" "p = fo_id g" using tree_okD(2) [OF tree c(1)] by (auto simp: hangs_def)
    have "p \<noteq> i"
    proof
      assume "p = i"
      then have "g = cur" using tree_okD(5) [OF tree g(1) c(1)] g(3) c(2) by simp
      then show False using parent_row [OF tree c(1) g(1,2)] by simp
    qed
    have "ws = fo_workspace_id cur" if w: "(i, ws) \<in> idents (db_folders db)" for ws
    proof -
      obtain f where f: "f \<in> set (db_folders db)" "fo_id f = i" "ws = fo_workspace_id f" using w by (auto simp: idents_def)
      then show ?thesis using tree_okD(5) [OF tree f(1) c(1)] c(2) by simp
    qed
    moreover have "(p, fo_workspace_id cur) \<in> idents (db_folders db)"
      using g parent_row [OF tree c(1) g(1,2)] by (force simp: idents_def)
    ultimately show ?thesis using h Some \<open>p \<noteq> i\<close> unfolding homes_ok_def db' ids' ids by auto
  qed
qed

section \<open>Reachable databases\<close>

datatype acl_command =
    CreateFolder auth_user uuid "uuid option" string string string uuid
  | UpdateFolder auth_user uuid "string option" "uuid option" "string option" "string option"
  | DeleteFolder auth_user uuid
  | SetTemplateFolder auth_user uuid "uuid option"
  | PutGrant auth_user object_kind uuid uuid string
  | DeleteGrant auth_user object_kind uuid uuid

fun run_acl :: "acl_db \<Rightarrow> acl_command \<Rightarrow> (api_error, acl_db) result" where
  "run_acl db (CreateFolder user ws parent slug dn ds i) = create_folder db user ws parent slug dn ds i"
| "run_acl db (UpdateFolder user i slug parent dn ds) = update_folder db user i slug parent dn ds"
| "run_acl db (DeleteFolder user i) = delete_folder db user i"
| "run_acl db (SetTemplateFolder user i f) = set_template_folder db user i f"
| "run_acl db (PutGrant user k i target r) = put_grant_core db user k i target r"
| "run_acl db (DeleteGrant user k i target) = delete_grant_core db user k i target"

text \<open>A new folder gets an identifier that no folder has; an error changes nothing.\<close>

fun fresh_command :: "acl_db \<Rightarrow> acl_command \<Rightarrow> bool" where
  "fresh_command db (CreateFolder _ _ _ _ _ _ i) = (i \<notin> fo_id ` set (db_folders db))"
| "fresh_command db _ = True"

inductive acl_reachable :: "acl_db \<Rightarrow> acl_db \<Rightarrow> bool" for db0 where
  Start: "acl_reachable db0 db0"
| Step: "acl_reachable db0 db \<Longrightarrow> fresh_command db c \<Longrightarrow> run_acl db c = Inr db' \<Longrightarrow> acl_reachable db0 db'"

lemma set_template_folder_homes:
  assumes "homes_ok db" and "set_template_folder db user i f = Inr db'"
  shows "db_folders db' = db_folders db" "homes_ok db'"
proof -
  obtain ws base where w: "template_workspace db i = Inr ws" "template_base_id db i = Inr base"
    and rest: "(case f of
        Some fid \<Rightarrow>
          if find (\<lambda>f. fo_id f = fid \<and> fo_workspace_id f = ws) (db_folders db) = None
          then Inl (BadRequest ''folder not found in this template's workspace'')
          else
            let row = \<lparr>tf_base_template_id = base, tf_folder_id = fid, tf_workspace_id = ws, tf_moved_by = au_user_id user\<rparr> in
            Inr (db\<lparr>db_template_folders :=
              (if list_ex (\<lambda>x. tf_base_template_id x = base) (db_template_folders db)
               then map (\<lambda>x. if tf_base_template_id x = base then row else x) (db_template_folders db)
               else db_template_folders db @ [row])\<rparr>)
      | None \<Rightarrow> Inr (db\<lparr>db_template_folders := filter (\<lambda>x. tf_base_template_id x \<noteq> base) (db_template_folders db)\<rparr>)) = Inr db'"
    using assms(2) unfolding set_template_folder_def by (auto split: sum.splits)
  have "db_folders db' = db_folders db \<and> homes_ok db'"
  proof (cases f)
    case None
    then show ?thesis using rest assms(1) by (auto simp: homes_ok_def)
  next
    case (Some fid)
    then obtain g where "find (\<lambda>f. fo_id f = fid \<and> fo_workspace_id f = ws) (db_folders db) = Some g"
      using rest by (auto split: if_splits)
    from find_folder [OF this] have "(fid, ws) \<in> idents (db_folders db)" by (auto simp: idents_def)
    then show ?thesis using rest Some assms(1) by (auto simp: homes_ok_def Let_def split: if_splits)
  qed
  then show "db_folders db' = db_folders db" "homes_ok db'" by simp_all
qed

lemma grants_keep_folders:
  assumes "put_grant_core db user k i target r = Inr db' \<or> delete_grant_core db user k i target = Inr db'"
  shows "db_folders db' = db_folders db \<and> db_template_folders db' = db_template_folders db"
  using assms by (auto simp: put_grant_core_def delete_grant_core_def apply_grant_def Let_def split: option.splits sum.splits if_splits)

lemma create_folder_idents:
  assumes "create_folder db user ws parent slug dn ds i = Inr db'"
  shows "idents (db_folders db) \<subseteq> idents (db_folders db') \<and> db_template_folders db' = db_template_folders db"
  using assms by (auto simp: create_folder_def idents_def Let_def split: option.splits sum.splits if_splits)

lemma run_acl_ok:
  assumes "tree_ok (db_folders db) \<and> homes_ok db" and "fresh_command db c" and "run_acl db c = Inr db'"
  shows "tree_ok (db_folders db') \<and> homes_ok db'"
proof (cases c)
  case (CreateFolder user ws parent slug dn ds i)
  then have run: "create_folder db user ws parent slug dn ds i = Inr db'" using assms(3) by simp
  then show ?thesis using create_folder_tree [OF _ _ run] create_folder_idents [OF run] assms(1,2) CreateFolder
    by (auto simp: homes_ok_def)
next
  case (UpdateFolder user i slug parent dn ds)
  then have run: "update_folder db user i slug parent dn ds = Inr db'" using assms(3) by simp
  from update_folder_tree [OF _ run] assms(1) have
    u: "tree_ok (db_folders db')" "idents (db_folders db') = idents (db_folders db)" "db'\<lparr>db_folders := []\<rparr> = db\<lparr>db_folders := []\<rparr>" by auto
  have "db_template_folders db' = db_template_folders db" using arg_cong [OF u(3), of db_template_folders] by simp
  then show ?thesis using u assms(1) by (simp add: homes_ok_def)
next
  case (DeleteFolder user i)
  then show ?thesis using delete_folder_tree [of db user i db'] assms by simp
next
  case (SetTemplateFolder user i f)
  then show ?thesis using set_template_folder_homes [of db user i f db'] assms by simp
next
  case (PutGrant user k i target r)
  then show ?thesis using grants_keep_folders [of db user k i target r db'] assms by (simp add: homes_ok_def)
next
  case (DeleteGrant user k i target)
  then show ?thesis using grants_keep_folders [of db user k i target "[]" db'] assms by (simp add: homes_ok_def)
qed

section \<open>Properties\<close>


text \<open>
  The database's test for "below this folder", by a pattern on paths, holds exactly for the
  folders that are reached by following parents, in every tree the handlers keep.
\<close>

theorem paths_are_ancestry:
  assumes "tree_ok fs" and "f \<in> set fs" and "a \<in> set fs" and "fo_workspace_id a = fo_workspace_id f"
  shows "under_path (fo_path f) (fo_path a) \<longleftrightarrow> ancestor fs f a"
  by (rule under_path_iff [OF assms])

end
