(* ===== verification/Grants.thy ===== *)
theory Grants
  imports Folders "HOL-Library.Option_ord"
begin

text \<open>
  What the rules of access add up to, on the tree of folders: the most specific grant decides,
  and a caller who grants does not raise a role of their own. At the end, runs of the handlers
  show where the rules do not hold: across workspaces, when things are moved, when a folder is
  deleted, and when two moves overlap.
\<close>

section \<open>The nearest grant\<close>

text \<open>A folder and the folders above it, up to the root.\<close>

inductive lineage :: "folder_row list \<Rightarrow> folder_row \<Rightarrow> folder_row list \<Rightarrow> bool" for fs where
  Top: "f \<in> set fs \<Longrightarrow> fo_parent_id f = None \<Longrightarrow> lineage fs f [f]"
| Above: "f \<in> set fs \<Longrightarrow> g \<in> set fs \<Longrightarrow> fo_parent_id f = Some (fo_id g) \<Longrightarrow> lineage fs g l \<Longrightarrow> lineage fs f (f # l)"

lemma lineage_exists: "tree_ok fs \<Longrightarrow> f \<in> set fs \<Longrightarrow> \<exists>l. lineage fs f l"
proof (induction rule: tree_induct)
  case (Root f)
  then show ?case by (blast intro: Top)
next
  case (Child f g)
  then show ?case by (blast intro: Above)
qed

lemma lineage_ancestors:
  assumes tree: "tree_ok fs" and "lineage fs f l"
  shows "set l = {a \<in> set fs. ancestor fs f a}"
  using assms(2)
proof induction
  case (Top f)
  then show ?case by (auto intro: ancestor.Self elim: ancestor.cases)
next
  case (Above f g l)
  have "ancestor fs f a \<longleftrightarrow> a = f \<or> ancestor fs g a" for a
  proof
    assume "ancestor fs f a"
    then show "a = f \<or> ancestor fs g a"
    proof cases
      case (Up g')
      then show ?thesis using Above.hyps(3) tree_okD(5) [OF tree _ Above.hyps(2), of g'] by auto
    qed simp
  next
    assume "a = f \<or> ancestor fs g a"
    then show "ancestor fs f a" using Above by (auto intro: ancestor.intros)
  qed
  then show ?case using Above by auto
qed

lemma lineage_shorter:
  assumes tree: "tree_ok fs" and "lineage fs f l"
  shows "sorted_wrt (\<lambda>a b. length (fo_path a) > length (fo_path b)) l \<and> l \<noteq> [] \<and> hd l = f"
  using assms(2)
proof induction
  case (Above f g l)
  then obtain l' where l: "l = g # l'" by (cases l) auto
  have "length (fo_path g) < length (fo_path f)" using parent_row [OF tree Above.hyps(1-3)] by simp
  moreover have "\<forall>b \<in> set l. length (fo_path b) \<le> length (fo_path g)" using Above.IH l by auto
  ultimately show ?case using Above.IH l by fastforce
qed simp

definition folder_grant :: "acl_db \<Rightarrow> uuid \<Rightarrow> folder_row \<Rightarrow> role option" where
  "folder_grant db uid f = map_option gr_role (find (same_grant Folder (fo_id f) uid) (db_grants db))"

definition object_grant :: "acl_db \<Rightarrow> object_kind \<Rightarrow> uuid \<Rightarrow> uuid \<Rightarrow> role option" where
  "object_grant db k i uid = map_option gr_role (find (same_grant k i uid) (db_grants db))"

text \<open>The rule: the grant on the object itself, then on its template, then on the nearest folder.\<close>

fun deciding_grant :: "acl_db \<Rightarrow> object_kind \<Rightarrow> uuid \<Rightarrow> uuid \<Rightarrow> uuid \<Rightarrow> folder_row list \<Rightarrow> role option" where
  "deciding_grant db Folder base i uid l = first_some (folder_grant db uid) l"
| "deciding_grant db Template base i uid l =
    first_some id [object_grant db Template base uid, first_some (folder_grant db uid) l]"
| "deciding_grant db k base i uid l =
    first_some id [object_grant db k i uid, object_grant db Template base uid, first_some (folder_grant db uid) l]"

definition grants_ok :: "acl_db \<Rightarrow> bool" where
  "grants_ok db \<longleftrightarrow> distinct (map (\<lambda>g. (gr_object_type g, gr_object_id g, gr_user_id g)) (db_grants db))"

text \<open>The user's grants on folders are all in one workspace.\<close>

definition local_grants :: "acl_db \<Rightarrow> uuid \<Rightarrow> uuid \<Rightarrow> bool" where
  "local_grants db uid ws \<longleftrightarrow> (\<forall>g \<in> set (db_grants db). \<forall>f \<in> set (db_folders db).
    gr_object_type g = Folder \<and> gr_user_id g = uid \<and> gr_object_id g = fo_id f \<longrightarrow> fo_workspace_id f = ws)"

lemma order_limit_1_eqI: "m \<in> set xs \<Longrightarrow> (\<And>x. x \<in> set xs \<Longrightarrow> x \<le> m) \<Longrightarrow> order_limit_1 xs = Some m"
  unfolding order_limit_1_Some by (auto intro!: Max_eqI [symmetric])

lemma order_limit_1_append:
  assumes "\<And>x y. x \<in> set xs \<Longrightarrow> y \<in> set ys \<Longrightarrow> y \<le> x"
  shows "order_limit_1 (xs @ ys) = (if xs = [] then order_limit_1 ys else order_limit_1 xs)"
proof (cases "xs = []")
  case False
  then obtain m where m: "order_limit_1 xs = Some m" by (cases xs) auto
  then have "m \<in> set xs" "\<And>x. x \<in> set xs \<Longrightarrow> x \<le> m" unfolding order_limit_1_Some by auto
  then show ?thesis using False m assms by (auto intro!: order_limit_1_eqI)
qed simp

lemma one_grant:
  assumes "grants_ok db" and "g \<in> set (db_grants db)" and "h \<in> set (db_grants db)"
    and "same_grant k i uid g" and "same_grant k i uid h"
  shows "g = h"
  using assms unfolding grants_ok_def same_grant_def by (metis (mono_tags, lifting) distinct_map inj_onD)

lemma object_grant_iff:
  assumes "grants_ok db"
  shows "object_grant db k i uid = Some r \<longleftrightarrow> (\<exists>g \<in> set (db_grants db). same_grant k i uid g \<and> gr_role g = r)"
proof
  assume "object_grant db k i uid = Some r"
  then show "\<exists>g \<in> set (db_grants db). same_grant k i uid g \<and> gr_role g = r"
    by (auto simp: object_grant_def dest: find_SomeD)
next
  assume "\<exists>g \<in> set (db_grants db). same_grant k i uid g \<and> gr_role g = r"
  then obtain g where g: "g \<in> set (db_grants db)" "same_grant k i uid g" "gr_role g = r" by blast
  then obtain h where h: "find (same_grant k i uid) (db_grants db) = Some h" by (metis find_None_iff not_None_eq)
  then have "h = g" using one_grant [OF assms, of h g] find_SomeD [OF h] g by blast
  then show "object_grant db k i uid = Some r" using h g by (simp add: object_grant_def)
qed

lemma grant_tier_set:
  "grants_ok db \<Longrightarrow> set (grant_tier db n k i uid) = {(n, 0, r) | r. object_grant db k i uid = Some r}"
  by (auto simp: grant_tier_def object_grant_iff same_grant_def image_iff)

lemma grant_tier_best:
  assumes "grants_ok db"
  shows "map_option (\<lambda>(_, _, r). r) (order_limit_1 (grant_tier db n k i uid)) = object_grant db k i uid"
proof (cases "object_grant db k i uid")
  case None
  then show ?thesis using grant_tier_set [OF assms, of n k i uid] by simp
next
  case (Some r)
  then have "order_limit_1 (grant_tier db n k i uid) = Some (n, 0, r)"
    using grant_tier_set [OF assms, of n k i uid] by (intro order_limit_1_eqI) auto
  then show ?thesis using Some by simp
qed

text \<open>Of rows with falling depths the first with a grant wins.\<close>

lemma first_row_wins:
  assumes "sorted_wrt (\<lambda>a b. d a > d b) l"
    and "set xs = {(n :: nat, d a :: nat, r :: role) | a r. a \<in> set l \<and> h a = Some r}"
  shows "map_option (\<lambda>(_, _, r). r) (order_limit_1 xs) = first_some h l"
  using assms
proof (induction l)
  case (Cons a l)
  show ?case
  proof (cases "h a")
    case None
    then have "set xs = {(n, d a, r) | a r. a \<in> set l \<and> h a = Some r}" using Cons.prems(2) by auto
    then show ?thesis using Cons None by simp
  next
    case (Some r)
    then have "order_limit_1 xs = Some (n, d a, r)" using Cons.prems
      by (intro order_limit_1_eqI) (auto simp: less_eq_prod_def)
    then show ?thesis using Some by simp
  qed
qed simp

lemma folder_tier_set:
  "v \<in> set (folder_tier db uid (Some h)) \<longleftrightarrow> (\<exists>g \<in> set (db_grants db). gr_object_type g = Folder \<and> gr_user_id g = uid \<and>
    (\<exists>a. folder_by_id db (gr_object_id g) = Some a \<and> under_path h (fo_path a) \<and> v = (2, length (fo_path a), gr_role g)))"
proof -
  have "(if gr_object_type g = Folder \<and> gr_user_id g = uid then (case folder_by_id db (gr_object_id g) of
           Some f \<Rightarrow> if under_path h (fo_path f) then Some (2, length (fo_path f), gr_role g) else None
         | None \<Rightarrow> None) else None) = Some v \<longleftrightarrow> gr_object_type g = Folder \<and> gr_user_id g = uid \<and>
    (\<exists>a. folder_by_id db (gr_object_id g) = Some a \<and> under_path h (fo_path a) \<and> v = (2, length (fo_path a), gr_role g))" for g
    by (auto split: option.split)
  then show ?thesis unfolding folder_tier_def set_map_filter option.case mem_Collect_eq by (rule bex_cong [OF refl])
qed

lemma folder_row_iff:
  "tree_ok (db_folders db) \<Longrightarrow> folder_by_id db j = Some a \<longleftrightarrow> a \<in> set (db_folders db) \<and> j = fo_id a"
  using find_key [OF tree_distinct, of "db_folders db" a] by (auto dest: find_SomeD)

lemma local_lineage:
  assumes tree: "tree_ok (db_folders db)" and "local_grants db uid (fo_workspace_id f)" and f: "lineage (db_folders db) f l"
    and "g \<in> set (db_grants db)" and "same_grant Folder (fo_id a) uid g" and a: "a \<in> set (db_folders db)"
  shows "a \<in> set l \<longleftrightarrow> under_path (fo_path f) (fo_path a)"
proof -
  have here: "f \<in> set (db_folders db)" using f by (auto elim: lineage.cases)
  have "fo_workspace_id a = fo_workspace_id f" using assms(2,4,5) a unfolding local_grants_def same_grant_def by metis
  then show ?thesis using lineage_ancestors [OF tree f] under_path_iff [OF tree here a] a by simp
qed

lemma folder_grant_iff:
  "grants_ok db \<Longrightarrow> folder_grant db uid a = Some r \<longleftrightarrow>
    (\<exists>g \<in> set (db_grants db). same_grant Folder (fo_id a) uid g \<and> gr_role g = r)"
  using object_grant_iff by (simp add: folder_grant_def object_grant_def)

lemma folder_tier_best:
  assumes tree: "tree_ok (db_folders db)" and ok: "grants_ok db" and here: "local_grants db uid (fo_workspace_id f)"
    and f: "lineage (db_folders db) f l"
  shows "map_option (\<lambda>(_, _, r). r) (order_limit_1 (folder_tier db uid (Some (fo_path f)))) = first_some (folder_grant db uid) l"
proof (rule first_row_wins [where d = "\<lambda>a. length (fo_path a)"])
  show "sorted_wrt (\<lambda>a b. length (fo_path a) > length (fo_path b)) l" using lineage_shorter [OF tree f] by blast
  have "v \<in> set (folder_tier db uid (Some (fo_path f))) \<longleftrightarrow> (\<exists>g \<in> set (db_grants db). \<exists>a \<in> set (db_folders db).
      same_grant Folder (fo_id a) uid g \<and> under_path (fo_path f) (fo_path a) \<and> v = (2, length (fo_path a), gr_role g))" for v
    unfolding folder_tier_set folder_row_iff [OF tree] same_grant_def by blast
  moreover have "set l \<subseteq> set (db_folders db)" using lineage_ancestors [OF tree f] by auto
  ultimately show "set (folder_tier db uid (Some (fo_path f))) =
      {(2, length (fo_path a), r) | a r. a \<in> set l \<and> folder_grant db uid a = Some r}"
    using local_lineage [OF tree here f] unfolding folder_grant_iff [OF ok] by (intro set_eqI) (simp, blast)
qed

lemma tiers_split:
  assumes "\<And>x y. x \<in> set xs \<Longrightarrow> y \<in> set ys \<Longrightarrow> y \<le> x"
  shows "map_option g (order_limit_1 (xs @ ys)) =
    first_some id [map_option g (order_limit_1 xs), map_option g (order_limit_1 ys)]"
  using order_limit_1_append [OF assms] by (cases "order_limit_1 xs"; cases "order_limit_1 ys") auto

lemma tier_ranks:
  "x \<in> set (grant_tier db n k i uid) \<Longrightarrow> fst x = n" "x \<in> set (folder_tier db uid h) \<Longrightarrow> fst x = 2"
  by (auto simp: grant_tier_def) (cases h; auto simp: folder_tier_set folder_tier_def [of _ _ None])

lemma tier_le:
  assumes "x \<in> set (grant_tier db n k i uid)" and "y \<in> set (grant_tier db m k' i' uid) \<and> m < n \<or> y \<in> set (folder_tier db uid h) \<and> 2 < n"
  shows "y \<le> x"
proof -
  have "fst y < fst x" using assms tier_ranks(1) [OF assms(1)] tier_ranks(1) [of y db m] tier_ranks(2) [of y db uid h] by auto
  then show ?thesis by (simp add: less_eq_prod_def)
qed

lemma deciding_grant_best:
  assumes ok: "grants_ok db"
    and home: "map_option (\<lambda>(_, _, r). r) (order_limit_1 (folder_tier db uid h)) = first_some (folder_grant db uid) l"
  shows "map_option (\<lambda>(_, _, r). r) (order_limit_1 (object_tiers db k (Some b) i uid @ folder_tier db uid h)) =
    deciding_grant db k b i uid l"
proof -
  let ?g = "\<lambda>(_, _, r). r" and ?F = "folder_tier db uid h" and ?B = "grant_tier db 3 Template b uid" and ?A = "grant_tier db 4 k i uid"
  have below: "map_option ?g (order_limit_1 (?B @ ?F)) = first_some id [object_grant db Template b uid, first_some (folder_grant db uid) l]"
    unfolding grant_tier_best [OF ok, symmetric, of Template b uid 3] home [symmetric]
    by (rule tiers_split) (auto intro: tier_le)
  have "map_option ?g (order_limit_1 (?A @ ?B @ ?F)) = first_some id [object_grant db k i uid, map_option ?g (order_limit_1 (?B @ ?F))]"
    unfolding grant_tier_best [OF ok, symmetric, of k i uid 4]
    by (rule tiers_split) (auto intro: tier_le)
  then have "map_option ?g (order_limit_1 (?A @ ?B @ ?F)) =
      first_some id [object_grant db k i uid, object_grant db Template b uid, first_some (folder_grant db uid) l]"
    unfolding below by (simp split: option.splits)
  then show ?thesis using below home by (cases k) simp_all
qed

lemma restricted_above:
  assumes tree: "tree_ok (db_folders db)" and f: "lineage (db_folders db) f l"
  shows "is_restricted db (fo_workspace_id f) (Some (fo_path f)) flag \<longleftrightarrow> flag \<or> list_ex fo_restricted l"
proof -
  have here: "f \<in> set (db_folders db)" using f by (auto elim: lineage.cases)
  have "a \<in> set l \<longleftrightarrow> a \<in> set (db_folders db) \<and> fo_workspace_id a = fo_workspace_id f \<and> under_path (fo_path f) (fo_path a)" for a
    using lineage_ancestors [OF tree f] under_path_iff [OF tree here, of a] ancestor_path [OF tree, of f a] by auto
  then show ?thesis by (auto simp: is_restricted_def list_ex_iff)
qed


section \<open>Granting does not escalate\<close>

text \<open>Where a grant on something stands among the rows that decide about an object.\<close>

definition standing :: "acl_db \<Rightarrow> object_kind \<Rightarrow> uuid \<Rightarrow> uuid \<Rightarrow> string option \<Rightarrow> object_kind \<Rightarrow> uuid \<Rightarrow> (nat \<times> nat) option" where
  "standing db k i base home t j =
    (if t = k \<and> keys_on_self k \<and> j = i then Some (4, 0)
     else if t = Template \<and> k \<noteq> Folder \<and> j = base then Some (3, 0)
     else if t = Folder then Option.bind home (\<lambda>h. Option.bind (folder_by_id db j)
       (\<lambda>a. if under_path h (fo_path a) then Some (2, length (fo_path a)) else None))
     else None)"

abbreviation grant_facts :: "acl_db \<Rightarrow> (object_kind \<times> uuid \<times> uuid \<times> role) set" where
  "grant_facts db \<equiv> (\<lambda>g. (gr_object_type g, gr_object_id g, gr_user_id g, gr_role g)) ` set (db_grants db)"

lemma tier_rows:
  "set (object_tiers db k (Some base) i uid @ folder_tier db uid home) =
    {(n, d, s) | n d s t j. (t, j, uid, s) \<in> grant_facts db \<and> standing db k i base home t j = Some (n, d)}"
proof -
  define G where "G t j s \<longleftrightarrow> (t, j, uid, s) \<in> grant_facts db" for t j s
  have G: "G t j s \<longleftrightarrow> (\<exists>g \<in> set (db_grants db). gr_object_type g = t \<and> gr_user_id g = uid \<and> j = gr_object_id g \<and> s = gr_role g)" for t j s
    unfolding G_def image_iff prod.inject by metis
  have grant: "(n, d, s) \<in> set (grant_tier db m k i uid) \<longleftrightarrow> G k i s \<and> n = m \<and> d = 0" for n d s m k i
    unfolding G by (auto simp: grant_tier_def)
  have folder: "(n, d, s) \<in> set (folder_tier db uid home) \<longleftrightarrow> (\<exists>j h a. G Folder j s \<and> home = Some h \<and>
      folder_by_id db j = Some a \<and> under_path h (fo_path a) \<and> n = 2 \<and> d = length (fo_path a))" for n d s
  proof (cases home)
    case (Some h)
    show ?thesis unfolding Some folder_tier_set G option.inject prod.inject by blast
  qed (simp add: folder_tier_def)
  have standing: "standing db k i base home t j = Some (n, d) \<longleftrightarrow> t = k \<and> keys_on_self k \<and> j = i \<and> n = 4 \<and> d = 0 \<or>
      t = Template \<and> k \<noteq> Folder \<and> j = base \<and> n = 3 \<and> d = 0 \<or>
      t = Folder \<and> (\<exists>h a. home = Some h \<and> folder_by_id db j = Some a \<and> under_path h (fo_path a) \<and> n = 2 \<and> d = length (fo_path a))" for t j n d
    by (auto simp: standing_def keys_on_self_def bind_eq_Some_conv split: if_splits)
  have tiers: "v \<in> set (object_tiers db k (Some base) i uid) \<longleftrightarrow> keys_on_self k \<and> v \<in> set (grant_tier db 4 k i uid) \<or>
      k \<noteq> Folder \<and> v \<in> set (grant_tier db 3 Template base uid)" for v
    by (cases k) (auto simp: keys_on_self_def)
  have "(n, d, s) \<in> set (object_tiers db k (Some base) i uid @ folder_tier db uid home) \<longleftrightarrow>
      (\<exists>t j. G t j s \<and> standing db k i base home t j = Some (n, d))" for n d s
    unfolding set_append Un_iff tiers grant folder standing by blast
  then show ?thesis unfolding G_def by (intro set_eqI) (simp only: split_paired_all, simp)
qed

lemma apply_grant_facts:
  "grant_facts (apply_grant ws k i uid r granter db) =
    insert (k, i, uid, r) {(t, j, u, s) \<in> grant_facts db. \<not> (t = k \<and> j = i \<and> u = uid)}"
proof (cases "list_ex (same_grant k i uid) (db_grants db)")
  case True
  let ?f = "\<lambda>g. (gr_object_type g, gr_object_id g, gr_user_id g, gr_role g)"
  have "db_grants (apply_grant ws k i uid r granter db) =
      map (\<lambda>g. if same_grant k i uid g then g\<lparr>gr_role := r, gr_granted_by := granter\<rparr> else g) (db_grants db)"
    using True by (simp add: apply_grant_def)
  then have facts: "grant_facts (apply_grant ws k i uid r granter db) =
      (\<lambda>g. if same_grant k i uid g then (k, i, uid, r) else ?f g) ` set (db_grants db)"
    by (simp only: set_map image_image) (intro image_cong, auto simp: same_grant_def)
  obtain g where "g \<in> set (db_grants db)" "same_grant k i uid g" using True by (auto simp: list_ex_iff)
  then have "(k, i, uid, r) \<in> grant_facts (apply_grant ws k i uid r granter db)" unfolding facts by (simp add: rev_image_eqI)
  then show ?thesis unfolding facts by (auto simp: same_grant_def)
next
  case False
  then show ?thesis by (force simp: apply_grant_def same_grant_def list_ex_iff)
qed

lemma standing_db [simp]: "standing (db\<lparr>db_grants := gs\<rparr>) = standing db"
proof -
  have "folder_by_id (db\<lparr>db_grants := gs\<rparr>) j = folder_by_id db j" for j by simp
  then show ?thesis by (intro ext) (simp only: standing_def)
qed

text \<open>A row that is put in, where the best row was at least as high, does not raise the best.\<close>

lemma new_row_no_higher:
  fixes T T' :: "(nat \<times> nat \<times> role) list"
  assumes new: "set T' \<subseteq> insert (a, b, r) (set T)" "(a, b, r) \<in> set T'"
    and kept: "\<And>n d s. (n, d, s) \<in> set T \<Longrightarrow> (n, d) \<noteq> (a, b) \<Longrightarrow> (n, d, s) \<in> set T'"
    and best: "(\<And>n d s. (n, d, s) \<in> set T \<Longrightarrow> (n, d) \<le> (a, b)) \<Longrightarrow>
      \<exists>g. map_option (\<lambda>(_, _, r). r) (order_limit_1 T) = Some g \<and> r \<le> g"
  shows "map_option (\<lambda>(_, _, r). r) (order_limit_1 T') \<le> map_option (\<lambda>(_, _, r). r) (order_limit_1 T)"
proof (cases "\<exists>n d s. (n, d, s) \<in> set T \<and> \<not> (n, d) \<le> (a, b)")
  case True
  then obtain m where m: "order_limit_1 T = Some m" by (cases T) auto
  then have max: "m \<in> set T" "\<And>x. x \<in> set T \<Longrightarrow> x \<le> m" unfolding order_limit_1_Some by auto
  obtain n d s where nds: "m = (n, d, s)" by (cases m)
  have above: "\<not> (n, d) \<le> (a, b)" using True max(2) nds by (fastforce simp: less_eq_prod_def)
  then have "m \<in> set T'" using kept max(1) nds by auto
  moreover have "(a, b, r) \<le> m" using above nds by (auto simp: less_eq_prod_def)
  ultimately have "order_limit_1 T' = Some m" using new(1) max(2) by (intro order_limit_1_eqI) auto
  then show ?thesis using m by simp
next
  case False
  then obtain g where g: "map_option (\<lambda>(_, _, r). r) (order_limit_1 T) = Some g" "r \<le> g" using best by blast
  then obtain n d where m: "order_limit_1 T = Some (n, d, g)" by auto
  then have max: "(n, d, g) \<in> set T" "\<And>x. x \<in> set T \<Longrightarrow> x \<le> (n, d, g)" unfolding order_limit_1_Some by auto
  obtain m' where m': "order_limit_1 T' = Some m'" using new(2) by (cases T') auto
  then have max': "m' \<in> set T'" "\<And>x. x \<in> set T' \<Longrightarrow> x \<le> m'" unfolding order_limit_1_Some by auto
  obtain n' d' s' where nds: "m' = (n', d', s')" by (cases m')
  have "s' \<le> g"
  proof (cases "m' = (a, b, r)")
    case False
    then have "m' \<in> set T" using max'(1) new(1) by auto
    then have "m' \<le> (n, d, g)" "(a, b, r) \<le> m'" using max(2) max'(2) new(2) by blast+
    moreover have "(n, d) \<le> (a, b)" using \<open>\<nexists>n d s. _\<close> max(1) by blast
    ultimately show ?thesis using nds by (auto simp: less_eq_prod_def)
  qed (use nds g in simp)
  then show ?thesis using m m' nds by simp
qed

lemma under_path_cut:
  assumes tree: "tree_ok fs" and "f \<in> set fs" and "a \<in> set fs" and h: "under_path h (fo_path f)"
  shows "under_path (fo_path f) (fo_path a) \<longleftrightarrow> under_path h (fo_path a) \<and> length (fo_path a) \<le> length (fo_path f)"
proof -
  let ?p = "fo_path f" and ?q = "fo_path a"
  have up: "under_path s ?p \<longleftrightarrow> s = ?p \<or> prefix (?p @ ''/'') s" "under_path s ?q \<longleftrightarrow> s = ?q \<or> prefix (?q @ ''/'') s" for s
    using tree_like [OF tree] assms(2,3) by (auto simp: under_path_def)
  show ?thesis
  proof
    assume q: "under_path ?p ?q"
    have "prefix ?p h" using h unfolding up by (auto dest: append_prefixD)
    then have "under_path h ?q" using q h unfolding up by (cases "?p = ?q") (auto dest: prefix_order.trans)
    moreover have "length ?q \<le> length ?p" using q unfolding up by (auto dest: prefix_length_le)
    ultimately show "under_path h ?q \<and> length ?q \<le> length ?p" ..
  next
    assume q: "under_path h ?q \<and> length ?q \<le> length ?p"
    show "under_path ?p ?q"
    proof (cases "h = ?p")
      case False
      then have p: "prefix (?p @ ''/'') h" using h unfolding up by simp
      then have "h \<noteq> ?q" using q prefix_length_le [OF p] by auto
      then have "prefix (?q @ ''/'') h" "length (?q @ ''/'') \<le> length (?p @ ''/'')" using q up(2) [of h] by simp_all
      then have "prefix (?q @ ''/'') (?p @ ''/'')" using prefix_length_prefix [OF _ p] by blast
      then show ?thesis unfolding up prefix_snoc by auto
    qed (use q in simp)
  qed
qed

lemma template_context:
  assumes "resolve_row db k i = Some (ws, base, home, flag)" and "k \<noteq> Folder" and "base \<noteq> uuid_nil"
  shows "\<exists>t \<in> set (db_templates db). base = chain_root t \<and> home = template_home db t"
  using assms
  by (cases k) (auto simp: bind_eq_Some_conv resolve_scope_def Let_def dest: find_SomeD split: option.splits if_splits)

lemma standing_cut:
  assumes tree: "tree_ok (db_folders db)" and nil: "\<forall>t \<in> set (db_templates db). chain_root t \<noteq> uuid_nil"
    and obj: "resolve_row db k i = Some (ws, base, home, flag)"
    and other: "resolve_row db k' i' = Some (ws', base', home', flag')"
    and p: "standing db k' i' base' home' k (if keys_on_self k then i else base) = Some p"
  shows "standing db k i base home t j = Some q \<longleftrightarrow> standing db k' i' base' home' t j = Some q \<and> q \<le> p"
proof -
  consider "keys_on_self k" | "k = Template" | "k = Folder" by (cases k) (auto simp: keys_on_self_def)
  then show ?thesis
  proof cases
    case 1
    then have "k' = k" "i' = i" "p = (4, 0)" using p by (auto simp: standing_def keys_on_self_def split: if_splits)
    then show ?thesis using obj other by (auto simp: standing_def bind_eq_Some_conv split: if_splits)
  next
    case 2
    then have k': "k' \<noteq> Folder" "base' = base" "p = (3, 0)" using p by (auto simp: standing_def keys_on_self_def split: if_splits)
    have "base \<noteq> uuid_nil" using obj 2 nil by (auto dest: find_SomeD)
    then have "home' = home" using template_context [OF obj] template_context [OF other] 2 k' by (auto simp: template_home_def)
    then show ?thesis using 2 k' by (auto simp: standing_def keys_on_self_def bind_eq_Some_conv split: if_splits)
  next
    case 3
    then obtain f where f: "f \<in> set (db_folders db)" "folder_by_id db i = Some f" "home = Some (fo_path f)" "base = i"
      using obj by (auto dest: find_SomeD)
    then obtain h where h: "home' = Some h" "under_path h (fo_path f)" "p = (2, length (fo_path f))"
      using p 3 by (auto simp: standing_def keys_on_self_def bind_eq_Some_conv split: if_splits)
    have "under_path (fo_path f) (fo_path a) \<longleftrightarrow> under_path h (fo_path a) \<and> length (fo_path a) \<le> length (fo_path f)"
      if "folder_by_id db j = Some a" for a
      using under_path_cut [OF tree f(1) _ h(2)] find_SomeD [OF that] by blast
    then show ?thesis using 3 f h by (auto simp: standing_def keys_on_self_def bind_eq_Some_conv split: if_splits)
  qed
qed

lemma best_after_grant:
  fixes db k' i' base' home' uid
  defines "rows \<equiv> \<lambda>db. object_tiers db k' (Some base') i' uid @ folder_tier db uid home'"
  assumes cut: "tree_ok (db_folders db)" "\<forall>t \<in> set (db_templates db). chain_root t \<noteq> uuid_nil"
      "resolve_row db k i = Some (ws, base, home, flag)" "resolve_row db k' i' = Some (ws', base', home', flag')"
    and db': "db' = apply_grant ws k (if keys_on_self k then i else base) target r granter db"
    and own: "target = uid \<Longrightarrow> \<exists>g. map_option (\<lambda>(_, _, r). r)
      (order_limit_1 (object_tiers db k (Some base) i uid @ folder_tier db uid home)) = Some g \<and> r \<le> g"
  shows "map_option (\<lambda>(_, _, r). r) (order_limit_1 (rows db')) \<le> map_option (\<lambda>(_, _, r). r) (order_limit_1 (rows db))"
proof -
  define gid where "gid = (if keys_on_self k then i else base)"
  define st where "st = standing db k' i' base' home'"
  define G where "G t j s \<longleftrightarrow> (t, j, uid, s) \<in> grant_facts db" for t j s
  have old: "(n, d, s) \<in> set (rows db) \<longleftrightarrow> (\<exists>t j. G t j s \<and> st t j = Some (n, d))" for n d s
    unfolding rows_def tier_rows G_def st_def by blast
  have "standing db' = standing db" unfolding db' apply_grant_def by simp
  then have rows: "(n, d, s) \<in> set (rows db') \<longleftrightarrow> (\<exists>t j. (t, j, uid, s) \<in> grant_facts db' \<and> st t j = Some (n, d))" for n d s
    unfolding rows_def tier_rows st_def by auto
  have "(t, j, uid, s) \<in> grant_facts db' \<longleftrightarrow> t = k \<and> j = gid \<and> uid = target \<and> s = r \<or>
      G t j s \<and> \<not> (t = k \<and> j = gid \<and> uid = target)" for t j s
    unfolding db' gid_def [symmetric] apply_grant_facts G_def by (simp only: insert_iff mem_Collect_eq prod.case prod.inject)
  note new = rows [unfolded this]
  show ?thesis
  proof (cases "uid = target \<and> st k gid \<noteq> None")
    case False
    then have "(n, d, s) \<in> set (rows db') \<longleftrightarrow> (n, d, s) \<in> set (rows db)" for n d s unfolding old new by (metis option.distinct(1))
    then have "order_limit_1 (rows db') = order_limit_1 (rows db)" by (intro order_limit_1_set) auto
    then show ?thesis by simp
  next
    case True
    then obtain a b where ab: "st k gid = Some (a, b)" by auto
    show ?thesis
    proof (rule new_row_no_higher)
      have "(n, d, s) = (a, b, r) \<or> (n, d, s) \<in> set (rows db)" if "(n, d, s) \<in> set (rows db')" for n d s
        using that ab unfolding old new by (metis option.inject prod.inject)
      then show "set (rows db') \<subseteq> insert (a, b, r) (set (rows db))" by auto
      show "(a, b, r) \<in> set (rows db')" unfolding new using ab True by blast
      show "(n, d, s) \<in> set (rows db')" if "(n, d, s) \<in> set (rows db)" "(n, d) \<noteq> (a, b)" for n d s
        using that ab unfolding old new by (metis option.inject)
      assume low: "\<And>n d s. (n, d, s) \<in> set (rows db) \<Longrightarrow> (n, d) \<le> (a, b)"
      have "(n, d, s) \<in> set (object_tiers db k (Some base) i uid @ folder_tier db uid home) \<longleftrightarrow>
          (\<exists>t j. G t j s \<and> st t j = Some (n, d) \<and> (n, d) \<le> (a, b))" for n d s
        using standing_cut [OF cut ab [unfolded st_def gid_def]] unfolding tier_rows G_def st_def by auto
      then have "(n, d, s) \<in> set (rows db) \<longleftrightarrow> (n, d, s) \<in> set (object_tiers db k (Some base) i uid @ folder_tier db uid home)" for n d s
        using low [of n d s] unfolding old by blast
      then have "order_limit_1 (rows db) = order_limit_1 (object_tiers db k (Some base) i uid @ folder_tier db uid home)"
        by (intro order_limit_1_set set_eqI) (simp only: split_paired_all)
      then show "\<exists>g. map_option (\<lambda>(_, _, r). r) (order_limit_1 (rows db)) = Some g \<and> r \<le> g"
        using own True by simp
    qed
  qed
qed

lemma resolve_after_grant [simp]:
  "resolve_row (db\<lparr>db_grants := gs\<rparr>) k i = resolve_row db k i" "member_role (db\<lparr>db_grants := gs\<rparr>) = member_role db"
  "is_restricted (db\<lparr>db_grants := gs\<rparr>) = is_restricted db"
proof -
  have "template_home (db\<lparr>db_grants := gs\<rparr>) = template_home db" by (intro ext) (simp add: template_home_def)
  moreover have "resolve_scope (db\<lparr>db_grants := gs\<rparr>) = resolve_scope db" using calculation by (intro ext) (simp add: resolve_scope_def)
  ultimately show "resolve_row (db\<lparr>db_grants := gs\<rparr>) k i = resolve_row db k i" by (cases k) simp_all
  show "member_role (db\<lparr>db_grants := gs\<rparr>) = member_role db" by (intro ext) (simp add: member_role_def cong: option.case_cong)
  show "is_restricted (db\<lparr>db_grants := gs\<rparr>) = is_restricted db" by (intro ext) (simp add: is_restricted_def cong: option.case_cong)
qed

lemma put_grant_coreD:
  assumes "put_grant_core db user k i target label = Inr db'"
  obtains r ws base home flag caller_role where "resolve_row db k i = Some (ws, base, home, flag)"
    "role_on db user \<lparr>or_kind = k, or_id = i\<rparr> = Some caller_role" "Admin \<le> caller_role" "r \<le> caller_role"
    "db' = apply_grant ws k (if keys_on_self k then i else base) target r (au_user_id user) db"
  using assms
  by (auto simp: put_grant_core_def grant_context_def resolve_ctx_def require_object_role_iff Let_def not_less
      split: option.splits sum.splits if_splits)

text \<open>
  C38: nobody raises a role of their own by granting. When a grant goes through, whoever it is
  for, the caller's role on every object of the same workspace is afterwards at most what it was.
\<close>

theorem granting_does_not_escalate:
  assumes "put_grant_core db user k i target label = Inr db'"
    and "tree_ok (db_folders db)" and "\<forall>t \<in> set (db_templates db). chain_root t \<noteq> uuid_nil"
    and "resolve_ctx db \<lparr>or_kind = k, or_id = i\<rparr> = Some ctx" and "resolve_ctx db obj = Some ctx'"
    and "oc_workspace_id ctx' = oc_workspace_id ctx"
  shows "\<exists>before after. effective_object_role db user obj = Inr before \<and> effective_object_role db' user obj = Inr after \<and>
    after \<le> before"
proof -
  let ?best = "map_option (\<lambda>(_, _, r). r)" and ?uid = "au_user_id user"
  obtain r ws base home flag c where row: "resolve_row db k i = Some (ws, base, home, flag)"
    and c: "role_on db user \<lparr>or_kind = k, or_id = i\<rparr> = Some c" "Admin \<le> c" "r \<le> c"
    and db': "db' = apply_grant ws k (if keys_on_self k then i else base) target r ?uid db"
    using put_grant_coreD [OF assms(1)] .
  obtain k' i' where obj: "obj = \<lparr>or_kind = k', or_id = i'\<rparr>" by (cases obj)
  obtain base' home' flag' where row': "resolve_row db k' i' = Some (ws, base', home', flag')"
    and ctx': "oc_workspace_id ctx' = ws" using assms(4-6) row obj by (auto simp: resolve_ctx_def)
  have "role_on db' user obj \<le> role_on db user obj"
  proof (cases "\<exists>w. member_role db user ws = Inr w \<and> w < Admin")
    case False
    then show ?thesis using row' unfolding db' apply_grant_def obj
      by (auto simp: role_on_def resolve_ctx_def split: sum.split)
  next
    case True
    then obtain w where w: "member_role db user ws = Inr w" "w < Admin" by blast
    then have "\<exists>g. ?best (order_limit_1 (object_tiers db k (Some base) i ?uid @ folder_tier db ?uid home)) = Some g \<and> r \<le> g"
      using c row by (auto simp: role_on_def resolve_ctx_def best_grant_role_def Let_def max_def split: if_splits option.splits)
    from best_after_grant [OF assms(2,3) row row' db'] this
    have "?best (order_limit_1 (object_tiers db' k' (Some base') i' ?uid @ folder_tier db' ?uid home')) \<le>
        ?best (order_limit_1 (object_tiers db k' (Some base') i' ?uid @ folder_tier db ?uid home'))" by blast
    moreover have "resolve_ctx db' obj = resolve_ctx db obj" "member_role db' = member_role db"
      unfolding db' apply_grant_def by (simp_all add: resolve_ctx_def)
    ultimately show ?thesis using w row' unfolding obj
      by (auto simp: role_on_def resolve_ctx_def best_grant_role_def Let_def le_max_iff_disj split: option.splits)
  qed
  then show ?thesis by (simp add: effective_object_role_eq)
qed

section \<open>An example\<close>

text \<open>
  Workspace 1 has an owner, an editor and a viewer; folders \<open>/a\<close>, \<open>/a/b\<close> and the restricted
  \<open>/c\<close>; a template in \<open>/a/b\<close>, with an instance; a resource and an asset in \<open>/c\<close>. The viewer is an
  administrator of \<open>/a\<close>, but of \<open>/a/b\<close> an editor, and owns workspace 2, which is empty.
\<close>

definition folder :: "uuid \<Rightarrow> uuid \<Rightarrow> uuid option \<Rightarrow> string \<Rightarrow> string \<Rightarrow> bool \<Rightarrow> folder_row" where
  "folder i ws parent slug path restricted = \<lparr>fo_id = i, fo_workspace_id = ws, fo_parent_id = parent, fo_slug = slug,
    fo_display_name = slug, fo_description = [], fo_path = path, fo_created_by = 100, fo_updated_by = 100, fo_restricted = restricted\<rparr>"

definition grant :: "object_kind \<Rightarrow> uuid \<Rightarrow> uuid \<Rightarrow> role \<Rightarrow> grant_row" where
  "grant k i uid r = \<lparr>gr_workspace_id = 1, gr_object_type = k, gr_object_id = i, gr_user_id = uid, gr_role = r, gr_granted_by = 100\<rparr>"

definition person :: "uuid \<Rightarrow> auth_user" where
  "person i = \<lparr>au_subject = ''user'', au_user_id = i, au_workspace_id = None, au_workspace_role = None\<rparr>"

definition member :: "uuid \<Rightarrow> uuid \<Rightarrow> role \<Rightarrow> member_row" where
  "member ws i r = \<lparr>me_workspace_id = ws, me_user_id = i, me_role = as_label r\<rparr>"

definition sample_acl :: acl_db where
  "sample_acl = \<lparr>
    db_folders = [folder 10 1 None ''a'' ''/a'' False, folder 11 1 (Some 10) ''b'' ''/a/b'' False, folder 12 1 None ''c'' ''/c'' True],
    db_templates = [\<lparr>te_id = 20, te_base_template_id = None, te_workspace_id = 1, te_visibility = ''workspace'', te_owner_template_id = None\<rparr>],
    db_template_folders = [\<lparr>tf_base_template_id = 20, tf_folder_id = 11, tf_workspace_id = 1, tf_moved_by = 100\<rparr>],
    db_instances = [\<lparr>is_id = 30, is_template_id = 20, is_net_id = ''net-30''\<rparr>],
    db_resources = [\<lparr>re_id = 40, re_workspace_id = 1, re_scope_kind = ''folder'', re_scope_id = Some 12, re_restricted = False\<rparr>],
    db_assets = [\<lparr>as_id = 50, as_scope_kind = ''folder'', as_scope_id = 12, as_restricted = False\<rparr>],
    db_grants = [grant Folder 10 102 Admin, grant Folder 11 102 Editor],
    db_members = [member 1 100 Owner, member 1 101 Editor, member 1 102 Viewer, member 2 102 Owner],
    db_workspaces = [\<lparr>wo_id = 1, wo_is_system = False, wo_archived = False\<rparr>, \<lparr>wo_id = 2, wo_is_system = False, wo_archived = False\<rparr>],
    db_template_tags = []\<rparr>"

lemmas sample_defs = folder_def grant_def person_def member_def sample_acl_def

abbreviation role_of :: "acl_db \<Rightarrow> uuid \<Rightarrow> object_kind \<Rightarrow> uuid \<Rightarrow> (membership_error, role option) result" where
  "role_of db uid k i \<equiv> effective_object_role db (person uid) \<lparr>or_kind = k, or_id = i\<rparr>"

lemma sample_roles:
  "role_of sample_acl 102 Folder 10 = Inr (Some Admin)" "role_of sample_acl 102 Instance 30 = Inr (Some Editor)"
  "role_of sample_acl 101 Resource 40 = Inr None" "role_of sample_acl 100 Asset 50 = Inr (Some Owner)"
  by code_simp+

lemma sample_tree: "tree_ok (db_folders sample_acl)"
  by code_simp

section \<open>Where the rules do not hold\<close>

fun run_all :: "acl_db \<Rightarrow> acl_command list \<Rightarrow> (api_error, acl_db) result" where
  "run_all db [] = Inr db"
| "run_all db (c # cs) = (case run_acl db c of Inl e \<Rightarrow> Inl e | Inr db' \<Rightarrow> run_all db' cs)"

text \<open>
  The folder tier does not ask for the workspace of the folder. The viewer of workspace 1 makes a
  folder \<open>/c\<close> in the workspace they own, grants themselves its ownership, and owns the restricted
  folder \<open>/c\<close> of workspace 1, and the resource in it.
\<close>

lemma foreign_folder_counts:
  "role_of sample_acl 102 Folder 12 = Inr None"
  "case run_all sample_acl [CreateFolder (person 102) 2 None ''c'' ''c'' '''' 60, PutGrant (person 102) Folder 60 102 ''owner''] of
      Inl _ \<Rightarrow> False
    | Inr db \<Rightarrow> role_of db 102 Folder 12 = Inr (Some Owner) \<and> role_of db 102 Resource 40 = Inr (Some Owner)"
  by code_simp+

text \<open>
  Filing a template asks for a role on the template, none on the folder: an editor of a template,
  by the override in \<open>/a/b\<close>, files it in \<open>/a\<close>, where the override is not, and administers it.
\<close>

lemma refiling_escalates:
  "role_of sample_acl 102 Template 20 = Inr (Some Editor)"
  "case run_all sample_acl [SetTemplateFolder (person 102) 20 (Some 10)] of
      Inl _ \<Rightarrow> False | Inr db \<Rightarrow> role_of db 102 Template 20 = Inr (Some Admin)"
  by code_simp+

text \<open>
  Creating a folder asks for a role on the parent, moving one does not: an editor who may not even
  see the restricted folder moves another folder into it, and loses it.
\<close>

lemma move_skips_destination:
  "run_all sample_acl [CreateFolder (person 101) 1 (Some 12) ''d'' ''d'' '''' 60] = Inl (Forbidden ''not a member of this workspace'')"
  "case run_all sample_acl [UpdateFolder (person 101) 10 None (Some 12) None None] of
      Inl _ \<Rightarrow> False | Inr db \<Rightarrow> role_of db 101 Folder 10 = Inr None"
  by code_simp+

text \<open>
  Deleting a folder takes care of templates and folders in it, not of resources and assets. A
  resource of a restricted folder is open to every member afterwards. An asset does not resolve
  any more: not even the owner may open it, though lists still show it.
\<close>

lemma delete_forgets_scopes:
  "role_of sample_acl 101 Resource 40 = Inr None"
  "case run_all sample_acl [DeleteFolder (person 100) 12] of
      Inl _ \<Rightarrow> False
    | Inr db \<Rightarrow> role_of db 101 Resource 40 = Inr (Some Editor) \<and> role_of db 100 Asset 50 = Inr None \<and>
        filter_and_annotate_visible db (person 100) Asset 1 [(50, ())] = Inr [(50, (), Some ''owner'')]"
  by code_simp+

text \<open>
  A folder with a child of its own name cannot be deleted: the child takes the path while the
  folder still has it.
\<close>

lemma delete_of_namesake_fails:
  "run_all sample_acl [CreateFolder (person 100) 1 (Some 10) ''a'' ''a'' '''' 60, DeleteFolder (person 100) 10] = Inl Internal"
  by code_simp

text \<open>Who is held below an inherited role by a grant removes the grant, and has the higher role.\<close>

lemma removing_own_grant_escalates:
  "case run_all sample_acl [PutGrant (person 100) Folder 10 102 ''owner'', PutGrant (person 100) Folder 11 102 ''admin''] of
      Inl _ \<Rightarrow> False
    | Inr db \<Rightarrow> role_of db 102 Folder 11 = Inr (Some Admin) \<and>
        (case run_all db [DeleteGrant (person 102) Folder 11 102] of
           Inl _ \<Rightarrow> False | Inr db' \<Rightarrow> role_of db' 102 Folder 11 = Inr (Some Owner))"
  by code_simp

text \<open>
  The guard against cycles reads, then the move writes, and nothing locks the rows between. Two
  moves that read the same state both pass: \<open>/a\<close> goes under \<open>/c\<close> and \<open>/c\<close> under \<open>/a\<close>, and the folders are
  a cycle that no root reaches.
\<close>

lemma overlapping_moves_make_cycle:
  "case (folder_by_id sample_acl 10, folder_by_id sample_acl 12) of
     (Some a, Some c) \<Rightarrow>
       (case (move_parent_path sample_acl a (Some 12), move_parent_path sample_acl c (Some 10)) of
          (Inr path_c, Inr path_a) \<Rightarrow>
            (case move_write sample_acl a (Some 12) ''a'' path_c None None 100 of
               Inl _ \<Rightarrow> False
             | Inr db \<Rightarrow>
                 (case move_write db c (Some 10) ''c'' path_a None None 100 of
                    Inl _ \<Rightarrow> False
                  | Inr db' \<Rightarrow> map_option fo_parent_id (folder_by_id db' 10) = Some (Some 12) \<and>
                      map_option fo_parent_id (folder_by_id db' 12) = Some (Some 10) \<and> \<not> tree_ok (db_folders db')))
        | _ \<Rightarrow> False)
   | _ \<Rightarrow> False"
  by code_simp

section \<open>The properties on the example\<close>

lemma sample_ok: "keys_ok sample_acl" "grants_ok sample_acl" "local_grants sample_acl 102 1" "homes_ok sample_acl"
  "\<forall>t \<in> set (db_templates sample_acl). chain_root t \<noteq> uuid_nil"
  by code_simp+

lemma sample_workspace:
  "resolve_ctx sample_acl \<lparr>or_kind = Folder, or_id = 10\<rparr> =
    Some \<lparr>oc_workspace_id = 1, oc_base_id = 10, oc_home_path = Some ''/a'', oc_restricted = False\<rparr>"
  "resolve_ctx sample_acl \<lparr>or_kind = Folder, or_id = 12\<rparr> =
    Some \<lparr>oc_workspace_id = 1, oc_base_id = 12, oc_home_path = Some ''/c'', oc_restricted = True\<rparr>"
  "resolve_ctx sample_acl \<lparr>or_kind = Template, or_id = 20\<rparr> =
    Some \<lparr>oc_workspace_id = 1, oc_base_id = 20, oc_home_path = Some ''/a/b'', oc_restricted = False\<rparr>"
  by code_simp+



theorem paths_are_ancestry_witness:
  "ancestor (db_folders sample_acl) (folder 11 1 (Some 10) ''b'' ''/a/b'' False) (folder 10 1 None ''a'' ''/a'' False)"
proof -
  have "under_path ''/a/b'' ''/a''" by code_simp
  then show ?thesis
    using paths_are_ancestry [OF sample_tree, of "folder 11 1 (Some 10) ''b'' ''/a/b'' False" "folder 10 1 None ''a'' ''/a'' False"]
    by (simp add: sample_acl_def folder_def)
qed


theorem granting_does_not_escalate_witness:
  "\<exists>before after. role_of sample_acl 102 Template 20 = Inr before \<and>
    role_of (projr (put_grant_core sample_acl (person 102) Folder 10 102 ''admin'')) 102 Template 20 = Inr after \<and> after \<le> before"
proof -
  have "isl (put_grant_core sample_acl (person 102) Folder 10 102 ''admin'') = False" by code_simp
  then have "put_grant_core sample_acl (person 102) Folder 10 102 ''admin'' = Inr (projr (put_grant_core sample_acl (person 102) Folder 10 102 ''admin''))"
    by (simp add: sum.collapse)
  from granting_does_not_escalate [OF this sample_tree sample_ok(5) sample_workspace(1,3)] show ?thesis by simp
qed

end
