(* ===== verification/Sharing.thy ===== *)
theory Sharing
  imports Grants Join_Index
begin

text \<open>
  The reads and the smaller handlers around access: the list of grants of an object,
  \<^verbatim>\<open>handlers/object_grants.rs\<close>, tags, visibility and home folder of templates,
  \<^verbatim>\<open>handlers/folders.rs\<close>, the target of a fork and the lookups by net, \<^verbatim>\<open>auth/membership.rs\<close>.
  The order of texts in the database is a parameter, \<open>collate\<close>; rows without an order come in the
  order in which they were inserted.
\<close>

section \<open>Membership\<close>

definition require_member :: "acl_db \<Rightarrow> auth_user \<Rightarrow> uuid \<Rightarrow> (membership_error, role) result" where
  "require_member db user ws = require_role db user ws Viewer"

definition require_workspace_admin :: "acl_db \<Rightarrow> auth_user \<Rightarrow> uuid \<Rightarrow> (membership_error, role) result" where
  "require_workspace_admin db user ws = require_role db user ws Admin"

definition resolve_fork_target ::
  "acl_db \<Rightarrow> auth_user \<Rightarrow> uuid option \<Rightarrow> uuid option \<Rightarrow> (membership_error, uuid option) result" where
  "resolve_fork_target db user requested active = (case requested of
      Some ws \<Rightarrow>
        (case require_role db user ws Editor of
           Inr _ \<Rightarrow> Inr (Some ws)
         | Inl (InsufficientRole _ _) \<Rightarrow> Inr None
         | Inl (NotMember _) \<Rightarrow> Inr None
         | Inl e \<Rightarrow> Inl e)
    | None \<Rightarrow>
        if (case active of
            Some ws \<Rightarrow> (case member_role db user ws of Inr r \<Rightarrow> r \<ge> Editor | Inl _ \<Rightarrow> False)
          | None \<Rightarrow> False) then Inr active
        else Inr (map_option wo_id (find (\<lambda>w. \<not> wo_archived w \<and> \<not> wo_is_system w \<and>
          list_ex (\<lambda>m. me_workspace_id m = wo_id w \<and> me_user_id m = au_user_id user \<and>
            me_role m \<in> {''editor'', ''admin'', ''owner''}) (db_members db)) (db_workspaces db))))"

definition instance_ref_by_net_id :: "acl_db \<Rightarrow> string \<Rightarrow> (uuid \<times> uuid \<times> string) option" where
  "instance_ref_by_net_id db net_id = Option.bind (find (\<lambda>i. is_net_id i = net_id) (db_instances db)) (\<lambda>i.
    map_option (\<lambda>t. (is_id i, te_workspace_id t, te_visibility t)) (template_by_id db (is_template_id i)))"

definition instance_workspace :: "acl_db \<Rightarrow> string \<Rightarrow> (membership_error, uuid \<times> string) result" where
  "instance_workspace db net_id = (case Option.bind (find (\<lambda>i. is_net_id i = net_id) (db_instances db)) (\<lambda>i.
      map_option (\<lambda>t. (te_workspace_id t, te_visibility t)) (template_by_id db (is_template_id i))) of
      Some row \<Rightarrow> Inr row | None \<Rightarrow> Inl (TemplateNotFound uuid_nil))"

section \<open>The list of grants\<close>

record grant_view =
  gv_user_id :: uuid
  gv_role :: string
  gv_source :: string
  gv_granted_by :: "uuid option"
  gv_folder :: "(uuid \<times> string) option"

definition direct_views :: "acl_db \<Rightarrow> object_kind \<Rightarrow> uuid \<Rightarrow> grant_view list" where
  "direct_views db k i = map (\<lambda>g. \<lparr>gv_user_id = gr_user_id g, gv_role = as_label (gr_role g), gv_source = ''object'',
      gv_granted_by = Some (gr_granted_by g), gv_folder = None\<rparr>)
    (filter (\<lambda>g. gr_object_type g = k \<and> gr_object_id g = i) (db_grants db))"

definition folder_views :: "acl_db \<Rightarrow> string option \<Rightarrow> bool \<Rightarrow> grant_view list" where
  "folder_views db home exclude_self = (case home of
      None \<Rightarrow> []
    | Some h \<Rightarrow> map (\<lambda>(g, f). \<lparr>gv_user_id = gr_user_id g, gv_role = as_label (gr_role g), gv_source = ''folder'',
          gv_granted_by = Some (gr_granted_by g), gv_folder = Some (fo_id f, fo_path f)\<rparr>)
        (sort_key (\<lambda>(g, f). length (fo_path f)) (List.map_filter (\<lambda>g. if gr_object_type g = Folder then
          (case folder_by_id db (gr_object_id g) of
             Some f \<Rightarrow> if under_path h (fo_path f) \<and> \<not> (exclude_self \<and> fo_path f = h) then Some (g, f) else None
           | None \<Rightarrow> None) else None) (db_grants db))))"

definition member_views :: "acl_db \<Rightarrow> uuid \<Rightarrow> grant_view list" where
  "member_views db ws = map (\<lambda>m. \<lparr>gv_user_id = me_user_id m, gv_role = me_role m, gv_source = ''workspace'',
      gv_granted_by = None, gv_folder = None\<rparr>) (filter (\<lambda>m. me_workspace_id m = ws) (db_members db))"

definition list_grants_core :: "acl_db \<Rightarrow> auth_user \<Rightarrow> object_kind \<Rightarrow> uuid \<Rightarrow> (api_error, grant_view list) result" where
  "list_grants_core db user k i =
    (let obj = \<lparr>or_kind = k, or_id = i\<rparr> in
     case grant_context db obj of
       None \<Rightarrow> Inl (NotFound ''object not found'')
     | Some ctx \<Rightarrow>
         (case require_object_role db user obj Admin of
            Inl e \<Rightarrow> Inl (map_to_api_error e)
          | Inr _ \<Rightarrow> Inr (direct_views db k (gc_grant_object_id ctx) @ folder_views db (gc_home_path ctx) (k = Folder) @
              member_views db (gc_workspace_id ctx))))"

section \<open>Tags, visibility, home\<close>

definition list_workspace_tags :: "(string \<Rightarrow> 'k :: linorder) \<Rightarrow> acl_db \<Rightarrow> auth_user \<Rightarrow> uuid \<Rightarrow> (api_error, string list) result" where
  "list_workspace_tags collate db user ws = (case require_role db user ws Viewer of
      Inl e \<Rightarrow> Inl (map_to_api_error e)
    | Inr _ \<Rightarrow> Inr (sort_key collate (remdups (map (\<lambda>(_, _, t). t) (filter (\<lambda>(w, _, _). w = ws) (db_template_tags db))))))"

definition list_folders ::
  "(string \<Rightarrow> 'k :: linorder) \<Rightarrow> acl_db \<Rightarrow> auth_user \<Rightarrow> uuid \<Rightarrow> (api_error, (uuid \<times> folder_row \<times> string option) list) result" where
  "list_folders collate db user ws = (case require_workspace_read db user ws of
      Inl e \<Rightarrow> Inl (map_to_api_error e)
    | Inr _ \<Rightarrow>
        map_sum map_to_api_error id (annotate_roles_keep_all db user Folder ws (map (\<lambda>f. (fo_id f, f))
          (sort_key (\<lambda>f. collate (fo_path f)) (filter (\<lambda>f. fo_workspace_id f = ws) (db_folders db))))))"

definition tags_of :: "(string \<Rightarrow> 'k :: linorder) \<Rightarrow> acl_db \<Rightarrow> uuid \<Rightarrow> uuid \<Rightarrow> string list" where
  "tags_of collate db ws base = sort_key collate (map (\<lambda>(_, _, t). t) (filter (\<lambda>(w, b, _). w = ws \<and> b = base) (db_template_tags db)))"

text \<open>The gate that the reads of a template share.\<close>

definition readable :: "acl_db \<Rightarrow> auth_user \<Rightarrow> uuid \<Rightarrow> (api_error, unit) result" where
  "readable db user i = (case can_read_template db user i of
      Inl e \<Rightarrow> Inl (map_to_api_error e)
    | Inr ok \<Rightarrow> if ok then Inr () else Inl (Forbidden ''no read access to this template''))"

definition get_template_tags :: "(string \<Rightarrow> 'k :: linorder) \<Rightarrow> acl_db \<Rightarrow> auth_user \<Rightarrow> uuid \<Rightarrow> (api_error, string list) result" where
  "get_template_tags collate db user i = (case readable db user i of
      Inl e \<Rightarrow> Inl e
    | Inr _ \<Rightarrow>
        (case template_workspace db i of
           Inl e \<Rightarrow> Inl (map_to_api_error e)
         | Inr ws \<Rightarrow> map_sum id (tags_of collate db ws) (template_base_id db i)))"

definition get_template_folder :: "acl_db \<Rightarrow> auth_user \<Rightarrow> uuid \<Rightarrow> (api_error, folder_row option) result" where
  "get_template_folder db user i = (case readable db user i of
      Inl e \<Rightarrow> Inl e
    | Inr _ \<Rightarrow> map_sum id (\<lambda>base. Option.bind (find (\<lambda>x. tf_base_template_id x = base) (db_template_folders db))
        (\<lambda>x. folder_by_id db (tf_folder_id x))) (template_base_id db i))"

fun insert_tags :: "uuid \<Rightarrow> uuid \<Rightarrow> string list \<Rightarrow> (uuid \<times> uuid \<times> string) list \<Rightarrow> (uuid \<times> uuid \<times> string) list" where
  "insert_tags ws base [] rows = rows"
| "insert_tags ws base (tag # tags) rows =
    insert_tags ws base tags (let t = trim tag in if t = [] \<or> (ws, base, t) \<in> set rows then rows else rows @ [(ws, base, t)])"

definition set_template_tags ::
  "(string \<Rightarrow> 'k :: linorder) \<Rightarrow> acl_db \<Rightarrow> auth_user \<Rightarrow> uuid \<Rightarrow> string list \<Rightarrow> (api_error, acl_db \<times> string list) result" where
  "set_template_tags collate db user i tags = (case template_workspace db i of
      Inl e \<Rightarrow> Inl (map_to_api_error e)
    | Inr ws \<Rightarrow>
        (case require_role db user ws Editor of
           Inl e \<Rightarrow> Inl (map_to_api_error e)
         | Inr _ \<Rightarrow>
             (case template_base_id db i of
                Inl e \<Rightarrow> Inl e
              | Inr base \<Rightarrow>
                  let db' = db\<lparr>db_template_tags := insert_tags ws base tags
                    (filter (\<lambda>(w, b, _). \<not> (w = ws \<and> b = base)) (db_template_tags db))\<rparr> in
                  Inr (db', tags_of collate db' ws base))))"

text \<open>The owner of a private template, resolved to its family.\<close>

definition resolve_owner :: "acl_db \<Rightarrow> uuid \<Rightarrow> uuid \<Rightarrow> string \<Rightarrow> uuid option \<Rightarrow> (api_error, uuid option) result" where
  "resolve_owner db ws base visibility owner_input =
    (if visibility = ''private'' then
       (case owner_input of
          None \<Rightarrow> Inl (BadRequest (''owner_template_id is required when visibility is 'private'' @ [CHR 0x27]))
        | Some oid \<Rightarrow>
            (case find (\<lambda>t. te_id t = oid \<and> te_workspace_id t = ws) (db_templates db) of
               None \<Rightarrow> Inl (BadRequest ''owner_template_id must reference a template in this workspace'')
             | Some t \<Rightarrow>
                 if chain_root t = base then Inl (BadRequest ''a template cannot be private to itself'')
                 else Inr (Some (chain_root t))))
     else Inr None)"

definition set_template_visibility ::
  "acl_db \<Rightarrow> auth_user \<Rightarrow> uuid \<Rightarrow> string \<Rightarrow> uuid option \<Rightarrow> (api_error, acl_db) result" where
  "set_template_visibility db user i visibility owner_input =
    (if visibility \<notin> {''workspace'', ''public'', ''private''}
     then Inl (BadRequest (''visibility must be 'workspace', 'public', or 'private'' @ [CHR 0x27]))
     else (case template_workspace db i of
         Inl e \<Rightarrow> Inl (map_to_api_error e)
       | Inr ws \<Rightarrow>
           (case require_role db user ws (if visibility = ''public'' then Admin else Editor) of
              Inl e \<Rightarrow> Inl (map_to_api_error e)
            | Inr _ \<Rightarrow>
                (case template_base_id db i of
                   Inl e \<Rightarrow> Inl e
                 | Inr base \<Rightarrow>
                     (case resolve_owner db ws base visibility owner_input of
                        Inl e \<Rightarrow> Inl e
                      | Inr owner \<Rightarrow> Inr (db\<lparr>db_templates := map (\<lambda>t. if chain_root t = base
                          then t\<lparr>te_visibility := visibility, te_owner_template_id := owner\<rparr> else t) (db_templates db)\<rparr>))))))"

section \<open>Forks and tags\<close>

lemma writer_label: "r \<in> {''editor'', ''admin'', ''owner''} \<Longrightarrow> \<exists>x \<ge> Editor. role_from_db r = Some x"
  by (auto simp: role_from_db_def less_eq_role_def)

lemma fork_target_writable:
  assumes "\<not> is_machine_principal user" and "distinct (map (\<lambda>m. (me_workspace_id m, me_user_id m)) (db_members db))"
    and "resolve_fork_target db user requested active = Inr (Some ws)"
  shows "\<exists>r \<ge> Editor. member_role db user ws = Inr r"
proof (cases requested)
  case (Some ws')
  then show ?thesis using assms(3)
    by (auto simp: resolve_fork_target_def require_role_def not_less split: sum.splits membership_error.splits if_splits)
next
  case None
  show ?thesis
  proof (cases "\<exists>a r. active = Some a \<and> member_role db user a = Inr r \<and> r \<ge> Editor")
    case True
    then show ?thesis using None assms(3) by (auto simp: resolve_fork_target_def)
  next
    case False
    then have "map_option wo_id (find (\<lambda>w. \<not> wo_archived w \<and> \<not> wo_is_system w \<and>
          list_ex (\<lambda>m. me_workspace_id m = wo_id w \<and> me_user_id m = au_user_id user \<and>
            me_role m \<in> {''editor'', ''admin'', ''owner''}) (db_members db)) (db_workspaces db)) = Some ws"
      using None assms(3) by (auto simp: resolve_fork_target_def split: option.splits sum.splits if_splits)
    then obtain m where m: "m \<in> set (db_members db)" "me_workspace_id m = ws" "me_user_id m = au_user_id user"
      "me_role m \<in> {''editor'', ''admin'', ''owner''}"
      by (auto simp: list_ex_iff dest!: find_SomeD)
    from m(2,3) find_key [OF assms(2) m(1)]
    have "find (\<lambda>m. me_workspace_id m = ws \<and> me_user_id m = au_user_id user) (db_members db) = Some m" by simp
    moreover obtain x where "x \<ge> Editor" "role_from_db (me_role m) = Some x" using writer_label [OF m(4)] by blast
    ultimately show ?thesis using assms(1) by (auto simp: member_role_def machine_member_role_def)
  qed
qed

lemma insert_tags_rows:
  "set (insert_tags ws base tags rows) = set rows \<union> {(ws, base, trim t) | t. t \<in> set tags \<and> trim t \<noteq> []}"
  by (induction tags arbitrary: rows) (auto simp: Let_def)

lemma insert_tags_distinct: "distinct rows \<Longrightarrow> distinct (insert_tags ws base tags rows)"
  by (induction tags arbitrary: rows) (auto simp: Let_def)

lemma insert_tags_other:
  "(\<And>t. \<not> P (ws, base, t)) \<Longrightarrow> filter P (insert_tags ws base tags rows) = filter P rows"
  by (induction tags arbitrary: rows) (auto simp: Let_def)

lemma tags_of_set: "set (tags_of collate db ws base) = {t. (ws, base, t) \<in> set (db_template_tags db)}"
  by (auto simp: tags_of_def image_iff)

lemma tags_of_distinct: "distinct (db_template_tags db) \<Longrightarrow> distinct (tags_of collate db ws base)"
  by (auto simp: tags_of_def distinct_map inj_on_def)

lemma tags_change_nothing:
  "template_workspace (db\<lparr>db_template_tags := rows\<rparr>) = template_workspace db"
  "template_base_id (db\<lparr>db_template_tags := rows\<rparr>) = template_base_id db"
  "can_read_template (db\<lparr>db_template_tags := rows\<rparr>) = can_read_template db"
proof -
  have "member_role (db\<lparr>db_template_tags := rows\<rparr>) = member_role db"
    by (intro ext) (simp add: member_role_def cong: option.case_cong)
  then show "can_read_template (db\<lparr>db_template_tags := rows\<rparr>) = can_read_template db"
    by (intro ext) (simp add: can_read_template_def cong: option.case_cong if_cong)
qed (simp_all add: template_workspace_def template_base_id_def fun_eq_iff)

lemma member_reads:
  assumes "template_workspace db i = Inr ws" and "member_role db user ws = Inr r"
  shows "readable db user i = Inr ()"
  using assms by (auto simp: readable_def can_read_template_def template_workspace_def split: option.splits)

text \<open>
  Tags that are set are the tags that are read: the non-empty ones, trimmed, each once, for
  every version of the template and every reader who is a member, and no other template's tags
  change.
\<close>

theorem tags_roundtrip:
  fixes collate :: "string \<Rightarrow> 'k :: linorder"
  assumes "set_template_tags collate db user i tags = Inr (db', ts)" and "distinct (db_template_tags db)"
    and "template_workspace db j = Inr ws" and "member_role db reader ws = Inr r"
  shows "set ts = {trim t | t. t \<in> set tags \<and> trim t \<noteq> []} \<and> distinct ts \<and>
    (if template_workspace db i = Inr ws \<and> template_base_id db j = template_base_id db i
     then get_template_tags collate db' reader j = Inr ts
     else get_template_tags collate db' reader j = get_template_tags collate db reader j)"
proof -
  obtain w base where w: "template_workspace db i = Inr w" and b: "template_base_id db i = Inr base"
    and db': "db' = db\<lparr>db_template_tags := insert_tags w base tags
      (filter (\<lambda>(w', b, _). \<not> (w' = w \<and> b = base)) (db_template_tags db))\<rparr>"
    and ts: "ts = tags_of collate db' w base"
    using assms(1) by (auto simp: set_template_tags_def Let_def split: sum.splits)
  have rows: "(x, y, t) \<in> set (db_template_tags db') \<longleftrightarrow> (if x = w \<and> y = base then \<exists>s \<in> set tags. t = trim s \<and> t \<noteq> []
      else (x, y, t) \<in> set (db_template_tags db))" for x y t
    unfolding db' by (auto simp: insert_tags_rows)
  have other: "tags_of collate db' x y = tags_of collate db x y" if "\<not> (x = w \<and> y = base)" for x y
  proof -
    let ?P = "\<lambda>(w, b, _ :: string). w = x \<and> b = y"
    have "filter ?P (db_template_tags db') = filter ?P (filter (\<lambda>(w', b, _). \<not> (w' = w \<and> b = base)) (db_template_tags db))"
      unfolding db' using that insert_tags_other [of ?P w base tags] by auto
    also have "\<dots> = filter ?P (db_template_tags db)"
      unfolding filter_filter using that by (intro filter_cong) auto
    finally show ?thesis by (simp only: tags_of_def)
  qed
  have same: "template_workspace db' = template_workspace db" "template_base_id db' = template_base_id db"
    "can_read_template db' = can_read_template db" unfolding db' by (rule tags_change_nothing)+
  obtain y where y: "template_base_id db j = Inr y" using assms(3)
    by (auto simp: template_workspace_def template_base_id_def split: option.splits)
  have reads: "readable db' reader j = Inr ()" "readable db reader j = Inr ()"
    using member_reads [OF assms(3,4)] by (simp_all add: readable_def same)
  have "set ts = {trim t | t. t \<in> set tags \<and> trim t \<noteq> []}" unfolding ts tags_of_set rows by auto
  moreover have "distinct ts" unfolding ts db' using assms(2) by (intro tags_of_distinct) (simp add: insert_tags_distinct)
  ultimately show ?thesis using assms(3) reads y b w other [of ws y] ts by (auto simp: get_template_tags_def same)
qed

section \<open>Visibility\<close>

text \<open>
  What the table and its readers rely on: a template is private exactly when it has an owner, the
  owner is a family other than its own, and all versions of a family agree.
\<close>

definition agrees :: "template_row \<Rightarrow> template_row \<Rightarrow> bool" where
  "agrees t t' \<longleftrightarrow> chain_root t' = chain_root t \<longrightarrow>
    te_visibility t' = te_visibility t \<and> te_owner_template_id t' = te_owner_template_id t"

definition visibility_ok :: "acl_db \<Rightarrow> bool" where
  "visibility_ok db \<longleftrightarrow> (\<forall>t \<in> set (db_templates db).
    te_visibility t \<in> {''workspace'', ''public'', ''private''} \<and>
    (te_visibility t = ''private'' \<longleftrightarrow> te_owner_template_id t \<noteq> None) \<and> te_owner_template_id t \<noteq> Some (chain_root t) \<and>
    (\<forall>t' \<in> set (db_templates db). agrees t t'))"

lemma resolve_owner_ok:
  "resolve_owner db ws base vis inp = Inr owner \<Longrightarrow> (vis = ''private'' \<longleftrightarrow> owner \<noteq> None) \<and> owner \<noteq> Some base"
  by (auto simp: resolve_owner_def split: if_splits option.splits)

text \<open>
  A template is made public by administrators of its workspace only and changed by editors
  only, and afterwards every version of it has the visibility that was asked for, private exactly
  with an owner that is another template family; other templates are as they were.
\<close>

theorem visibility_change:
  assumes "visibility_ok db" and "set_template_visibility db user i vis inp = Inr db'"
  shows "visibility_ok db' \<and> (\<exists>ws base r. template_workspace db i = Inr ws \<and> template_base_id db i = Inr base \<and>
    member_role db user ws = Inr r \<and> (if vis = ''public'' then Admin else Editor) \<le> r \<and>
    (\<forall>t \<in> set (db_templates db'). if chain_root t = base then te_visibility t = vis else t \<in> set (db_templates db)))"
proof -
  obtain ws base owner r where d: "vis \<in> {''workspace'', ''public'', ''private''}" "template_workspace db i = Inr ws"
    "require_role db user ws (if vis = ''public'' then Admin else Editor) = Inr r"
    "template_base_id db i = Inr base" "resolve_owner db ws base vis inp = Inr owner"
    "db' = db\<lparr>db_templates := map (\<lambda>t. if chain_root t = base
      then t\<lparr>te_visibility := vis, te_owner_template_id := owner\<rparr> else t) (db_templates db)\<rparr>"
    using assms(2) unfolding set_template_visibility_def by (auto split: if_splits sum.splits)
  have root: "chain_root (t\<lparr>te_visibility := vis, te_owner_template_id := owner\<rparr>) = chain_root t" for t
    by (simp add: chain_root_def split: option.split)
  define u where "u t = (if chain_root t = base then t\<lparr>te_visibility := vis, te_owner_template_id := owner\<rparr> else t)" for t
  have u: "chain_root (u t) = chain_root t" for t by (simp add: u_def root)
  have templates: "db_templates db' = map u (db_templates db)" by (simp add: d(6) u_def [abs_def])
  have "visibility_ok db'" unfolding visibility_ok_def templates set_map ball_simps u
  proof (intro ballI)
    fix t assume t: "t \<in> set (db_templates db)"
    show "te_visibility (u t) \<in> {''workspace'', ''public'', ''private''} \<and>
      (te_visibility (u t) = ''private'' \<longleftrightarrow> te_owner_template_id (u t) \<noteq> None) \<and> te_owner_template_id (u t) \<noteq> Some (chain_root t) \<and>
      (\<forall>t' \<in> set (db_templates db). agrees (u t) (u t'))"
    proof (cases "chain_root t = base")
      case True
      then show ?thesis using d(1) resolve_owner_ok [OF d(5)] by (auto simp: u_def agrees_def root)
    next
      case False
      then have "u t = t" "agrees t t' \<Longrightarrow> agrees t (u t')" for t' by (auto simp: u_def agrees_def root)
      then show ?thesis using bspec [OF assms(1) [unfolded visibility_ok_def] t] by auto
    qed
  qed
  moreover have "member_role db user ws = Inr r" "(if vis = ''public'' then Admin else Editor) \<le> r"
    using d(3) by (auto simp: require_role_def not_less split: sum.splits if_splits)
  ultimately show ?thesis using d(2,4) unfolding templates by (auto simp: u) (auto simp: u_def)
qed

section \<open>What the list of grants shows\<close>

text \<open>The role that a reader of the list concludes for a user: the object's own row, else the deepest folder's.\<close>

definition view_role :: "grant_view list \<Rightarrow> uuid \<Rightarrow> role option" where
  "view_role vs uid = (case find (\<lambda>v. gv_source v = ''object'' \<and> gv_user_id v = uid) vs of
      Some v \<Rightarrow> role_from_db (gv_role v)
    | None \<Rightarrow>
        let rows = filter (\<lambda>v. gv_source v = ''folder'' \<and> gv_user_id v = uid) vs in
        if rows = [] then None else role_from_db (gv_role (last rows)))"

lemma sorted_last: "sorted (map f xs) \<Longrightarrow> x \<in> set xs \<Longrightarrow> f x \<le> f (last xs)"
  by (induction xs) auto

lemma deepest_row:
  fixes d :: "'a \<Rightarrow> nat"
  assumes "sorted_wrt (\<lambda>a b. d a > d b) l" and "sorted (map (\<lambda>(g, a). d a) xs)"
    and "set xs = {(g, a). a \<in> set l \<and> P g a}"
    and "\<And>a r. h a = Some r \<longleftrightarrow> (\<exists>g. P g a \<and> gr_role g = r)"
  shows "first_some h l = (if xs = [] then None else Some (gr_role (fst (last xs))))"
  using assms(1,3)
proof (induction l)
  case (Cons a l)
  show ?case
  proof (cases "h a")
    case None
    then have "\<not> P g a" for g using assms(4) [of a "gr_role g"] by auto
    then have "set xs = {(g, a). a \<in> set l \<and> P g a}" using Cons.prems(2) by auto
    then show ?thesis using Cons None by simp
  next
    case (Some r)
    then obtain g where "P g a" using assms(4) by blast
    then have mem: "(g, a) \<in> set xs" using Cons.prems(2) by simp
    then have ne: "xs \<noteq> []" by auto
    obtain g' a' where last: "last xs = (g', a')" by (cases "last xs")
    have "(g', a') \<in> set xs" using last_in_set [OF ne] last by simp
    then have P: "P g' a'" "a' = a \<or> a' \<in> set l" using Cons.prems(2) by auto
    have "d a \<le> d a'" using sorted_last [OF assms(2) mem] last by simp
    then have "a' = a" using P(2) Cons.prems(1) by auto
    then have "h a = Some (gr_role g')" using assms(4) P(1) by blast
    then show ?thesis using last ne by simp
  qed
qed simp

lemma find_append: "find P (xs @ ys) = (case find P xs of Some x \<Rightarrow> Some x | None \<Rightarrow> find P ys)"
  by (induction xs) auto

lemma view_role_parts:
  assumes "\<forall>v \<in> set A. gv_source v = ''object''" and "\<forall>v \<in> set B. gv_source v = ''folder''" and "\<forall>v \<in> set C. gv_source v = ''workspace''"
  shows "view_role (A @ B @ C) uid = (case find (\<lambda>v. gv_user_id v = uid) A of
      Some v \<Rightarrow> role_from_db (gv_role v)
    | None \<Rightarrow> let rows = filter (\<lambda>v. gv_user_id v = uid) B in if rows = [] then None else role_from_db (gv_role (last rows)))"
proof -
  have "find (\<lambda>v. gv_source v = ''object'' \<and> gv_user_id v = uid) A = find (\<lambda>v. gv_user_id v = uid) A"
    using assms(1) by (intro find_cong) auto
  moreover have "find (\<lambda>v. gv_source v = ''object'' \<and> gv_user_id v = uid) (B @ C) = None"
    using assms(2,3) by (auto simp: find_None_iff)
  moreover have "filter (\<lambda>v. gv_source v = ''folder'' \<and> gv_user_id v = uid) (A @ B @ C) = filter (\<lambda>v. gv_user_id v = uid) B"
    using assms by (auto simp: filter_empty_conv intro: filter_cong)
  ultimately show ?thesis by (simp only: view_role_def find_append option.case split: option.split) simp
qed

lemma view_sources:
  "\<forall>v \<in> set (direct_views db k i). gv_source v = ''object''" "\<forall>v \<in> set (folder_views db home ex). gv_source v = ''folder''"
  "\<forall>v \<in> set (member_views db ws). gv_source v = ''workspace''"
  by (simp_all add: direct_views_def member_views_def) (cases home, auto simp: folder_views_def)

lemma direct_view: "map_option (\<lambda>v. role_from_db (gv_role v)) (find (\<lambda>v. gv_user_id v = uid) (direct_views db k i)) =
    map_option Some (object_grant db k i uid)"
proof -
  let ?V = "\<lambda>g. \<lparr>gv_user_id = gr_user_id g, gv_role = as_label (gr_role g), gv_source = ''object'',
      gv_granted_by = Some (gr_granted_by g), gv_folder = None\<rparr>"
  have "find (\<lambda>v. gv_user_id v = uid) (map ?V (filter (\<lambda>g. gr_object_type g = k \<and> gr_object_id g = i) gs)) =
      map_option ?V (find (same_grant k i uid) gs)" for gs
    by (induction gs) (auto simp: same_grant_def)
  then have "find (\<lambda>v. gv_user_id v = uid) (direct_views db k i) = map_option ?V (find (same_grant k i uid) (db_grants db))"
    by (simp add: direct_views_def)
  then show ?thesis by (simp add: object_grant_def option.map_comp comp_def role_label_roundtrip)
qed

lemma folder_view:
  assumes tree: "tree_ok (db_folders db)" and ok: "grants_ok db" and here: "local_grants db uid (fo_workspace_id f)"
    and f: "lineage (db_folders db) f l"
  shows "(let rows = filter (\<lambda>v. gv_user_id v = uid) (folder_views db (Some (fo_path f)) ex) in
      if rows = [] then None else role_from_db (gv_role (last rows))) = first_some (folder_grant db uid) (if ex then tl l else l)"
proof -
  let ?P = "\<lambda>g a. g \<in> set (db_grants db) \<and> same_grant Folder (fo_id a) uid g"
    and ?d = "\<lambda>a. length (fo_path a)" and ?l = "if ex then tl l else l"
    and ?F = "\<lambda>g. if gr_object_type g = Folder then (case folder_by_id db (gr_object_id g) of
             Some a \<Rightarrow> if under_path (fo_path f) (fo_path a) \<and> \<not> (ex \<and> fo_path a = fo_path f) then Some (g, a) else None
           | None \<Rightarrow> None) else None"
    and ?V = "\<lambda>(g, a). \<lparr>gv_user_id = gr_user_id g, gv_role = as_label (gr_role g), gv_source = ''folder'',
          gv_granted_by = Some (gr_granted_by g), gv_folder = Some (fo_id a, fo_path a)\<rparr>"
  define xs where "xs = sort_key (\<lambda>(g, a). ?d a) (filter (\<lambda>(g, a). gr_user_id g = uid) (List.map_filter ?F (db_grants db)))"
  have rows: "filter (\<lambda>v. gv_user_id v = uid) (folder_views db (Some (fo_path f)) ex) = map ?V xs"
    unfolding folder_views_def xs_def filter_sort [symmetric] by (simp add: filter_map comp_def case_prod_unfold)
  have sorted: "sorted_wrt (\<lambda>a b. ?d a > ?d b) l" "l \<noteq> []" "hd l = f" using lineage_shorter [OF tree f] by auto
  then obtain l' where l: "l = f # l'" by (cases l) auto
  have cut: "a \<in> set ?l \<longleftrightarrow> a \<in> set l \<and> \<not> (ex \<and> fo_path a = fo_path f)" for a using l sorted by auto
  have "?F g = Some (g', a) \<longleftrightarrow> g' = g \<and> gr_object_type g = Folder \<and> folder_by_id db (gr_object_id g) = Some a \<and>
      under_path (fo_path f) (fo_path a) \<and> \<not> (ex \<and> fo_path a = fo_path f)" for g g' a
    by (auto split: option.split)
  note row = this [unfolded folder_row_iff [OF tree]]
  have sub: "set l \<subseteq> set (db_folders db)" using lineage_ancestors [OF tree f] by auto
  have "(g, a) \<in> set xs \<longleftrightarrow> a \<in> set ?l \<and> ?P g a" for g a
  proof -
    have "(g, a) \<in> set xs \<longleftrightarrow> gr_user_id g = uid \<and> (\<exists>x \<in> set (db_grants db). ?F x = Some (g, a))"
      unfolding xs_def by (simp only: set_sort set_filter set_map_filter mem_Collect_eq prod.case) blast
    also have "\<dots> \<longleftrightarrow> a \<in> set (db_folders db) \<and> ?P g a \<and> under_path (fo_path f) (fo_path a) \<and> \<not> (ex \<and> fo_path a = fo_path f)"
      unfolding row same_grant_def by blast
    also have "\<dots> \<longleftrightarrow> a \<in> set ?l \<and> ?P g a" unfolding cut using local_lineage [OF tree here f, of g a] sub by blast
    finally show ?thesis .
  qed
  then have set: "set xs = {(g, a). a \<in> set ?l \<and> ?P g a}" by auto
  have "first_some (folder_grant db uid) ?l = (if xs = [] then None else Some (gr_role (fst (last xs))))"
  proof (rule deepest_row [where d = ?d and P = ?P])
    show "sorted_wrt (\<lambda>a b. ?d a > ?d b) ?l" using l sorted by simp
    show "sorted (map (\<lambda>(g, a). ?d a) xs)" unfolding xs_def by (rule sorted_sort_key)
    show "set xs = {(g, a). a \<in> set ?l \<and> ?P g a}" by (rule set)
    show "folder_grant db uid a = Some r \<longleftrightarrow> (\<exists>g. ?P g a \<and> gr_role g = r)" for a r
      unfolding folder_grant_iff [OF ok] by blast
  qed
  then show ?thesis unfolding rows by (auto simp: last_map case_prod_unfold role_label_roundtrip)
qed


section \<open>Examples\<close>

lemma sample_lineage:
  "lineage (db_folders sample_acl) (folder 11 1 (Some 10) ''b'' ''/a/b'' False)
    [folder 11 1 (Some 10) ''b'' ''/a/b'' False, folder 10 1 None ''a'' ''/a'' False]"
  by (rule lineage.Above [of _ _ "folder 10 1 None ''a'' ''/a'' False"], simp_all add: sample_acl_def folder_def, rule lineage.Top) simp_all


theorem tags_roundtrip_witness:
  "get_template_tags length (fst (projr (set_template_tags length sample_acl (person 101) 20 ['' lab '', '''', ''lab'', ''x'']))) (person 102) 20 =
    Inr [''x'', ''lab'']"
proof -
  let ?run = "set_template_tags length sample_acl (person 101) 20 ['' lab '', '''', ''lab'', ''x'']"
  have "map_sum id snd ?run = Inr [''x'', ''lab'']" by code_simp
  then obtain db' where run: "?run = Inr (db', [''x'', ''lab''])" by (cases ?run) auto
  have pre: "distinct (db_template_tags sample_acl)" "template_workspace sample_acl 20 = Inr 1" "member_role sample_acl (person 102) 1 = Inr Viewer"
    by code_simp+
  from tags_roundtrip [OF run pre] pre(2) show ?thesis unfolding run by simp
qed

theorem visibility_change_witness:
  "visibility_ok (projr (set_template_visibility sample_acl (person 100) 20 ''public'' None))"
proof -
  have ok: "visibility_ok sample_acl" by code_simp
  have "isl (set_template_visibility sample_acl (person 100) 20 ''public'' None) = False" by code_simp
  then obtain db' where "set_template_visibility sample_acl (person 100) 20 ''public'' None = Inr db'"
    by (cases "set_template_visibility sample_acl (person 100) 20 ''public'' None") auto
  with visibility_change [OF ok this] show ?thesis by simp
qed

text \<open>
  Restriction hides a template from lists and from its handlers, but the handlers of this file that
  ask for the workspace role do not know it: an editor who may not see a template reads where it
  is, sets its tags, and changes its visibility.
\<close>

lemma workspace_gates_ignore_restriction:
  "case run_all sample_acl [SetTemplateFolder (person 100) 20 (Some 12)] of
      Inl _ \<Rightarrow> False
    | Inr db \<Rightarrow> role_of db 101 Template 20 = Inr None \<and>
        map_sum id (map_option fo_id) (get_template_folder db (person 101) 20) = Inr (Some 12) \<and>
        map_sum id snd (set_template_tags length db (person 101) 20 [''mine'']) = Inr [''mine''] \<and>
        \<not> isl (set_template_visibility db (person 101) 20 ''workspace'' None)"
  by code_simp

text \<open>
  For an instance the list leaves out the grants on its template, which the rules count: the viewer
  has a role on the instance that no row of the list shows.
\<close>

lemma grants_view_misses_template:
  "case run_all sample_acl [PutGrant (person 100) Template 20 102 ''owner''] of
      Inl _ \<Rightarrow> False
    | Inr db \<Rightarrow> role_of db 102 Instance 30 = Inr (Some Owner) \<and>
        map_sum id (\<lambda>vs. (view_role vs 102, list_ex (\<lambda>v. gv_user_id v = 102 \<and> gv_role v = ''owner'') vs))
          (list_grants_core db (person 100) Instance 30) = Inr (Some Editor, False)"
  by code_simp

text \<open>Two templates may be private to each other, so that no workflow outside the pair may use either.\<close>

lemma mutual_privacy:
  "let db = sample_acl\<lparr>db_templates := db_templates sample_acl @
        [\<lparr>te_id = 21, te_base_template_id = None, te_workspace_id = 1, te_visibility = ''workspace'', te_owner_template_id = None\<rparr>]\<rparr> in
    case set_template_visibility db (person 101) 20 ''private'' (Some 21) of
      Inl _ \<Rightarrow> False
    | Inr db1 \<Rightarrow>
        (case set_template_visibility db1 (person 101) 21 ''private'' (Some 20) of
           Inl _ \<Rightarrow> False
         | Inr db2 \<Rightarrow> map te_owner_template_id (db_templates db2) = [Some 21, Some 20] \<and> visibility_ok db2)"
  by code_simp

end
