(* ===== verification/Spec2Isabelle.thy ===== *)
theory Spec2Isabelle
  imports Service_Outcome Binding_Join Capability Router Token_Shape Schema_Refs Presence Sharing
begin

text \<open>
  Verification of the engine core of mekhan: the Petri-net engine that executes workflows,
  \<^verbatim>\<open>src/engine/core-engine/crates/\<close> with the crates \<^verbatim>\<open>domain\<close>, \<^verbatim>\<open>application\<close> and the in-memory
  part of \<^verbatim>\<open>infrastructure\<close>, the secret resolution of \<^verbatim>\<open>src/shared/secrets\<close>, the matching of
  capabilities that engine and service share, the inference router, \<^verbatim>\<open>src/router\<close>, and of the
  workflow service, \<^verbatim>\<open>src/service\<close>, the shapes and contracts its compiler gives to tokens, the
  references in schemas, the nets that share capacity, the presence of runners, and access control
  with the folders it follows.

  \<^bold>\<open>The program.\<close> A net has places with tokens, transitions with scripts or effect handlers, and
  arcs between ports and places. The state is an append-only log of events; the marking is the
  projection of the log. An evaluation pass advances a cached marking by the events that are new,
  selects an enabled transition (a binding of tokens to its input ports that passes schemas and the
  guard), fires it, which appends events, and repeats until nothing is enabled, a step limit is
  reached or a firing fails; after a failure it fires finalizers only. A service object owns the
  log, the net, the cache, a memo of transitions without a binding, an index of token ids for
  idempotent creation, and the configuration, and offers the commands that adapters call.

  \<^bold>\<open>The theories\<close>, in the order of the code's layers.
  \<^item> \<open>Prelude\<close>: results, hash maps as association lists, generic lemmas, the simp collections.
  \<^item> \<open>Json\<close>: JSON values and the merge patch of \<^verbatim>\<open>domain/src/dispatch.rs\<close>; it equals RFC 7396 for
    patches without nulls below absent keys.
  \<^item> \<open>Net\<close>: tokens, places, ports, arcs, transitions, nets and markings, \<^verbatim>\<open>domain/src/*.rs\<close>.
  \<^item> \<open>Events\<close>: domain events, the hash chain, the projection, \<^verbatim>\<open>domain/src/events.rs\<close> and
    \<^verbatim>\<open>projection.rs\<close>; conservation of tokens by firing events, tamper evidence of the chain.
  \<^item> \<open>Dedup\<close>, \<open>Event_Store\<close>: the bounded window of dedup ids, the repository interface
    (\<^verbatim>\<open>application/src/ports.rs\<close>), snapshots (\<^verbatim>\<open>net_snapshot.rs\<close>) and the bounded in-memory store
    (\<^verbatim>\<open>infrastructure/src/memory_event_store.rs\<close>). The locale \<open>event_repository\<close> states what clients
    rely on; the store implements it through appends, hydration, eviction, reset, hibernation and
    wake.
  \<^item> \<open>Marking_Cache\<close>: \<open>advance_marking\<close> of \<^verbatim>\<open>evaluation.rs\<close> with other tasks running between its
    reads, and the topology store.
  \<^item> \<open>Errors\<close>, \<open>Rhai_Runtime\<close>, \<open>Join_Index\<close>, \<open>Binding\<close>, \<open>Binding_Join\<close>: error values and schemas, the
    boundary to the script interpreter, extraction of equi-joins from guards, the search for a
    binding, and its equivalence with the join-indexed search.
  \<^item> \<open>Binding_Memo\<close>, \<open>Selection\<close>: the negative memo with its invalidation, and the choice of the next
    transition: the memo never changes the choice, the choice ranks first, and it does not depend
    on the order in which a hash map is walked.
  \<^item> \<open>Secrets\<close>, \<open>Pre_Dispatch\<close>: secret templates in configurations, and the chain of hooks that may
    enrich, reject or defer an effect, with its defer budgets.
  \<^item> \<open>Firing\<close>: \<^verbatim>\<open>application/src/firing.rs\<close>, as functions from the world (store, counters of clock
    readings and fresh identifiers, replay cursor, budgets, handler calls made) to a result and the
    next world. \<open>Firing_Logic\<close> is a calculus of weakest preconditions over histories for these
    functions, in the locale \<open>journal\<close>, which extends \<open>event_repository\<close> by appends that succeed.
    \<open>Firing_Outcome\<close> states what a firing does: all or nothing, at most one handler call, exactly
    one firing event on success, routing of every output, replay without effects.
  \<^item> \<open>Evaluation\<close>: \<open>evaluate_until_quiescent\<close> and \<open>drain_finalizers\<close> of \<^verbatim>\<open>evaluation.rs\<close>; a pass keeps
    store, cache and memo coherent, is bounded, ends quiescent only when nothing is enabled, and
    drains finalizers after a failure. These hold in live and in replay mode.
  \<^item> \<open>Token_Manager\<close>, \<open>Service\<close>: \<^verbatim>\<open>token_manager.rs\<close>, \<^verbatim>\<open>idempotency_index.rs\<close> and \<^verbatim>\<open>service.rs\<close>, one
    function per command. \<open>Service_Invariant\<close> carries an invariant through every command (locale
    \<open>engine\<close>, which extends \<open>journal\<close>) and through every sequence of commands; \<open>Service_Outcome\<close>
    states what callers get: a true marking, idempotent creation, a reset that restores.
  \<^item> \<open>Capability\<close>: the placement matcher of \<^verbatim>\<open>src/shared/inference-core/src/capability.rs\<close> and the
    checks of \<^verbatim>\<open>src/service/src/models/capability.rs\<close>: it agrees with the engine's matcher, and what
    passed enrolment and publication is never turned down for a type.
  \<^item> \<open>Router_Table\<close>, \<open>Router\<close>: the inference router. The first holds the replica table, permits (locale
    \<open>permit_store\<close>), identity, usage and metering; the second cuts the request handler of
    \<^verbatim>\<open>proxy.rs\<close> at its waiting points, so that a state holds many requests and events drive them in
    any order. A specification (\<open>core_step\<close>) states the allowed moves; the code refines it, and the
    invariants (balance of permits, residency, one record per request, registry) follow by rule
    induction on it. A terminal block is one step although it waits for the message broker.
  \<^item> \<open>Token_Shape\<close>: the compiler's shapes of tokens, \<^verbatim>\<open>src/service/src/compiler/token_shape\<close>: a
    shape is given its meaning as a set of values; the schemas emitted for shapes accept exactly
    it, shapes read off author schemas cover those, and paths resolved at compile time are right
    for every token that passed.
  \<^item> \<open>Schema_Refs\<close>: \<^verbatim>\<open>compiler/schema_refs.rs\<close>. An inductive relation says what a schema expands to;
    inlining computes it exactly, within the depth limit, and validation agrees with inlining.
  \<^item> \<open>Pool_Net\<close>: \<^verbatim>\<open>petri/pool_net.rs\<close> and the holders' side of the handshake. Places are multisets,
    a transition is a partial function of its binding, and a run is any list of events that are
    enabled one after the other, so messages between nets may arrive in any order. Units are
    conserved and serve one holder at a time; what shared identifiers and late withdrawals do is
    shown on runs.
  \<^item> \<open>Presence\<close>: the controller that admits the slots of runners to a pool and expires them,
    \<^verbatim>\<open>presence/core.rs\<close> and \<^verbatim>\<open>runners.rs\<close>, with the locale \<open>sweeper\<close> for the sweep its adapters share,
    and its composition with the pool net.
  \<^item> \<open>Access\<close>, \<open>Folders\<close>, \<open>Grants\<close>, \<open>Sharing\<close>: who may do what in the service, \<^verbatim>\<open>auth/membership.rs\<close>,
    \<^verbatim>\<open>auth/grants.rs\<close>, \<^verbatim>\<open>handlers/object_grants.rs\<close> and \<^verbatim>\<open>handlers/folders.rs\<close>. The database is a record of
    tables and a handler a function of it. Paths of folders describe the tree of their parents after
    every handler; with that, the nearest grant decides, lists agree with single objects, and
    granting raises nobody's own role. Runs show where workspaces, moves and deletions break this.

  \<^bold>\<open>Conventions.\<close> A struct is a record, an enum a datatype, \<open>Result\<close> a sum with the error left,
  \<open>HashMap\<close> an association list with distinct keys (walked in its order, which stands for any
  order). Counters that overflow in the code have their width (32-bit defer counters, 64-bit
  integer colours); sequence numbers and byte counts are natural numbers, since 64 bits are not
  exhausted by a log. Every clock reading and every fresh identifier is an argument, numbered by a
  counter of the world. Code outside the repository is a parameter: the script interpreter, the
  JSON-schema validator, the digest and the serialized size of events, effect handlers and hooks,
  the secret store. The \<open>demo\<close> constants are concrete instances at which the witnesses evaluate.

  \<^bold>\<open>Loops.\<close> All loops are total functions. The pass recurses on the steps that are left and the
  drain on the 64 steps of the source's constant; eviction recurses with a measure on the tail; the
  combination iterator is a step function whose enumeration is proved to end after the product of
  the sizes. No fuel is added to any loop of the source.

  \<^bold>\<open>Not modelled.\<close> The adapters around the core (HTTP API, NATS-backed store and listeners, net
  registry, Slurm, Nomad and executor clients, the SDK and the test harness), the rest of the workflow
  service (the lowering of graphs to nets, the other database handlers, causality), the executors and the web
  application: they
  are input and output around the core, or separate programs. Within the core: logging, the
  environment and Vault secret stores, the HTTP transport of hooks, and tasks that run inside a
  pass of another task, except for the marking cache, whose reads may interleave with them; the
  evaluation lock is modelled as a flag that another task may hold.
\<close>

end
